(* ===== verification/Prelude.thy ===== *)
theory Prelude
  imports Complex_Main "HOL-Library.Multiset" "HOL-Library.AList" "HOL-Library.Product_Lexorder"
    "HOL-Library.List_Lexorder"
begin

section \<open>Shared vocabulary of the development\<close>

text \<open>
  What the component theories share: Python exceptions as values, dictionaries as association
  lists in insertion order, list slices with Python's negative indices, the stable descending
  sort of \<open>sorted(..., reverse=True)\<close>, and the grouping of \<open>defaultdict(list)\<close>.
  The lemmas of the collections \<open>res_simps\<close> (the error monad) and \<open>dict_simps\<close>
  (dictionaries) carry the component proofs.
\<close>

named_theorems res_simps \<open>unfolding rules of the result type\<close>
named_theorems dict_simps \<open>rules of dictionaries\<close>

subsection \<open>Exceptions as values\<close>

datatype py_error =
    AssertionError
  | ValueError
  | KeyError
  | IndexError
  | TypeError
  | RuntimeError
  | NotImplementedError
  | ZeroDivisionError
  | AttributeError
  | NameError
  | RecursionError

type_synonym 'a result = "py_error + 'a"

definition bind_res :: "'a result \<Rightarrow> ('a \<Rightarrow> 'b result) \<Rightarrow> 'b result" where
  "bind_res r f = (case r of Inl e \<Rightarrow> Inl e | Inr x \<Rightarrow> f x)"

definition guard_res :: "bool \<Rightarrow> py_error \<Rightarrow> 'a result \<Rightarrow> 'a result" where
  "guard_res b e r = (if b then r else Inl e)"

lemma bind_res_simps [simp, res_simps]:
  "bind_res (Inl e) f = Inl e"
  "bind_res (Inr x) f = f x"
  by (simp_all add: bind_res_def)

lemma guard_res_simps [simp, res_simps]:
  "guard_res True e r = r"
  "guard_res False e r = Inl e"
  by (simp_all add: guard_res_def)

lemma bind_res_Inr_iff [res_simps]:
  "bind_res r f = Inr y \<longleftrightarrow> (\<exists>x. r = Inr x \<and> f x = Inr y)"
  by (cases r) (auto simp: bind_res_def)

lemma guard_res_Inr_iff [res_simps]:
  "guard_res b e r = Inr y \<longleftrightarrow> b \<and> r = Inr y"
  by (auto simp: guard_res_def)

fun traverse :: "('a \<Rightarrow> 'b result) \<Rightarrow> 'a list \<Rightarrow> 'b list result" where
  "traverse f [] = Inr []"
| "traverse f (x # xs) =
     bind_res (f x) (\<lambda>y. bind_res (traverse f xs) (\<lambda>ys. Inr (y # ys)))"

fun fold_res :: "('a \<Rightarrow> 's \<Rightarrow> 's result) \<Rightarrow> 'a list \<Rightarrow> 's \<Rightarrow> 's result" where
  "fold_res f [] s = Inr s"
| "fold_res f (x # xs) s = bind_res (f x s) (fold_res f xs)"

lemma traverse_Inr_map: "(\<And>x. x \<in> set xs \<Longrightarrow> f x = Inr (g x)) \<Longrightarrow> traverse f xs = Inr (map g xs)"
  by (induction xs) auto

lemma traverse_length: "traverse f xs = Inr ys \<Longrightarrow> length ys = length xs"
  by (induction xs arbitrary: ys) (auto simp: res_simps)

lemma fold_res_invariant:
  assumes "fold_res f xs s = Inr t" and "I s"
    and "\<And>x s t. x \<in> set xs \<Longrightarrow> I s \<Longrightarrow> f x s = Inr t \<Longrightarrow> I t"
  shows "I t"
  using assms by (induction xs arbitrary: s) (auto simp: res_simps)

subsection \<open>Dictionaries\<close>

text \<open>
  A Python dictionary keeps its keys in insertion order; assignment to a present key keeps the
  key's place. That is the library's association list with \<open>AList.update\<close>.
\<close>

type_synonym ('k, 'v) dict = "('k \<times> 'v) list"

abbreviation dict_get :: "('k, 'v) dict \<Rightarrow> 'k \<Rightarrow> 'v option" where
  "dict_get \<equiv> map_of"

abbreviation dict_set :: "'k \<Rightarrow> 'v \<Rightarrow> ('k, 'v) dict \<Rightarrow> ('k, 'v) dict" where
  "dict_set \<equiv> AList.update"

definition dict_get_default :: "('k, 'v) dict \<Rightarrow> 'k \<Rightarrow> 'v \<Rightarrow> 'v" where
  "dict_get_default d k v = (case map_of d k of None \<Rightarrow> v | Some w \<Rightarrow> w)"

definition dict_keys :: "('k, 'v) dict \<Rightarrow> 'k list" where
  "dict_keys d = map fst d"

definition dict_ok :: "('k, 'v) dict \<Rightarrow> bool" where
  "dict_ok d \<longleftrightarrow> distinct (map fst d)"

lemma dict_get_set [simp, dict_simps]:
  "map_of (AList.update k v d) k' = (if k' = k then Some v else map_of d k')"
  by (simp add: update_conv')

lemma dict_get_default_Nil [simp, dict_simps]: "dict_get_default [] k w = w"
  by (simp add: dict_get_default_def)

lemma dict_get_default_set [simp, dict_simps]:
  "dict_get_default (AList.update k v d) k' w = (if k' = k then v else dict_get_default d k' w)"
  by (simp add: dict_get_default_def)

lemma dict_ok_Nil [simp, dict_simps]: "dict_ok []"
  by (simp add: dict_ok_def)

lemma dict_ok_set [simp, dict_simps]: "dict_ok d \<Longrightarrow> dict_ok (AList.update k v d)"
  by (simp add: dict_ok_def distinct_update)

lemma set_fst_update [simp, dict_simps]:
  "fst ` set (AList.update k v d) = insert k (fst ` set d)"
  by (induction d) auto

lemma update_fresh: "k \<notin> fst ` set d \<Longrightarrow> AList.update k v d = d @ [(k, v)]"
  by (induction d) auto

lemma map_of_Some_key: "map_of d k = Some v \<Longrightarrow> k \<in> set (map fst d)"
  by (metis domI dom_map_of_conv_image_fst list.set_map)

subsection \<open>Grouping: \<open>defaultdict(list)\<close>\<close>

definition dict_append :: "'k \<Rightarrow> 'v \<Rightarrow> ('k, 'v list) dict \<Rightarrow> ('k, 'v list) dict" where
  "dict_append k v d =
     AList.update k (case map_of d k of None \<Rightarrow> [v] | Some vs \<Rightarrow> vs @ [v]) d"

definition group_by :: "('k \<times> 'v) list \<Rightarrow> ('k, 'v list) dict" where
  "group_by kvs = fold (\<lambda>(k, v) d. dict_append k v d) kvs []"

definition values_of :: "('k \<times> 'v) list \<Rightarrow> 'k \<Rightarrow> 'v list" where
  "values_of kvs k = map snd (filter (\<lambda>p. fst p = k) kvs)"

lemma values_of_simps [simp]:
  "values_of [] k = []"
  "values_of ((k', v) # kvs) k = (if k' = k then v # values_of kvs k else values_of kvs k)"
  by (simp_all add: values_of_def)

lemma values_of_append [simp]: "values_of (xs @ ys) k = values_of xs k @ values_of ys k"
  by (simp add: values_of_def)

lemma values_of_eq_Nil: "values_of kvs k = [] \<longleftrightarrow> k \<notin> fst ` set kvs"
  by (auto simp: values_of_def filter_empty_conv)

lemma group_by_snoc: "group_by (kvs @ [(k, v)]) = dict_append k v (group_by kvs)"
  by (simp add: group_by_def)

lemma map_of_group_by [dict_simps]:
  "map_of (group_by kvs) k = (if k \<in> fst ` set kvs then Some (values_of kvs k) else None)"
proof (induction kvs rule: rev_induct)
  case Nil
  then show ?case by (simp add: group_by_def)
next
  case (snoc p kvs)
  obtain k' v where p: "p = (k', v)" by force
  show ?case
  proof (cases "k' = k")
    case True
    then show ?thesis
      using snoc values_of_eq_Nil [of kvs k]
      by (auto simp: p group_by_snoc dict_append_def)
  next
    case False
    then show ?thesis using snoc by (auto simp: p group_by_snoc dict_append_def)
  qed
qed

lemma dict_ok_group_by [simp, dict_simps]: "dict_ok (group_by kvs)"
  by (induction kvs rule: rev_induct)
    (auto simp: group_by_snoc dict_append_def group_by_def [of "[]"] dict_ok_set)

lemma keys_group_by [dict_simps]: "fst ` set (group_by kvs) = fst ` set kvs"
proof (induction kvs rule: rev_induct)
  case Nil
  show ?case by (simp add: group_by_def)
next
  case (snoc p kvs)
  then show ?case by (cases p) (simp add: group_by_snoc dict_append_def)
qed

lemma group_by_mem:
  "(k, vs) \<in> set (group_by kvs) \<longleftrightarrow> k \<in> fst ` set kvs \<and> vs = values_of kvs k"
proof -
  have "(k, vs) \<in> set (group_by kvs) \<longleftrightarrow> map_of (group_by kvs) k = Some vs"
    using dict_ok_group_by [of kvs] by (simp add: dict_ok_def)
  then show ?thesis by (auto simp: map_of_group_by)
qed

subsection \<open>Slices and ranges\<close>

definition clamp_index :: "nat \<Rightarrow> int \<Rightarrow> nat" where
  "clamp_index n i = nat (if i < 0 then max 0 (int n + i) else min (int n) i)"

definition py_slice :: "int option \<Rightarrow> int option \<Rightarrow> 'a list \<Rightarrow> 'a list" where
  "py_slice start stop xs =
     (let n = length xs;
          a = (case start of None \<Rightarrow> 0 | Some i \<Rightarrow> clamp_index n i);
          b = (case stop of None \<Rightarrow> n | Some i \<Rightarrow> clamp_index n i)
      in take (b - a) (drop a xs))"

lemma py_slice_take: "0 \<le> k \<Longrightarrow> py_slice None (Some k) xs = take (nat k) xs"
proof -
  assume "0 \<le> k"
  then have "clamp_index (length xs) k = min (length xs) (nat k)"
    by (simp add: clamp_index_def)
  then show ?thesis by (simp add: py_slice_def take_all_iff min_def)
qed

lemma py_slice_drop_end:
  "0 < k \<Longrightarrow> py_slice None (Some (- k)) xs = take (length xs - nat k) xs"
  by (simp add: py_slice_def clamp_index_def Let_def nat_diff_distrib max_def)

lemma py_slice_last: "0 < k \<Longrightarrow> py_slice (Some (- k)) None xs = drop (length xs - nat k) xs"
  by (simp add: py_slice_def clamp_index_def Let_def max_def nat_diff_distrib)

text \<open>\<open>xs[0::2]\<close>.\<close>

fun evens :: "'a list \<Rightarrow> 'a list" where
  "evens [] = []"
| "evens [x] = [x]"
| "evens (x # y # xs) = x # evens xs"

text \<open>\<open>xs[1::2]\<close>.\<close>

definition odds :: "'a list \<Rightarrow> 'a list" where
  "odds xs = evens (drop 1 xs)"

lemma mset_evens_odds: "mset (evens xs) + mset (odds xs) = mset xs"
proof (induction xs rule: evens.induct)
  case (3 x y xs)
  then show ?case by (cases xs) (auto simp: odds_def)
qed (auto simp: odds_def)

text \<open>\<open>[xs[i : i + m] for i in range(0, len(xs), m)]\<close>.\<close>

function chunks_of :: "nat \<Rightarrow> 'a list \<Rightarrow> 'a list list" where
  "chunks_of m xs = (if m = 0 \<or> xs = [] then [] else take m xs # chunks_of m (drop m xs))"
  by pat_completeness auto
termination
  by (relation "measure (\<lambda>(m, xs). length xs)") auto

declare chunks_of.simps [simp del]

lemma chunks_of_Nil [simp]: "chunks_of m [] = []"
  by (simp add: chunks_of.simps)

lemma concat_chunks_of: "0 < m \<Longrightarrow> concat (chunks_of m xs) = xs"
proof (induction m xs rule: chunks_of.induct)
  case (1 m xs)
  then show ?case by (cases "xs = []") (auto simp: chunks_of.simps [of m xs])
qed

lemma chunks_of_step:
  "0 < m \<Longrightarrow> xs \<noteq> [] \<Longrightarrow> chunks_of m xs = take m xs # chunks_of m (drop m xs)"
  by (simp add: chunks_of.simps [of m xs])

lemma chunks_of_exact:
  "0 < m \<Longrightarrow> length xs = q * m \<Longrightarrow> map length (chunks_of m xs) = replicate q m"
proof (induction q arbitrary: xs)
  case 0
  then show ?case by simp
next
  case (Suc q)
  have ne: "xs \<noteq> []" using Suc.prems by auto
  have hd: "length (take m xs) = m" using Suc.prems(2) by simp
  have "map length (chunks_of m (drop m xs)) = replicate q m"
    by (rule Suc.IH [OF Suc.prems(1)]) (simp add: Suc.prems(2))
  then show ?case by (simp only: chunks_of_step [OF Suc.prems(1) ne] list.map hd replicate_Suc)
qed

subsection \<open>Sorting in descending order\<close>

text \<open>\<open>sorted(xs, key=f, reverse=True)\<close> keeps the order of elements with equal keys.\<close>

definition sort_desc_key :: "('a \<Rightarrow> 'b::linorder) \<Rightarrow> 'a list \<Rightarrow> 'a list" where
  "sort_desc_key f xs = rev (sort_key f (rev xs))"

abbreviation sort_desc :: "'a::linorder list \<Rightarrow> 'a list" where
  "sort_desc \<equiv> sort_desc_key (\<lambda>x. x)"

lemma mset_sort_desc_key [simp]: "mset (sort_desc_key f xs) = mset xs"
  by (simp add: sort_desc_key_def)

lemma set_sort_desc_key [simp]: "set (sort_desc_key f xs) = set xs"
  by (simp add: sort_desc_key_def)

lemma length_sort_desc_key [simp]: "length (sort_desc_key f xs) = length xs"
  by (simp add: sort_desc_key_def)

lemma sorted_rev_sort_desc_key: "sorted (rev (map f (sort_desc_key f xs)))"
  by (simp add: sort_desc_key_def rev_map [symmetric])

subsection \<open>Lists\<close>

lemma mset_concat_map: "mset (concat xss) = sum_list (map mset xss)"
  by (induction xss) auto

lemma mset_concat_mset_eq: "mset xss = mset yss \<Longrightarrow> mset (concat xss) = mset (concat yss)"
proof -
  assume "mset xss = mset yss"
  then have "sum_list (map mset xss) = sum_list (map mset yss)"
    by (metis mset_map sum_mset_sum_list)
  then show ?thesis by (simp add: mset_concat_map)
qed

lemma mset_upt_set: "mset xs = mset [0..<n] \<Longrightarrow> set xs = {0..<n} \<and> distinct xs"
  by (metis atLeastLessThan_upt distinct_upt mset_eq_imp_distinct_iff mset_eq_setD)

lemma length_concat_const:
  "(\<And>x. x \<in> set xss \<Longrightarrow> length x = m) \<Longrightarrow> length (concat xss) = length xss * m"
  by (induction xss) auto

lemma distinct_concat_index:
  "distinct (concat xss) \<Longrightarrow> a < length xss \<Longrightarrow> b < length xss \<Longrightarrow>
   x \<in> set (xss ! a) \<Longrightarrow> x \<in> set (xss ! b) \<Longrightarrow> a = b"
proof (induction xss arbitrary: a b)
  case (Cons xs xss)
  have later: "x \<notin> set xs" if "c < length xss" "x \<in> set (xss ! c)" for c
    using Cons.prems(1) nth_mem [OF that(1)] that(2) by auto
  show ?case
  proof (cases a)
    case a: 0
    show ?thesis
    proof (cases b)
      case (Suc b')
      then show ?thesis using later [of b'] Cons.prems(3,4,5) a by simp
    qed (simp add: a)
  next
    case a: (Suc a')
    show ?thesis
    proof (cases b)
      case 0
      then show ?thesis using later [of a'] Cons.prems(2,4,5) a by simp
    next
      case (Suc b')
      have "distinct (concat xss)" using Cons.prems(1) by simp
      then show ?thesis using Cons.IH [of a' b'] Cons.prems(2-5) a Suc by simp
    qed
  qed
qed simp

lemma concat_segments: "concat (map (\<lambda>i. [i * m..<i * m + m]) [0..<c]) = [0..<c * m]"
proof (induction c)
  case (Suc c)
  have "[0..<c * m] @ [c * m..<c * m + m] = [0..<c * m + m]"
    by (rule upt_add_eq_append [symmetric]) simp
  then show ?case using Suc.IH by (simp add: add.commute)
qed simp

end
