(* ===== verification/Heapq.thy ===== *)
theory Heapq
  imports Prelude
begin

section \<open>The standard library's binary heap\<close>

text \<open>
  \<open>heapq.heappush\<close> and \<open>heapq.heappop\<close> on a list, with the standard library's
  \<open>_siftdown\<close> and \<open>_siftup\<close> loops, for an arbitrary comparison \<open>lt\<close> (the
  element class's \<open>__lt__\<close>). The interface \<open>priority_queue\<close> says what the
  partitioner relies on: pushing adds one element and popping removes one, whatever order
  the comparison induces.
\<close>

locale priority_queue =
  fixes push :: "'a \<Rightarrow> 'q \<Rightarrow> 'q"
    and pop :: "'q \<Rightarrow> 'a \<times> 'q"
    and contents :: "'q \<Rightarrow> 'a multiset"
  assumes contents_push: "contents (push x q) = add_mset x (contents q)"
    and contents_pop: "contents q \<noteq> {#} \<Longrightarrow> pop q = (x, q') \<Longrightarrow> contents q = add_mset x (contents q')"
begin

lemma pop_size: "contents q \<noteq> {#} \<Longrightarrow> pop q = (x, q') \<Longrightarrow> size (contents q) = Suc (size (contents q'))"
  by (simp add: contents_pop)

lemma contents_fold_push: "contents (fold push xs q) = mset xs + contents q"
  by (induction xs arbitrary: q) (auto simp: contents_push)

text \<open>Replacing the two first elements by one: the step of every reduction loop.\<close>

lemma pop2_push:
  assumes "2 \<le> size (contents q)" and "pop q = (x, q1)" and "pop q1 = (y, q2)"
  shows "contents q = add_mset x (add_mset y (contents q2))"
    and "contents (push z q2) = add_mset z (contents q2)"
proof -
  have ne: "contents q \<noteq> {#}" using assms(1) by auto
  have c: "contents q = add_mset x (contents q1)" by (rule contents_pop [OF ne assms(2)])
  then have "contents q1 \<noteq> {#}" using assms(1) by auto
  then show "contents q = add_mset x (add_mset y (contents q2))"
    using c contents_pop [OF _ assms(3)] by simp
qed (rule contents_push)

end

subsection \<open>The implementation\<close>

function siftdown :: "('a \<Rightarrow> 'a \<Rightarrow> bool) \<Rightarrow> nat \<Rightarrow> 'a \<Rightarrow> 'a list \<Rightarrow> nat \<Rightarrow> 'a list" where
  "siftdown lt startpos x h pos =
     (let parent = (pos - 1) div 2
      in if startpos < pos \<and> lt x (h ! parent)
         then siftdown lt startpos x (h[pos := h ! parent]) parent
         else h[pos := x])"
  by pat_completeness auto
termination
  by (relation "measure (\<lambda>(lt, s, x, h, pos). pos)") auto

declare siftdown.simps [simp del]

function siftup :: "('a \<Rightarrow> 'a \<Rightarrow> bool) \<Rightarrow> 'a list \<Rightarrow> nat \<Rightarrow> 'a list \<times> nat" where
  "siftup lt h pos =
     (let child = 2 * pos + 1;
          right = child + 1;
          c = (if right < length h \<and> \<not> lt (h ! child) (h ! right) then right else child)
      in if child < length h then siftup lt (h[pos := h ! c]) c else (h, pos))"
  by pat_completeness auto
termination
  by (relation "measure (\<lambda>(lt, h, pos). length h - pos)") (auto simp: Let_def)

declare siftup.simps [simp del]

definition heappush :: "('a \<Rightarrow> 'a \<Rightarrow> bool) \<Rightarrow> 'a \<Rightarrow> 'a list \<Rightarrow> 'a list" where
  "heappush lt x h = siftdown lt 0 x (h @ [x]) (length h)"

text \<open>Popping an empty list raises IndexError in Python; the callers test the length first.\<close>

definition heappop :: "('a \<Rightarrow> 'a \<Rightarrow> bool) \<Rightarrow> 'a list \<Rightarrow> 'a \<times> 'a list" where
  "heappop lt h =
     (let lastelt = last h; h' = butlast h
      in if h' = [] then (lastelt, [])
         else let returnitem = h' ! 0; (h2, pos) = siftup lt (h'[0 := lastelt]) 0
              in (returnitem, siftdown lt 0 lastelt h2 pos))"

subsection \<open>Both operations move elements and lose none\<close>

lemma mset_hole_move:
  assumes "i < length h" and "j < length h" and "i \<noteq> j"
  shows "mset ((h[i := h ! j])[j := x]) = mset (h[i := x])"
proof -
  let ?g = "h[i := x]"
  have "mset (?g[i := ?g ! j, j := ?g ! i]) = mset ?g"
    using assms by (intro mset_swap) auto
  then show ?thesis using assms by simp
qed

lemma siftdown_mset:
  "pos < length h \<Longrightarrow> mset (siftdown lt s x h pos) = mset (h[pos := x])"
proof (induction lt s x h pos rule: siftdown.induct)
  case (1 lt s x h pos)
  let ?p = "(pos - 1) div 2"
  show ?case
  proof (cases "s < pos \<and> lt x (h ! ?p)")
    case True
    then have p: "?p < pos" by auto
    have "mset (siftdown lt s x h pos) = mset (siftdown lt s x (h[pos := h ! ?p]) ?p)"
      using True by (simp add: siftdown.simps [of lt s x h pos] Let_def)
    also have "\<dots> = mset ((h[pos := h ! ?p])[?p := x])"
      using "1.IH" [OF refl True] "1.prems" p by simp
    also have "\<dots> = mset (h[pos := x])"
      using "1.prems" p by (intro mset_hole_move) auto
    finally show ?thesis .
  next
    case False
    then show ?thesis by (auto simp add: siftdown.simps [of lt s x h pos] Let_def)
  qed
qed

lemma siftup_mset:
  "pos < length h \<Longrightarrow> siftup lt h pos = (h', p) \<Longrightarrow>
   p < length h' \<and> mset (h'[p := x]) = mset (h[pos := x])"
proof (induction lt h pos rule: siftup.induct)
  case (1 lt h pos)
  let ?child = "2 * pos + 1"
  let ?c = "if ?child + 1 < length h \<and> \<not> lt (h ! ?child) (h ! (?child + 1)) then ?child + 1 else ?child"
  show ?case
  proof (cases "?child < length h")
    case True
    then have c: "?c < length h" "pos \<noteq> ?c" by auto
    have "siftup lt (h[pos := h ! ?c]) ?c = (h', p)"
      using True "1.prems"(2)
      by (simp only: siftup.simps [of lt h pos] Let_def Suc_eq_plus1 if_True)
    then have "p < length h' \<and> mset (h'[p := x]) = mset ((h[pos := h ! ?c])[?c := x])"
      using "1.IH" [OF refl refl refl True] c(1) by simp
    then show ?thesis
      using mset_hole_move [OF "1.prems"(1) c] by metis
  next
    case False
    then show ?thesis using "1.prems" by (simp add: siftup.simps [of lt h pos] Let_def)
  qed
qed

lemma mset_heappush [simp]: "mset (heappush lt x h) = add_mset x (mset h)"
proof -
  have "mset (heappush lt x h) = mset ((h @ [x])[length h := x])"
    unfolding heappush_def by (rule siftdown_mset) simp
  then show ?thesis by simp
qed

lemma mset_heappop:
  assumes "h \<noteq> []" and "heappop lt h = (x, h')"
  shows "mset h = add_mset x (mset h')"
proof (cases "butlast h = []")
  case True
  have h: "h = [last h]"
    using assms(1) True append_butlast_last_id [of h] by simp
  have "x = last h" and "h' = []"
    using assms(2) True by (simp_all add: heappop_def Let_def)
  then show ?thesis by (subst h) simp
next
  case False
  let ?b = "butlast h"
  obtain h2 p where s: "siftup lt (?b[0 := last h]) 0 = (h2, p)" by force
  have x: "x = ?b ! 0" and h': "h' = siftdown lt 0 (last h) h2 p"
    using assms(2) False s by (simp_all add: heappop_def Let_def)
  have "0 < length (?b[0 := last h])"
    unfolding length_list_update length_greater_0_conv by (rule False)
  from siftup_mset [OF this s, of "last h"]
  have up: "p < length h2 \<and> mset (h2[p := last h]) = mset (?b[0 := last h])"
    unfolding list_update_overwrite .
  then have "mset h' = mset (?b[0 := last h])" by (simp add: h' siftdown_mset)
  moreover have "?b = x # tl ?b" using False x by (cases "butlast h") auto
  moreover have "mset h = add_mset (last h) (mset ?b)"
    using assms(1) by (metis append_butlast_last_id mset_append mset.simps add_mset_add_single)
  moreover have "mset (?b[0 := last h]) = add_mset (last h) (mset (tl ?b))"
    using False by (cases "butlast h") auto
  ultimately show ?thesis by (metis add_mset_commute mset.simps(2))
qed

lemma length_heappush [simp]: "length (heappush lt x h) = Suc (length h)"
  by (metis mset_heappush size_add_mset size_mset)

lemma length_heappop: "h \<noteq> [] \<Longrightarrow> heappop lt h = (x, h') \<Longrightarrow> length h = Suc (length h')"
  by (metis mset_heappop size_add_mset size_mset)

interpretation hq: priority_queue "heappush lt" "heappop lt" mset for lt
  by unfold_locales (auto dest: mset_heappop)

end
