(* ===== verification/Partition.thy ===== *)
theory Partition
  imports Heapq
begin

section \<open>Balanced partitions of sequence lengths\<close>

text \<open>
  Models \<open>src/verl/utils/seqlen_balancing.py\<close>: the Karmarkar-Karp differencing method
  (\<open>karmarkar_karp\<close> with its local classes \<open>Set\<close> and \<open>State\<close>), the greedy
  partitioner and \<open>get_seqlen_balanced_partitions\<close> with its checks. Sequence lengths are
  Python integers (\<open>int\<close>), indices and the number of partitions are \<open>nat\<close>; every
  assertion, index error and division by zero is a branch of the result type.
\<close>

subsection \<open>The class \<open>Set\<close>\<close>

datatype kk_set = KKSet (set_sum: int) (set_items: "(nat \<times> int) list")

definition set_empty :: kk_set where
  "set_empty = KKSet 0 []"

definition set_add :: "nat \<times> int \<Rightarrow> kk_set \<Rightarrow> kk_set" where
  "set_add iv s = KKSet (set_sum s + snd iv) (set_items s @ [iv])"

definition set_merge :: "kk_set \<Rightarrow> kk_set \<Rightarrow> kk_set" where
  "set_merge s other = fold set_add (set_items other) s"

definition set_lt :: "kk_set \<Rightarrow> kk_set \<Rightarrow> bool" where
  "set_lt s t =
     (if set_sum s \<noteq> set_sum t then set_sum s < set_sum t
      else if length (set_items s) \<noteq> length (set_items t)
           then length (set_items s) < length (set_items t)
      else set_items s < set_items t)"

lemma kk_set_eq_iff: "s = t \<longleftrightarrow> set_sum s = set_sum t \<and> set_items s = set_items t"
  by (auto intro: kk_set.expand)

instantiation kk_set :: linorder
begin

definition less_kk_set :: "kk_set \<Rightarrow> kk_set \<Rightarrow> bool" where
  "less_kk_set s t = set_lt s t"

definition less_eq_kk_set :: "kk_set \<Rightarrow> kk_set \<Rightarrow> bool" where
  "less_eq_kk_set s t = (set_lt s t \<or> s = t)"

instance
  by standard
    (auto simp: less_kk_set_def less_eq_kk_set_def set_lt_def kk_set_eq_iff split: if_splits)

end

subsection \<open>The class \<open>State\<close>\<close>

text \<open>A state is its list of sets, kept in descending order; \<open>k\<close> is the list's length.\<close>

type_synonym kk_state = "kk_set list"

definition mk_state :: "(nat \<times> int) list \<Rightarrow> nat \<Rightarrow> kk_state result" where
  "mk_state items k =
     guard_res (length items = 1 \<or> length items = k) AssertionError
       (guard_res (length items \<le> k) IndexError
         (Inr (sort_desc (map (\<lambda>iv. set_add iv set_empty) items
                           @ replicate (k - length items) set_empty))))"

definition get_partitions :: "kk_state \<Rightarrow> nat list list" where
  "get_partitions st = map (\<lambda>s. map fst (set_items s)) st"

definition state_merge :: "kk_state \<Rightarrow> kk_state \<Rightarrow> kk_state" where
  "state_merge st other = sort_desc (map2 set_merge st (rev other))"

definition spread :: "kk_state \<Rightarrow> int" where
  "spread st = set_sum (hd st) - set_sum (last st)"

definition state_lt :: "kk_state \<Rightarrow> kk_state \<Rightarrow> bool" where
  "state_lt st other =
     (if spread st \<noteq> spread other then spread other < spread st
      else set_lt (hd other) (hd st))"

subsection \<open>The partitioner\<close>

definition sorted_seqlen_list :: "int list \<Rightarrow> (int \<times> nat) list" where
  "sorted_seqlen_list lens = sort (zip lens [0..<length lens])"

definition push_state :: "nat \<Rightarrow> (nat \<times> int) list \<Rightarrow> kk_state list \<Rightarrow> kk_state list result" where
  "push_state k items pq = bind_res (mk_state items k) (\<lambda>st. Inr (heappush state_lt st pq))"

function kk_loop :: "kk_state list \<Rightarrow> kk_state list" where
  "kk_loop pq =
     (if 1 < length pq
      then let (state0, pq1) = heappop state_lt pq; (state1, pq2) = heappop state_lt pq1
           in kk_loop (heappush state_lt (state_merge state0 state1) pq2)
      else pq)"
  by pat_completeness auto
termination
proof (relation "measure length", goal_cases)
  case (2 pq p0 state0 pq1 p1 state1 pq2)
  then have "length pq = Suc (length pq1)" by (intro length_heappop [of _ state_lt state0]) auto
  moreover from this 2 have "length pq1 = Suc (length pq2)"
    by (intro length_heappop [of _ state_lt state1]) auto
  ultimately show ?case by simp
qed auto

declare kk_loop.simps [simp del]

definition karmarkar_karp :: "int list \<Rightarrow> nat \<Rightarrow> bool \<Rightarrow> nat list list result" where
  "karmarkar_karp lens k equal_size =
     (let items = map prod.swap (sorted_seqlen_list lens)
      in guard_res (equal_size \<longrightarrow> k \<noteq> 0) ZeroDivisionError
          (guard_res (equal_size \<longrightarrow> length lens mod k = 0) AssertionError
            (bind_res (fold_res (push_state k)
                         (if equal_size then chunks_of k items else map (\<lambda>x. [x]) items) [])
              (\<lambda>pq. case kk_loop pq of
                  [] \<Rightarrow> Inl IndexError
                | final # _ \<Rightarrow>
                    let partitions = get_partitions final
                    in guard_res
                         (equal_size \<longrightarrow>
                           list_all (\<lambda>p. length p * k = length lens) partitions)
                         AssertionError (Inr partitions)))))"

definition check_and_sort_partitions :: "nat \<Rightarrow> nat \<Rightarrow> nat list list \<Rightarrow> nat list list result" where
  "check_and_sort_partitions n k partitions =
     guard_res (length partitions = k) AssertionError
       (guard_res (list_all (\<lambda>p. 0 < length p) partitions) AssertionError
         (guard_res (set (concat partitions) = set [0..<n]) AssertionError
           (Inr (map sort partitions))))"

definition get_seqlen_balanced_partitions :: "int list \<Rightarrow> nat \<Rightarrow> bool \<Rightarrow> nat list list result" where
  "get_seqlen_balanced_partitions lens k equal_size =
     guard_res (k \<le> length lens) AssertionError
       (bind_res (karmarkar_karp lens k equal_size)
         (check_and_sort_partitions (length lens) k))"

subsection \<open>Sets and states keep their invariant\<close>

definition set_ok :: "kk_set \<Rightarrow> bool" where
  "set_ok s \<longleftrightarrow> set_sum s = sum_list (map snd (set_items s)) \<and> (\<forall>p\<in>set (set_items s). 0 \<le> snd p)"

definition state_ok :: "nat \<Rightarrow> kk_state \<Rightarrow> bool" where
  "state_ok k st \<longleftrightarrow> length st = k \<and> sorted (rev st) \<and> (\<forall>s\<in>set st. set_ok s)"

definition state_items :: "kk_state \<Rightarrow> (nat \<times> int) multiset" where
  "state_items st = mset (concat (map set_items st))"

definition nonempties :: "kk_state \<Rightarrow> nat" where
  "nonempties st = length (filter (\<lambda>s. set_items s \<noteq> []) st)"

definition uniform :: "kk_state \<Rightarrow> bool" where
  "uniform st \<longleftrightarrow> (\<forall>s\<in>set st. \<forall>t\<in>set st. length (set_items s) = length (set_items t))"

definition gap_within :: "int \<Rightarrow> kk_state \<Rightarrow> bool" where
  "gap_within B st \<longleftrightarrow> (\<forall>s\<in>set st. \<forall>t\<in>set st. set_sum s - set_sum t \<le> B)"

lemma fold_set_add:
  "set_items (fold set_add ivs s) = set_items s @ ivs \<and>
   set_sum (fold set_add ivs s) = set_sum s + sum_list (map snd ivs)"
  by (induction ivs arbitrary: s) (auto simp: set_add_def)

lemma set_merge_simps [simp]:
  "set_items (set_merge s t) = set_items s @ set_items t"
  "set_ok t \<Longrightarrow> set_sum (set_merge s t) = set_sum s + set_sum t"
  by (simp_all add: set_merge_def fold_set_add set_ok_def)

lemma set_ok_intros [simp]:
  "set_ok set_empty"
  "0 \<le> snd iv \<Longrightarrow> set_ok (set_add iv set_empty)"
  "set_ok s \<Longrightarrow> set_ok t \<Longrightarrow> set_ok (set_merge s t)"
  by (auto simp: set_ok_def set_empty_def set_add_def set_merge_def fold_set_add)

lemma set_le_sum: "s \<le> t \<Longrightarrow> set_sum s \<le> set_sum (t :: kk_set)"
  by (auto simp: less_eq_kk_set_def set_lt_def split: if_splits)

lemma set_ok_nonneg: "set_ok s \<Longrightarrow> 0 \<le> set_sum s"
  by (auto simp: set_ok_def intro!: sum_list_nonneg)

text \<open>With non-negative lengths an empty set is below every other one.\<close>

lemma set_le_empty:
  assumes "s \<le> t" and "set_ok s" and "set_ok t" and "set_items t = []"
  shows "set_items s = []"
proof -
  have "set_sum t = 0" using assms by (simp add: set_ok_def)
  then have "set_sum s = 0" using set_le_sum [OF assms(1)] set_ok_nonneg [OF assms(2)] by simp
  then show ?thesis
    using assms(1,4) \<open>set_sum t = 0\<close>
    by (auto simp: less_eq_kk_set_def set_lt_def split: if_splits)
qed

lemma state_nonempty_prefix:
  assumes "state_ok k st" and "i < k"
  shows "set_items (st ! i) \<noteq> [] \<longleftrightarrow> i < nonempties st"
proof -
  let ?E = "{i. i < k \<and> set_items (st ! i) \<noteq> []}"
  have len: "length st = k" using assms(1) by (simp add: state_ok_def)
  have down: "i \<in> ?E" if "j \<in> ?E" "i \<le> j" for i j
  proof -
    have "st ! j \<le> st ! i"
      using assms(1) that by (auto simp: state_ok_def intro: sorted_rev_nth_mono)
    then show ?thesis
      using that assms(1) len set_le_empty [of "st ! j" "st ! i"] by (auto simp: state_ok_def)
  qed
  have card: "card ?E = nonempties st"
    by (simp add: nonempties_def length_filter_conv_card len)
  show ?thesis
  proof
    assume "set_items (st ! i) \<noteq> []"
    then have "{..i} \<subseteq> ?E" using assms(2) down [of i] by auto
    then have "card {..i} \<le> card ?E" by (intro card_mono) auto
    then show "i < nonempties st" by (simp add: card)
  next
    assume lt: "i < nonempties st"
    show "set_items (st ! i) \<noteq> []"
    proof (rule ccontr)
      assume "\<not> set_items (st ! i) \<noteq> []"
      then have "?E \<subseteq> {..<i}" using down [of _ i] assms(2) by (auto simp: not_less) (metis not_le)
      then have "card ?E \<le> card {..<i}" by (intro card_mono) auto
      then show False using lt by (simp add: card)
    qed
  qed
qed

lemma state_merge_mset:
  "mset (state_merge st other) = mset (map2 set_merge st (rev other))"
  by (simp add: state_merge_def)

lemma state_merge_set: "set (state_merge st other) = set (map2 set_merge st (rev other))"
  by (simp add: state_merge_def)

lemma state_merge_mem:
  assumes "length st = k" and "length other = k" and "s \<in> set (state_merge st other)"
  obtains i where "i < k" and "s = set_merge (st ! i) (other ! (k - 1 - i))"
proof -
  from assms obtain i where "i < k" and "s = map2 set_merge st (rev other) ! i"
    unfolding state_merge_set by (auto simp: in_set_conv_nth)
  then show ?thesis using assms that [of i] by (simp add: rev_nth)
qed

lemma state_ok_merge:
  assumes "state_ok k st" and "state_ok k other"
  shows "state_ok k (state_merge st other)"
proof -
  have len: "length st = k" "length other = k" using assms by (auto simp: state_ok_def)
  have "set_ok s" if s: "s \<in> set (state_merge st other)" for s
  proof -
    obtain i where "i < k" "s = set_merge (st ! i) (other ! (k - 1 - i))"
      using state_merge_mem [OF len s] .
    then show ?thesis using assms by (auto simp: state_ok_def)
  qed
  moreover have "sorted (rev (state_merge st other))"
    using sorted_rev_sort_desc_key [of "\<lambda>x. x"] by (simp add: state_merge_def)
  ultimately show ?thesis using assms by (simp add: state_ok_def) (simp add: state_merge_def)
qed

lemma state_items_merge:
  assumes "length st = length other"
  shows "state_items (state_merge st other) = state_items st + state_items other"
proof -
  have "mset (concat (map set_items (map2 set_merge st xs))) =
        mset (concat (map set_items st)) + mset (concat (map set_items xs))"
    if "length st = length xs" for xs
    using that by (induction st xs rule: list_induct2) auto
  moreover have "mset (concat (map set_items (rev other))) = mset (concat (map set_items other))"
    by (intro mset_concat_mset_eq) simp
  moreover have "mset (map set_items (state_merge st other)) =
                 mset (map set_items (map2 set_merge st (rev other)))"
    by (simp only: mset_map state_merge_mset)
  ultimately show ?thesis
    unfolding state_items_def using assms mset_concat_mset_eq
    by (metis (no_types, lifting) length_rev)
qed

lemma nonempties_merge:
  assumes "state_ok k st" and "state_ok k other"
  shows "min k (nonempties st + nonempties other) \<le> nonempties (state_merge st other)"
proof -
  let ?p = "nonempties st" and ?q = "nonempties other"
  let ?M = "map2 set_merge st (rev other)"
  have len: "length st = k" "length other = k" using assms by (auto simp: state_ok_def)
  have lenM: "length ?M = k" using len by simp
  have iff: "set_items (?M ! i) \<noteq> [] \<longleftrightarrow> i < ?p \<or> k - 1 - i < ?q" if "i < k" for i
    using that len state_nonempty_prefix [OF assms(1), of i]
      state_nonempty_prefix [OF assms(2), of "k - 1 - i"] by (auto simp: rev_nth)
  have "{i. i < length ?M \<and> set_items (?M ! i) \<noteq> []} = {i. i < k \<and> (i < ?p \<or> k - 1 - i < ?q)}"
    unfolding lenM using iff by blast
  moreover have "nonempties (state_merge st other) = length (filter (\<lambda>s. set_items s \<noteq> []) ?M)"
    unfolding nonempties_def by (metis mset_filter size_mset state_merge_mset)
  ultimately have ne: "nonempties (state_merge st other) = card {i. i < k \<and> (i < ?p \<or> k - 1 - i < ?q)}"
    by (simp add: length_filter_conv_card)
  have "{0..<min k ?p} \<union> {max (min k ?p) (k - ?q)..<k} \<subseteq> {i. i < k \<and> (i < ?p \<or> k - 1 - i < ?q)}"
    by auto
  then have "card ({0..<min k ?p} \<union> {max (min k ?p) (k - ?q)..<k}) \<le> nonempties (state_merge st other)"
    unfolding ne by (intro card_mono) auto
  moreover have "card ({0..<min k ?p} \<union> {max (min k ?p) (k - ?q)..<k}) =
                 card {0..<min k ?p} + card {max (min k ?p) (k - ?q)..<k}"
    by (intro card_Un_disjoint) auto
  ultimately show ?thesis by (auto simp: min_def max_def split: if_splits)
qed

lemma uniform_merge:
  assumes "length st = k" "length other = k" and "uniform st" "uniform other"
  shows "uniform (state_merge st other)"
  unfolding uniform_def
proof (intro ballI)
  fix s t
  assume "s \<in> set (state_merge st other)" and "t \<in> set (state_merge st other)"
  then obtain i j where "i < k" "s = set_merge (st ! i) (other ! (k - 1 - i))"
    and "j < k" "t = set_merge (st ! j) (other ! (k - 1 - j))"
    by (metis state_merge_mem [OF assms(1,2)])
  moreover from this have
    "length (set_items (st ! i)) = length (set_items (st ! j))"
    "length (set_items (other ! (k - 1 - i))) = length (set_items (other ! (k - 1 - j)))"
    using assms by (auto simp: uniform_def)
  ultimately show "length (set_items s) = length (set_items t)" by simp
qed

text \<open>
  The differencing step does not widen the gap: the psums of one state descend while those of
  the other ascend, so the two differences have opposite signs.
\<close>

lemma gap_within_merge:
  assumes "state_ok k st" "state_ok k other" and "gap_within B st" "gap_within B other"
  shows "gap_within B (state_merge st other)"
  unfolding gap_within_def
proof (intro ballI)
  fix s t
  assume s: "s \<in> set (state_merge st other)" and t: "t \<in> set (state_merge st other)"
  have len: "length st = k" "length other = k" using assms by (auto simp: state_ok_def)
  have mono: "set_sum (x ! j) \<le> set_sum (x ! i)" if "state_ok k x" "i \<le> j" "j < k" for x i j
    using that by (auto simp: state_ok_def intro: set_le_sum sorted_rev_nth_mono)
  have gap: "set_sum (x ! i) - set_sum (x ! j) \<le> B" if "state_ok k x" "gap_within B x" "i < k" "j < k" for x i j
    using that by (auto simp: state_ok_def gap_within_def)
  obtain i where i: "i < k" "s = set_merge (st ! i) (other ! (k - 1 - i))"
    using state_merge_mem [OF len s] .
  obtain j where j: "j < k" "t = set_merge (st ! j) (other ! (k - 1 - j))"
    using state_merge_mem [OF len t] .
  have psums: "set_sum s = set_sum (st ! i) + set_sum (other ! (k - 1 - i))"
    "set_sum t = set_sum (st ! j) + set_sum (other ! (k - 1 - j))"
    using assms i j by (auto simp: state_ok_def)
  show "set_sum s - set_sum t \<le> B"
  proof (cases "i \<le> j")
    case True
    then have "set_sum (other ! (k - 1 - i)) \<le> set_sum (other ! (k - 1 - j))"
      using mono [OF assms(2), of "k - 1 - j" "k - 1 - i"] i by simp
    then show ?thesis using gap [OF assms(1,3) i(1) j(1)] psums by simp
  next
    case False
    then have "set_sum (st ! i) \<le> set_sum (st ! j)"
      using mono [OF assms(1), of j i] i by simp
    then show ?thesis
      using gap [OF assms(2,4), of "k - 1 - i" "k - 1 - j"] i j psums by simp
  qed
qed

subsection \<open>The heap of states\<close>

definition raw_state :: "nat \<Rightarrow> (nat \<times> int) list \<Rightarrow> kk_state" where
  "raw_state k items =
     sort_desc (map (\<lambda>iv. set_add iv set_empty) items @ replicate (k - length items) set_empty)"

lemma mk_state_raw:
  "length items = 1 \<or> length items = k \<Longrightarrow> 0 < k \<Longrightarrow> mk_state items k = Inr (raw_state k items)"
  by (auto simp: mk_state_def raw_state_def)

lemma fold_push_state:
  assumes "\<forall>is\<in>set iss. length is = 1 \<or> length is = k" and "0 < k"
  shows "fold_res (push_state k) iss pq = Inr (fold (heappush state_lt) (map (raw_state k) iss) pq)"
  using assms by (induction iss arbitrary: pq) (auto simp: push_state_def mk_state_raw)

lemma state_ok_raw:
  assumes "length items \<le> k" and "\<forall>p\<in>set items. 0 \<le> snd p"
  shows "state_ok k (raw_state k items)"
proof -
  have "sorted (rev (raw_state k items))"
    using sorted_rev_sort_desc_key [of "\<lambda>x. x"] by (simp add: raw_state_def)
  moreover have "length (raw_state k items) = k" using assms(1) by (simp add: raw_state_def)
  moreover have "\<forall>s\<in>set (raw_state k items). set_ok s"
    using assms(2) by (auto simp: raw_state_def)
  ultimately show ?thesis by (simp add: state_ok_def)
qed

lemma state_items_raw: "state_items (raw_state k items) = mset items"
proof -
  have "mset (concat (map set_items (raw_state k items))) =
        mset (concat (map set_items (map (\<lambda>iv. set_add iv set_empty) items @ replicate (k - length items) set_empty)))"
    by (intro mset_concat_mset_eq) (simp only: mset_map raw_state_def mset_sort_desc_key)
  also have "\<dots> = mset items"
    by (induction items) (auto simp: set_add_def set_empty_def comp_def)
  finally show ?thesis by (simp add: state_items_def)
qed

lemma nonempties_raw: "nonempties (raw_state k items) = length items"
proof -
  have "nonempties (raw_state k items) =
        length (filter (\<lambda>s. set_items s \<noteq> []) (map (\<lambda>iv. set_add iv set_empty) items @ replicate (k - length items) set_empty))"
    unfolding nonempties_def raw_state_def by (metis mset_filter size_mset mset_sort_desc_key)
  also have "\<dots> = length items"
    by (simp add: filter_map comp_def set_add_def set_empty_def)
  finally show ?thesis .
qed

lemma uniform_raw:
  assumes "length items = k"
  shows "uniform (raw_state k items)"
  using assms by (auto simp: uniform_def raw_state_def set_add_def set_empty_def)

lemma gap_within_raw_single: "0 \<le> v \<Longrightarrow> v \<le> B \<Longrightarrow> gap_within B (raw_state k [(i, v)])"
  by (auto simp: gap_within_def raw_state_def set_add_def set_empty_def)

lemma gap_within_raw_full:
  assumes "length items = k" and "\<forall>p\<in>set items. lo \<le> snd p \<and> snd p \<le> hi"
  shows "gap_within (hi - lo) (raw_state k items)"
  unfolding gap_within_def
proof (intro ballI)
  fix s t
  assume "s \<in> set (raw_state k items)" and "t \<in> set (raw_state k items)"
  then obtain p q where "p \<in> set items" "q \<in> set items" "set_sum s = snd p" "set_sum t = snd q"
    using assms(1) by (auto simp: raw_state_def set_add_def set_empty_def)
  then show "set_sum s - set_sum t \<le> hi - lo" using assms(2) by (metis diff_mono)
qed

text \<open>What the loop keeps true of the multiset of states in the heap.\<close>

definition heap_inv :: "nat \<Rightarrow> nat \<Rightarrow> bool \<Rightarrow> int \<Rightarrow> (nat \<times> int) multiset \<Rightarrow> kk_state multiset \<Rightarrow> bool" where
  "heap_inv k n eq B IT M \<longleftrightarrow>
     (\<forall>st\<in>#M. state_ok k st \<and> gap_within B st \<and> (eq \<longrightarrow> uniform st)) \<and>
     (\<Sum>st\<in>#M. state_items st) = IT \<and> min k n \<le> (\<Sum>st\<in>#M. nonempties st)"

lemma heap_inv_merge:
  assumes "heap_inv k n eq B IT (add_mset a (add_mset b M))"
  shows "heap_inv k n eq B IT (add_mset (state_merge a b) M)"
proof -
  have a: "state_ok k a" "gap_within B a" "eq \<longrightarrow> uniform a"
    and b: "state_ok k b" "gap_within B b" "eq \<longrightarrow> uniform b"
    using assms by (auto simp: heap_inv_def)
  have len: "length a = k" "length b = k" using a b by (auto simp: state_ok_def)
  have "state_items (state_merge a b) = state_items a + state_items b"
    using len by (intro state_items_merge) simp
  moreover have "min k (nonempties a + nonempties b) \<le> nonempties (state_merge a b)"
    by (rule nonempties_merge [OF a(1) b(1)])
  ultimately show ?thesis
    using assms state_ok_merge [OF a(1) b(1)] gap_within_merge [OF a(1) b(1) a(2) b(2)]
      uniform_merge [OF len] a(3) b(3)
    by (auto simp: heap_inv_def add.assoc)
qed

lemma kk_loop_invariant:
  assumes "I (mset pq)" and "\<And>a b M. I (add_mset a (add_mset b M)) \<Longrightarrow> I (add_mset (state_merge a b) M)"
  shows "I (mset (kk_loop pq)) \<and> length (kk_loop pq) = min 1 (length pq)"
  using assms(1)
proof (induction pq rule: kk_loop.induct)
  case (1 pq)
  show ?case
  proof (cases "1 < length pq")
    case True
    obtain s0 pq1 where p0: "heappop state_lt pq = (s0, pq1)" by force
    obtain s1 pq2 where p1: "heappop state_lt pq1 = (s1, pq2)" by force
    let ?next = "heappush state_lt (state_merge s0 s1) pq2"
    have two: "2 \<le> size (mset pq)" using True by simp
    note pops = hq.pop2_push [OF two p0 p1]
    have "I (mset ?next)" using "1.prems" pops(1) assms(2) by simp
    moreover have step: "kk_loop pq = kk_loop ?next"
      using True p0 p1 by (simp add: kk_loop.simps [of pq])
    moreover have "size (mset pq) = size (mset pq2) + 2" using pops(1) by simp
    then have "length ?next = length pq - 1" by simp
    ultimately show ?thesis using "1.IH" [OF True p0 [symmetric] refl p1 [symmetric] refl] True by simp
  next
    case False
    then show ?thesis using "1.prems" by (simp add: kk_loop.simps [of pq])
  qed
qed

subsection \<open>What the partitioner returns\<close>

definition is_partition :: "int list \<Rightarrow> nat \<Rightarrow> bool \<Rightarrow> nat list list \<Rightarrow> bool" where
  "is_partition lens k eq ps \<longleftrightarrow>
     length ps = k \<and> (\<forall>p\<in>set ps. p \<noteq> []) \<and> mset (concat ps) = mset [0..<length lens] \<and>
     (eq \<longrightarrow> (\<forall>p\<in>set ps. length p * k = length lens))"

definition part_sum :: "int list \<Rightarrow> nat list \<Rightarrow> int" where
  "part_sum lens p = (\<Sum>i\<leftarrow>p. lens ! i)"

definition gap :: "int list \<Rightarrow> bool \<Rightarrow> int" where
  "gap lens eq = (if eq then Max (set lens) - Min (set lens) else Max (set lens))"

definition start_lists :: "int list \<Rightarrow> nat \<Rightarrow> bool \<Rightarrow> (nat \<times> int) list list" where
  "start_lists lens k eq =
     (let items = map prod.swap (sorted_seqlen_list lens)
      in if eq then chunks_of k items else map (\<lambda>x. [x]) items)"

lemma start_items:
  "p \<in> set (map prod.swap (sorted_seqlen_list lens)) \<longleftrightarrow> (\<exists>i < length lens. p = (i, lens ! i))"
  by (fastforce simp: sorted_seqlen_list_def set_zip)

lemma mset_start_items:
  "mset (map fst (map prod.swap (sorted_seqlen_list lens))) = mset [0..<length lens]"
proof -
  have "mset (map snd (sorted_seqlen_list lens)) = mset (map snd (zip lens [0..<length lens]))"
    by (simp only: mset_map sorted_seqlen_list_def mset_sort)
  then show ?thesis by (simp add: comp_def)
qed

lemma concat_start:
  "0 < k \<Longrightarrow> concat (start_lists lens k eq) = map prod.swap (sorted_seqlen_list lens)"
  using concat_map_singleton [of "\<lambda>x. x" "map prod.swap (sorted_seqlen_list lens)"]
  by (simp add: start_lists_def Let_def concat_chunks_of)

lemma start_lists_lengths:
  assumes "0 < k" and "eq \<Longrightarrow> k dvd length lens" and "is \<in> set (start_lists lens k eq)"
  shows "length is = (if eq then k else 1)"
proof (cases eq)
  case True
  then obtain q where "length lens = q * k" using assms(2) by (metis dvd_def mult.commute)
  then have "map length (start_lists lens k eq) = replicate q k"
    using assms(1) True
    by (simp add: start_lists_def Let_def chunks_of_exact sorted_seqlen_list_def)
  then have "length is \<in> set (replicate q k)" using assms(3) by (metis image_eqI list.set_map)
  then show ?thesis using True by simp
qed (use assms(3) in \<open>auto simp: start_lists_def\<close>)

lemma heap_inv_start:
  assumes nonneg: "\<forall>x\<in>set lens. 0 \<le> x" and k: "0 < k" "k \<le> length lens"
    and eq: "eq \<Longrightarrow> k dvd length lens"
  shows "heap_inv k (length lens) eq (gap lens eq) (mset (map prod.swap (sorted_seqlen_list lens)))
           (mset (map (raw_state k) (start_lists lens k eq)))"
proof -
  let ?S = "start_lists lens k eq"
  have conc: "concat ?S = map prod.swap (sorted_seqlen_list lens)" by (rule concat_start [OF k(1)])
  have len: "length is = (if eq then k else 1)" if "is \<in> set ?S" for "is"
    using start_lists_lengths [OF k(1) eq that] .
  have vals: "0 \<le> snd p \<and> Min (set lens) \<le> snd p \<and> snd p \<le> Max (set lens)"
    if "is \<in> set ?S" "p \<in> set is" for "is" p
  proof -
    have "p \<in> set (concat ?S)" using that by auto
    then obtain i where "i < length lens" "snd p = lens ! i"
      unfolding conc start_items by auto
    then have "snd p \<in> set lens" by simp
    then show ?thesis using nonneg by auto
  qed
  have each: "state_ok k (raw_state k is) \<and> gap_within (gap lens eq) (raw_state k is) \<and>
              (eq \<longrightarrow> uniform (raw_state k is))" if is_: "is \<in> set ?S" for "is"
  proof -
    have "length is \<le> k" using len [OF is_] k(1) by (auto split: if_splits)
    then have ok: "state_ok k (raw_state k is)" using vals [OF is_] by (intro state_ok_raw) auto
    show ?thesis
    proof (cases eq)
      case True
      then show ?thesis
        using ok len [OF is_] vals [OF is_] by (auto simp: gap_def intro: gap_within_raw_full uniform_raw)
    next
      case False
      then obtain i v where "is = [(i, v)]" using len [OF is_] by (auto simp: length_Suc_conv)
      then show ?thesis
        using False ok vals [OF is_] by (auto simp: gap_def intro: gap_within_raw_single)
    qed
  qed
  have "(\<Sum>st\<in>#mset (map (raw_state k) xs). state_items st) = mset (concat xs)" for xs
    by (induction xs) (simp_all add: state_items_raw)
  moreover have "(\<Sum>st\<in>#mset (map (raw_state k) xs). nonempties st) = length (concat xs)" for xs
    by (induction xs) (simp_all add: nonempties_raw)
  moreover have "length (concat ?S) = length lens"
    by (simp add: conc sorted_seqlen_list_def)
  ultimately show ?thesis using each by (simp add: heap_inv_def conc)
qed

definition balanced :: "int list \<Rightarrow> bool \<Rightarrow> nat list list \<Rightarrow> bool" where
  "balanced lens eq ps \<longleftrightarrow>
     (\<forall>p\<in>set ps. \<forall>q\<in>set ps. part_sum lens p - part_sum lens q \<le> gap lens eq)"

lemma final_state_partitions:
  assumes "heap_inv k (length lens) eq (gap lens eq) (mset (map prod.swap (sorted_seqlen_list lens))) {#final#}"
    and "0 < k" "k \<le> length lens"
  shows "is_partition lens k eq (get_partitions final) \<and> balanced lens eq (get_partitions final)"
proof -
  let ?items = "map prod.swap (sorted_seqlen_list lens)"
  have ok: "state_ok k final" and within_gap: "gap_within (gap lens eq) final"
    and unif: "eq \<Longrightarrow> uniform final" and items: "state_items final = mset ?items"
    and ne: "k \<le> nonempties final"
    using assms by (auto simp: heap_inv_def)
  have len: "length final = k" using ok by (simp add: state_ok_def)
  have "length (filter (\<lambda>s. set_items s \<noteq> []) final) = length final"
    using ne len by (intro antisym length_filter_le) (simp add: nonempties_def)
  then have "filter (\<lambda>s. set_items s \<noteq> []) final = final"
    by (metis filter_True length_filter_less nat_neq_iff)
  then have nonempty: "set_items s \<noteq> []" if "s \<in> set final" for s
    using that unfolding filter_id_conv by blast
  have fsts: "concat (get_partitions final) = map fst (concat (map set_items final))"
    by (simp add: get_partitions_def map_concat comp_def)
  have cover: "mset (concat (get_partitions final)) = mset [0..<length lens]"
    unfolding fsts mset_map using items
    by (metis mset_map mset_start_items state_items_def)
  have sum: "part_sum lens (map fst (set_items s)) = set_sum s" if s: "s \<in> set final" for s
  proof -
    have "lens ! fst p = snd p" if "p \<in> set (set_items s)" for p
    proof -
      have "p \<in># state_items final" using that s by (auto simp: state_items_def)
      then have "p \<in> set ?items" unfolding items by (simp only: set_mset_mset)
      then show ?thesis unfolding start_items by auto
    qed
    then have eqm: "map (\<lambda>p. lens ! fst p) (set_items s) = map snd (set_items s)" by simp
    have "set_ok s" using ok s by (simp add: state_ok_def)
    then show ?thesis unfolding part_sum_def map_map comp_def eqm by (simp add: set_ok_def)
  qed
  have "length p * k = length lens" if eq and p: "p \<in> set (get_partitions final)" for p
  proof -
    have "length q = length p" if q: "q \<in> set (get_partitions final)" for q
    proof -
      obtain s t where "s \<in> set final" "t \<in> set final"
        and "q = map fst (set_items s)" "p = map fst (set_items t)"
        using p q unfolding get_partitions_def by auto
      then show ?thesis using unif [OF \<open>eq\<close>] unfolding uniform_def by (metis length_map)
    qed
    then have "length (concat (get_partitions final)) = length (get_partitions final) * length p"
      by (rule length_concat_const)
    moreover have "length (concat (get_partitions final)) = length lens"
      using cover by (metis diff_zero length_upt size_mset)
    ultimately show ?thesis using len by (simp add: get_partitions_def mult.commute)
  qed
  then show ?thesis
    using cover nonempty len within_gap sum
    unfolding is_partition_def balanced_def gap_within_def
    by (auto simp: get_partitions_def)
qed

lemma karmarkar_karp_spec:
  assumes nonneg: "\<forall>x\<in>set lens. 0 \<le> x" and k: "0 < k" "k \<le> length lens"
    and eq: "eq \<Longrightarrow> k dvd length lens"
  obtains ps where "karmarkar_karp lens k eq = Inr ps"
    and "is_partition lens k eq ps" and "balanced lens eq ps"
proof -
  let ?S = "start_lists lens k eq" and ?items = "mset (map prod.swap (sorted_seqlen_list lens))"
  let ?pq = "fold (heappush state_lt) (map (raw_state k) ?S) []"
  let ?I = "heap_inv k (length lens) eq (gap lens eq) ?items"
  have lens: "\<forall>is\<in>set ?S. length is = 1 \<or> length is = k"
    using start_lists_lengths [OF k(1) eq] by (auto split: if_splits)
  then have built: "fold_res (push_state k) ?S [] = Inr ?pq" using k(1) by (rule fold_push_state)
  have pq: "mset ?pq = mset (map (raw_state k) ?S)" by (simp add: hq.contents_fold_push)
  have "?I (mset ?pq)" unfolding pq using nonneg k eq by (rule heap_inv_start)
  then have loop: "?I (mset (kk_loop ?pq)) \<and> length (kk_loop ?pq) = min 1 (length ?pq)"
    by (rule kk_loop_invariant) (rule heap_inv_merge)
  have "length (concat ?S) = length lens"
    by (simp add: concat_start [OF k(1)] sorted_seqlen_list_def)
  then have "?S \<noteq> []" using k by auto
  then have "1 \<le> length ?pq" using pq by (cases ?pq) auto
  then have "length (kk_loop ?pq) = 1" using loop by (metis min_absorb1)
  then obtain final where final: "kk_loop ?pq = [final]" by (auto simp: length_Suc_conv)
  then have parts: "is_partition lens k eq (get_partitions final)"
    "balanced lens eq (get_partitions final)"
    using final_state_partitions [OF _ k] loop by auto
  have "karmarkar_karp lens k eq = Inr (get_partitions final)"
    using parts(1) k eq built final
    by (auto simp: karmarkar_karp_def start_lists_def Let_def is_partition_def list_all_iff)
  then show ?thesis using parts that by blast
qed

lemma is_partition_sort:
  "is_partition lens k eq ps \<Longrightarrow> is_partition lens k eq (map sort ps)"
proof -
  have "mset (concat (map sort ps)) = mset (concat ps)"
    by (induction ps) auto
  then show "is_partition lens k eq ps \<Longrightarrow> is_partition lens k eq (map sort ps)"
    by (auto simp: is_partition_def simp flip: set_empty)
qed

lemma balanced_sort: "balanced lens eq ps \<Longrightarrow> balanced lens eq (map sort ps)"
proof -
  have "part_sum lens (sort p) = part_sum lens p" for p
    unfolding part_sum_def by (metis mset_map mset_sort sum_mset_sum_list)
  then show "balanced lens eq ps \<Longrightarrow> balanced lens eq (map sort ps)"
    by (auto simp: balanced_def)
qed

lemma check_and_sort_ok:
  assumes "is_partition lens k eq ps"
  shows "check_and_sort_partitions (length lens) k ps = Inr (map sort ps)"
proof -
  have "set (concat ps) = set [0..<length lens]"
    using assms by (metis is_partition_def set_mset_mset)
  then show ?thesis
    using assms by (auto simp: check_and_sort_partitions_def is_partition_def list_all_iff)
qed

lemma balanced_partitions_spec:
  assumes "\<forall>x\<in>set lens. 0 \<le> x" and "0 < k" "k \<le> length lens"
    and "eq \<Longrightarrow> k dvd length lens"
  obtains ps where "get_seqlen_balanced_partitions lens k eq = Inr ps"
    and "is_partition lens k eq ps" and "balanced lens eq ps" and "\<forall>p\<in>set ps. sorted p"
proof -
  obtain ps where ps: "karmarkar_karp lens k eq = Inr ps" "is_partition lens k eq ps" "balanced lens eq ps"
    using karmarkar_karp_spec [OF assms] .
  then have "get_seqlen_balanced_partitions lens k eq = Inr (map sort ps)"
    using assms(3) by (simp add: get_seqlen_balanced_partitions_def check_and_sort_ok)
  then show ?thesis
    using that is_partition_sort [OF ps(2)] balanced_sort [OF ps(3)] by auto
qed

lemma karmarkar_karp_error:
  assumes "k = 0 \<or> eq \<and> \<not> k dvd length lens"
  shows "\<exists>e. karmarkar_karp lens k eq = Inl e"
proof (cases eq)
  case True
  then show ?thesis using assms by (auto simp: karmarkar_karp_def Let_def guard_res_def)
next
  case False
  then have k: "k = 0" using assms by simp
  show ?thesis
  proof (cases "map prod.swap (sorted_seqlen_list lens)")
    case Nil
    then show ?thesis using False k by (simp add: karmarkar_karp_def kk_loop.simps [of "[]"])
  next
    case (Cons x xs)
    then show ?thesis
      using False k by (simp add: karmarkar_karp_def push_state_def mk_state_def Let_def)
  qed
qed

lemma balanced_partitions_Inr:
  assumes "get_seqlen_balanced_partitions lens k eq = Inr ps"
  shows "0 < k \<and> k \<le> length lens \<and> (eq \<longrightarrow> k dvd length lens)"
proof -
  obtain qs where "karmarkar_karp lens k eq = Inr qs" and "k \<le> length lens"
    using assms by (auto simp: get_seqlen_balanced_partitions_def res_simps)
  moreover from this have "\<not> (k = 0 \<or> eq \<and> \<not> k dvd length lens)"
    using karmarkar_karp_error [of k eq lens] by (metis Inl_Inr_False)
  ultimately show ?thesis by auto
qed

subsection \<open>The greedy partitioner\<close>

text \<open>The index of the first smallest sum; \<open>None\<close> when there is no partition.\<close>

definition greedy_argmin :: "int list \<Rightarrow> nat \<Rightarrow> nat option" where
  "greedy_argmin psums k =
     fold (\<lambda>j m. case m of None \<Rightarrow> Some j
                 | Some i \<Rightarrow> if psums ! j < psums ! i then Some j else Some i) [0..<k] None"

fun greedy_loop :: "nat \<Rightarrow> (int \<times> nat) list \<Rightarrow> nat list list \<Rightarrow> int list \<Rightarrow> nat list list result" where
  "greedy_loop k [] partitions psums = Inr partitions"
| "greedy_loop k ((seqlen, i) # rest) partitions psums =
     (case greedy_argmin psums k of
        None \<Rightarrow> Inl TypeError
      | Some m \<Rightarrow> greedy_loop k rest (partitions[m := partitions ! m @ [i]])
                                      (psums[m := psums ! m + seqlen]))"

definition greedy_partition :: "int list \<Rightarrow> nat \<Rightarrow> bool \<Rightarrow> nat list list result" where
  "greedy_partition lens k equal_size =
     (let bias = (if equal_size then sum_list lens + 1 else 0)
      in bind_res (greedy_loop k (zip (map (\<lambda>x. x + bias) lens) [0..<length lens])
                     (replicate k []) (replicate k 0))
           (\<lambda>partitions.
              guard_res (equal_size \<longrightarrow> list_all (\<lambda>p. length p * k = length lens) partitions)
                AssertionError (Inr partitions)))"

lemma greedy_argmin_Suc:
  "greedy_argmin psums (Suc k) =
     (case greedy_argmin psums k of None \<Rightarrow> Some k
      | Some i \<Rightarrow> if psums ! k < psums ! i then Some k else Some i)"
  by (simp add: greedy_argmin_def)

lemma greedy_argmin_Some:
  "0 < k \<Longrightarrow> \<exists>m < k. greedy_argmin psums k = Some m \<and> (\<forall>j < k. psums ! m \<le> psums ! j)"
proof (induction k)
  case (Suc k)
  show ?case
  proof (cases "k = 0")
    case True
    then show ?thesis by (simp add: greedy_argmin_Suc greedy_argmin_def)
  next
    case False
    then obtain m where m: "m < k" "greedy_argmin psums k = Some m" "\<forall>j < k. psums ! m \<le> psums ! j"
      using Suc.IH by auto
    then show ?thesis
      by (cases "psums ! k < psums ! m")
        (force simp: greedy_argmin_Suc less_Suc_eq intro: order_trans less_imp_le)+
  qed
qed simp

text \<open>
  The invariant of the greedy loop when a bias makes counts dominate: every sum is its count
  of items times the bias plus a remainder below the bias, and counts differ by at most one.
\<close>

definition greedy_inv :: "nat \<Rightarrow> int \<Rightarrow> int \<Rightarrow> nat list list \<Rightarrow> int list \<Rightarrow> bool" where
  "greedy_inv k b r ps psums \<longleftrightarrow>
     length ps = k \<and> length psums = k \<and>
     (\<forall>j < k. int (length (ps ! j)) * b \<le> psums ! j \<and> psums ! j + r < int (length (ps ! j)) * b + b) \<and>
     (\<forall>i < k. \<forall>j < k. length (ps ! i) \<le> Suc (length (ps ! j)))"

lemma greedy_inv_step:
  assumes inv: "greedy_inv k b (x + r) ps psums" and "0 \<le> x" "0 \<le> r" "0 < b"
    and m: "m < k" "\<forall>j < k. psums ! m \<le> psums ! j"
  shows "greedy_inv k b r (ps[m := ps ! m @ [i]]) (psums[m := psums ! m + (x + b)])"
proof -
  have least: "length (ps ! m) \<le> length (ps ! j)" if "j < k" for j
  proof (rule ccontr)
    assume "\<not> length (ps ! m) \<le> length (ps ! j)"
    then have "(int (length (ps ! j)) + 1) * b \<le> int (length (ps ! m)) * b"
      using \<open>0 < b\<close> by (intro mult_right_mono) auto
    moreover have "int (length (ps ! m)) * b \<le> psums ! m" "psums ! m \<le> psums ! j"
      "psums ! j + (x + r) < int (length (ps ! j)) * b + b"
      using inv m that by (auto simp: greedy_inv_def)
    ultimately show False using assms(2,3) by (simp add: algebra_simps)
  qed
  have bounds: "int (length (ps ! j)) * b \<le> psums ! j \<and> psums ! j + (x + r) < int (length (ps ! j)) * b + b"
    if "j < k" for j using inv that by (auto simp: greedy_inv_def)
  show ?thesis
    unfolding greedy_inv_def
  proof (intro conjI allI impI)
    show "length (ps[m := ps ! m @ [i]]) = k" "length (psums[m := psums ! m + (x + b)]) = k"
      using inv by (simp_all add: greedy_inv_def)
  next
    fix j assume "j < k"
    then show "int (length (ps[m := ps ! m @ [i]] ! j)) * b \<le> psums[m := psums ! m + (x + b)] ! j"
      using bounds [of j] assms(2) inv by (cases "j = m") (auto simp: greedy_inv_def algebra_simps)
  next
    fix j assume "j < k"
    then show "psums[m := psums ! m + (x + b)] ! j + r < int (length (ps[m := ps ! m @ [i]] ! j)) * b + b"
      using bounds [of j] assms(2) inv by (cases "j = m") (auto simp: greedy_inv_def algebra_simps)
  next
    fix a c assume "a < k" "c < k"
    then show "length (ps[m := ps ! m @ [i]] ! a) \<le> Suc (length (ps[m := ps ! m @ [i]] ! c))"
      using inv least [of c] least [of a]
      by (cases "a = m"; cases "c = m") (auto simp: greedy_inv_def intro: le_SucI)
  qed
qed

lemma mset_concat_update:
  "m < length ps \<Longrightarrow> mset (concat (ps[m := ps ! m @ [i]])) = add_mset i (mset (concat ps))"
  by (induction ps arbitrary: m) (auto split: nat.split)

lemma greedy_loop_cover:
  assumes "0 < k" and "length ps = k"
  shows "\<exists>ps'. greedy_loop k rest ps psums = Inr ps' \<and> length ps' = k \<and>
           mset (concat ps') = mset (concat ps) + mset (map snd rest)"
  using assms(2)
proof (induction rest arbitrary: ps psums)
  case (Cons xi rest)
  obtain x i where xi: "xi = (x, i)" by force
  obtain m where m: "m < k" "greedy_argmin psums k = Some m"
    using greedy_argmin_Some [OF assms(1)] by blast
  show ?case
    using Cons.IH [of "ps[m := ps ! m @ [i]]" "psums[m := psums ! m + x]"] Cons.prems m
    by (auto simp: xi mset_concat_update)
qed simp

lemma greedy_loop_inv:
  assumes "0 < k" and "0 < b" and "greedy_loop k (zip (map (\<lambda>x. x + b) xs) is) ps psums = Inr ps'"
    and "length is = length xs" and "\<forall>x\<in>set xs. 0 \<le> x" and "greedy_inv k b (sum_list xs) ps psums"
  shows "\<exists>psums'. greedy_inv k b 0 ps' psums'"
  using assms(3-)
proof (induction xs arbitrary: "is" ps psums)
  case Nil
  then show ?case by auto
next
  case (Cons x xs)
  obtain i is' where is_: "is = i # is'" using Cons.prems(2) by (cases "is") auto
  obtain m where m: "m < k" "greedy_argmin psums k = Some m" "\<forall>j < k. psums ! m \<le> psums ! j"
    using greedy_argmin_Some [OF assms(1)] by blast
  have "greedy_inv k b (sum_list xs) (ps[m := ps ! m @ [i]]) (psums[m := psums ! m + (x + b)])"
    using Cons.prems by (intro greedy_inv_step m assms) (auto intro: sum_list_nonneg)
  then show ?case using Cons m by (simp add: is_)
qed

lemma counts_equal:
  assumes "\<forall>i < k. \<forall>j < k. c i \<le> Suc (c j)" and "(\<Sum>j<k. c j) = k * (q :: nat)" and "j < k"
  shows "c j = q"
proof (rule ccontr)
  assume ne: "c j \<noteq> q"
  have const: "(\<Sum>j<k. q) = k * q" by simp
  show False
  proof (cases "c j < q")
    case True
    then have "\<forall>i\<in>{..<k}. c i \<le> q" using assms(1,3) by (metis le_trans lessThan_iff Suc_leI)
    then have "(\<Sum>j<k. c j) < (\<Sum>j<k. q)"
      using True assms(3) by (intro sum_strict_mono_ex1) (auto intro!: bexI [of _ j])
    then show False using assms(2) const by simp
  next
    case False
    then have "Suc q \<le> c j" using ne by simp
    then have "\<forall>i\<in>{..<k}. q \<le> c i" using assms(1,3) by (meson Suc_le_mono le_trans lessThan_iff)
    then have "(\<Sum>j<k. q) < (\<Sum>j<k. c j)"
      using \<open>Suc q \<le> c j\<close> assms(3) by (intro sum_strict_mono_ex1) (auto intro!: bexI [of _ j])
    then show False using assms(2) const by simp
  qed
qed

lemma greedy_partition_spec:
  assumes "\<forall>x\<in>set lens. 0 \<le> x" and "0 < k" and "eq \<Longrightarrow> k dvd length lens"
  shows "\<exists>ps. greedy_partition lens k eq = Inr ps \<and> length ps = k \<and>
           mset (concat ps) = mset [0..<length lens] \<and> (eq \<longrightarrow> (\<forall>p\<in>set ps. length p * k = length lens))"
proof -
  let ?b = "if eq then sum_list lens + 1 else 0"
  let ?rest = "zip (map (\<lambda>x. x + ?b) lens) [0..<length lens]"
  obtain ps where ps: "greedy_loop k ?rest (replicate k []) (replicate k 0) = Inr ps" "length ps = k"
    "mset (concat ps) = mset [0..<length lens]"
    using greedy_loop_cover [OF assms(2), of "replicate k []" ?rest "replicate k 0"] by auto
  have all: "length p * k = length lens" if eq "p \<in> set ps" for p
  proof -
    obtain j where j: "j < k" "p = ps ! j" using \<open>p \<in> set ps\<close> ps(2) by (metis in_set_conv_nth)
    obtain q where q: "length lens = k * q" using assms(3) \<open>eq\<close> by (auto simp: dvd_def)
    have nonneg: "0 \<le> sum_list lens" using assms(1) by (auto intro: sum_list_nonneg)
    have "greedy_inv k (sum_list lens + 1) (sum_list lens) (replicate k []) (replicate k 0)"
      by (simp add: greedy_inv_def)
    moreover have "0 < sum_list lens + 1" using nonneg by simp
    moreover have "greedy_loop k (zip (map (\<lambda>x. x + (sum_list lens + 1)) lens) [0..<length lens])
                     (replicate k []) (replicate k 0) = Inr ps"
      using ps(1) \<open>eq\<close> by simp
    ultimately obtain psums' where "greedy_inv k (sum_list lens + 1) 0 ps psums'"
      using greedy_loop_inv [OF assms(2) _ _ _ assms(1)] by (metis diff_zero length_upt)
    then have near: "\<forall>i < k. \<forall>j < k. length (ps ! i) \<le> Suc (length (ps ! j))"
      by (simp add: greedy_inv_def)
    have "length (concat ps) = length lens" using ps(3) by (metis diff_zero length_upt size_mset)
    then have "(\<Sum>j<k. length (ps ! j)) = k * q"
      using q ps(2) by (simp add: length_concat sum_list_sum_nth atLeast0LessThan)
    then show ?thesis using counts_equal [OF near _ j(1)] j q by simp
  qed
  then show ?thesis using ps by (auto simp: greedy_partition_def Let_def list_all_iff)
qed

subsection \<open>The properties of the partitioners\<close>

text \<open>
  C1: On non-negative lengths, with at least one partition, no more partitions than items and,
  when equal sizes are asked for, a divisible number of items, the partitioner passes all of its
  own assertions: it returns \<open>k\<close> non-empty, sorted lists of indices that together hold
  every index exactly once, of \<open>n / k\<close> indices each when equal sizes are asked for.
\<close>

theorem balanced_partitions_correct:
  assumes "\<forall>x\<in>set lens. 0 \<le> x" and "0 < k" and "k \<le> length lens"
    and "eq \<longrightarrow> k dvd length lens"
  shows "\<exists>ps. get_seqlen_balanced_partitions lens k eq = Inr ps \<and> length ps = k \<and>
           (\<forall>p\<in>set ps. p \<noteq> [] \<and> sorted p) \<and> mset (concat ps) = mset [0..<length lens] \<and>
           (eq \<longrightarrow> (\<forall>p\<in>set ps. length p * k = length lens))"
proof -
  obtain ps where "get_seqlen_balanced_partitions lens k eq = Inr ps"
    "is_partition lens k eq ps" "\<forall>p\<in>set ps. sorted p"
    using balanced_partitions_spec [OF assms(1-3)] assms(4) by metis
  then show ?thesis by (auto simp: is_partition_def)
qed

lemma balanced_partitions_correct_witness:
  "\<exists>ps. get_seqlen_balanced_partitions [5, 0, 7, 3] 2 True = Inr ps \<and> length ps = 2 \<and>
     (\<forall>p\<in>set ps. p \<noteq> [] \<and> sorted p) \<and> mset (concat ps) = mset [0..<length [5, 0, 7, 3 :: int]] \<and>
     (\<forall>p\<in>set ps. length p * 2 = length [5, 0, 7, 3 :: int])"
  using balanced_partitions_correct [of "[5, 0, 7, 3]" 2 True] by simp

text \<open>
  C2: The differencing method balances: the total lengths of two returned partitions differ by
  at most the longest item, and by at most the difference of the longest and the shortest item
  when equal sizes are asked for.
\<close>

theorem balanced_partitions_gap:
  assumes "\<forall>x\<in>set lens. 0 \<le> x" and "0 < k"
    and "get_seqlen_balanced_partitions lens k eq = Inr ps"
    and "p \<in> set ps" and "q \<in> set ps"
  shows "(\<Sum>i\<leftarrow>p. lens ! i) - (\<Sum>i\<leftarrow>q. lens ! i) \<le>
         (if eq then Max (set lens) - Min (set lens) else Max (set lens))"
proof -
  have k: "k \<le> length lens" and dvd: "eq \<Longrightarrow> k dvd length lens"
    using balanced_partitions_Inr [OF assms(3)] by auto
  obtain ps' where "get_seqlen_balanced_partitions lens k eq = Inr ps'" "balanced lens eq ps'"
    using balanced_partitions_spec [OF assms(1,2) k dvd] .
  then show ?thesis using assms(3-5) unfolding balanced_def part_sum_def gap_def by simp
qed

lemma balanced_partitions_gap_witness:
  "\<exists>ps. get_seqlen_balanced_partitions [5, 0, 7, 3] 2 False = Inr ps \<and>
     (\<forall>p\<in>set ps. \<forall>q\<in>set ps. (\<Sum>i\<leftarrow>p. [5, 0, 7, 3] ! i) - (\<Sum>i\<leftarrow>q. [5, 0, 7, 3] ! i) \<le> (7::int))"
proof -
  obtain ps where "get_seqlen_balanced_partitions [5, 0, 7, 3] 2 False = Inr ps"
    using balanced_partitions_spec [of "[5, 0, 7, 3]" 2 False] by auto
  then show ?thesis using balanced_partitions_gap [of "[5, 0, 7, 3]" 2 False ps] by auto
qed

text \<open>
  The partitioner succeeds on non-negative lengths in exactly the documented cases; in every
  other case one of its errors is raised.
\<close>

theorem balanced_partitions_succeeds_iff:
  assumes "\<forall>x\<in>set lens. 0 \<le> x"
  shows "(\<exists>ps. get_seqlen_balanced_partitions lens k eq = Inr ps) \<longleftrightarrow>
         0 < k \<and> k \<le> length lens \<and> (eq \<longrightarrow> k dvd length lens)"
proof
  assume "\<exists>ps. get_seqlen_balanced_partitions lens k eq = Inr ps"
  then show "0 < k \<and> k \<le> length lens \<and> (eq \<longrightarrow> k dvd length lens)"
    using balanced_partitions_Inr by blast
next
  assume "0 < k \<and> k \<le> length lens \<and> (eq \<longrightarrow> k dvd length lens)"
  then show "\<exists>ps. get_seqlen_balanced_partitions lens k eq = Inr ps"
    using balanced_partitions_spec [OF assms, of k eq] by metis
qed

lemma balanced_partitions_succeeds_iff_witness:
  "\<not> (\<exists>ps. get_seqlen_balanced_partitions [5, 0, 7] 2 True = Inr ps)"
  using balanced_partitions_succeeds_iff [of "[5, 0, 7]" 2 True] by simp

text \<open>
  The greedy partitioner with its bias never trips its final assertion: it returns
  \<open>k\<close> lists that hold every index once, of equal sizes when they are asked for.
\<close>

theorem greedy_partition_correct:
  assumes "\<forall>x\<in>set lens. 0 \<le> x" and "0 < k" and "eq \<longrightarrow> k dvd length lens"
  shows "\<exists>ps. greedy_partition lens k eq = Inr ps \<and> length ps = k \<and>
           mset (concat ps) = mset [0..<length lens] \<and> (eq \<longrightarrow> (\<forall>p\<in>set ps. length p * k = length lens))"
  using greedy_partition_spec assms by blast

lemma greedy_partition_correct_witness:
  "\<exists>ps. greedy_partition [5, 0, 7, 3] 2 True = Inr ps \<and> length ps = 2 \<and>
     mset (concat ps) = mset [0..<length [5, 0, 7, 3 :: int]] \<and>
     (\<forall>p\<in>set ps. length p * 2 = length [5, 0, 7, 3 :: int])"
  using greedy_partition_correct [of "[5, 0, 7, 3]" 2 True] by simp

end
