(* ===== verification/MicroBatch.thy ===== *)
theory MicroBatch
  imports Partition "HOL-Library.Word"
begin

section \<open>Micro-batches of balanced token counts\<close>

text \<open>
  Models the rest of \<open>src/verl/utils/seqlen_balancing.py\<close>: the workload of a sequence
  (64-bit tensor arithmetic, so with wrap-around), \<open>rearrange_micro_batches\<close>,
  \<open>prepare_dynamic_batch\<close>, \<open>restore_dynamic_batch\<close>, \<open>get_reverse_idx\<close>,
  \<open>get_group_balanced_partitions\<close> and \<open>log_seqlen_unbalance\<close>, together with
  \<open>index_select_tensor_dict\<close> of \<open>src/verl/utils/tensordict_utils.py\<close>. The maximum
  over the data parallel group (\<open>dist.all_reduce\<close>) is an argument: \<open>None\<close> when the
  code does not synchronise.
\<close>

subsection \<open>Workloads\<close>

definition workload_word :: "64 word \<Rightarrow> 64 word" where
  "workload_word l = 24576 * l + l * l"

definition calculate_workload :: "int list \<Rightarrow> int list" where
  "calculate_workload lens = map (\<lambda>l. sint (workload_word (word_of_int l))) lens"

text \<open>A sum along a dimension of an \<open>int64\<close> tensor.\<close>

definition sum_int64 :: "int list \<Rightarrow> int" where
  "sum_int64 xs = sint (word_of_int (sum_list xs) :: 64 word)"

lemma sint64_small:
  assumes "0 \<le> x" and "x < 2 ^ 63"
  shows "sint (word_of_int x :: 64 word) = x"
  using assms by (simp add: sint_sbintrunc' signed_take_bit_int_eq_self_iff)

lemma workload_small:
  assumes "0 \<le> l" and "l < 2 ^ 31"
  shows "sint (workload_word (word_of_int l)) = 24576 * l + l * l"
proof -
  have w: "workload_word (word_of_int l) = word_of_int (24576 * l + l * l)"
    by (simp add: workload_word_def)
  have "l * l \<le> 2 ^ 31 * 2 ^ 31" using assms by (intro mult_mono) auto
  then have "24576 * l + l * l < 2 ^ 63" using assms by simp
  moreover have "0 \<le> 24576 * l + l * l" using assms by simp
  ultimately show ?thesis unfolding w by (rule sint64_small [rotated])
qed

definition ceildiv :: "int \<Rightarrow> int \<Rightarrow> int result" where
  "ceildiv a b = guard_res (b \<noteq> 0) ZeroDivisionError (Inr (- (a div (- b))))"

definition roundup_divisible :: "int \<Rightarrow> int \<Rightarrow> int result" where
  "roundup_divisible a b = guard_res (b \<noteq> 0) ZeroDivisionError (Inr (((a + b - 1) div b) * b))"

lemma ceildiv_bounds:
  assumes "0 < b" and "ceildiv a b = Inr q"
  shows "a \<le> q * b" and "(q - 1) * b < a"
proof -
  have q: "q = - (a div (- b))" using assms by (simp add: ceildiv_def)
  have "a = a div (- b) * (- b) + a mod (- b)" by (metis div_mult_mod_eq)
  moreover have "- b < a mod (- b)" "a mod (- b) \<le> 0"
    using assms(1) neg_mod_bound [of "- b" a] neg_mod_sign [of "- b" a] by auto
  ultimately show "a \<le> q * b" "(q - 1) * b < a" by (auto simp: q algebra_simps)
qed

lemma roundup_divisible_bounds:
  assumes "0 < b" and "roundup_divisible a b = Inr r"
  shows "b dvd r" and "a \<le> r" and "r < a + b"
proof -
  have r: "r = ((a + b - 1) div b) * b" using assms by (simp add: roundup_divisible_def)
  have "a + b - 1 = r + (a + b - 1) mod b" unfolding r by simp
  moreover have "0 \<le> (a + b - 1) mod b" "(a + b - 1) mod b < b" using assms(1) by simp_all
  ultimately show "a \<le> r" "r < a + b" by linarith+
  show "b dvd r" by (simp add: r)
qed

subsection \<open>Row selection of a tensor dictionary\<close>

text \<open>
  A column is either a batch of rows (a dense or nested tensor, a non-tensor stack) or a value
  without a batch dimension, which selection keeps.
\<close>

datatype 'a column = Rows "'a list" | Scalar 'a

type_synonym ('k, 'a) tensordict = "('k, 'a column) dict"

definition select_rows :: "'a list \<Rightarrow> nat list \<Rightarrow> 'a list result" where
  "select_rows rows idx =
     guard_res (list_all (\<lambda>i. i < length rows) idx) IndexError (Inr (map (\<lambda>i. rows ! i) idx))"

definition index_select_column :: "nat list \<Rightarrow> 'a column \<Rightarrow> 'a column result" where
  "index_select_column idx c =
     (case c of
        Rows rows \<Rightarrow> bind_res (select_rows rows idx) (\<lambda>rs. Inr (Rows rs))
      | Scalar v \<Rightarrow> Inr (Scalar v))"

definition index_select_tensor_dict :: "('k, 'a) tensordict \<Rightarrow> nat list \<Rightarrow> ('k, 'a) tensordict result" where
  "index_select_tensor_dict batch idx =
     traverse (\<lambda>(k, c). bind_res (index_select_column idx c) (\<lambda>c'. Inr (k, c'))) batch"

subsection \<open>Rearranging a batch\<close>

text \<open>The sequence lengths come from the offsets of nested ids or from the attention mask.\<close>

datatype seq_input =
    NestedIds (offsets: "int list")
  | PaddedIds (attention_mask: "int list list") (mask_width: int)

fun diff_list :: "int list \<Rightarrow> int list" where
  "diff_list (a # b # xs) = (b - a) # diff_list (b # xs)"
| "diff_list _ = []"

definition seq_len_effective :: "seq_input \<Rightarrow> int list" where
  "seq_len_effective input =
     (case input of NestedIds offs \<Rightarrow> diff_list offs | PaddedIds rows w \<Rightarrow> map sum_list rows)"

definition max_seq_len :: "seq_input \<Rightarrow> int result" where
  "max_seq_len input =
     (case input of
        NestedIds offs \<Rightarrow>
          (if diff_list offs = [] then Inl ValueError else Inr (Max (set (diff_list offs))))
      | PaddedIds rows w \<Rightarrow> Inr w)"

record rearrange_opts =
  max_token_len :: int
  num_batches_divided_by :: "int option"
  min_num_micro_batch :: "int option"
  use_dynamic_bsz_balance :: bool
  force_group_size :: nat

definition num_micro_batches ::
  "rearrange_opts \<Rightarrow> (int \<Rightarrow> int) option \<Rightarrow> int \<Rightarrow> int \<Rightarrow> int result" where
  "num_micro_batches opts all_reduce_max toks num_groups =
     bind_res (ceildiv toks (max_token_len opts)) (\<lambda>c.
       let n0 = min num_groups c;
           n1 = (case min_num_micro_batch opts of None \<Rightarrow> n0 | Some m \<Rightarrow> max m n0);
           n2 = (case all_reduce_max of None \<Rightarrow> n1 | Some f \<Rightarrow> f n1)
       in case num_batches_divided_by opts of
            None \<Rightarrow> Inr n2
          | Some d \<Rightarrow> roundup_divisible n2 d)"

definition group_workloads :: "int list \<Rightarrow> nat \<Rightarrow> int list" where
  "group_workloads lens g = map sum_int64 (chunks_of g (calculate_workload lens))"

definition expand_groups :: "nat \<Rightarrow> nat list \<Rightarrow> nat list" where
  "expand_groups g part = concat (map (\<lambda>i. [i * g..<i * g + g]) part)"

fun every_nth :: "nat \<Rightarrow> 'a list \<Rightarrow> 'a list" where
  "every_nth g [] = []"
| "every_nth g (x # xs) = x # every_nth g (drop (g - 1) xs)"

definition sort_key_of :: "int list \<Rightarrow> nat \<Rightarrow> nat list \<Rightarrow> int \<times> nat" where
  "sort_key_of workloads g part =
     (if 1 < g
      then (\<Sum>i\<leftarrow>every_nth g part. workloads ! (i div g), if part = [] then 0 else hd part)
      else (\<Sum>i\<leftarrow>part. workloads ! i, if part = [] then 0 else hd part))"

text \<open>The partition of the samples before the batches are sorted.\<close>

definition sample_partition :: "int list \<Rightarrow> nat \<Rightarrow> nat \<Rightarrow> (int list \<times> nat list list) result" where
  "sample_partition lens g k =
     (if 1 < g
      then bind_res (get_seqlen_balanced_partitions (group_workloads lens g) k False)
             (\<lambda>ps. Inr (group_workloads lens g, map (expand_groups g) ps))
      else bind_res (get_seqlen_balanced_partitions (calculate_workload lens) k False)
             (\<lambda>ps. Inr (calculate_workload lens, ps)))"

text \<open>Small micro-batches go to both ends: \<open>idx[::2][::-1] + idx[1::2]\<close>.\<close>

definition small_at_ends :: "'a list \<Rightarrow> 'a list" where
  "small_at_ends xs = rev (evens xs) @ odds xs"

definition micro_batch_indices ::
  "seq_input \<Rightarrow> rearrange_opts \<Rightarrow> (int \<Rightarrow> int) option \<Rightarrow> nat list list result" where
  "micro_batch_indices input opts all_reduce_max =
     (let lens = seq_len_effective input; n = length lens; g = force_group_size opts
      in bind_res (max_seq_len input) (\<lambda>m.
         guard_res (m \<le> max_token_len opts) AssertionError (
         guard_res (g \<noteq> 0) ZeroDivisionError (
         guard_res (n mod g = 0) AssertionError (
         bind_res (num_micro_batches opts all_reduce_max (sum_list lens) (int (n div g))) (\<lambda>k.
         guard_res (k \<le> int (n div g)) AssertionError (
         bind_res (sample_partition lens g (nat k))
           (\<lambda>(workloads, idx).
              Inr (if use_dynamic_bsz_balance opts
                   then small_at_ends (sort_desc_key (sort_key_of workloads g) idx)
                   else idx)))))))))"

definition rearrange_micro_batches ::
  "seq_input \<Rightarrow> ('k, 'a) tensordict \<Rightarrow> rearrange_opts \<Rightarrow> (int \<Rightarrow> int) option \<Rightarrow>
   (('k, 'a) tensordict list \<times> nat list list) result" where
  "rearrange_micro_batches input batch opts all_reduce_max =
     bind_res (micro_batch_indices input opts all_reduce_max) (\<lambda>idx.
       bind_res (traverse (index_select_tensor_dict batch) idx) (\<lambda>mbs. Inr (mbs, idx)))"

subsection \<open>Restoring the order\<close>

definition list_set_res :: "'a list \<Rightarrow> nat \<Rightarrow> 'a \<Rightarrow> 'a list result" where
  "list_set_res xs i x = guard_res (i < length xs) IndexError (Inr (xs[i := x]))"

definition get_reverse_idx :: "nat list \<Rightarrow> nat list result" where
  "get_reverse_idx idx_map =
     fold_res (\<lambda>(i, idx) r. list_set_res r idx i) (zip [0..<length idx_map] idx_map) idx_map"

definition restore_dynamic_batch :: "'a list \<Rightarrow> nat list list \<Rightarrow> 'a list result" where
  "restore_dynamic_batch data batch_idx_list =
     (let indices = concat batch_idx_list
      in guard_res (length indices = length data) AssertionError
           (bind_res (get_reverse_idx indices) (select_rows data)))"

subsection \<open>Partitions that keep the samples of one prompt together\<close>

text \<open>
  The loop over samples: the finished groups, the current uid (Python's \<open>None\<close> before the
  first sample), the indices and the total length of the current group.
\<close>

fun group_loop ::
  "(nat \<times> int \<times> 'u option) list \<Rightarrow> 'u option \<Rightarrow> nat list \<Rightarrow> int \<Rightarrow> (nat list \<times> int) list
   \<Rightarrow> (nat list \<times> int) list" where
  "group_loop [] cur_uid cur_idx cur_len groups =
     (if cur_idx \<noteq> [] then groups @ [(cur_idx, cur_len)] else groups)"
| "group_loop ((i, seqlen, uid) # rest) cur_uid cur_idx cur_len groups =
     (if uid \<noteq> cur_uid
      then group_loop rest uid [i] seqlen
             (if cur_idx \<noteq> [] then groups @ [(cur_idx, cur_len)] else groups)
      else group_loop rest cur_uid (cur_idx @ [i]) (cur_len + seqlen) groups)"

definition build_groups :: "int list \<Rightarrow> 'u option list \<Rightarrow> (nat list \<times> int) list" where
  "build_groups lens uids = group_loop (zip [0..<length lens] (zip lens uids)) None [] 0 []"

definition group_workload :: "int list \<Rightarrow> nat list \<Rightarrow> int" where
  "group_workload lens idx = (\<Sum>i\<leftarrow>idx. hd (calculate_workload [lens ! i]))"

definition get_group_balanced_partitions ::
  "int list \<Rightarrow> 'u option list \<Rightarrow> nat \<Rightarrow> nat list list result" where
  "get_group_balanced_partitions lens uids k =
     guard_res (length lens = length uids) AssertionError (
       let groups = build_groups lens uids
       in guard_res (k \<le> length groups) AssertionError (
            bind_res (get_seqlen_balanced_partitions
                        (map (\<lambda>g. group_workload lens (fst g)) groups) k True)
              (\<lambda>ps. Inr (map (\<lambda>p. sort (concat (map (\<lambda>g. fst (groups ! g)) p))) ps))))"

subsection \<open>Imbalance metrics\<close>

record unbalance_metrics =
  um_min :: int
  um_max :: int
  um_minmax_diff :: int
  um_balanced_min :: int
  um_balanced_max :: int
  um_mean :: real

definition log_seqlen_unbalance :: "int list \<Rightarrow> nat list list \<Rightarrow> unbalance_metrics result" where
  "log_seqlen_unbalance lens partitions =
     guard_res (partitions \<noteq> []) ZeroDivisionError (
       let batch_size = length lens div length partitions
       in guard_res (batch_size \<noteq> 0) ValueError (
            let psums = map sum_list (chunks_of batch_size lens)
            in bind_res (traverse (\<lambda>p. bind_res (select_rows lens p) (\<lambda>xs. Inr (sum_list xs))) partitions)
                 (\<lambda>balanced. Inr
                   \<lparr>um_min = Min (set psums), um_max = Max (set psums),
                    um_minmax_diff = Max (set psums) - Min (set psums),
                    um_balanced_min = Min (set balanced), um_balanced_max = Max (set balanced),
                    um_mean = of_int (sum_list psums) / of_nat (length partitions)\<rparr>)))"

subsection \<open>Lemmas on index lists\<close>

lemma mset_expand_groups: "mset (expand_groups g xs) = (\<Sum>i\<in>#mset xs. mset [i * g..<i * g + g])"
  by (induction xs) (auto simp: expand_groups_def)

lemma expand_groups_upt: "expand_groups g [0..<q] = [0..<q * g]"
  by (simp add: expand_groups_def concat_segments)

lemma expand_groups_concat: "concat (map (expand_groups g) ps) = expand_groups g (concat ps)"
  by (induction ps) (auto simp: expand_groups_def)

lemma expand_groups_cover:
  assumes "mset (concat ps) = mset [0..<q]"
  shows "mset (concat (map (expand_groups g) ps)) = mset [0..<q * g]"
  unfolding expand_groups_concat mset_expand_groups assms
  by (simp only: mset_expand_groups [symmetric] expand_groups_upt)

lemma expand_groups_mem:
  "0 < g \<Longrightarrow> i \<in> set (expand_groups g p) \<longleftrightarrow> i div g \<in> set p"
proof
  assume g: "0 < g" and i: "i \<in> set (expand_groups g p)"
  then obtain a where "a \<in> set p" "a * g \<le> i" "i < a * g + g" by (auto simp: expand_groups_def)
  moreover from this have "i div g = a"
    by (intro div_nat_eqI) (auto simp: algebra_simps)
  ultimately show "i div g \<in> set p" by simp
next
  assume g: "0 < g" and i: "i div g \<in> set p"
  have "i div g * g \<le> i" "i < i div g * g + g"
    using dividend_less_div_times [OF g, of i] by (simp_all add: add.commute)
  then show "i \<in> set (expand_groups g p)"
    using i by (auto simp: expand_groups_def intro!: bexI [of _ "i div g"])
qed

lemma mset_small_at_ends [simp]: "mset (small_at_ends xs) = mset xs"
  using mset_evens_odds [of xs] by (simp add: small_at_ends_def)

lemma set_small_at_ends [simp]: "set (small_at_ends xs) = set xs"
  by (metis mset_small_at_ends set_mset_mset)

lemma length_small_at_ends [simp]: "length (small_at_ends xs) = length xs"
  by (metis mset_small_at_ends size_mset)

lemma fold_list_set:
  "\<forall>x\<in>set xs. x < length r \<Longrightarrow>
   fold_res (\<lambda>(i, idx) r. list_set_res r idx i) (zip is xs) r =
   Inr (fold (\<lambda>(i, idx) r. r[idx := i]) (zip is xs) r)"
proof (induction "is" arbitrary: xs r)
  case (Cons i "is")
  then show ?case by (cases xs) (auto simp: list_set_res_def)
qed simp

lemma fold_update_other:
  "x \<notin> set xs \<Longrightarrow> fold (\<lambda>(i, idx) r. r[idx := i]) (zip is xs) r ! x = r ! x"
proof (induction "is" arbitrary: xs r)
  case (Cons i "is")
  then show ?case by (cases xs) auto
qed simp

lemma length_fold_update [simp]:
  "length (fold (\<lambda>(i, idx) r. r[idx := i]) (zip is xs) r) = length r"
proof (induction "is" arbitrary: xs r)
  case (Cons i "is")
  then show ?case by (cases xs) auto
qed simp

lemma fold_update_nth:
  "distinct xs \<Longrightarrow> \<forall>x\<in>set xs. x < length r \<Longrightarrow> length is = length xs \<Longrightarrow> j < length xs \<Longrightarrow>
   fold (\<lambda>(i, idx) r. r[idx := i]) (zip is xs) r ! (xs ! j) = is ! j"
proof (induction "is" arbitrary: xs r j)
  case (Cons i "is")
  then obtain x ys where xs: "xs = x # ys" by (cases xs) auto
  then show ?case
    using Cons fold_update_other [of x ys "is" "r[x := i]"] by (cases j) auto
qed simp

lemma get_reverse_idx_perm:
  assumes "mset idx = mset [0..<n]"
  obtains r where "get_reverse_idx idx = Inr r" and "length r = n"
    and "\<And>j. j < n \<Longrightarrow> r ! (idx ! j) = j" and "\<And>i. i < n \<Longrightarrow> r ! i < n \<and> idx ! (r ! i) = i"
proof -
  have perm: "set idx = {0..<n}" "distinct idx" using mset_upt_set [OF assms] by auto
  have len: "length idx = n" using assms by (metis diff_zero length_upt size_mset)
  let ?r = "fold (\<lambda>(i, idx) r. r[idx := i]) (zip [0..<n] idx) idx"
  have bounded: "\<forall>x\<in>set idx. x < length idx" using perm len by auto
  have inv: "?r ! (idx ! j) = j" if "j < n" for j
    using fold_update_nth [OF perm(2) bounded, of "[0..<n]" j] that len by simp
  have backw: "?r ! i < n \<and> idx ! (?r ! i) = i" if "i < n" for i
  proof -
    have "i \<in> set idx" using that perm by simp
    then obtain j where "j < n" "idx ! j = i" using len by (metis in_set_conv_nth)
    then show ?thesis using inv by auto
  qed
  show ?thesis
    by (rule that [of ?r]) (use fold_list_set [OF bounded] len inv backw in \<open>auto simp: get_reverse_idx_def\<close>)
qed

lemma restore_select:
  assumes "mset (concat idx) = mset [0..<length rows]"
  shows "restore_dynamic_batch (map (\<lambda>i. rows ! i) (concat idx)) idx = Inr rows"
proof -
  let ?n = "length rows" and ?c = "concat idx"
  have len: "length ?c = ?n" using assms by (metis diff_zero length_upt size_mset)
  obtain r where r: "get_reverse_idx ?c = Inr r" "length r = ?n"
    "\<And>i. i < ?n \<Longrightarrow> r ! i < ?n \<and> ?c ! (r ! i) = i"
    using get_reverse_idx_perm [OF assms] by metis
  have bound: "list_all (\<lambda>i. i < length (map ((!) rows) ?c)) r"
    using r(2,3) len by (auto simp: list_all_length)
  have "map ((!) (map ((!) rows) ?c)) r = rows"
    using r(2,3) len by (intro nth_equalityI) auto
  then show ?thesis
    using bound r(1) len unfolding restore_dynamic_batch_def Let_def select_rows_def by simp
qed

subsection \<open>The indices of the micro-batches\<close>

text \<open>The lengths for which no 64-bit workload wraps around.\<close>

definition lens_bounded :: "int list \<Rightarrow> nat \<Rightarrow> bool" where
  "lens_bounded lens g \<longleftrightarrow> (\<forall>l\<in>set lens. 0 \<le> l \<and> l < 2 ^ 24) \<and> g < 2 ^ 14"

lemma workloads_nonneg:
  assumes "\<forall>l\<in>set lens. 0 \<le> l \<and> l < 2 ^ 24"
  shows "\<forall>x\<in>set (calculate_workload lens). 0 \<le> x \<and> x < 2 ^ 49"
proof
  fix x assume "x \<in> set (calculate_workload lens)"
  then obtain l where l: "l \<in> set lens" "x = sint (workload_word (word_of_int l))"
    by (auto simp: calculate_workload_def)
  then have b: "0 \<le> l" "l < 2 ^ 24" using assms by auto
  then have "x = 24576 * l + l * l" using l workload_small [of l] by simp
  moreover have "l * l \<le> 2 ^ 24 * 2 ^ 24" using b by (intro mult_mono) auto
  ultimately show "0 \<le> x \<and> x < 2 ^ 49" using b by auto
qed

lemma sum_list_bounds:
  "\<forall>x\<in>set xs. 0 \<le> x \<and> x < (c :: int) \<Longrightarrow> 0 \<le> sum_list xs \<and> sum_list xs \<le> int (length xs) * c"
  by (induction xs) (auto simp: algebra_simps)

lemma set_chunks_of: "c \<in> set (chunks_of m xs) \<Longrightarrow> set c \<subseteq> set xs \<and> length c \<le> m"
proof (induction m xs rule: chunks_of.induct)
  case (1 m xs)
  then show ?case
    by (cases "m = 0 \<or> xs = []") (auto simp: chunks_of.simps [of m xs] dest: in_set_takeD in_set_dropD)
qed

lemma group_workloads_nonneg:
  assumes "lens_bounded lens g"
  shows "\<forall>x\<in>set (group_workloads lens g). 0 \<le> x"
proof
  fix x assume "x \<in> set (group_workloads lens g)"
  then obtain c where c: "c \<in> set (chunks_of g (calculate_workload lens))" "x = sum_int64 c"
    by (auto simp: group_workloads_def)
  have "\<forall>y\<in>set c. 0 \<le> y \<and> y < 2 ^ 49" and "length c \<le> g"
    using set_chunks_of [OF c(1)] workloads_nonneg assms by (auto simp: lens_bounded_def)
  then have s: "0 \<le> sum_list c" "sum_list c \<le> int (length c) * 2 ^ 49"
    using sum_list_bounds by blast+
  have "int (length c) < 2 ^ 14" using \<open>length c \<le> g\<close> assms by (simp add: lens_bounded_def)
  then have "sum_list c < 2 ^ 63" using s(2) by simp
  then show "0 \<le> x" using s(1) sint64_small [of "sum_list c"] by (simp add: c(2) sum_int64_def)
qed

lemma length_group_workloads:
  assumes "0 < g" and "g dvd length lens"
  shows "length (group_workloads lens g) = length lens div g"
proof -
  obtain q where q: "length lens = q * g" using assms(2) by (metis dvd_def mult.commute)
  have "length (calculate_workload lens) = q * g" by (simp add: calculate_workload_def q)
  from chunks_of_exact [OF assms(1) this]
  have "length (chunks_of g (calculate_workload lens)) = q"
    by (metis length_map length_replicate)
  then show ?thesis using assms(1) q by (simp add: group_workloads_def)
qed

definition whole_groups :: "nat \<Rightarrow> nat list \<Rightarrow> bool" where
  "whole_groups g p \<longleftrightarrow> (\<forall>i j. i div g = j div g \<longrightarrow> i \<in> set p \<longrightarrow> j \<in> set p)"

lemma sample_partition_spec:
  assumes b: "lens_bounded lens g" and g: "0 < g" "g dvd length lens"
    and k: "0 < k" "k \<le> length lens div g"
  obtains w ps where "sample_partition lens g k = Inr (w, ps)" and "length ps = k"
    and "mset (concat ps) = mset [0..<length lens]" and "\<forall>p\<in>set ps. p \<noteq> [] \<and> whole_groups g p"
proof (cases "1 < g")
  case True
  obtain ps where ps: "get_seqlen_balanced_partitions (group_workloads lens g) k False = Inr ps"
    "is_partition (group_workloads lens g) k False ps"
    using balanced_partitions_spec [OF group_workloads_nonneg [OF b] k(1), of False] k(2)
    by (auto simp: length_group_workloads [OF g])
  have "mset (concat ps) = mset [0..<length lens div g]" and ne: "\<forall>p\<in>set ps. p \<noteq> []" and len: "length ps = k"
    using ps(2) by (auto simp: is_partition_def length_group_workloads [OF g])
  then have "mset (concat (map (expand_groups g) ps)) = mset [0..<length lens]"
    using expand_groups_cover [of ps "length lens div g" g] g(2) by simp
  moreover have "\<forall>p\<in>set (map (expand_groups g) ps). p \<noteq> [] \<and> whole_groups g p"
  proof
    fix p assume "p \<in> set (map (expand_groups g) ps)"
    then obtain q where q: "p = expand_groups g q" "q \<in> set ps" by auto
    then have "q \<noteq> []" using ne by auto
    then have "p \<noteq> []" using True by (cases q) (auto simp: q expand_groups_def)
    then show "p \<noteq> [] \<and> whole_groups g p" using g(1) by (simp add: q whole_groups_def expand_groups_mem)
  qed
  ultimately show ?thesis using that [of "group_workloads lens g"] True ps(1) len by (simp add: sample_partition_def)
next
  case False
  then have g1: "g = 1" using g by simp
  have nn: "\<forall>x\<in>set (calculate_workload lens). 0 \<le> x"
    using workloads_nonneg b by (auto simp: lens_bounded_def)
  obtain ps where ps: "get_seqlen_balanced_partitions (calculate_workload lens) k False = Inr ps"
    "is_partition (calculate_workload lens) k False ps"
    using balanced_partitions_spec [OF nn k(1), of False] k(2) g1 by (auto simp: calculate_workload_def)
  then show ?thesis
    using that g1 by (auto simp: sample_partition_def is_partition_def whole_groups_def calculate_workload_def)
qed

lemma sample_partition_Inr:
  assumes "sample_partition lens g k = Inr wps" and "0 < g" and "g dvd length lens"
  shows "0 < k \<and> k \<le> length lens div g"
proof (cases "1 < g")
  case True
  then obtain ps where "get_seqlen_balanced_partitions (group_workloads lens g) k False = Inr ps"
    using assms(1) by (auto simp: sample_partition_def res_simps)
  then show ?thesis
    using balanced_partitions_Inr length_group_workloads [OF assms(2,3)] by fastforce
next
  case False
  then obtain ps where "get_seqlen_balanced_partitions (calculate_workload lens) k False = Inr ps"
    using assms(1) by (auto simp: sample_partition_def res_simps)
  then show ?thesis
    using balanced_partitions_Inr [of "calculate_workload lens" k False ps] False assms(2)
    by (cases g) (auto simp: calculate_workload_def)
qed

lemma micro_batch_indices_Inr:
  assumes "micro_batch_indices input opts ar = Inr idx"
    and b: "lens_bounded (seq_len_effective input) (force_group_size opts)"
  shows "mset (concat idx) = mset [0..<length (seq_len_effective input)] \<and>
         (\<forall>p\<in>set idx. p \<noteq> [] \<and> whole_groups (force_group_size opts) p)"
proof -
  let ?lens = "seq_len_effective input" and ?g = "force_group_size opts"
  obtain k w ps where g: "?g \<noteq> 0" "length ?lens mod ?g = 0"
    and sp: "sample_partition ?lens ?g (nat k) = Inr (w, ps)"
    and idx: "idx = (if use_dynamic_bsz_balance opts
                     then small_at_ends (sort_desc_key (sort_key_of w ?g) ps) else ps)"
    using assms(1) unfolding micro_batch_indices_def Let_def by (auto simp: res_simps split: prod.splits)
  have g': "0 < ?g" "?g dvd length ?lens" using g by auto
  note k = sample_partition_Inr [OF sp g']
  obtain w' ps' where "sample_partition ?lens ?g (nat k) = Inr (w', ps')"
    "mset (concat ps') = mset [0..<length ?lens]" "\<forall>p\<in>set ps'. p \<noteq> [] \<and> whole_groups ?g p"
    using sample_partition_spec [OF b g'] k by metis
  then have ps: "mset (concat ps) = mset [0..<length ?lens]" "\<forall>p\<in>set ps. p \<noteq> [] \<and> whole_groups ?g p"
    using sp by auto
  have "mset idx = mset ps" by (simp add: idx)
  then have "mset (concat idx) = mset (concat ps)" and "set idx = set ps"
    by (rule mset_concat_mset_eq, rule mset_eq_setD)
  then show ?thesis using ps by simp
qed

text \<open>Without the optional arguments the number of micro-batches is the least that could do.\<close>

lemma micro_batch_indices_success:
  assumes b: "lens_bounded (seq_len_effective input) (force_group_size opts)"
    and g: "0 < force_group_size opts" "force_group_size opts dvd length (seq_len_effective input)"
    and m: "max_seq_len input = Inr m" "m \<le> max_token_len opts" "0 < max_token_len opts"
    and toks: "0 < sum_list (seq_len_effective input)"
    and plain: "min_num_micro_batch opts = None" "num_batches_divided_by opts = None"
  obtains idx c where "micro_batch_indices input opts None = Inr idx"
    and "ceildiv (sum_list (seq_len_effective input)) (max_token_len opts) = Inr c"
    and "int (length idx) = min (int (length (seq_len_effective input) div force_group_size opts)) c"
proof -
  let ?lens = "seq_len_effective input" and ?g = "force_group_size opts"
  obtain c where c: "ceildiv (sum_list ?lens) (max_token_len opts) = Inr c"
    using m(3) by (simp add: ceildiv_def)
  have "0 < c" using ceildiv_bounds [OF m(3) c] toks m(3)
    by (smt (verit, best) mult_nonneg_nonneg mult_nonpos_nonneg)
  define k where "k = min (int (length ?lens div ?g)) c"
  have "?lens \<noteq> []" using toks by auto
  then have "0 < length ?lens div ?g" 
    using g dvd_imp_le [OF g(2)] by (simp add: div_greater_zero_iff)
  then have k: "0 < nat k" "nat k \<le> length ?lens div ?g" using \<open>0 < c\<close> by (auto simp: k_def)
  have k_le: "k \<le> int (length ?lens div ?g)" by (simp add: k_def)
  obtain w ps where sp: "sample_partition ?lens ?g (nat k) = Inr (w, ps)" "length ps = nat k"
    using sample_partition_spec [OF b g k] by metis
  have num: "num_micro_batches opts None (sum_list ?lens) (int (length ?lens div ?g)) = Inr k"
    using c plain by (simp add: num_micro_batches_def Let_def k_def)
  have "micro_batch_indices input opts None =
        Inr (if use_dynamic_bsz_balance opts then small_at_ends (sort_desc_key (sort_key_of w ?g) ps) else ps)"
    using m g num sp k_le by (auto simp: micro_batch_indices_def Let_def)
  moreover have "int (length ps) = min (int (length ?lens div ?g)) c" using sp k by (simp add: k_def)
  ultimately show ?thesis using that [OF _ c] by simp
qed

subsection \<open>The micro-batches and their rows\<close>

definition column_rows :: "'k \<Rightarrow> ('k, 'a) tensordict \<Rightarrow> 'a list" where
  "column_rows key td = (case map_of td key of Some (Rows rows) \<Rightarrow> rows | _ \<Rightarrow> [])"

lemma index_select_column_rows:
  assumes "index_select_tensor_dict batch p = Inr mb" and "map_of batch key = Some (Rows rows)"
  shows "map_of mb key = Some (Rows (map (\<lambda>i. rows ! i) p))"
  using assms
proof (induction batch arbitrary: mb)
  case (Cons kc batch)
  obtain k c where kc: "kc = (k, c)" by force
  obtain c' rest where c': "index_select_column p c = Inr c'" "index_select_tensor_dict batch p = Inr rest"
    "mb = (k, c') # rest"
    using Cons.prems(1) by (auto simp: index_select_tensor_dict_def kc res_simps)
  show ?case
  proof (cases "k = key")
    case True
    then have "c = Rows rows" using Cons.prems(2) by (simp add: kc)
    then show ?thesis
      using c' True by (auto simp: index_select_column_def select_rows_def res_simps)
  next
    case False
    then show ?thesis using Cons.IH [OF c'(2)] Cons.prems(2) c'(3) by (simp add: kc)
  qed
qed simp

lemma traverse_column_rows:
  assumes "traverse (index_select_tensor_dict batch) idx = Inr mbs" and "map_of batch key = Some (Rows rows)"
  shows "concat (map (column_rows key) mbs) = map (\<lambda>i. rows ! i) (concat idx)"
  using assms(1)
proof (induction idx arbitrary: mbs)
  case (Cons p idx)
  then obtain mb rest where "index_select_tensor_dict batch p = Inr mb"
    "traverse (index_select_tensor_dict batch) idx = Inr rest" "mbs = mb # rest"
    by (auto simp: res_simps)
  then show ?case
    using Cons.IH index_select_column_rows [OF _ assms(2)] by (simp add: column_rows_def)
qed simp

lemma rearrange_rows:
  assumes "rearrange_micro_batches input batch opts ar = Inr (mbs, idx)"
    and "lens_bounded (seq_len_effective input) (force_group_size opts)"
    and "map_of batch key = Some (Rows rows)" and "length rows = length (seq_len_effective input)"
  shows "mset (concat idx) = mset [0..<length rows] \<and>
         concat (map (column_rows key) mbs) = map (\<lambda>i. rows ! i) (concat idx)"
proof -
  have "micro_batch_indices input opts ar = Inr idx"
    and "traverse (index_select_tensor_dict batch) idx = Inr mbs"
    using assms(1) by (auto simp: rearrange_micro_batches_def res_simps)
  then show ?thesis
    using micro_batch_indices_Inr assms(2,4) traverse_column_rows [OF _ assms(3)] by metis
qed

subsection \<open>Groups of one prompt\<close>

lemma group_loop_concat:
  "concat (map fst (group_loop xs u cur n groups)) = concat (map fst groups) @ cur @ map fst xs"
  by (induction xs u cur n groups rule: group_loop.induct) auto

definition same_group :: "nat \<Rightarrow> nat \<Rightarrow> (nat list \<times> int) list \<Rightarrow> bool" where
  "same_group i j groups \<longleftrightarrow> (\<exists>g\<in>set groups. i \<in> set (fst g) \<and> j \<in> set (fst g))"

lemma same_group_snoc [simp]:
  "same_group i j (gs @ [(c, n)]) \<longleftrightarrow> same_group i j gs \<or> i \<in> set c \<and> j \<in> set c"
  by (auto simp: same_group_def)

lemma group_loop_keeps:
  "same_group i j groups \<or> (i \<in> set cur \<and> j \<in> set cur) \<Longrightarrow>
   same_group i j (group_loop xs u cur n groups)"
  by (induction xs u cur n groups rule: group_loop.induct) auto

lemma group_loop_adjacent:
  assumes "j < length xs" and "snd (snd (xs ! j)) = (if j = 0 then u else snd (snd (xs ! (j - 1))))"
    and "j = 0 \<Longrightarrow> i \<in> set cur" and "j > 0 \<Longrightarrow> i = fst (xs ! (j - 1))"
  shows "same_group i (fst (xs ! j)) (group_loop xs u cur n groups)"
  using assms
proof (induction xs u cur n groups arbitrary: j rule: group_loop.induct)
  case (2 k seqlen uid rest u cur n groups)
  show ?case
  proof (cases "j = 0")
    case True
    then show ?thesis using 2(4,5) by (auto intro!: group_loop_keeps)
  next
    case False
    define m where "m = j - 1"
    have j: "j = Suc m" using False by (simp add: m_def)
    show ?thesis
    proof (cases "uid = u")
      case True
      then show ?thesis using 2(2) [of m] 2(3-) j by (auto split: if_splits simp: nth_Cons')
    next
      case False
      then show ?thesis using 2(1) [of m] 2(3-) j by (auto split: if_splits simp: nth_Cons')
    qed
  qed
qed simp

lemma build_groups_concat: "length lens = length uids \<Longrightarrow> concat (map fst (build_groups lens uids)) = [0..<length lens]"
  by (simp add: build_groups_def group_loop_concat)

lemma build_groups_adjacent:
  assumes "length lens = length uids" and "Suc i < length uids" and "uids ! Suc i = uids ! i"
  shows "same_group i (Suc i) (build_groups lens uids)"
proof -
  let ?xs = "zip [0..<length lens] (zip lens uids)"
  have nth: "?xs ! a = (a, lens ! a, uids ! a)" if "a < length uids" for a
    using that assms(1) by simp
  have "same_group i (fst (?xs ! Suc i)) (group_loop ?xs None [] 0 [])"
    by (rule group_loop_adjacent) (use assms nth [of i] nth [of "Suc i"] in auto)
  then show ?thesis using nth [OF assms(2)] by (simp add: build_groups_def)
qed

lemma group_workload_nonneg:
  assumes "\<forall>l\<in>set lens. 0 \<le> l \<and> l < 2 ^ 24" and "\<forall>i\<in>set p. i < length lens"
  shows "0 \<le> group_workload lens p"
proof -
  have "0 \<le> hd (calculate_workload [lens ! i])" if "i \<in> set p" for i
    using workloads_nonneg [of "[lens ! i]"] assms that by (auto simp: calculate_workload_def)
  then show ?thesis unfolding group_workload_def by (intro sum_list_nonneg) auto
qed

text \<open>The partitions of groups, before they are turned into partitions of samples.\<close>

lemma group_partitions_spec:
  assumes "get_group_balanced_partitions lens uids k = Inr ps"
    and "\<forall>l\<in>set lens. 0 \<le> l \<and> l < 2 ^ 24"
  obtains qs where "length lens = length uids" and "length qs = k" and "0 < k"
    and "mset (concat qs) = mset [0..<length (build_groups lens uids)]"
    and "\<forall>q\<in>set qs. length q * k = length (build_groups lens uids)"
    and "ps = map (\<lambda>q. sort (concat (map (\<lambda>g. fst (build_groups lens uids ! g)) q))) qs"
proof -
  let ?G = "build_groups lens uids"
  let ?W = "map (\<lambda>g. group_workload lens (fst g)) ?G"
  obtain qs where len: "length lens = length uids"
    and qs: "get_seqlen_balanced_partitions ?W k True = Inr qs"
    and ps: "ps = map (\<lambda>q. sort (concat (map (\<lambda>g. fst (?G ! g)) q))) qs"
    using assms(1) by (auto simp: get_group_balanced_partitions_def Let_def res_simps)
  have "0 \<le> group_workload lens (fst g)" if "g \<in> set ?G" for g
  proof -
    have "set (fst g) \<subseteq> set (concat (map fst ?G))" using that by auto
    then show ?thesis
      using build_groups_concat [OF len] assms(2) by (intro group_workload_nonneg) auto
  qed
  then have nn: "\<forall>x\<in>set ?W. 0 \<le> x" by auto
  note k = balanced_partitions_Inr [OF qs]
  obtain qs' where "get_seqlen_balanced_partitions ?W k True = Inr qs'" "is_partition ?W k True qs'"
    using balanced_partitions_spec [OF nn, of k True] k by auto
  then show ?thesis using that [of qs] len k ps qs by (auto simp: is_partition_def)
qed

lemma nth_fst_concat_mset:
  assumes "mset is = mset [0..<length gs]"
  shows "mset (concat (map (\<lambda>g. fst (gs ! g)) is)) = mset (concat (map fst gs))"
proof (rule mset_concat_mset_eq)
  have "mset (map (\<lambda>g. fst (gs ! g)) is) = mset (map (\<lambda>g. fst (gs ! g)) [0..<length gs])"
    unfolding mset_map assms ..
  also have "map (\<lambda>g. fst (gs ! g)) [0..<length gs] = map fst gs"
    by (intro nth_equalityI) auto
  finally show "mset (map (\<lambda>g. fst (gs ! g)) is) = mset (map fst gs)" .
qed

lemma group_partitions_cover:
  assumes "get_group_balanced_partitions lens uids k = Inr ps"
    and "\<forall>l\<in>set lens. 0 \<le> l \<and> l < 2 ^ 24"
  shows "length ps = k \<and> mset (concat ps) = mset [0..<length lens]"
proof -
  obtain qs where qs: "length lens = length uids" "length qs = k"
    "mset (concat qs) = mset [0..<length (build_groups lens uids)]"
    "ps = map (\<lambda>q. sort (concat (map (\<lambda>g. fst (build_groups lens uids ! g)) q))) qs"
    using group_partitions_spec [OF assms] by metis
  have "mset (concat (map (\<lambda>q. sort (concat (map f q))) qs)) = mset (concat (map f (concat qs)))" for f
    by (induction qs) auto
  then have "mset (concat ps) = mset (concat (map fst (build_groups lens uids)))"
    unfolding qs(4) using nth_fst_concat_mset [OF qs(3)] by metis
  then show ?thesis using build_groups_concat [OF qs(1)] qs by simp
qed

lemma group_partitions_adjacent:
  assumes "get_group_balanced_partitions lens uids k = Inr ps"
    and "\<forall>l\<in>set lens. 0 \<le> l \<and> l < 2 ^ 24"
    and "Suc i < length uids" and "uids ! Suc i = uids ! i" and "p \<in> set ps" and "i \<in> set p"
  shows "Suc i \<in> set p"
proof -
  let ?G = "build_groups lens uids"
  obtain qs where qs: "length lens = length uids" "mset (concat qs) = mset [0..<length ?G]"
    "ps = map (\<lambda>q. sort (concat (map (\<lambda>g. fst (?G ! g)) q))) qs"
    using group_partitions_spec [OF assms(1,2)] by metis
  obtain a where a: "a < length ?G" "i \<in> set (fst (?G ! a))" "Suc i \<in> set (fst (?G ! a))"
    using build_groups_adjacent [OF qs(1) assms(3,4)] unfolding same_group_def by (metis in_set_conv_nth)
  obtain q where q: "q \<in> set qs" "p = sort (concat (map (\<lambda>g. fst (?G ! g)) q))"
    using assms(5) qs(3) by auto
  obtain b where b: "b \<in> set q" "i \<in> set (fst (?G ! b))" using assms(6) q by auto
  have "b \<in> set (concat qs)" using b q by auto
  then have "b < length ?G" using mset_upt_set [OF qs(2)] by auto
  have dist: "distinct (concat (map fst ?G))" using build_groups_concat [OF qs(1)] by simp
  have "a = b"
    using distinct_concat_index [OF dist, of a b i] a b(2) \<open>b < length ?G\<close> by simp
  then show ?thesis using a b q by auto
qed

subsection \<open>The properties of the micro-batches\<close>

text \<open>A batch of four samples in forced groups of two, for the witnesses.\<close>

definition sample_input :: seq_input where
  "sample_input = PaddedIds [[1, 1, 0], [1, 0, 0], [1, 1, 1], [1, 0, 0]] 3"

definition sample_opts :: rearrange_opts where
  "sample_opts = \<lparr>max_token_len = 4, num_batches_divided_by = None, min_num_micro_batch = None,
                  use_dynamic_bsz_balance = True, force_group_size = 2\<rparr>"

definition sample_batch :: "(string, int) tensordict" where
  "sample_batch = [(''ids'', Rows [10, 11, 12, 13]), (''temperature'', Scalar 1)]"

lemma sample_rearranged:
  "rearrange_micro_batches sample_input sample_batch sample_opts None =
   Inr ([[(''ids'', Rows [12, 13]), (''temperature'', Scalar 1)],
         [(''ids'', Rows [10, 11]), (''temperature'', Scalar 1)]], [[2, 3], [0, 1]])"
  by code_simp

lemma sample_indices: "micro_batch_indices sample_input sample_opts None = Inr [[2, 3], [0, 1]]"
  by code_simp

lemma sample_lens [simp]: "seq_len_effective sample_input = [2, 1, 3, 1]"
  by (simp add: sample_input_def seq_len_effective_def)

lemma sample_opts_simps [simp]:
  "force_group_size sample_opts = 2" "max_token_len sample_opts = 4"
  "min_num_micro_batch sample_opts = None" "num_batches_divided_by sample_opts = None"
  by (simp_all add: sample_opts_def)

text \<open>
  When rearranging returns, its index lists hold every sample exactly once, no micro-batch
  is empty, and the samples of one forced group (consecutive samples) stay in one micro-batch.
  The bounds exclude wrap-around of the 64-bit workloads.
\<close>

theorem rearrange_partitions_samples:
  assumes "rearrange_micro_batches input batch opts ar = Inr (mbs, idx)"
    and "\<forall>l\<in>set (seq_len_effective input). 0 \<le> l \<and> l < 2 ^ 24" and "force_group_size opts < 2 ^ 14"
  shows "mset (concat idx) = mset [0..<length (seq_len_effective input)] \<and> [] \<notin> set idx \<and>
         (\<forall>p\<in>set idx. \<forall>i j. i div force_group_size opts = j div force_group_size opts \<longrightarrow>
                             i \<in> set p \<longrightarrow> j \<in> set p)"
proof -
  have "micro_batch_indices input opts ar = Inr idx"
    using assms(1) by (auto simp: rearrange_micro_batches_def res_simps)
  moreover have "lens_bounded (seq_len_effective input) (force_group_size opts)"
    using assms(2,3) by (simp add: lens_bounded_def)
  ultimately show ?thesis using micro_batch_indices_Inr unfolding whole_groups_def by blast
qed

lemma rearrange_partitions_samples_witness:
  "\<exists>idx. idx = [[2, 3], [0, 1]] \<and> mset (concat idx) = mset [0..<length [2, 1, 3, 1 :: int]] \<and> [] \<notin> set idx \<and>
     (\<forall>p\<in>set idx. \<forall>i j. i div 2 = j div (2 :: nat) \<longrightarrow> i \<in> set p \<longrightarrow> j \<in> set p)"
proof -
  have "\<forall>l\<in>set (seq_len_effective sample_input). 0 \<le> l \<and> l < 2 ^ 24"
    and "force_group_size sample_opts < 2 ^ 14" by simp_all
  from rearrange_partitions_samples [OF sample_rearranged this]
  show ?thesis unfolding sample_lens sample_opts_simps by (intro exI [of _ "[[2, 3], [0, 1]]"] conjI refl) blast+
qed

text \<open>
  C3: Splitting a batch into micro-batches, applying a function to every row of a column inside
  them, concatenating the outputs and restoring the order gives the function applied to the rows
  of the batch in their order.
\<close>

theorem restore_inverts_rearrange:
  assumes "rearrange_micro_batches input batch opts ar = Inr (mbs, idx)"
    and "\<forall>l\<in>set (seq_len_effective input). 0 \<le> l \<and> l < 2 ^ 24" and "force_group_size opts < 2 ^ 14"
    and "map_of batch key = Some (Rows rows)" and "length rows = length (seq_len_effective input)"
  shows "restore_dynamic_batch (concat (map (\<lambda>mb. map f (column_rows key mb)) mbs)) idx = Inr (map f rows)"
proof -
  have "lens_bounded (seq_len_effective input) (force_group_size opts)"
    using assms(2,3) by (simp add: lens_bounded_def)
  note r = rearrange_rows [OF assms(1) this assms(4,5)]
  have "concat (map (\<lambda>mb. map f (column_rows key mb)) mbs) = map f (concat (map (column_rows key) mbs))"
    by (simp add: map_concat comp_def)
  also have "\<dots> = map f (map (\<lambda>i. rows ! i) (concat idx))" using r by simp
  also have "\<dots> = map (\<lambda>i. map f rows ! i) (concat idx)"
  proof -
    have "set (concat idx) = {0..<length rows}" using r mset_upt_set by metis
    then show ?thesis by auto
  qed
  finally show ?thesis using restore_select [of idx "map f rows"] r by simp
qed

lemma restore_inverts_rearrange_witness:
  "restore_dynamic_batch [13, 14, 11, 12] [[2, 3], [0, 1]] = Inr [11, 12, 13, 14 :: int]"
  using restore_inverts_rearrange [OF sample_rearranged, of "''ids''" "[10, 11, 12, 13]" "\<lambda>x. x + 1"]
  by (simp add: sample_batch_def column_rows_def)

text \<open>
  With no optional argument set, a batch of positive token count whose padded width fits the
  token limit is always split, into \<open>min (groups, ceil (tokens / max_token_len))\<close> micro-batches.
\<close>

theorem rearrange_count:
  assumes "\<forall>l\<in>set (seq_len_effective input). 0 \<le> l \<and> l < 2 ^ 24"
    and "0 < force_group_size opts" "force_group_size opts < 2 ^ 14"
    and "force_group_size opts dvd length (seq_len_effective input)"
    and "max_seq_len input = Inr m" "m \<le> max_token_len opts" "0 < max_token_len opts"
    and "0 < sum_list (seq_len_effective input)"
    and "min_num_micro_batch opts = None" "num_batches_divided_by opts = None"
  shows "\<exists>idx. micro_batch_indices input opts None = Inr idx \<and>
           int (length idx) = min (int (length (seq_len_effective input) div force_group_size opts))
             (- (sum_list (seq_len_effective input) div (- max_token_len opts)))"
proof -
  have b: "lens_bounded (seq_len_effective input) (force_group_size opts)"
    using assms(1,3) by (simp add: lens_bounded_def)
  obtain idx c where "micro_batch_indices input opts None = Inr idx"
    "ceildiv (sum_list (seq_len_effective input)) (max_token_len opts) = Inr c"
    "int (length idx) = min (int (length (seq_len_effective input) div force_group_size opts)) c"
    using micro_batch_indices_success [OF b assms(2,4,5,6,7,8,9,10)] .
  then show ?thesis by (auto simp: ceildiv_def res_simps)
qed

lemma rearrange_count_witness:
  "\<exists>idx. micro_batch_indices sample_input sample_opts None = Inr idx \<and> int (length idx) = 2"
  using rearrange_count [of sample_input sample_opts 3]
  by (simp add: max_seq_len_def) (simp add: sample_input_def)

text \<open>
  Partitioning by prompt covers every sample once in \<open>k\<close> parts, and samples with the same
  uid land in the same part whenever the uids are contiguous.
\<close>

theorem group_partitions_keep_prompts:
  assumes "get_group_balanced_partitions lens uids k = Inr ps"
    and "\<forall>l\<in>set lens. 0 \<le> l \<and> l < 2 ^ 24"
    and "\<forall>i j m. i \<le> m \<longrightarrow> m \<le> j \<longrightarrow> j < length uids \<longrightarrow> uids ! i = uids ! j \<longrightarrow> uids ! m = uids ! i"
  shows "length ps = k \<and> mset (concat ps) = mset [0..<length lens] \<and>
         (\<forall>p\<in>set ps. \<forall>i j. i \<le> j \<longrightarrow> j < length uids \<longrightarrow> uids ! i = uids ! j \<longrightarrow> i \<in> set p \<longrightarrow> j \<in> set p)"
proof -
  have "j \<in> set p" if "p \<in> set ps" "i \<in> set p" "i \<le> j" "j < length uids" "uids ! i = uids ! j" for p i j
    using that(3-)
  proof (induction "j - i" arbitrary: j)
    case (Suc d)
    have m: "uids ! (j - 1) = uids ! i"
      by (rule assms(3) [rule_format, of i "j - 1" j]) (use Suc.prems Suc.hyps(2) in auto)
    have "j - 1 \<in> set p" using Suc.hyps(1) [of "j - 1"] Suc.hyps(2) Suc.prems m by auto
    then show ?case
      using group_partitions_adjacent [OF assms(1,2), of "j - 1" p] Suc.prems Suc.hyps(2) m that(1) by auto
  qed (use that in simp)
  then show ?thesis using group_partitions_cover [OF assms(1,2)] by blast
qed

lemma group_partitions_keep_prompts_witness:
  "\<exists>ps. get_group_balanced_partitions [3, 2, 5, 5] [Some 1, Some 1, None, None :: nat option] 2 = Inr ps \<and>
     length ps = 2 \<and> mset (concat ps) = mset [0..<length [3, 2, 5, 5 :: int]]"
proof -
  let ?uids = "[Some 1, Some 1, None, None :: nat option]"
  have g: "get_group_balanced_partitions [3, 2, 5, 5] ?uids 2 = Inr [[2, 3], [0, 1]]"
    by code_simp
  have c: "\<forall>i j m. i \<le> m \<longrightarrow> m \<le> j \<longrightarrow> j < length ?uids \<longrightarrow> ?uids ! i = ?uids ! j \<longrightarrow> ?uids ! m = ?uids ! i"
    by (auto simp: nth_Cons less_Suc_eq split: nat.splits)
  show ?thesis using group_partitions_keep_prompts [OF g _ c] g by simp
qed

text \<open>
  The token limit bounds the number of micro-batches, not their content: three samples of
  three tokens under a limit of five give a micro-batch of six tokens.
\<close>

theorem token_limit_not_enforced:
  "\<exists>idx. micro_batch_indices (PaddedIds [[1, 1, 1], [1, 1, 1], [1, 1, 1]] 3)
           \<lparr>max_token_len = 5, num_batches_divided_by = None, min_num_micro_batch = None,
            use_dynamic_bsz_balance = True, force_group_size = 1\<rparr> None = Inr idx \<and>
         (\<exists>p\<in>set idx. 5 < (\<Sum>i\<leftarrow>p. [3, 3, 3 :: int] ! i))"
proof -
  have "micro_batch_indices (PaddedIds [[1, 1, 1], [1, 1, 1], [1, 1, 1]] 3)
          \<lparr>max_token_len = 5, num_batches_divided_by = None, min_num_micro_batch = None,
           use_dynamic_bsz_balance = True, force_group_size = 1\<rparr> None = Inr [[0, 1], [2]]"
    by code_simp
  then show ?thesis by simp
qed

end
