(* ===== verification/ExpThink.thy ===== *)
theory ExpThink
  imports Prelude
begin

section \<open>The experience-guided three-tier reward\<close>

text \<open>
  Models \<open>src/src/custom_reward_manager.py\<close>: the class \<open>ExpThinkRewardManager\<close> with
  its persistent buffer \<open>EXPERIENCE_BUFFER\<close> (prompt to shortest correct response length, at most \<open>l_max\<close>).
  The tokenizer's \<open>decode\<close> and the accuracy function \<open>compute_score\<close> are arguments;
  float arithmetic is modelled by exact reals.
\<close>

datatype py_value = Num real | Str string

datatype score_result = ScoreDict "(string, py_value) dict" | ScoreNum py_value

record reward_config =
  alpha :: real
  r_pen :: real
  l_max :: real

record 'm data_item =
  prompts :: "int list"
  responses :: "int list"
  attn_mask :: "nat list"
  item_meta :: 'm

record scored =
  prompt_str :: string
  acc :: real
  valid_response_length :: nat
  reward_extra_info :: "(string, py_value) dict"

record reward_output =
  reward_score :: real
  out_extra_info :: "(string, py_value) dict"

text \<open>Comparing a value with 0 raises TypeError for a string.\<close>

definition as_num :: "py_value \<Rightarrow> real result" where
  "as_num v = (case v of Num x \<Rightarrow> Inr x | Str s \<Rightarrow> Inl TypeError)"

definition three_tier_reward :: "reward_config \<Rightarrow> real \<Rightarrow> real \<Rightarrow> real \<Rightarrow> real" where
  "three_tier_reward cfg a len l_star =
     (if a \<le> 0 then 0
      else if len \<le> l_star * (1 + alpha cfg) then 1 else r_pen cfg)"

text \<open>\<open>result.get("acc", result["score"])\<close> looks \<open>score\<close> up in every case.\<close>

definition accuracy_of :: "score_result \<Rightarrow> py_value result" where
  "accuracy_of r =
     (case r of
        ScoreNum v \<Rightarrow> Inr v
      | ScoreDict d \<Rightarrow>
          (case map_of d ''score'' of None \<Rightarrow> Inl KeyError
           | Some s \<Rightarrow> Inr (dict_get_default d ''acc'' s)))"

definition extra_info_of :: "score_result \<Rightarrow> (string, py_value) dict" where
  "extra_info_of r =
     (case r of ScoreNum v \<Rightarrow> [(''acc'', v)] | ScoreDict d \<Rightarrow> fold (\<lambda>(k, v). dict_set k v) d [])"

definition score_item ::
  "(int list \<Rightarrow> string) \<Rightarrow> (string \<Rightarrow> 'm \<Rightarrow> score_result) \<Rightarrow> 'm data_item \<Rightarrow> scored result" where
  "score_item decode compute_score item =
     (let prompt_length = length (prompts item);
          valid_prompt_length = sum_list (take prompt_length (attn_mask item));
          valid_prompt_ids = py_slice (Some (- int valid_prompt_length)) None (prompts item);
          resp_len = sum_list (drop prompt_length (attn_mask item));
          valid_response_ids = py_slice None (Some (int resp_len)) (responses item);
          prompt = decode valid_prompt_ids;
          result = compute_score (decode valid_response_ids) (item_meta item)
      in bind_res (accuracy_of result) (\<lambda>v. bind_res (as_num v) (\<lambda>a.
           Inr \<lparr>prompt_str = prompt, acc = a, valid_response_length = resp_len,
                reward_extra_info =
                  dict_set ''response_length'' (Num (real resp_len)) (extra_info_of result)\<rparr>)))"

text \<open>The persistent buffer after one scored item, and the item's reward.\<close>

definition lookup_update ::
  "reward_config \<Rightarrow> (string, real) dict \<Rightarrow> scored \<Rightarrow> reward_output \<times> (string, real) dict" where
  "lookup_update cfg buffer s =
     (let old_l_star = dict_get_default buffer (prompt_str s) (l_max cfg);
          new_l_star = (if 0 < acc s then min old_l_star (real (valid_response_length s)) else old_l_star);
          buffer' = (if 0 < acc s then dict_set (prompt_str s) new_l_star buffer else buffer)
      in (\<lparr>reward_score = three_tier_reward cfg (acc s) (real (valid_response_length s)) new_l_star,
           out_extra_info = reward_extra_info s\<rparr>, buffer'))"

definition run_single ::
  "reward_config \<Rightarrow> (int list \<Rightarrow> string) \<Rightarrow> (string \<Rightarrow> 'm \<Rightarrow> score_result) \<Rightarrow>
   'm data_item list \<Rightarrow> (string, real) dict \<Rightarrow> (reward_output \<times> (string, real) dict) result" where
  "run_single cfg decode compute_score data buffer =
     guard_res (length data = 1) AssertionError
       (bind_res (score_item decode compute_score (hd data))
         (\<lambda>s. Inr (lookup_update cfg buffer s)))"

text \<open>Consecutive calls share the buffer.\<close>

fun run_singles ::
  "reward_config \<Rightarrow> (int list \<Rightarrow> string) \<Rightarrow> (string \<Rightarrow> 'm \<Rightarrow> score_result) \<Rightarrow>
   'm data_item list \<Rightarrow> (string, real) dict \<Rightarrow> (reward_output list \<times> (string, real) dict) result" where
  "run_singles cfg decode compute_score [] buffer = Inr ([], buffer)"
| "run_singles cfg decode compute_score (item # items) buffer =
     bind_res (run_single cfg decode compute_score [item] buffer) (\<lambda>(out, buffer').
       bind_res (run_singles cfg decode compute_score items buffer') (\<lambda>(outs, buffer'').
         Inr (out # outs, buffer'')))"

definition collect_l_star :: "reward_config \<Rightarrow> scored list \<Rightarrow> (string, real) dict" where
  "collect_l_star cfg scs =
     fold (\<lambda>s d. if 0 < acc s \<and> real (valid_response_length s) < dict_get_default d (prompt_str s) (l_max cfg)
                 then dict_set (prompt_str s) (real (valid_response_length s)) d else d) scs []"

definition batch_output :: "reward_config \<Rightarrow> (string, real) dict \<Rightarrow> scored \<Rightarrow> reward_output" where
  "batch_output cfg l_star_by_prompt s =
     \<lparr>reward_score = three_tier_reward cfg (acc s) (real (valid_response_length s))
        (dict_get_default l_star_by_prompt (prompt_str s) (l_max cfg)),
      out_extra_info = reward_extra_info s\<rparr>"

definition run_batch ::
  "reward_config \<Rightarrow> (int list \<Rightarrow> string) \<Rightarrow> (string \<Rightarrow> 'm \<Rightarrow> score_result) \<Rightarrow>
   'm data_item list \<Rightarrow> reward_output list result" where
  "run_batch cfg decode compute_score data =
     bind_res (traverse (score_item decode compute_score) data)
       (\<lambda>scs. Inr (map (batch_output cfg (collect_l_star cfg scs)) scs))"

subsection \<open>The shortest correct length\<close>

definition correct_lengths :: "scored list \<Rightarrow> string \<Rightarrow> real set" where
  "correct_lengths scs p = {real (valid_response_length s) | s. s \<in> set scs \<and> 0 < acc s \<and> prompt_str s = p}"

definition l_star :: "reward_config \<Rightarrow> scored list \<Rightarrow> string \<Rightarrow> real" where
  "l_star cfg scs p = Min (insert (l_max cfg) (correct_lengths scs p))"

lemma finite_correct_lengths [simp]: "finite (correct_lengths scs p)"
proof -
  have "correct_lengths scs p \<subseteq> (\<lambda>s. real (valid_response_length s)) ` set scs"
    by (auto simp: correct_lengths_def)
  then show ?thesis by (rule finite_subset) simp
qed

lemma correct_lengths_snoc:
  "correct_lengths (scs @ [s]) p =
   (if 0 < acc s \<and> prompt_str s = p then insert (real (valid_response_length s)) (correct_lengths scs p)
    else correct_lengths scs p)"
  by (auto simp: correct_lengths_def)

lemma l_star_snoc:
  "l_star cfg (scs @ [s]) p =
   (if 0 < acc s \<and> prompt_str s = p then min (l_star cfg scs p) (real (valid_response_length s))
    else l_star cfg scs p)"
proof -
  have "Min (insert a (insert x C)) = min (Min (insert a C)) x" if "finite C" for a x :: real and C
  proof -
    have "Min (insert x (insert a C)) = min x (Min (insert a C))" by (rule Min_insert) (use that in auto)
    then show ?thesis by (metis insert_commute min.commute)
  qed
  then show ?thesis by (simp add: l_star_def correct_lengths_snoc)
qed

lemma l_star_mset: "mset xs = mset ys \<Longrightarrow> l_star cfg xs p = l_star cfg ys p"
  using mset_eq_setD [of xs ys] by (simp add: l_star_def correct_lengths_def)

lemma l_star_mono: "set xs \<subseteq> set ys \<Longrightarrow> l_star cfg ys p \<le> l_star cfg xs p"
  unfolding l_star_def by (intro Min_antimono) (auto simp: correct_lengths_def)

lemma collect_l_star_snoc:
  "collect_l_star cfg (scs @ [s]) =
   (let d = collect_l_star cfg scs
    in if 0 < acc s \<and> real (valid_response_length s) < dict_get_default d (prompt_str s) (l_max cfg)
       then dict_set (prompt_str s) (real (valid_response_length s)) d else d)"
  by (simp add: collect_l_star_def Let_def)

lemma collect_l_star_spec: "dict_get_default (collect_l_star cfg scs) p (l_max cfg) = l_star cfg scs p"
proof (induction scs arbitrary: p rule: rev_induct)
  case Nil
  then show ?case by (simp add: collect_l_star_def l_star_def correct_lengths_def)
next
  case (snoc s scs)
  then show ?case
    by (simp add: l_star_snoc collect_l_star_snoc Let_def min_def)
qed

text \<open>What the persistent buffer knows: the shortest correct length of every prompt seen, or \<open>l_max\<close> if that is less.\<close>

definition buffer_ok :: "reward_config \<Rightarrow> scored list \<Rightarrow> (string, real) dict \<Rightarrow> bool" where
  "buffer_ok cfg scs b \<longleftrightarrow>
     (\<forall>p. map_of b p = (if correct_lengths scs p = {} then None else Some (l_star cfg scs p)))"

lemma buffer_ok_default: "buffer_ok cfg scs b \<Longrightarrow> dict_get_default b p (l_max cfg) = l_star cfg scs p"
  by (auto simp: buffer_ok_def dict_get_default_def l_star_def)

lemma lookup_update_ok:
  assumes "buffer_ok cfg seen b" and "lookup_update cfg b s = (out, b')"
  shows "buffer_ok cfg (seen @ [s]) b'"
    and "reward_score out =
         three_tier_reward cfg (acc s) (real (valid_response_length s)) (l_star cfg (seen @ [s]) (prompt_str s))"
proof -
  note d = buffer_ok_default [OF assms(1)]
  show "buffer_ok cfg (seen @ [s]) b'"
  proof (cases "0 < acc s")
    case True
    then have "b' = dict_set (prompt_str s) (l_star cfg (seen @ [s]) (prompt_str s)) b"
      using assms(2) d by (auto simp: lookup_update_def Let_def l_star_snoc)
    then show ?thesis using assms(1) True by (auto simp: buffer_ok_def correct_lengths_snoc l_star_snoc)
  next
    case False
    then have "b' = b" using assms(2) by (auto simp: lookup_update_def Let_def)
    then show ?thesis using assms(1) False by (simp add: buffer_ok_def correct_lengths_snoc l_star_snoc)
  qed
  show "reward_score out =
         three_tier_reward cfg (acc s) (real (valid_response_length s)) (l_star cfg (seen @ [s]) (prompt_str s))"
    using assms(2) d by (auto simp: lookup_update_def Let_def l_star_snoc)
qed

lemma run_singles_spec:
  assumes "run_singles cfg dec cs items b = Inr (outs, b')" and "buffer_ok cfg seen b"
  shows "\<exists>scs. traverse (score_item dec cs) items = Inr scs \<and> length outs = length scs \<and>
           buffer_ok cfg (seen @ scs) b' \<and>
           (\<forall>i < length scs. reward_score (outs ! i) =
              three_tier_reward cfg (acc (scs ! i)) (real (valid_response_length (scs ! i)))
                (l_star cfg (seen @ take (Suc i) scs) (prompt_str (scs ! i))))"
  using assms
proof (induction items arbitrary: b seen outs)
  case (Cons item items)
  obtain s out b1 outs1 where s: "score_item dec cs item = Inr s" "lookup_update cfg b s = (out, b1)"
    and rest: "run_singles cfg dec cs items b1 = Inr (outs1, b')" and outs: "outs = out # outs1"
    using Cons.prems(1) by (auto simp: run_single_def res_simps)
  note upd = lookup_update_ok [OF Cons.prems(2) s(2)]
  obtain scs where scs: "traverse (score_item dec cs) items = Inr scs" "length outs1 = length scs"
    "buffer_ok cfg ((seen @ [s]) @ scs) b'"
    "\<forall>i < length scs. reward_score (outs1 ! i) =
       three_tier_reward cfg (acc (scs ! i)) (real (valid_response_length (scs ! i)))
         (l_star cfg ((seen @ [s]) @ take (Suc i) scs) (prompt_str (scs ! i)))"
    using Cons.IH [OF rest upd(1)] by blast
  have "reward_score (outs ! i) =
        three_tier_reward cfg (acc ((s # scs) ! i)) (real (valid_response_length ((s # scs) ! i)))
          (l_star cfg (seen @ take (Suc i) (s # scs)) (prompt_str ((s # scs) ! i)))"
    if "i < length (s # scs)" for i
    using that scs(4) upd(2) by (cases i) (auto simp: outs)
  then show ?case using s scs outs by (intro exI [of _ "s # scs"]) auto
qed simp

lemma run_batch_spec:
  assumes "traverse (score_item dec cs) items = Inr scs"
  shows "run_batch cfg dec cs items =
         Inr (map (\<lambda>s. \<lparr>reward_score = three_tier_reward cfg (acc s) (real (valid_response_length s))
                           (l_star cfg scs (prompt_str s)),
                        out_extra_info = reward_extra_info s\<rparr>) scs)"
  by (simp add: run_batch_def assms batch_output_def collect_l_star_spec)

lemma three_tier_mono:
  assumes "l \<le> l'" and "r_pen cfg \<le> 1" and "0 \<le> alpha cfg"
  shows "three_tier_reward cfg a len l \<le> three_tier_reward cfg a len l'"
proof -
  have "l * (1 + alpha cfg) \<le> l' * (1 + alpha cfg)" using assms by (intro mult_right_mono) auto
  then show ?thesis using assms(2) by (auto simp: three_tier_reward_def)
qed

lemma buffer_ok_empty: "buffer_ok cfg [] []"
  by (simp add: buffer_ok_def correct_lengths_def)

subsection \<open>The properties of the reward\<close>

text \<open>
  Two prompts of one token each: the accuracy is 1 when the response starts with token 1.
\<close>

definition sample_decode :: "int list \<Rightarrow> string" where
  "sample_decode ids = map (\<lambda>i. if i = 1 then CHR ''a'' else CHR ''b'') ids"

definition sample_score :: "string \<Rightarrow> unit \<Rightarrow> score_result" where
  "sample_score s m = ScoreDict [(''score'', Num (if take 1 s = ''a'' then 1 else 0))]"

definition sample_items :: "unit data_item list" where
  "sample_items =
     [\<lparr>prompts = [1], responses = [1, 1, 2, 0], attn_mask = [1, 1, 1, 1, 0], item_meta = ()\<rparr>,
      \<lparr>prompts = [1], responses = [1, 0, 0, 0], attn_mask = [1, 1, 0, 0, 0], item_meta = ()\<rparr>,
      \<lparr>prompts = [2], responses = [2, 1, 0, 0], attn_mask = [1, 1, 1, 0, 0], item_meta = ()\<rparr>]"

definition sample_cfg :: reward_config where
  "sample_cfg = \<lparr>alpha = 1/10, r_pen = 1/2, l_max = 16384\<rparr>"

definition sample_scored :: "string \<Rightarrow> real \<Rightarrow> nat \<Rightarrow> scored" where
  "sample_scored p a n =
     \<lparr>prompt_str = p, acc = a, valid_response_length = n,
      reward_extra_info = [(''score'', Num a), (''response_length'', Num (real n))]\<rparr>"

lemma sample_scores:
  "traverse (score_item sample_decode sample_score) sample_items =
   Inr [sample_scored ''a'' 1 3, sample_scored ''a'' 1 1, sample_scored ''b'' 0 2]"
  by (simp add: sample_items_def score_item_def sample_decode_def sample_score_def sample_scored_def
      accuracy_of_def as_num_def extra_info_of_def dict_get_default_def py_slice_def clamp_index_def Let_def)

lemma sample_run:
  "run_singles sample_cfg sample_decode sample_score sample_items [] =
   Inr ([\<lparr>reward_score = 1, out_extra_info = [(''score'', Num 1), (''response_length'', Num 3)]\<rparr>,
         \<lparr>reward_score = 1, out_extra_info = [(''score'', Num 1), (''response_length'', Num 1)]\<rparr>,
         \<lparr>reward_score = 0, out_extra_info = [(''score'', Num 0), (''response_length'', Num 2)]\<rparr>],
        [(''a'', 1)])"
  by (simp add: sample_items_def score_item_def sample_decode_def sample_score_def sample_cfg_def
      accuracy_of_def as_num_def extra_info_of_def dict_get_default_def py_slice_def clamp_index_def
      Let_def run_single_def lookup_update_def three_tier_reward_def)

lemma capped_run:
  "run_singles (sample_cfg\<lparr>l_max := 2\<rparr>) sample_decode sample_score (take 1 sample_items) [] =
   Inr ([\<lparr>reward_score = 1/2, out_extra_info = [(''score'', Num 1), (''response_length'', Num 3)]\<rparr>], [(''a'', 2)])"
  by (simp add: sample_items_def score_item_def sample_decode_def sample_score_def sample_cfg_def
      accuracy_of_def as_num_def extra_info_of_def dict_get_default_def py_slice_def clamp_index_def
      Let_def run_single_def lookup_update_def three_tier_reward_def)

text \<open>
  C4: After any sequence of single-item calls from an empty buffer, the buffer holds, for every
  prompt with a correct response so far, the least of its correct lengths and \<open>l_max\<close>, and
  nothing for the other prompts. So it is the shortest correct length, as the comments say, only for prompts with a correct
  response of at most \<open>l_max\<close> tokens: with \<open>l_max\<close> two, a first correct response of three tokens leaves two in
  the buffer and is rewarded as a long one although it is the shortest.
\<close>

theorem buffer_is_capped_shortest:
  assumes "run_singles cfg dec cs items [] = Inr (outs, buffer)"
  shows "(\<exists>scs. traverse (score_item dec cs) items = Inr scs \<and>
           (\<forall>p. map_of buffer p =
              (let L = {real (valid_response_length s) | s. s \<in> set scs \<and> 0 < acc s \<and> prompt_str s = p}
               in if L = {} then None else Some (Min (insert (l_max cfg) L))))) \<and>
         run_singles (sample_cfg\<lparr>l_max := 2\<rparr>) sample_decode sample_score (take 1 sample_items) [] =
           Inr ([\<lparr>reward_score = 1/2, out_extra_info = [(''score'', Num 1), (''response_length'', Num 3)]\<rparr>], [(''a'', 2)])"
proof -
  obtain scs where "traverse (score_item dec cs) items = Inr scs" "buffer_ok cfg ([] @ scs) buffer"
    using run_singles_spec [OF assms buffer_ok_empty] by blast
  then show ?thesis using capped_run by (auto simp: buffer_ok_def l_star_def correct_lengths_def Let_def)
qed

lemma buffer_is_capped_shortest_witness:
  "\<exists>scs. traverse (score_item sample_decode sample_score) sample_items = Inr scs \<and>
     (\<exists>s\<in>set scs. 0 < acc s \<and> prompt_str s = ''a'' \<and> valid_response_length s = 1)"
  using buffer_is_capped_shortest [OF sample_run] by (simp add: sample_scores sample_scored_def)

text \<open>
  The per-batch mode does not depend on the order of the batch: permuting its items permutes
  their rewards, and every reward compares the response with the least correct length of its
  prompt in the batch.
\<close>

theorem run_batch_order_independent:
  assumes "mset items' = mset items" and "traverse (score_item dec cs) items = Inr scs"
  shows "\<exists>score reward. traverse (score_item dec cs) items' = Inr (map score items') \<and>
           run_batch cfg dec cs items = Inr (map reward items) \<and>
           run_batch cfg dec cs items' = Inr (map reward items') \<and>
           (\<forall>i\<in>set items. reward_score (reward i) =
              three_tier_reward cfg (acc (score i)) (real (valid_response_length (score i)))
                (l_star cfg scs (prompt_str (score i))))"
proof -
  have all: "\<exists>s. score_item dec cs i = Inr s" if "i \<in> set items" for i
    using assms(2) that by (induction items arbitrary: scs) (auto simp: res_simps)
  define score where "score i = (case score_item dec cs i of Inr s \<Rightarrow> s | Inl e \<Rightarrow> undefined)" for i
  have sc: "score_item dec cs i = Inr (score i)" if "i \<in> set items" for i
    using all [OF that] by (auto simp: score_def)
  have set: "set items' = set items" using assms(1) by (rule mset_eq_setD)
  have t: "traverse (score_item dec cs) items = Inr (map score items)"
    "traverse (score_item dec cs) items' = Inr (map score items')"
    using sc set by (auto intro: traverse_Inr_map)
  then have scs: "scs = map score items" using assms(2) by simp
  have same: "l_star cfg (map score items') p = l_star cfg scs p" for p
    unfolding scs by (rule l_star_mset) (simp add: assms(1))
  define reward where "reward i =
    \<lparr>reward_score = three_tier_reward cfg (acc (score i)) (real (valid_response_length (score i)))
       (l_star cfg scs (prompt_str (score i))), out_extra_info = reward_extra_info (score i)\<rparr>" for i
  have "run_batch cfg dec cs items = Inr (map reward items)"
    "run_batch cfg dec cs items' = Inr (map reward items')"
    unfolding run_batch_spec [OF t(1)] run_batch_spec [OF t(2)] same
    by (simp_all add: reward_def scs)
  then show ?thesis using t(2) by (intro exI [of _ score] exI [of _ reward]) (simp add: reward_def)
qed

lemma run_batch_order_independent_witness:
  "\<exists>reward. run_batch sample_cfg sample_decode sample_score sample_items = Inr (map reward sample_items) \<and>
     run_batch sample_cfg sample_decode sample_score (rev sample_items) = Inr (map reward (rev sample_items))"
  using run_batch_order_independent [OF _ sample_scores, of "rev sample_items" sample_cfg] by auto



text \<open>
  A single-item call rewards a correct response with 1 exactly when its length is within
  \<open>1 + alpha\<close> times the shortest correct length known before the call; longer correct
  responses get \<open>r_pen\<close> and wrong ones 0, and no call raises a known shortest length.
\<close>

theorem run_single_tiers:
  assumes "run_single cfg dec cs [item] buffer = Inr (out, buffer')" and "0 \<le> alpha cfg"
  shows "\<exists>s. score_item dec cs item = Inr s \<and>
           (let len = real (valid_response_length s); old = dict_get_default buffer (prompt_str s) (l_max cfg)
            in reward_score out = (if acc s \<le> 0 then 0 else if len \<le> old * (1 + alpha cfg) \<or> len \<le> old
                                   then 1 else r_pen cfg)) \<and>
           (\<forall>p. dict_get_default buffer' p (l_max cfg) \<le> dict_get_default buffer p (l_max cfg))"
proof -
  obtain s where s: "score_item dec cs item = Inr s" "lookup_update cfg buffer s = (out, buffer')"
    using assms(1) by (auto simp: run_single_def res_simps)
  let ?len = "real (valid_response_length s)"
  let ?old = "dict_get_default buffer (prompt_str s) (l_max cfg)"
  have "?len \<le> ?len * (1 + alpha cfg)" using assms(2) by (simp add: algebra_simps)
  then have r: "reward_score out = (if acc s \<le> 0 then 0 else if ?len \<le> ?old * (1 + alpha cfg) \<or> ?len \<le> ?old
                                   then 1 else r_pen cfg)"
    using s(2) by (auto simp: lookup_update_def three_tier_reward_def Let_def min_def)
  have "dict_get_default buffer' p (l_max cfg) \<le> dict_get_default buffer p (l_max cfg)" for p
    using s(2) by (auto simp: lookup_update_def Let_def split: if_splits)
  then show ?thesis using s(1) r by (auto simp: Let_def)
qed

lemma run_single_tiers_witness:
  "\<exists>s. score_item sample_decode sample_score (sample_items ! 0) = Inr s \<and> valid_response_length s = 3"
proof -
  have "run_single sample_cfg sample_decode sample_score [sample_items ! 0] [(''a'', 1)] =
        Inr (\<lparr>reward_score = 1/2, out_extra_info = [(''score'', Num 1), (''response_length'', Num 3)]\<rparr>, [(''a'', 1)])"
    by (simp add: sample_items_def score_item_def sample_decode_def sample_score_def sample_cfg_def
      accuracy_of_def as_num_def extra_info_of_def dict_get_default_def py_slice_def clamp_index_def
      Let_def run_single_def lookup_update_def three_tier_reward_def)
  from run_single_tiers [OF this] sample_scores
  show ?thesis by (auto simp: sample_cfg_def sample_items_def sample_scored_def res_simps)
qed

end
