(* ===== verification/Protocol.thy ===== *)
theory Protocol
  imports Prelude
begin

section \<open>The data exchange protocol\<close>

text \<open>
  Models \<open>src/verl/protocol.py\<close>: \<open>DataProto\<close> with its batch of tensors, its object
  arrays and its meta information, and the operations the trainers and the dispatcher use on it.
  A tensor with one batch dimension is the list of its rows, of an arbitrary type \<open>'a\<close>; an
  object array is the list of its elements (\<open>'b\<close>). How \<open>torch.chunk\<close> and
  \<open>np.array_split\<close> cut \<open>n\<close> rows into pieces is an argument (the list of the piece
  sizes), with the documented behaviour stated by the interface \<open>splitter\<close>; Python's
  \<open>==\<close> on meta values is an argument, too.
\<close>

subsection \<open>Data\<close>

text \<open>
  Meta values. The values under the key \<open>metrics\<close> are dictionaries of metrics, lists of them,
  or None; \<open>PyObj\<close> stands for every other value that is true in a condition.
\<close>

datatype 'm metric = Metric 'm | MetricValues "'m metric list"

type_synonym 'm metrics = "(string, 'm metric) dict"

datatype 'm meta_value =
    PyNone
  | PyBool bool
  | PyObj 'm
  | MetricDict "'m metrics"
  | MetricList "'m metrics list"

type_synonym 'a tensor_batch = "nat \<times> (string, 'a list) dict"

record ('a, 'b, 'm) data_proto =
  dp_batch :: "'a tensor_batch option"
  dp_non_tensor :: "(string, 'b list) dict"
  dp_meta :: "(string, 'm meta_value) dict"

record ('a, 'b, 'm) data_proto_item =
  it_batch :: "(string, 'a) dict option"
  it_non_tensor :: "(string, 'b) dict"
  it_meta :: "(string, 'm meta_value) dict"

definition auto_padding_key :: string where
  "auto_padding_key = ''_verl_auto_padding''"

definition metrics_key :: string where
  "metrics_key = ''metrics''"

text \<open>The process-wide switch: the environment variable or the value set by the program.\<close>

definition global_auto_padding :: "string option \<Rightarrow> bool \<Rightarrow> bool" where
  "global_auto_padding env configured = (env \<in> {Some ''TRUE'', Some ''1''} \<or> configured)"

definition dp_len :: "('a, 'b, 'm) data_proto \<Rightarrow> nat" where
  "dp_len dp =
     (case dp_batch dp of
        Some (n, cols) \<Rightarrow> n
      | None \<Rightarrow> (case dp_non_tensor dp of [] \<Rightarrow> 0 | (k, v) # rest \<Rightarrow> length v))"

definition check_consistency :: "('a, 'b, 'm) data_proto \<Rightarrow> bool" where
  "check_consistency dp =
     (case dp_batch dp of
        None \<Rightarrow> True
      | Some (n, cols) \<Rightarrow> list_all (\<lambda>(k, v). length v = n) (dp_non_tensor dp))"

text \<open>The constructor of a tensor dictionary checks the batch size of its tensors.\<close>

definition tensor_dict :: "nat \<Rightarrow> (string, 'a list) dict \<Rightarrow> 'a tensor_batch result" where
  "tensor_dict n cols = guard_res (list_all (\<lambda>(k, v). length v = n) cols) RuntimeError (Inr (n, cols))"

definition mk_data_proto ::
  "'a tensor_batch option \<Rightarrow> (string, 'b list) dict \<Rightarrow> (string, 'm meta_value) dict \<Rightarrow>
   ('a, 'b, 'm) data_proto result" where
  "mk_data_proto b nt meta =
     (let dp = \<lparr>dp_batch = b, dp_non_tensor = nt, dp_meta = meta\<rparr>
      in guard_res (check_consistency dp) AssertionError (Inr dp))"

subsection \<open>Construction from dictionaries\<close>

fun common_batch_size :: "nat option \<Rightarrow> (string, 'a list) dict \<Rightarrow> nat option result" where
  "common_batch_size b [] = Inr b"
| "common_batch_size None ((k, t) # rest) = common_batch_size (Some (length t)) rest"
| "common_batch_size (Some n) ((k, t) # rest) =
     guard_res (n = length t) AssertionError (common_batch_size (Some n) rest)"

definition from_dict ::
  "(string, 'a list) dict \<Rightarrow> (string, 'b list) dict \<Rightarrow> (string, 'm meta_value) dict \<Rightarrow> bool \<Rightarrow>
   ('a, 'b, 'm) data_proto result" where
  "from_dict tensors non_tensors meta auto_padding =
     bind_res (common_batch_size None tensors) (\<lambda>b.
       let meta' = (if auto_padding then dict_set auto_padding_key (PyBool True) meta else meta)
       in case b of
            None \<Rightarrow> mk_data_proto None non_tensors meta'
          | Some n \<Rightarrow> bind_res (tensor_dict n tensors) (\<lambda>td. mk_data_proto (Some td) non_tensors meta'))"

datatype ('a, 'b) field_value = TensorField "'a list" | ArrayField "'b list" | OtherField

fun split_fields ::
  "(string, ('a, 'b) field_value) dict \<Rightarrow> (string, 'a list) dict \<Rightarrow> (string, 'b list) dict \<Rightarrow>
   ((string, 'a list) dict \<times> (string, 'b list) dict) result" where
  "split_fields [] ts ns = Inr (ts, ns)"
| "split_fields ((k, v) # rest) ts ns =
     (case v of
        TensorField t \<Rightarrow> split_fields rest (dict_set k t ts) ns
      | ArrayField a \<Rightarrow> split_fields rest ts (dict_set k a ns)
      | OtherField \<Rightarrow> Inl ValueError)"

definition from_single_dict ::
  "(string, ('a, 'b) field_value) dict \<Rightarrow> (string, 'm meta_value) dict \<Rightarrow> bool \<Rightarrow>
   ('a, 'b, 'm) data_proto result" where
  "from_single_dict data meta auto_padding =
     bind_res (split_fields data [] []) (\<lambda>(ts, ns). from_dict ts ns meta auto_padding)"

subsection \<open>Selection\<close>

definition dict_only :: "string list \<Rightarrow> (string, 'v) dict \<Rightarrow> (string, 'v) dict" where
  "dict_only ks d = filter (\<lambda>(k, v). k \<in> set ks) d"

definition select_dp ::
  "string list option \<Rightarrow> string list option \<Rightarrow> string list option \<Rightarrow>
   ('a, 'b, 'm) data_proto \<Rightarrow> ('a, 'b, 'm) data_proto result" where
  "select_dp batch_keys non_tensor_keys meta_keys dp =
     bind_res
       (case batch_keys of
          None \<Rightarrow> Inr (dp_batch dp)
        | Some ks \<Rightarrow>
            (case dp_batch dp of
               None \<Rightarrow> Inl AttributeError
             | Some (n, cols) \<Rightarrow>
                 guard_res (list_all (\<lambda>k. k \<in> set (map fst cols)) ks) KeyError
                   (Inr (Some (n, dict_only ks cols)))))
       (\<lambda>b. mk_data_proto b
              (case non_tensor_keys of None \<Rightarrow> dp_non_tensor dp | Some ks \<Rightarrow> dict_only ks (dp_non_tensor dp))
              (case meta_keys of None \<Rightarrow> dp_meta dp | Some ks \<Rightarrow> dict_only ks (dp_meta dp)))"

text \<open>Every row operation maps the rows of all columns in the same way.\<close>

definition map_columns :: "('v \<Rightarrow> 'w) \<Rightarrow> (string, 'v) dict \<Rightarrow> (string, 'w) dict" where
  "map_columns f cols = map (\<lambda>(k, v). (k, f v)) cols"

datatype row_index = Positions "int list" | Mask "bool list"

definition norm_index :: "nat \<Rightarrow> int \<Rightarrow> nat result" where
  "norm_index n i = guard_res (- int n \<le> i \<and> i < int n) IndexError (Inr (nat (if i < 0 then i + int n else i)))"

definition index_rows :: "row_index \<Rightarrow> 'a list \<Rightarrow> 'a list result" where
  "index_rows idx rows =
     (case idx of
        Positions is \<Rightarrow> bind_res (traverse (norm_index (length rows)) is) (\<lambda>js. Inr (map (\<lambda>j. rows ! j) js))
      | Mask bs \<Rightarrow>
          guard_res (length bs = length rows) IndexError (Inr (map snd (filter fst (zip bs rows)))))"

definition index_columns :: "row_index \<Rightarrow> (string, 'a list) dict \<Rightarrow> (string, 'a list) dict result" where
  "index_columns idx cols =
     traverse (\<lambda>(k, v). bind_res (index_rows idx v) (\<lambda>v'. Inr (k, v'))) cols"

definition index_count :: "row_index \<Rightarrow> nat" where
  "index_count idx = (case idx of Positions is \<Rightarrow> length is | Mask bs \<Rightarrow> length (filter id bs))"

definition select_idxs :: "row_index \<Rightarrow> ('a, 'b, 'm) data_proto \<Rightarrow> ('a, 'b, 'm) data_proto result" where
  "select_idxs idx dp =
     bind_res
       (case dp_batch dp of
          None \<Rightarrow> Inr None
        | Some (n, cols) \<Rightarrow>
            bind_res (index_columns idx cols) (\<lambda>cols'.
              bind_res (tensor_dict (index_count idx) cols') (\<lambda>td. Inr (Some td))))
       (\<lambda>b. bind_res (index_columns idx (dp_non_tensor dp)) (\<lambda>nt. mk_data_proto b nt (dp_meta dp)))"

fun take_every :: "nat \<Rightarrow> 'a list \<Rightarrow> 'a list" where
  "take_every s [] = []"
| "take_every s (x # xs) = x # take_every s (drop (s - 1) xs)"

definition slice_rows :: "int option \<Rightarrow> int option \<Rightarrow> nat option \<Rightarrow> 'a list \<Rightarrow> 'a list" where
  "slice_rows start stop step xs =
     (case step of None \<Rightarrow> py_slice start stop xs | Some s \<Rightarrow> take_every s (py_slice start stop xs))"

definition map_rows ::
  "(nat \<Rightarrow> nat) \<Rightarrow> ('a list \<Rightarrow> 'a list) \<Rightarrow> ('b list \<Rightarrow> 'b list) \<Rightarrow>
   ('a, 'b, 'm) data_proto \<Rightarrow> ('a, 'b, 'm) data_proto result" where
  "map_rows sz f g dp =
     mk_data_proto (map_option (\<lambda>(n, cols). (sz n, map_columns f cols)) (dp_batch dp))
       (map_columns g (dp_non_tensor dp)) (dp_meta dp)"

text \<open>\<open>data[start:stop:step]\<close> for a step that is not negative.\<close>

definition slice_dp ::
  "int option \<Rightarrow> int option \<Rightarrow> nat option \<Rightarrow> ('a, 'b, 'm) data_proto \<Rightarrow> ('a, 'b, 'm) data_proto result" where
  "slice_dp start stop step dp =
     guard_res (step \<noteq> Some 0) ValueError
       (map_rows (\<lambda>n. length (slice_rows start stop step [0..<n]))
          (slice_rows start stop step) (slice_rows start stop step) dp)"

definition item_dp :: "int \<Rightarrow> ('a, 'b, 'm) data_proto \<Rightarrow> ('a, 'b, 'm) data_proto_item result" where
  "item_dp i dp =
     bind_res
       (case dp_batch dp of
          None \<Rightarrow> Inr None
        | Some (n, cols) \<Rightarrow>
            bind_res (norm_index n i) (\<lambda>j. Inr (Some (map (\<lambda>(k, v). (k, v ! j)) cols))))
       (\<lambda>b. bind_res
          (traverse (\<lambda>(k, v). bind_res (norm_index (length v) i) (\<lambda>j. Inr (k, v ! j))) (dp_non_tensor dp))
          (\<lambda>nt. Inr \<lparr>it_batch = b, it_non_tensor = nt, it_meta = dp_meta dp\<rparr>))"

subsection \<open>Removing keys\<close>

text \<open>\<open>assert key in d; out[key] = d.pop(key)\<close> for every key: the popped and the remaining entries.\<close>

fun pop_keys :: "string list \<Rightarrow> (string, 'v) dict \<Rightarrow> (string, 'v) dict \<Rightarrow>
  ((string, 'v) dict \<times> (string, 'v) dict) result" where
  "pop_keys [] d out = Inr (out, d)"
| "pop_keys (k # ks) d out =
     (case map_of d k of
        None \<Rightarrow> Inl AssertionError
      | Some v \<Rightarrow> pop_keys ks (AList.delete k d) (dict_set k v out))"

definition pop_dp ::
  "string list \<Rightarrow> string list \<Rightarrow> string list \<Rightarrow> ('a, 'b, 'm) data_proto \<Rightarrow>
   (('a, 'b, 'm) data_proto \<times> ('a, 'b, 'm) data_proto) result" where
  "pop_dp batch_keys non_tensor_keys meta_keys dp =
     bind_res
       (case dp_batch dp of
          None \<Rightarrow> if batch_keys = [] then Inr ([], None) else Inl AttributeError
        | Some (n, cols) \<Rightarrow>
            bind_res (pop_keys batch_keys cols []) (\<lambda>(ts, rest). Inr (ts, Some (n, rest))))
       (\<lambda>(ts, b). bind_res (pop_keys non_tensor_keys (dp_non_tensor dp) []) (\<lambda>(ns, nt).
          bind_res (pop_keys meta_keys (dp_meta dp) []) (\<lambda>(ms, meta).
            bind_res (from_dict ts ns ms False) (\<lambda>popped.
              Inr (popped, \<lparr>dp_batch = b, dp_non_tensor = nt, dp_meta = meta\<rparr>)))))"

subsection \<open>Union\<close>

text \<open>
  Elements of object arrays: floats (\<open>None\<close> is nan), nested arrays with their dtype and shape,
  and other objects with a number for their type. Such values are trees, so the recursion of
  \<open>_deep_equal\<close> meets no object twice on a path and its cycle test never fires.
\<close>

datatype 'b np_obj =
    NpFloat "real option"
  | NpOther nat 'b
  | NpArray string "nat list" "'b np_obj list"

fun deep_equal :: "'b np_obj \<Rightarrow> 'b np_obj \<Rightarrow> bool"
  and array_equal :: "'b np_obj list \<Rightarrow> 'b np_obj list \<Rightarrow> bool" where
  "deep_equal (NpFloat None) (NpFloat None) = True"
| "deep_equal (NpFloat (Some x)) (NpFloat (Some y)) = (x = y)"
| "deep_equal (NpOther t x) (NpOther t' y) = (t = t' \<and> x = y)"
| "deep_equal (NpArray d s xs) (NpArray d' s' ys) = (d = d' \<and> s = s' \<and> array_equal xs ys)"
| "deep_equal _ _ = False"
| "array_equal [] [] = True"
| "array_equal (x # xs) (y # ys) = (deep_equal x y \<and> array_equal xs ys)"
| "array_equal _ _ = False"

fun union_columns :: "('v \<Rightarrow> 'v \<Rightarrow> bool) \<Rightarrow> bool \<Rightarrow> (string, 'v) dict \<Rightarrow> (string, 'v) dict \<Rightarrow>
  (string, 'v) dict result" where
  "union_columns eq overwrite d1 [] = Inr d1"
| "union_columns eq overwrite d1 ((k, v) # rest) =
     (case map_of d1 k of
        None \<Rightarrow> union_columns eq overwrite (dict_set k v d1) rest
      | Some w \<Rightarrow>
          guard_res (eq w v) AssertionError
            (union_columns eq overwrite (if overwrite then dict_set k v d1 else d1) rest))"

text \<open>Tensors are compared as values; a tensor with a NaN, which equals nothing in the code, is outside the model.\<close>

definition union_tensor_dict :: "'a tensor_batch \<Rightarrow> 'a tensor_batch \<Rightarrow> 'a tensor_batch result" where
  "union_tensor_dict td1 td2 =
     guard_res (fst td1 = fst td2) AssertionError
       (bind_res (union_columns (=) False (snd td1) (snd td2)) (\<lambda>cols. Inr (fst td1, cols)))"

definition union_numpy_dict ::
  "(string, 'b np_obj list) dict \<Rightarrow> (string, 'b np_obj list) dict \<Rightarrow> (string, 'b np_obj list) dict result" where
  "union_numpy_dict d1 d2 = union_columns array_equal True d1 d2"

definition union_two_dict ::
  "('v \<Rightarrow> 'v \<Rightarrow> bool) \<Rightarrow> (string, 'v) dict \<Rightarrow> (string, 'v) dict \<Rightarrow> (string, 'v) dict result" where
  "union_two_dict py_eq d1 d2 = union_columns (\<lambda>w v. py_eq v w) True d1 d2"

definition union_dp ::
  "('m meta_value \<Rightarrow> 'm meta_value \<Rightarrow> bool) \<Rightarrow> ('a, 'b np_obj, 'm) data_proto \<Rightarrow>
   ('a, 'b np_obj, 'm) data_proto \<Rightarrow> ('a, 'b np_obj, 'm) data_proto result" where
  "union_dp py_eq dp other =
     (case (dp_batch dp, dp_batch other) of
        (Some td1, Some td2) \<Rightarrow>
          bind_res (union_tensor_dict td1 td2) (\<lambda>td.
            bind_res (union_numpy_dict (dp_non_tensor dp) (dp_non_tensor other)) (\<lambda>nt.
              bind_res (union_two_dict py_eq (dp_meta dp) (dp_meta other)) (\<lambda>meta.
                Inr \<lparr>dp_batch = Some td, dp_non_tensor = nt, dp_meta = meta\<rparr>)))
      | _ \<Rightarrow> Inl AttributeError)"

subsection \<open>Concatenation\<close>

fun append_items :: "(string, 'v) dict \<Rightarrow> (string, 'v list) dict \<Rightarrow> (string, 'v list) dict result" where
  "append_items [] out = Inr out"
| "append_items ((k, v) # rest) out =
     (case map_of out k of
        None \<Rightarrow> Inl AssertionError
      | Some vs \<Rightarrow> append_items rest (dict_set k (vs @ [v]) out))"

definition list_of_dict_to_dict_of_list :: "(string, 'v) dict list \<Rightarrow> (string, 'v list) dict result" where
  "list_of_dict_to_dict_of_list ds =
     (case ds of
        [] \<Rightarrow> Inr []
      | d # _ \<Rightarrow> fold_res append_items ds (map (\<lambda>(k, v). (k, [])) d))"

text \<open>Concatenating tensor dictionaries requires the same keys in all of them.\<close>

definition cat_batches :: "'a tensor_batch list \<Rightarrow> 'a tensor_batch result" where
  "cat_batches tds =
     (case tds of
        [] \<Rightarrow> Inl RuntimeError
      | td # _ \<Rightarrow>
          guard_res (list_all (\<lambda>td'. set (map fst (snd td')) = set (map fst (snd td))) tds) KeyError
            (Inr (\<Sum>t\<leftarrow>tds. fst t,
                  map (\<lambda>(k, v). (k, concat (map (\<lambda>t. case map_of (snd t) k of Some w \<Rightarrow> w | None \<Rightarrow> []) tds)))
                    (snd td))))"

text \<open>The loop over the meta information: the collected metrics and the merged other entries.\<close>

fun merge_meta ::
  "('m meta_value \<Rightarrow> 'm meta_value \<Rightarrow> bool) \<Rightarrow> (string, 'm meta_value) dict \<Rightarrow>
   'm meta_value list \<times> (string, 'm meta_value) dict \<Rightarrow>
   ('m meta_value list \<times> (string, 'm meta_value) dict) result" where
  "merge_meta py_eq [] (ms, merged) = Inr (ms, merged)"
| "merge_meta py_eq ((k, v) # rest) (ms, merged) =
     (if k = metrics_key
      then merge_meta py_eq rest
             (case v of PyNone \<Rightarrow> ms | MetricList l \<Rightarrow> ms @ map MetricDict l | _ \<Rightarrow> ms @ [v], merged)
      else (case map_of merged k of
              Some w \<Rightarrow> guard_res (py_eq w v) AssertionError (merge_meta py_eq rest (ms, merged))
            | None \<Rightarrow> merge_meta py_eq rest (ms, dict_set k v merged)))"

definition metric_dict_of :: "'m meta_value \<Rightarrow> 'm metrics result" where
  "metric_dict_of v = (case v of MetricDict d \<Rightarrow> Inr d | _ \<Rightarrow> Inl AttributeError)"

definition merge_metrics :: "'m meta_value list \<Rightarrow> 'm metrics result" where
  "merge_metrics ms =
     bind_res (traverse metric_dict_of ms) (\<lambda>ds.
       bind_res (list_of_dict_to_dict_of_list ds) (\<lambda>d. Inr (map (\<lambda>(k, vs). (k, MetricValues vs)) d)))"

definition merge_all_meta ::
  "('m meta_value \<Rightarrow> 'm meta_value \<Rightarrow> bool) \<Rightarrow> (string, 'm meta_value) dict list \<Rightarrow>
   (string, 'm meta_value) dict result" where
  "merge_all_meta py_eq metas =
     bind_res (fold_res (merge_meta py_eq) metas ([], [])) (\<lambda>(ms, merged).
       if ms = [] then Inr merged
       else bind_res (merge_metrics ms) (\<lambda>d. Inr (dict_set metrics_key (MetricDict d) merged)))"

definition concat_dp ::
  "('m meta_value \<Rightarrow> 'm meta_value \<Rightarrow> bool) \<Rightarrow> ('a, 'b, 'm) data_proto list \<Rightarrow> ('a, 'b, 'm) data_proto result" where
  "concat_dp py_eq dps =
     (case dps of
        [] \<Rightarrow> Inl IndexError
      | dp # _ \<Rightarrow>
          bind_res
            (case dp_batch dp of
               None \<Rightarrow> Inr None
             | Some td \<Rightarrow>
                 bind_res (traverse (\<lambda>d. case dp_batch d of Some td' \<Rightarrow> Inr td' | None \<Rightarrow> Inl TypeError) dps)
                   (\<lambda>tds. bind_res (cat_batches tds) (\<lambda>t. Inr (Some t))))
            (\<lambda>b. bind_res (list_of_dict_to_dict_of_list (map dp_non_tensor dps)) (\<lambda>nt.
               bind_res (merge_all_meta py_eq (map dp_meta dps)) (\<lambda>meta.
                 mk_data_proto b (map_columns concat nt) meta))))"

subsection \<open>Splitting\<close>

text \<open>
  The interface of the libraries' splitters: the sizes of the pieces of \<open>n\<close> rows cut into
  \<open>c\<close> chunks. \<open>torch.chunk\<close> promises pieces that add up, equal ones when \<open>c\<close>
  divides \<open>n\<close>.
\<close>

type_synonym splitter = "nat \<Rightarrow> nat \<Rightarrow> nat list"

definition torch_chunk_law :: "splitter \<Rightarrow> bool" where
  "torch_chunk_law sp \<longleftrightarrow>
     (\<forall>c n. 0 < c \<longrightarrow> sum_list (sp c n) = n \<and> (c dvd n \<longrightarrow> sp c n = replicate c (n div c)))"

fun split_sizes :: "nat list \<Rightarrow> 'a list \<Rightarrow> 'a list list" where
  "split_sizes [] xs = []"
| "split_sizes (s # ss) xs = take s xs # split_sizes ss (drop s xs)"

text \<open>\<open>np.array_split\<close> at the cumulated sizes but the last: the last piece takes the rest.\<close>

fun split_at_sizes :: "nat list \<Rightarrow> 'a list \<Rightarrow> 'a list list" where
  "split_at_sizes [] xs = [xs]"
| "split_at_sizes [s] xs = [xs]"
| "split_at_sizes (s # s' # ss) xs = take s xs # split_at_sizes (s' # ss) (drop s xs)"

definition is_padding_enabled :: "bool \<Rightarrow> ('a, 'b, 'm) data_proto \<Rightarrow> bool" where
  "is_padding_enabled global dp =
     ((case map_of (dp_meta dp) auto_padding_key of
         None \<Rightarrow> False
       | Some PyNone \<Rightarrow> False
       | Some (PyBool b) \<Rightarrow> b
       | Some _ \<Rightarrow> True) \<or> global)"

definition chunk_dp ::
  "splitter \<Rightarrow> splitter \<Rightarrow> bool \<Rightarrow> nat \<Rightarrow> ('a, 'b, 'm) data_proto \<Rightarrow> ('a, 'b, 'm) data_proto list result" where
  "chunk_dp torch_chunk array_split global chunks dp =
     guard_res (is_padding_enabled global dp \<or> chunks \<noteq> 0) ZeroDivisionError (
     guard_res (is_padding_enabled global dp \<or> dp_len dp mod chunks = 0) AssertionError (
     guard_res (chunks \<noteq> 0 \<or> dp_batch dp = None) RuntimeError (
       let bsizes = map_option (\<lambda>(n, cols). torch_chunk chunks n) (dp_batch dp);
           batch_lst = (case dp_batch dp of
               None \<Rightarrow> replicate chunks None
             | Some (n, cols) \<Rightarrow>
                 map (\<lambda>i. Some (torch_chunk chunks n ! i, map_columns (\<lambda>v. split_sizes (torch_chunk chunks n) v ! i) cols))
                   [0..<length (torch_chunk chunks n)]);
           pieces = (\<lambda>v. case bsizes of
               Some sizes \<Rightarrow> split_at_sizes sizes v
             | None \<Rightarrow> split_sizes (array_split chunks (length v)) v)
       in guard_res (list_all (\<lambda>(k, v). length (pieces v) = chunks) (dp_non_tensor dp)) AssertionError
            (traverse (\<lambda>i. guard_res (i < length batch_lst) IndexError
                (mk_data_proto (batch_lst ! i) (map_columns (\<lambda>v. pieces v ! i) (dp_non_tensor dp)) (dp_meta dp)))
              [0..<chunks]))))"

text \<open>\<open>[self[i : i + split_size] for i in range(0, len(self), split_size)]\<close>.\<close>

function range_step :: "nat \<Rightarrow> nat \<Rightarrow> nat \<Rightarrow> nat list" where
  "range_step i n s = (if s = 0 \<or> n \<le> i then [] else i # range_step (i + s) n s)"
  by pat_completeness auto
termination
  by (relation "measure (\<lambda>(i, n, s). n - i)") auto

declare range_step.simps [simp del]

definition split_dp :: "nat \<Rightarrow> ('a, 'b, 'm) data_proto \<Rightarrow> ('a, 'b, 'm) data_proto list result" where
  "split_dp split_size dp =
     guard_res (split_size \<noteq> 0) ValueError
       (traverse (\<lambda>i. slice_dp (Some (int i)) (Some (int (i + split_size))) None dp)
          (range_step 0 (dp_len dp) split_size))"

subsection \<open>Repeating, padding and reordering\<close>

definition repeat_interleave :: "nat \<Rightarrow> 'a list \<Rightarrow> 'a list" where
  "repeat_interleave r xs = concat (map (replicate r) xs)"

definition repeat_stack :: "nat \<Rightarrow> 'a list \<Rightarrow> 'a list" where
  "repeat_stack r xs = concat (replicate r xs)"

definition repeat_rows :: "nat \<Rightarrow> bool \<Rightarrow> 'a list \<Rightarrow> 'a list" where
  "repeat_rows r interleave xs = (if interleave then repeat_interleave r xs else repeat_stack r xs)"

definition repeat_dp :: "nat \<Rightarrow> bool \<Rightarrow> ('a, 'b, 'm) data_proto \<Rightarrow> ('a, 'b, 'm) data_proto result" where
  "repeat_dp r interleave dp =
     map_rows (\<lambda>n. n * r) (repeat_rows r interleave) (repeat_rows r interleave) dp"

definition sample_level_rows :: "nat list \<Rightarrow> 'a list \<Rightarrow> 'a list result" where
  "sample_level_rows rs xs =
     guard_res (length rs = length xs) RuntimeError (Inr (concat (map2 replicate rs xs)))"

definition sample_level_columns :: "nat list \<Rightarrow> (string, 'a list) dict \<Rightarrow> (string, 'a list) dict result" where
  "sample_level_columns rs cols =
     traverse (\<lambda>(k, v). bind_res (sample_level_rows rs v) (\<lambda>v'. Inr (k, v'))) cols"

definition sample_level_repeat :: "nat list \<Rightarrow> ('a, 'b, 'm) data_proto \<Rightarrow> ('a, 'b, 'm) data_proto result" where
  "sample_level_repeat rs dp =
     bind_res
       (case dp_batch dp of
          None \<Rightarrow> Inr None
        | Some (n, cols) \<Rightarrow>
            bind_res (sample_level_columns rs cols) (\<lambda>cols'.
              bind_res (tensor_dict (sum_list rs) cols') (\<lambda>td. Inr (Some td))))
       (\<lambda>b. bind_res (sample_level_columns rs (dp_non_tensor dp)) (\<lambda>nt. mk_data_proto b nt (dp_meta dp)))"

definition reorder_dp :: "row_index \<Rightarrow> ('a, 'b, 'm) data_proto \<Rightarrow> ('a, 'b, 'm) data_proto result" where
  "reorder_dp idx dp =
     (case dp_batch dp of
        None \<Rightarrow> Inl TypeError
      | Some (n, cols) \<Rightarrow>
          bind_res (index_columns idx cols) (\<lambda>cols'.
            bind_res (index_columns idx (dp_non_tensor dp)) (\<lambda>nt.
              Inr \<lparr>dp_batch = Some (index_count idx, cols'), dp_non_tensor = nt, dp_meta = dp_meta dp\<rparr>)))"

text \<open>The pieces appended by \<open>pad_dataproto_to_divisor\<close>: prefixes of the data until the pad is filled.\<close>

function padding_sizes :: "nat \<Rightarrow> nat \<Rightarrow> nat list" where
  "padding_sizes remaining n =
     (if remaining = 0 \<or> n = 0 then []
      else min remaining n # padding_sizes (remaining - min remaining n) n)"
  by pat_completeness auto
termination
  by (relation "measure fst") auto

declare padding_sizes.simps [simp del]

definition pad_dataproto_to_divisor ::
  "('m meta_value \<Rightarrow> 'm meta_value \<Rightarrow> bool) \<Rightarrow> nat \<Rightarrow> ('a, 'b, 'm) data_proto \<Rightarrow>
   (('a, 'b, 'm) data_proto \<times> nat) result" where
  "pad_dataproto_to_divisor py_eq d dp =
     guard_res (d \<noteq> 0) ZeroDivisionError (
       if dp_len dp mod d \<noteq> 0
       then let pad_size = d - dp_len dp mod d
            in bind_res (traverse (\<lambda>s. slice_dp None (Some (int s)) None dp) (padding_sizes pad_size (dp_len dp)))
                 (\<lambda>protos. bind_res (concat_dp py_eq (dp # protos)) (\<lambda>padded. Inr (padded, pad_size)))
       else Inr (dp, 0))"

definition unpad_dataproto :: "nat \<Rightarrow> ('a, 'b, 'm) data_proto \<Rightarrow> ('a, 'b, 'm) data_proto result" where
  "unpad_dataproto pad_size dp =
     (if pad_size \<noteq> 0 then slice_dp None (Some (- int pad_size)) None dp else Inr dp)"

definition padding_dp ::
  "('m meta_value \<Rightarrow> 'm meta_value \<Rightarrow> bool) \<Rightarrow> nat \<Rightarrow> string \<Rightarrow> ('a, 'b, 'm) data_proto \<Rightarrow>
   ('a, 'b, 'm) data_proto result" where
  "padding_dp py_eq padding_size candidate dp =
     (if padding_size = 0 then Inr dp
      else bind_res (select_idxs (Positions [if candidate = ''first'' then 0 else int (dp_len dp) - 1]) dp)
             (\<lambda>c. bind_res (repeat_dp padding_size True c) (\<lambda>part.
                bind_res (concat_dp py_eq [dp, part]) (\<lambda>padded.
                  Inr (dp\<lparr>dp_batch := dp_batch padded, dp_non_tensor := dp_non_tensor padded\<rparr>)))))"

subsection \<open>Items and futures\<close>

definition collate_fn :: "('a, 'b, 'm) data_proto_item list \<Rightarrow> ('a, 'b, 'm) data_proto result" where
  "collate_fn items =
     bind_res (traverse (\<lambda>it. case it_batch it of Some b \<Rightarrow> Inr b | None \<Rightarrow> Inl TypeError) items) (\<lambda>bs.
       case bs of
         [] \<Rightarrow> Inl RuntimeError
       | b # _ \<Rightarrow>
           guard_res (list_all (\<lambda>b'. set (map fst b') = set (map fst b)) bs) KeyError (
             bind_res (list_of_dict_to_dict_of_list (map it_non_tensor items)) (\<lambda>nt.
               mk_data_proto
                 (Some (length bs, map (\<lambda>(k, v). (k, map (\<lambda>b'. the (map_of b' k)) bs)) b))
                 nt [])))"

text \<open>A future: the values its references resolve to and the piece its dispatch function selects.\<close>

record ('a, 'b, 'm) data_proto_future =
  futures :: "('a, 'b, 'm) data_proto list"
  dispatch_fn :: "(nat \<times> nat) option"

definition future_concat :: "('a, 'b, 'm) data_proto list \<Rightarrow> ('a, 'b, 'm) data_proto_future" where
  "future_concat dps = \<lparr>futures = dps, dispatch_fn = None\<rparr>"

definition future_chunk :: "nat \<Rightarrow> ('a, 'b, 'm) data_proto_future \<Rightarrow> ('a, 'b, 'm) data_proto_future list" where
  "future_chunk chunks fut = map (\<lambda>i. \<lparr>futures = futures fut, dispatch_fn = Some (i, chunks)\<rparr>) [0..<chunks]"

definition future_get ::
  "splitter \<Rightarrow> splitter \<Rightarrow> bool \<Rightarrow> ('m meta_value \<Rightarrow> 'm meta_value \<Rightarrow> bool) \<Rightarrow>
   ('a, 'b, 'm) data_proto_future \<Rightarrow> ('a, 'b, 'm) data_proto result" where
  "future_get torch_chunk array_split global py_eq fut =
     bind_res (concat_dp py_eq (futures fut)) (\<lambda>dp.
       case dispatch_fn fut of
         None \<Rightarrow> Inr dp
       | Some (i, chunks) \<Rightarrow>
           bind_res (chunk_dp torch_chunk array_split global chunks dp) (\<lambda>cs.
             guard_res (i < length cs) IndexError (Inr (cs ! i))))"

section \<open>The algebra of row selections\<close>

text \<open>
  Every row operation picks rows: \<open>pick is dp\<close> has, in every column, the rows of \<open>dp\<close> at the
  positions \<open>is\<close>. Slices, chunks, repetitions and paddings are picks, a pick of a pick is a
  pick, and concatenation of picks is the pick of the concatenated positions.
\<close>

definition pick_rows :: "nat list \<Rightarrow> 'a list \<Rightarrow> 'a list" where
  "pick_rows is v = map (\<lambda>i. v ! i) is"

definition pick :: "nat list \<Rightarrow> ('a, 'b, 'm) data_proto \<Rightarrow> ('a, 'b, 'm) data_proto" where
  "pick is dp =
     \<lparr>dp_batch = map_option (\<lambda>(n, cols). (length is, map_columns (pick_rows is) cols)) (dp_batch dp),
      dp_non_tensor = map_columns (pick_rows is) (dp_non_tensor dp), dp_meta = dp_meta dp\<rparr>"

definition dp_ok :: "('a, 'b, 'm) data_proto \<Rightarrow> bool" where
  "dp_ok dp \<longleftrightarrow>
     (case dp_batch dp of None \<Rightarrow> True | Some (n, cols) \<Rightarrow> dict_ok cols \<and> (\<forall>(k, v)\<in>set cols. length v = n)) \<and>
     dict_ok (dp_non_tensor dp) \<and> (\<forall>(k, v)\<in>set (dp_non_tensor dp). length v = dp_len dp)"

definition meta_ok :: "('m meta_value \<Rightarrow> 'm meta_value \<Rightarrow> bool) \<Rightarrow> ('a, 'b, 'm) data_proto \<Rightarrow> bool" where
  "meta_ok py_eq dp \<longleftrightarrow>
     dict_ok (dp_meta dp) \<and> metrics_key \<notin> fst ` set (dp_meta dp) \<and> (\<forall>(k, v)\<in>set (dp_meta dp). py_eq v v)"

lemma map_columns_simps [simp]:
  "map_columns f [] = []"
  "map_columns f ((k, v) # cols) = (k, f v) # map_columns f cols"
  "map fst (map_columns f cols) = map fst cols"
  "length (map_columns f cols) = length cols"
  by (auto simp: map_columns_def)

lemma keys_map_columns [simp]: "fst ` set (map_columns f cols) = fst ` set cols"
  using map_columns_simps(3) [of f cols] by (metis list.set_map)

lemma map_columns_cong:
  "(\<And>k v. (k, v) \<in> set cols \<Longrightarrow> f v = g v) \<Longrightarrow> map_columns f cols = map_columns g cols"
  by (auto simp: map_columns_def)

lemma map_columns_comp: "map_columns f (map_columns g cols) = map_columns (\<lambda>v. f (g v)) cols"
  by (auto simp: map_columns_def)

lemma map_columns_ident: "(\<And>k v. (k, v) \<in> set cols \<Longrightarrow> f v = v) \<Longrightarrow> map_columns f cols = cols"
  unfolding map_columns_def by (rule map_idI) auto

lemma set_map_columns: "(k, w) \<in> set (map_columns f cols) \<longleftrightarrow> (\<exists>v. (k, v) \<in> set cols \<and> w = f v)"
  by (auto simp: map_columns_def)

lemma dict_ok_map_columns [simp]: "dict_ok (map_columns f cols) = dict_ok cols"
  by (simp add: dict_ok_def)

lemma length_pick_rows [simp]: "length (pick_rows is v) = length is"
  by (simp add: pick_rows_def)

lemma pick_rows_append: "pick_rows (is @ js) v = pick_rows is v @ pick_rows js v"
  by (simp add: pick_rows_def)

lemma pick_rows_concat: "pick_rows (concat iss) v = concat (map (\<lambda>is. pick_rows is v) iss)"
  by (simp add: pick_rows_def map_concat comp_def)

lemma pick_rows_concat_fun: "pick_rows (concat iss) = (\<lambda>v. concat (map (\<lambda>is. pick_rows is v) iss))"
  by (rule ext) (rule pick_rows_concat)

lemma pick_rows_all: "length v = n \<Longrightarrow> pick_rows [0..<n] v = v"
  by (simp add: pick_rows_def) (metis map_nth)

lemma pick_rows_pick: "\<forall>i\<in>set is. i < length js \<Longrightarrow> pick_rows is (pick_rows js v) = pick_rows (pick_rows is js) v"
  by (simp add: pick_rows_def)

lemma dp_len_pick:
  "dp_batch dp \<noteq> None \<or> dp_non_tensor dp \<noteq> [] \<Longrightarrow> dp_len (pick is dp) = length is"
  by (cases "dp_non_tensor dp") (auto simp: dp_len_def pick_def split: option.splits)

lemma pick_columns_length:
  "\<forall>x\<in>set (map_columns (pick_rows is) cols). case x of (k, v) \<Rightarrow> length v = length is"
  by (auto simp: map_columns_def)

lemma pick_consistent:
  "mk_data_proto (dp_batch (pick is dp)) (dp_non_tensor (pick is dp)) (dp_meta (pick is dp)) = Inr (pick is dp)"
  using pick_columns_length [of "is" "dp_non_tensor dp"]
  by (auto simp: mk_data_proto_def check_consistency_def pick_def list_all_iff Let_def split: option.splits)

lemma pick_all: "dp_ok dp \<Longrightarrow> pick [0..<dp_len dp] dp = dp"
proof -
  assume ok: "dp_ok dp"
  have "map_columns (pick_rows [0..<dp_len dp]) (dp_non_tensor dp) = dp_non_tensor dp"
    using ok by (intro map_columns_ident pick_rows_all) (auto simp: dp_ok_def)
  moreover have "map_option (\<lambda>(n, cols). (length [0..<dp_len dp], map_columns (pick_rows [0..<dp_len dp]) cols)) (dp_batch dp) = dp_batch dp"
    using ok by (auto simp: dp_ok_def dp_len_def split: option.splits intro!: map_columns_ident pick_rows_all)
  ultimately show ?thesis by (simp add: pick_def)
qed

lemma pick_pick: "\<forall>i\<in>set is. i < length js \<Longrightarrow> pick is (pick js dp) = pick (pick_rows is js) dp"
  by (cases "dp_batch dp") (auto simp: pick_def map_columns_comp pick_rows_pick intro!: map_columns_cong)

lemma dp_ok_pick: "dp_ok dp \<Longrightarrow> dp_ok (pick is dp)"
  by (cases "dp_non_tensor dp")
    (auto simp: dp_ok_def pick_def dp_len_def set_map_columns split: option.splits)

text \<open>A row operation that commutes with mapping picks the rows it picks of the positions.\<close>

lemma natural_pick:
  assumes "\<And>g xs. f' (map g xs) = map g (f xs)" and "length v = n"
  shows "f' v = pick_rows (f [0..<n]) v"
  unfolding pick_rows_def using assms(1) [of "\<lambda>i. v ! i" "[0..<n]"] assms(2) by (metis map_nth)

lemma map_rows_pick:
  assumes "dp_ok dp" and "\<And>n. sz n = length (h [0..<n])"
    and "\<And>g xs. f (map g xs) = map g (h xs)" and "\<And>g xs. f' (map g xs) = map g (h xs)"
  shows "map_rows sz f f' dp = Inr (pick (h [0..<dp_len dp]) dp)"
proof -
  have "f' v = pick_rows (h [0..<dp_len dp]) v" if "(k, v) \<in> set (dp_non_tensor dp)" for k v
    by (rule natural_pick [OF assms(4)]) (use assms(1) that in \<open>auto simp: dp_ok_def\<close>)
  then have nt: "map_columns f' (dp_non_tensor dp) = map_columns (pick_rows (h [0..<dp_len dp])) (dp_non_tensor dp)"
    by (rule map_columns_cong)
  have b: "map_option (\<lambda>(n, cols). (sz n, map_columns f cols)) (dp_batch dp) =
           map_option (\<lambda>(n, cols). (length (h [0..<dp_len dp]), map_columns (pick_rows (h [0..<dp_len dp])) cols)) (dp_batch dp)"
  proof (cases "dp_batch dp")
    case (Some b)
    obtain n cols where b: "b = (n, cols)" by force
    have n: "dp_len dp = n" using Some b by (simp add: dp_len_def)
    have "f v = pick_rows (h [0..<n]) v" if "(k, v) \<in> set cols" for k v
      by (rule natural_pick [OF assms(3)]) (use assms(1) that Some b in \<open>auto simp: dp_ok_def\<close>)
    then have "map_columns f cols = map_columns (pick_rows (h [0..<n])) cols" by (rule map_columns_cong)
    then show ?thesis using Some b n assms(2) by simp
  qed simp
  have "map_rows sz f f' dp =
        mk_data_proto (dp_batch (pick (h [0..<dp_len dp]) dp)) (dp_non_tensor (pick (h [0..<dp_len dp]) dp))
          (dp_meta (pick (h [0..<dp_len dp]) dp))"
    unfolding map_rows_def b nt by (simp add: pick_def)
  then show ?thesis by (simp only: pick_consistent)
qed

lemma py_slice_map: "py_slice a b (map g xs) = map g (py_slice a b xs)"
  by (simp add: py_slice_def Let_def take_map drop_map)

lemma take_every_map: "take_every s (map g xs) = map g (take_every s xs)"
proof (induction "length xs" arbitrary: xs rule: less_induct)
  case less
  then show ?case by (cases xs) (auto simp: drop_map)
qed

lemma slice_rows_map: "slice_rows a b st (map g xs) = map g (slice_rows a b st xs)"
  by (simp add: slice_rows_def py_slice_map take_every_map split: option.splits)

lemma slice_dp_pick:
  "dp_ok dp \<Longrightarrow> st \<noteq> Some 0 \<Longrightarrow> slice_dp a b st dp = Inr (pick (slice_rows a b st [0..<dp_len dp]) dp)"
  unfolding slice_dp_def by (simp add: map_rows_pick slice_rows_map)

lemma repeat_rows_map: "repeat_rows r il (map g xs) = map g (repeat_rows r il xs)"
  by (simp add: repeat_rows_def repeat_interleave_def repeat_stack_def map_concat comp_def)

lemma length_repeat_rows [simp]: "length (repeat_rows r il xs) = length xs * r"
  by (simp add: repeat_rows_def repeat_interleave_def repeat_stack_def length_concat comp_def sum_list_replicate sum_list_triv)

lemma repeat_dp_pick: "dp_ok dp \<Longrightarrow> repeat_dp r il dp = Inr (pick (repeat_rows r il [0..<dp_len dp]) dp)"
  unfolding repeat_dp_def by (rule map_rows_pick) (auto simp: repeat_rows_map)

subsection \<open>Concatenation of picks\<close>

lemma update_present: "k \<notin> fst ` set pre \<Longrightarrow> AList.update k w (pre @ (k, x) # rest) = pre @ (k, w) # rest"
  by (induction pre) auto

lemma map_of_present: "k \<notin> fst ` set pre \<Longrightarrow> map_of (pre @ (k, x) # rest) k = Some x"
  by (induction pre) auto

lemma append_items_columns:
  "distinct (map fst pre @ map fst cols) \<Longrightarrow>
   append_items (map_columns g cols) (pre @ map_columns h cols) = Inr (pre @ map_columns (\<lambda>v. h v @ [g v]) cols)"
proof (induction cols arbitrary: pre)
  case (Cons kv cols)
  obtain k v where kv: "kv = (k, v)" by force
  have fresh: "k \<notin> fst ` set pre" using Cons.prems kv by auto
  have "append_items (map_columns g cols) ((pre @ [(k, h v @ [g v])]) @ map_columns h cols) =
        Inr ((pre @ [(k, h v @ [g v])]) @ map_columns (\<lambda>v. h v @ [g v]) cols)"
    by (rule Cons.IH) (use Cons.prems kv in auto)
  then show ?case
    by (simp add: kv map_of_present [OF fresh] update_present [OF fresh] del: map_of_append)
qed simp

lemma append_items_fold:
  "dict_ok cols \<Longrightarrow>
   fold_res append_items (map (\<lambda>i. map_columns (f i) cols) is) (map_columns h cols) =
   Inr (map_columns (\<lambda>v. h v @ map (\<lambda>i. f i v) is) cols)"
proof (induction "is" arbitrary: h)
  case Nil
  then show ?case by (simp add: map_columns_ident)
next
  case (Cons i "is")
  then show ?case
    using append_items_columns [of "[]" cols "f i" h] by (simp add: dict_ok_def)
qed

lemma list_of_dict_columns:
  assumes "dict_ok cols" and "is \<noteq> []"
  shows "list_of_dict_to_dict_of_list (map (\<lambda>i. map_columns (f i) cols) is) =
         Inr (map_columns (\<lambda>v. map (\<lambda>i. f i v) is) cols)"
proof -
  obtain i is' where is_: "is = i # is'" using assms(2) by (cases "is") auto
  have init: "map (\<lambda>(k, v). (k, [])) (map_columns (f i) cols) = map_columns (\<lambda>v. []) cols"
    by (auto simp: map_columns_def)
  have "list_of_dict_to_dict_of_list (map (\<lambda>i. map_columns (f i) cols) is) =
        fold_res append_items (map (\<lambda>i. map_columns (f i) cols) is) (map_columns (\<lambda>v. []) cols)"
    unfolding list_of_dict_to_dict_of_list_def is_ list.map list.case init ..
  then show ?thesis using append_items_fold [OF assms(1), of f "is" "\<lambda>v. []"] by simp
qed

lemma map_of_map_columns: "map_of (map_columns f cols) k = map_option f (map_of cols k)"
  by (induction cols) auto

lemma cat_batches_columns:
  assumes "dict_ok cols" and "is \<noteq> []"
  shows "cat_batches (map (\<lambda>i. (s i, map_columns (f i) cols)) is) =
         Inr (\<Sum>i\<leftarrow>is. s i, map_columns (\<lambda>v. concat (map (\<lambda>i. f i v) is)) cols)"
proof -
  obtain i is' where is_: "is = i # is'" using assms(2) by (cases "is") auto
  let ?tds = "map (\<lambda>i. (s i, map_columns (f i) cols)) is"
  have keys: "list_all (\<lambda>td'. set (map fst (snd td')) = set (map fst (snd (hd ?tds)))) ?tds"
    by (auto simp: list_all_iff is_)
  have get: "map_of (map_columns (f j) cols) k = Some (f j v)" if "(k, v) \<in> set cols" for j k v
    using that assms(1) by (simp add: map_of_map_columns dict_ok_def)
  have "map (\<lambda>(k, v). (k, concat (map (\<lambda>t. case map_of (snd t) k of Some w \<Rightarrow> w | None \<Rightarrow> []) ?tds)))
          (map_columns (f i) cols) = map_columns (\<lambda>v. concat (map (\<lambda>i. f i v) is)) cols"
    by (auto simp: map_columns_def comp_def get [unfolded map_columns_def] cong: map_cong)
  moreover have "(\<Sum>t\<leftarrow>?tds. fst t) = (\<Sum>i\<leftarrow>is. s i)" by (simp add: comp_def)
  ultimately show ?thesis using keys by (simp add: cat_batches_def is_)
qed

lemma merge_meta_first:
  "distinct (map fst (pre @ meta)) \<Longrightarrow> metrics_key \<notin> fst ` set meta \<Longrightarrow>
   merge_meta py_eq meta (ms, pre) = Inr (ms, pre @ meta)"
proof (induction meta arbitrary: pre)
  case (Cons kv meta)
  obtain k v where kv: "kv = (k, v)" by force
  have fresh: "k \<notin> fst ` set pre" using Cons.prems kv by auto
  then have "map_of pre k = None" by (simp add: map_of_eq_None_iff)
  then show ?case using Cons.IH [of "pre @ [(k, v)]"] Cons.prems fresh by (auto simp: kv update_fresh)
qed simp

lemma merge_meta_again:
  "\<forall>(k, v)\<in>set meta. map_of merged k = Some v \<and> py_eq v v \<and> k \<noteq> metrics_key \<Longrightarrow>
   merge_meta py_eq meta (ms, merged) = Inr (ms, merged)"
  by (induction meta) auto

lemma merge_all_meta_replicate:
  assumes "meta_ok py_eq dp" and "0 < c"
  shows "merge_all_meta py_eq (replicate c (dp_meta dp)) = Inr (dp_meta dp)"
proof -
  let ?m = "dp_meta dp"
  have ok: "dict_ok ?m" "metrics_key \<notin> fst ` set ?m" "\<forall>(k, v)\<in>set ?m. py_eq v v"
    using assms(1) by (auto simp: meta_ok_def)
  have first: "merge_meta py_eq ?m ([], []) = Inr ([], ?m)"
    using merge_meta_first [of "[]" ?m] ok by (simp add: dict_ok_def)
  have "\<forall>(k, v)\<in>set ?m. map_of ?m k = Some v \<and> py_eq v v \<and> k \<noteq> metrics_key"
    using ok by (auto simp: dict_ok_def image_iff)
  then have again: "fold_res (merge_meta py_eq) (replicate n ?m) ([], ?m) = Inr ([], ?m)" for n
    by (induction n) (auto simp: merge_meta_again)
  obtain n where "c = Suc n" using assms(2) by (cases c) auto
  then show ?thesis by (simp add: merge_all_meta_def first again)
qed

lemma concat_picks:
  assumes ok: "dp_ok dp" and meta: "meta_ok py_eq dp" and ne: "iss \<noteq> []"
  shows "concat_dp py_eq (map (\<lambda>is. pick is dp) iss) = Inr (pick (concat iss) dp)"
proof -
  obtain is0 rest where iss: "iss = is0 # rest" using ne by (cases iss) auto
  have nt: "list_of_dict_to_dict_of_list (map dp_non_tensor (map (\<lambda>is. pick is dp) iss)) =
        Inr (map_columns (\<lambda>v. map (\<lambda>is. pick_rows is v) iss) (dp_non_tensor dp))"
    using list_of_dict_columns [OF _ ne, of "dp_non_tensor dp" pick_rows] ok
    by (simp add: pick_def comp_def dp_ok_def)
  have metas: "merge_all_meta py_eq (map dp_meta (map (\<lambda>is. pick is dp) iss)) = Inr (dp_meta dp)"
    using merge_all_meta_replicate [OF meta, of "length iss"] ne
    by (simp add: pick_def comp_def map_replicate_const)
  have cols: "map_columns concat (map_columns (\<lambda>v. map (\<lambda>is. pick_rows is v) iss) (dp_non_tensor dp)) =
              map_columns (pick_rows (concat iss)) (dp_non_tensor dp)"
    by (simp add: map_columns_comp pick_rows_concat_fun)
  have batch: "(case dp_batch (pick is0 dp) of
               None \<Rightarrow> Inr None
             | Some td \<Rightarrow>
                 bind_res (traverse (\<lambda>d. case dp_batch d of Some td' \<Rightarrow> Inr td' | None \<Rightarrow> Inl TypeError)
                             (map (\<lambda>is. pick is dp) iss))
                   (\<lambda>tds. bind_res (cat_batches tds) (\<lambda>t. Inr (Some t)))) =
              Inr (dp_batch (pick (concat iss) dp))"
  proof (cases "dp_batch dp")
    case (Some b)
    obtain n cols where b: "b = (n, cols)" by force
    have "traverse (\<lambda>d. case dp_batch d of Some td' \<Rightarrow> Inr td' | None \<Rightarrow> Inl TypeError) (map (\<lambda>is. pick is dp) jss) =
          Inr (map (\<lambda>is. (length is, map_columns (pick_rows is) cols)) jss)" for jss
      by (induction jss) (auto simp: pick_def Some b)
    moreover have "cat_batches (map (\<lambda>is. (length is, map_columns (pick_rows is) cols)) iss) =
          Inr (length (concat iss), map_columns (pick_rows (concat iss)) cols)"
      using cat_batches_columns [OF _ ne, of cols length pick_rows] ok Some b
      by (simp add: dp_ok_def pick_rows_concat_fun length_concat)
    ultimately show ?thesis by (simp add: pick_def Some b)
  qed (simp add: pick_def)
  have "concat_dp py_eq (map (\<lambda>is. pick is dp) iss) =
        mk_data_proto (dp_batch (pick (concat iss) dp)) (map_columns (pick_rows (concat iss)) (dp_non_tensor dp)) (dp_meta dp)"
    unfolding concat_dp_def using batch nt metas cols by (simp add: iss)
  then show ?thesis using pick_consistent [of "concat iss" dp] by (simp add: pick_def)
qed

lemma concat_picks_to_all:
  assumes "dp_ok dp" "meta_ok py_eq dp" "iss \<noteq> []" "concat iss = [0..<dp_len dp]"
  shows "concat_dp py_eq (map (\<lambda>is. pick is dp) iss) = Inr dp"
  using concat_picks [OF assms(1-3)] assms(4) pick_all [OF assms(1)] by simp

subsection \<open>Chunks are picks\<close>

lemma pick_rows_take: "k \<le> length v \<Longrightarrow> pick_rows [0..<k] v = take k v"
  by (rule nth_equalityI) (auto simp: pick_rows_def)

lemma pick_rows_segment: "i + k \<le> length v \<Longrightarrow> pick_rows [i..<i + k] v = take k (drop i v)"
  by (rule nth_equalityI) (auto simp: pick_rows_def)

lemma split_sizes_equal:
  "length v = c * m \<Longrightarrow> split_sizes (replicate c m) v = map (\<lambda>i. take m (drop (i * m) v)) [0..<c]"
proof (induction c arbitrary: v)
  case (Suc c)
  have "split_sizes (replicate c m) (drop m v) = map (\<lambda>i. take m (drop (i * m) (drop m v))) [0..<c]"
    by (rule Suc.IH) (use Suc.prems in simp)
  also have "\<dots> = map (\<lambda>i. take m (drop (i * m) v)) (map Suc [0..<c])"
    by (simp add: add.commute)
  finally show ?case by (simp add: upt_conv_Cons map_Suc_upt del: upt_Suc)
qed simp

lemma split_at_sizes_equal:
  "0 < c \<Longrightarrow> length v = c * m \<Longrightarrow> split_at_sizes (replicate c m) v = split_sizes (replicate c m) v"
proof (induction c arbitrary: v)
  case (Suc c)
  show ?case
  proof (cases c)
    case 0
    then show ?thesis using Suc.prems by simp
  next
    case (Suc c')
    then show ?thesis using Suc.IH [of "drop m v"] Suc.prems by simp
  qed
qed simp

lemma split_piece:
  assumes "length v = c * m" and "i < c"
  shows "split_sizes (replicate c m) v ! i = pick_rows [i * m..<i * m + m] v"
proof -
  have "Suc i * m \<le> c * m" using assms(2) by (intro mult_le_mono1) simp
  then have "i * m + m \<le> length v" using assms(1) by simp
  then show ?thesis using assms by (simp add: split_sizes_equal pick_rows_segment)
qed

lemma chunk_picks:
  assumes ok: "dp_ok dp" and tc: "torch_chunk_law tc" and as: "torch_chunk_law asp"
    and c: "0 < c" "dp_len dp = c * m"
  shows "chunk_dp tc asp global c dp = Inr (map (\<lambda>i. pick [i * m..<i * m + m] dp) [0..<c])"
proof -
  have sizes: "sp c (dp_len dp) = replicate c m" if "torch_chunk_law sp" for sp :: splitter
    using that c by (simp add: torch_chunk_law_def)
  have nt_len: "length v = c * m" if "(k, v) \<in> set (dp_non_tensor dp)" for k v
    using ok that c(2) by (auto simp: dp_ok_def)
  define pieces where "pieces v =
    (case map_option (\<lambda>(n, cols). tc c n) (dp_batch dp) of
       Some sizes \<Rightarrow> split_at_sizes sizes v | None \<Rightarrow> split_sizes (asp c (length v)) v)" for v :: "'b list"
  have pieces: "pieces v = split_sizes (replicate c m) v" if "length v = c * m" for v
  proof (cases "dp_batch dp")
    case None
    then show ?thesis using sizes [OF as] that c(2) by (simp add: pieces_def)
  next
    case (Some b)
    then obtain n cols where b: "dp_batch dp = Some (n, cols)" by (cases b) auto
    then have "n = c * m" using c(2) by (simp add: dp_len_def)
    then show ?thesis using b sizes [OF tc] that c split_at_sizes_equal by (simp add: pieces_def)
  qed
  define lst where "lst = (case dp_batch dp of
               None \<Rightarrow> replicate c None
             | Some (n, cols) \<Rightarrow>
                 map (\<lambda>i. Some (tc c n ! i, map_columns (\<lambda>v. split_sizes (tc c n) v ! i) cols))
                   [0..<length (tc c n)])"
  have lst: "length lst = c \<and> (\<forall>i < c. lst ! i = dp_batch (pick [i * m..<i * m + m] dp))"
  proof (cases "dp_batch dp")
    case None
    then show ?thesis by (simp add: lst_def pick_def)
  next
    case (Some b)
    then obtain n cols where b: "dp_batch dp = Some (n, cols)" by (cases b) auto
    then have n: "n = c * m" using c(2) by (simp add: dp_len_def)
    have "map_columns (\<lambda>v. split_sizes (replicate c m) v ! i) cols = map_columns (pick_rows [i * m..<i * m + m]) cols"
      if "i < c" for i
      using ok b n that by (intro map_columns_cong split_piece) (auto simp: dp_ok_def)
    then show ?thesis using b n sizes [OF tc] c(2) by (simp add: lst_def pick_def)
  qed
  have nts: "map_columns (\<lambda>v. pieces v ! i) (dp_non_tensor dp) = dp_non_tensor (pick [i * m..<i * m + m] dp)" if "i < c" for i
  proof -
    have "pieces v ! i = pick_rows [i * m..<i * m + m] v" if "(k, v) \<in> set (dp_non_tensor dp)" for k v
      using pieces [OF nt_len [OF that]] split_piece [OF nt_len [OF that] \<open>i < c\<close>] by simp
    then have "map_columns (\<lambda>v. pieces v ! i) (dp_non_tensor dp) =
               map_columns (pick_rows [i * m..<i * m + m]) (dp_non_tensor dp)" by (rule map_columns_cong)
    then show ?thesis by (simp add: pick_def)
  qed
  have lens: "list_all (\<lambda>(k, v). length (pieces v) = c) (dp_non_tensor dp)"
    using nt_len pieces by (auto simp: list_all_iff split_sizes_equal)
  have "dp_len dp mod c = 0" "c \<noteq> 0" using c by simp_all
  then have "chunk_dp tc asp global c dp =
    traverse (\<lambda>i. guard_res (i < length lst) IndexError
        (mk_data_proto (lst ! i) (map_columns (\<lambda>v. pieces v ! i) (dp_non_tensor dp)) (dp_meta dp))) [0..<c]"
    unfolding chunk_dp_def Let_def lst_def [symmetric] pieces_def [symmetric] using lens by simp
  also have "\<dots> = Inr (map (\<lambda>i. pick [i * m..<i * m + m] dp) [0..<c])"
  proof (rule traverse_Inr_map)
    fix i assume "i \<in> set [0..<c]"
    then have i: "i < c" by simp
    have "dp_meta dp = dp_meta (pick [i * m..<i * m + m] dp)" by (simp add: pick_def)
    then show "guard_res (i < length lst) IndexError
        (mk_data_proto (lst ! i) (map_columns (\<lambda>v. pieces v ! i) (dp_non_tensor dp)) (dp_meta dp)) =
      Inr (pick [i * m..<i * m + m] dp)"
      using lst i nts [OF i] pick_consistent by simp
  qed
  finally show ?thesis .
qed

subsection \<open>Splits and paddings are picks\<close>

lemma slice_range:
  assumes "i \<le> n" shows "slice_rows (Some (int i)) (Some (int (i + s))) None [0..<n] = [i..<min (i + s) n]"
proof -
  have "clamp_index n (int i) = i" "clamp_index n (int (i + s)) = min (i + s) n"
    using assms by (auto simp: clamp_index_def)
  moreover have "take (min (i + s) n - i) (drop i [0..<n]) = [i..<min (i + s) n]"
    using assms by (intro nth_equalityI) auto
  ultimately show ?thesis by (simp add: slice_rows_def py_slice_def Let_def del: drop_upt)
qed

lemma slice_prefix: "slice_rows None (Some (int k)) None [0..<n] = [0..<min k n]"
  using slice_range [of 0 n k] by (simp add: slice_rows_def py_slice_def clamp_index_def Let_def)

lemma split_picks:
  assumes "dp_ok dp" and "0 < s"
  shows "split_dp s dp = Inr (map (\<lambda>i. pick [i..<min (i + s) (dp_len dp)] dp) (range_step 0 (dp_len dp) s))"
proof -
  have below: "j \<in> set (range_step i n s) \<Longrightarrow> j < n" for i j n
  proof (induction i n s rule: range_step.induct)
    case (1 i n s)
    show ?case
    proof (cases "s = 0 \<or> n \<le> i")
      case True
      then have "range_step i n s = []" by (simp add: range_step.simps [of i n s])
      then show ?thesis using "1.prems" by simp
    next
      case False
      then have "range_step i n s = i # range_step (i + s) n s" by (simp add: range_step.simps [of i n s])
      then show ?thesis using 1 False by auto
    qed
  qed
  show ?thesis
    unfolding split_dp_def using assms slice_range [of _ "dp_len dp" s]
    by (auto intro!: traverse_Inr_map simp: slice_dp_pick dest!: below)
qed

lemma concat_range_step:
  "0 < s \<Longrightarrow> i \<le> n \<Longrightarrow> concat (map (\<lambda>i. [i..<min (i + s) n]) (range_step i n s)) = [i..<n]"
proof (induction i n s rule: range_step.induct)
  case (1 i n s)
  show ?case
  proof (cases "n \<le> i")
    case True
    then have "range_step i n s = []" by (simp add: range_step.simps [of i n s])
    then show ?thesis using True by simp
  next
    case False
    have step: "range_step i n s = i # range_step (i + s) n s"
      using False 1 by (simp add: range_step.simps [of i n s])
    show ?thesis
    proof (cases "n \<le> i + s")
      case True
      then have "range_step (i + s) n s = []" by (simp add: range_step.simps [of "i + s" n s])
      then show ?thesis using True by (simp add: step min_def)
    next
      case ns: False
      have "[i..<i + s] @ [i + s..<n] = [i..<n]" using ns
        by (metis le_add1 le_add_diff_inverse nat_le_linear upt_add_eq_append)
      then show ?thesis using 1 ns False by (simp add: step min_def)
    qed
  qed
qed

lemma padding_sizes_step:
  "0 < r \<Longrightarrow> 0 < n \<Longrightarrow> padding_sizes r n = min r n # padding_sizes (r - min r n) n"
  "padding_sizes 0 n = []"
  "padding_sizes r 0 = []"
  by (simp_all add: padding_sizes.simps [of r n] padding_sizes.simps [of 0 n] padding_sizes.simps [of r 0])

lemma sum_padding_sizes: "0 < n \<Longrightarrow> sum_list (padding_sizes r n) = r"
proof (induction r n rule: padding_sizes.induct)
  case (1 r n)
  then show ?case by (cases "r = 0") (auto simp: padding_sizes_step)
qed

lemma padding_sizes_le: "s \<in> set (padding_sizes r n) \<Longrightarrow> s \<le> n"
proof (induction r n rule: padding_sizes.induct)
  case (1 r n)
  then show ?case by (cases "r = 0"; cases "n = 0") (auto simp: padding_sizes_step)
qed

lemma pad_picks:
  assumes ok: "dp_ok dp" and meta: "meta_ok py_eq dp" and d: "0 < d"
  obtains tail where "pad_dataproto_to_divisor py_eq d dp = Inr (pick ([0..<dp_len dp] @ tail) dp, length tail)"
    and "d dvd dp_len dp + length tail" and "length tail < d" and "\<forall>i\<in>set tail. i < dp_len dp"
proof (cases "dp_len dp mod d = 0")
  case True
  then show ?thesis using that [of "[]"] pick_all [OF ok] d
    by (simp add: pad_dataproto_to_divisor_def mod_eq_0_iff_dvd)
next
  case False
  let ?n = "dp_len dp" and ?pad = "d - dp_len dp mod d"
  define tail where "tail = concat (map (\<lambda>s. [0..<s]) (padding_sizes ?pad ?n))"
  have n: "0 < ?n" using False by (cases "dp_len dp") auto
  have "traverse (\<lambda>s. slice_dp None (Some (int s)) None dp) (padding_sizes ?pad ?n) =
        Inr (map (\<lambda>s. pick [0..<s] dp) (padding_sizes ?pad ?n))"
    by (rule traverse_Inr_map) (use ok padding_sizes_le in \<open>simp add: slice_dp_pick slice_prefix min_absorb1\<close>)
  moreover have "concat_dp py_eq (dp # map (\<lambda>s. pick [0..<s] dp) (padding_sizes ?pad ?n)) =
        Inr (pick ([0..<?n] @ tail) dp)"
    using concat_picks [OF ok meta, of "[0..<?n] # map (\<lambda>s. [0..<s]) (padding_sizes ?pad ?n)"] pick_all [OF ok]
    by (simp add: tail_def comp_def)
  moreover have len: "length tail = ?pad"
    using sum_padding_sizes [OF n, of ?pad] by (simp add: tail_def length_concat comp_def)
  moreover have "d dvd ?n + ?pad"
  proof -
    have "?n + ?pad = ?n div d * d + d"
      using mod_less_divisor [OF d, of ?n] div_mult_mod_eq [of ?n d] by linarith
    then show ?thesis by simp
  qed
  moreover have "?pad < d" using False d by simp
  moreover have "\<forall>i\<in>set tail. i < ?n" using padding_sizes_le by (fastforce simp: tail_def)
  ultimately show ?thesis using that [of tail] False d by (simp add: pad_dataproto_to_divisor_def Let_def)
qed

lemma unpad_pick:
  assumes "dp_ok dp" and "\<forall>i\<in>set tail. i < dp_len dp"
    and "dp_batch dp \<noteq> None \<or> dp_non_tensor dp \<noteq> []"
  shows "unpad_dataproto (length tail) (pick ([0..<dp_len dp] @ tail) dp) = Inr dp"
proof (cases "tail = []")
  case True
  then show ?thesis using pick_all [OF assms(1)] by (simp add: unpad_dataproto_def)
next
  case False
  let ?n = "dp_len dp" and ?q = "pick ([0..<dp_len dp] @ tail) dp"
  have len: "dp_len ?q = ?n + length tail" using dp_len_pick [OF assms(3)] by simp
  have "slice_dp None (Some (- int (length tail))) None ?q =
        Inr (pick (slice_rows None (Some (- int (length tail))) None [0..<dp_len ?q]) ?q)"
    by (rule slice_dp_pick) (use assms dp_ok_pick in auto)
  also have "slice_rows None (Some (- int (length tail))) None [0..<dp_len ?q] = [0..<?n]"
    using False len py_slice_drop_end [of "int (length tail)" "[0..<dp_len ?q]"]
    by (simp add: slice_rows_def take_upt)
  also have "pick [0..<?n] ?q = pick (pick_rows [0..<?n] ([0..<?n] @ tail)) dp"
    by (rule pick_pick) simp
  also have "pick_rows [0..<?n] ([0..<?n] @ tail) = [0..<?n]"
    by (simp add: pick_rows_take)
  finally show ?thesis using False pick_all [OF assms(1)] by (simp add: unpad_dataproto_def)
qed

lemma dp_len_nonempty: "0 < dp_len dp \<Longrightarrow> dp_batch dp \<noteq> None \<or> dp_non_tensor dp \<noteq> []"
  by (cases "dp_batch dp") (auto simp: dp_len_def split: list.splits)

subsection \<open>Union\<close>

lemma deep_equal_iff: "deep_equal x y \<longleftrightarrow> x = y"
  and array_equal_iff: "array_equal xs ys \<longleftrightarrow> xs = ys"
  for x y :: "'b np_obj" and xs ys :: "'b np_obj list"
  by (induction x y and xs ys rule: deep_equal_array_equal.induct) auto

lemma union_columns_Inr:
  assumes "union_columns eq ow d1 d2 = Inr d" and "dict_ok d2"
    and "\<And>v w. eq w v \<Longrightarrow> w = v"
  shows "map_of d k = (case map_of d1 k of Some v \<Rightarrow> Some v | None \<Rightarrow> map_of d2 k) \<and>
         (\<forall>v w. map_of d1 k = Some w \<longrightarrow> map_of d2 k = Some v \<longrightarrow> w = v)"
  using assms(1,2)
proof (induction d2 arbitrary: d1)
  case (Cons kv d2)
  obtain k' v' where kv: "kv = (k', v')" by force
  have d2: "dict_ok d2" "map_of d2 k' = None" using Cons.prems(2) by (auto simp: kv dict_ok_def map_of_eq_None_iff)
  show ?case
  proof (cases "map_of d1 k'")
    case None
    then have "union_columns eq ow (dict_set k' v' d1) d2 = Inr d" using Cons.prems(1) by (simp add: kv)
    from Cons.IH [OF this d2(1)] show ?thesis using None d2(2) by (auto simp: kv split: if_splits option.splits)
  next
    case (Some w)
    then have w: "w = v'" and "union_columns eq ow (if ow then dict_set k' v' d1 else d1) d2 = Inr d"
      using Cons.prems(1) assms(3) by (auto simp: kv res_simps)
    from Cons.IH [OF this(2) d2(1)] show ?thesis using Some w d2(2)
      by (auto simp: kv split: if_splits option.splits)
  qed
qed (auto split: option.splits)

lemma union_columns_error:
  assumes "dict_ok d2" and "\<And>v w. eq w v \<longleftrightarrow> w = v"
  shows "(\<exists>d. union_columns eq ow d1 d2 = Inr d) \<longleftrightarrow>
         (\<forall>k v w. map_of d1 k = Some w \<longrightarrow> map_of d2 k = Some v \<longrightarrow> w = v)"
  using assms(1)
proof (induction d2 arbitrary: d1)
  case (Cons kv d2)
  obtain k' v' where kv: "kv = (k', v')" by force
  have d2: "dict_ok d2" "map_of d2 k' = None" using Cons.prems by (auto simp: kv dict_ok_def map_of_eq_None_iff)
  show ?case
  proof (cases "map_of d1 k'")
    case None
    then show ?thesis using Cons.IH [OF d2(1)] d2(2) by (auto simp: kv split: if_splits)
  next
    case (Some w)
    let ?d1 = "if ow then dict_set k' v' d1 else d1"
    show ?thesis
    proof (cases "w = v'")
      case True
      then have same: "map_of ?d1 k = map_of d1 k" for k using Some by auto
      have "union_columns eq ow d1 (kv # d2) = union_columns eq ow ?d1 d2"
        using Some True assms(2) by (simp add: kv)
      moreover have "(\<forall>k v w. map_of d1 k = Some w \<longrightarrow> map_of (kv # d2) k = Some v \<longrightarrow> w = v) \<longleftrightarrow>
                     (\<forall>k v w. map_of d1 k = Some w \<longrightarrow> map_of d2 k = Some v \<longrightarrow> w = v)"
        using Some True d2(2) by (simp add: kv) (metis option.distinct(1) option.inject)
      ultimately show ?thesis using Cons.IH [OF d2(1), of ?d1] unfolding same by simp
    next
      case False
      then show ?thesis using Some assms(2) by (auto simp: kv)
    qed
  qed
qed simp

section \<open>The properties of the protocol\<close>

definition tensor_col :: "('a, 'b, 'm) data_proto \<Rightarrow> string \<Rightarrow> 'a list option" where
  "tensor_col dp k = (case dp_batch dp of None \<Rightarrow> None | Some (n, cols) \<Rightarrow> map_of cols k)"

text \<open>
  C6: Padding and unpadding: for a consistent, non-empty batch whose meta values equal themselves
  (and hold no metrics), padding to a divisor yields a length the divisor divides, adds fewer
  rows than the divisor, repeats existing rows only, and unpadding gives the batch back.
\<close>

theorem unpad_pad_round_trip:
  assumes "dp_ok dp" and "meta_ok py_eq dp" and "0 < d" and "0 < dp_len dp"
  shows "\<exists>padded n. pad_dataproto_to_divisor py_eq d dp = Inr (padded, n) \<and>
           dp_len padded = dp_len dp + n \<and> d dvd dp_len padded \<and> n < d \<and>
           (\<forall>k v. tensor_col padded k = Some v \<longrightarrow> (\<exists>w. tensor_col dp k = Some w \<and> set v \<subseteq> set w)) \<and>
           unpad_dataproto n padded = Inr dp"
proof -
  obtain tail where t: "pad_dataproto_to_divisor py_eq d dp = Inr (pick ([0..<dp_len dp] @ tail) dp, length tail)"
    "d dvd dp_len dp + length tail" "length tail < d" "\<forall>i\<in>set tail. i < dp_len dp"
    using pad_picks [OF assms(1-3)] .
  note ne = dp_len_nonempty [OF assms(4)]
  have len: "dp_len (pick ([0..<dp_len dp] @ tail) dp) = dp_len dp + length tail"
    using dp_len_pick [OF ne] by simp
  have "\<exists>w. tensor_col dp k = Some w \<and> set v \<subseteq> set w"
    if col: "tensor_col (pick ([0..<dp_len dp] @ tail) dp) k = Some v" for k v
  proof -
    obtain n cols w where b: "dp_batch dp = Some (n, cols)" "map_of cols k = Some w"
      and v: "v = pick_rows ([0..<dp_len dp] @ tail) w"
      using col by (auto simp: tensor_col_def pick_def map_of_map_columns split: option.splits)
    have "length w = dp_len dp"
      using assms(1) b map_of_SomeD [OF b(2)] by (auto simp: dp_ok_def dp_len_def)
    then have "set v \<subseteq> set w" using t(4) by (auto simp: v pick_rows_def)
    then show ?thesis using b by (simp add: tensor_col_def)
  qed
  then show ?thesis using t unpad_pick [OF assms(1) t(4) ne] len by auto
qed

text \<open>A batch of three rows, for the witnesses.\<close>

definition sample_dp :: "(int, nat np_obj, nat) data_proto" where
  "sample_dp = \<lparr>dp_batch = Some (3, [(''ids'', [5, 6, 7]), (''mask'', [1, 0, 1])]),
                dp_non_tensor = [(''uid'', [NpOther 0 10, NpOther 0 10, NpOther 0 11])],
                dp_meta = [(''temperature'', PyObj 1)]\<rparr>"

lemma sample_dp_ok: "dp_ok sample_dp" "meta_ok (=) sample_dp" "dp_len sample_dp = 3"
  by (auto simp: sample_dp_def dp_ok_def meta_ok_def dict_ok_def dp_len_def metrics_key_def)

lemma unpad_pad_round_trip_witness:
  "\<exists>padded n. pad_dataproto_to_divisor (=) 4 sample_dp = Inr (padded, n) \<and> 4 dvd dp_len padded \<and>
     unpad_dataproto n padded = Inr sample_dp"
  using unpad_pad_round_trip [OF sample_dp_ok(1,2), of 4] sample_dp_ok(3) by auto

text \<open>
  Chunking a consistent batch into a number of chunks that divides its length and
  concatenating the chunks gives the batch back; the chunks have equal lengths.
\<close>

theorem concat_chunk_round_trip:
  assumes "dp_ok dp" and "meta_ok py_eq dp" and "torch_chunk_law torch_chunk" and "torch_chunk_law array_split"
    and "0 < c" and "c dvd dp_len dp" and "0 < dp_len dp"
  shows "\<exists>chunks. chunk_dp torch_chunk array_split global c dp = Inr chunks \<and> length chunks = c \<and>
           (\<forall>ch\<in>set chunks. dp_len ch = dp_len dp div c) \<and> concat_dp py_eq chunks = Inr dp"
proof -
  obtain m where m: "dp_len dp = c * m" using assms(6) by (auto simp: dvd_def)
  let ?iss = "map (\<lambda>i. [i * m..<i * m + m]) [0..<c]"
  have "chunk_dp torch_chunk array_split global c dp = Inr (map (\<lambda>is. pick is dp) ?iss)"
    using chunk_picks [OF assms(1,3,4,5) m] by (simp add: comp_def)
  moreover have "concat_dp py_eq (map (\<lambda>is. pick is dp) ?iss) = Inr dp"
    by (rule concat_picks_to_all [OF assms(1,2)]) (use assms(5) m in \<open>auto simp: concat_segments\<close>)
  moreover have "\<forall>ch\<in>set (map (\<lambda>is. pick is dp) ?iss). dp_len ch = dp_len dp div c"
    using dp_len_pick [OF dp_len_nonempty [OF assms(7)]] m assms(5) by auto
  ultimately show ?thesis by (intro exI [of _ "map (\<lambda>is. pick is dp) ?iss"]) simp
qed

text \<open>Equal pieces first, the rest spread over the first ones: a splitter that satisfies the law.\<close>

definition even_split :: splitter where
  "even_split c n = map (\<lambda>i. n div c + (if i < n mod c then 1 else 0)) [0..<c]"

lemma even_split_law: "torch_chunk_law even_split"
proof -
  have "(\<Sum>i\<leftarrow>[0..<c]. if i < r then 1 else 0 :: nat) = min r c" for c r
    by (induction c) auto
  moreover have "n mod c \<le> c" if "0 < c" for n c :: nat using that by (simp add: less_imp_le)
  ultimately have "sum_list (even_split c n) = n" if "0 < c" for c n
    using that by (simp add: even_split_def sum_list_addf sum_list_triv)
  moreover have "even_split c n = replicate c (n div c)" if "c dvd n" for c n
    using that by (simp add: even_split_def map_replicate_const)
  ultimately show ?thesis by (simp add: torch_chunk_law_def)
qed

lemma concat_chunk_round_trip_witness:
  "\<exists>chunks. chunk_dp even_split even_split False 3 sample_dp = Inr chunks \<and> concat_dp (=) chunks = Inr sample_dp"
  using concat_chunk_round_trip [OF sample_dp_ok(1,2) even_split_law even_split_law, of 3] sample_dp_ok(3) by auto

text \<open>
  Splitting a non-empty consistent batch into pieces of a positive size, however the size
  divides the length, and concatenating the pieces gives the batch back.
\<close>

theorem concat_split_round_trip:
  assumes "dp_ok dp" and "meta_ok py_eq dp" and "0 < s" and "0 < dp_len dp"
  shows "\<exists>pieces. split_dp s dp = Inr pieces \<and> (\<forall>p\<in>set pieces. dp_len p \<le> s) \<and> concat_dp py_eq pieces = Inr dp"
proof -
  let ?iss = "map (\<lambda>i. [i..<min (i + s) (dp_len dp)]) (range_step 0 (dp_len dp) s)"
  have "split_dp s dp = Inr (map (\<lambda>is. pick is dp) ?iss)"
    using split_picks [OF assms(1,3)] by (simp add: comp_def)
  moreover have c: "concat ?iss = [0..<dp_len dp]" using concat_range_step [OF assms(3), of 0] by simp
  moreover have "?iss \<noteq> []"
  proof
    assume "?iss = []"
    then have "[0..<dp_len dp] = []" using c by (simp only: concat.simps)
    then show False using assms(4) by simp
  qed
  ultimately have "split_dp s dp = Inr (map (\<lambda>is. pick is dp) ?iss) \<and> concat_dp py_eq (map (\<lambda>is. pick is dp) ?iss) = Inr dp"
    using concat_picks_to_all [OF assms(1,2)] by blast
  moreover have "dp_len (pick [i..<min (i + s) (dp_len dp)] dp) \<le> s" for i
    unfolding dp_len_pick [OF dp_len_nonempty [OF assms(4)]] by auto
  then have "\<forall>p\<in>set (map (\<lambda>is. pick is dp) ?iss). dp_len p \<le> s" by auto
  ultimately show ?thesis by blast
qed

lemma concat_split_round_trip_witness:
  "\<exists>pieces. split_dp 2 sample_dp = Inr pieces \<and> concat_dp (=) pieces = Inr sample_dp"
  using concat_split_round_trip [OF sample_dp_ok(1,2), of 2] sample_dp_ok(3) by auto

lemma nth_repeat_interleave: "i < length xs * r \<Longrightarrow> repeat_interleave r xs ! i = xs ! (i div r)"
proof (induction xs arbitrary: i)
  case (Cons x xs)
  have r: "0 < r" using Cons.prems by (cases r) auto
  show ?case
  proof (cases "i < r")
    case True
    then show ?thesis by (simp add: repeat_interleave_def nth_append)
  next
    case False
    then have "repeat_interleave r (x # xs) ! i = repeat_interleave r xs ! (i - r)"
      by (simp add: repeat_interleave_def nth_append)
    also have "\<dots> = xs ! ((i - r) div r)" using Cons.prems False by (intro Cons.IH) auto
    also have "\<dots> = (x # xs) ! (i div r)" using False r by (simp add: le_div_geq)
    finally show ?thesis .
  qed
qed (simp add: repeat_interleave_def)

lemma nth_repeat_stack: "i < r * length xs \<Longrightarrow> repeat_stack r xs ! i = xs ! (i mod length xs)"
proof (induction r arbitrary: i)
  case (Suc r)
  show ?case
  proof (cases "i < length xs")
    case True
    then show ?thesis by (simp add: repeat_stack_def nth_append)
  next
    case False
    then have "repeat_stack (Suc r) xs ! i = repeat_stack r xs ! (i - length xs)"
      by (simp add: repeat_stack_def nth_append)
    also have "\<dots> = xs ! ((i - length xs) mod length xs)" using Suc.prems False by (intro Suc.IH) auto
    finally show ?thesis using False by (simp add: le_mod_geq)
  qed
qed simp

text \<open>
  Repeating: the row at position \<open>i\<close> of the repeated batch is the row \<open>i div r\<close> of
  the batch when interleaving and the row \<open>i mod n\<close> otherwise, in every tensor and every object
  array.
\<close>

theorem repeat_rows_correct:
  assumes "dp_ok dp" and "tensor_col dp k = Some rows"
  shows "\<exists>rep rows'. repeat_dp r interleave dp = Inr rep \<and> dp_ok rep \<and> tensor_col rep k = Some rows' \<and>
           length rows' = length rows * r \<and>
           (\<forall>i < length rows'. rows' ! i = rows ! (if interleave then i div r else i mod length rows))"
proof -
  let ?n = "dp_len dp"
  let ?is = "repeat_rows r interleave [0..<?n]"
  obtain n cols where b: "dp_batch dp = Some (n, cols)" "map_of cols k = Some rows"
    using assms(2) by (auto simp: tensor_col_def split: option.splits)
  then have n: "length rows = ?n" using assms(1) map_of_SomeD [OF b(2)] by (auto simp: dp_ok_def dp_len_def)
  have col: "tensor_col (pick ?is dp) k = Some (pick_rows ?is rows)"
    using b by (simp add: tensor_col_def pick_def map_of_map_columns)
  have "pick_rows ?is rows ! i = rows ! (if interleave then i div r else i mod ?n)" if i: "i < ?n * r" for i
  proof (cases interleave)
    case True
    then have "?is ! i = [0..<?n] ! (i div r)"
      using i nth_repeat_interleave [of i "[0..<?n]" r] by (simp add: repeat_rows_def)
    also have "\<dots> = i div r" using i by (simp add: less_mult_imp_div_less)
    finally show ?thesis using True i by (simp add: pick_rows_def)
  next
    case False
    have "0 < ?n" using i by (cases ?n) auto
    moreover have "?is ! i = [0..<?n] ! (i mod ?n)"
      using False i nth_repeat_stack [of i r "[0..<?n]"] by (simp add: repeat_rows_def mult.commute)
    ultimately show ?thesis using False i by (simp add: pick_rows_def)
  qed
  then show ?thesis
    using repeat_dp_pick [OF assms(1)] dp_ok_pick [OF assms(1)] col n by auto
qed

lemma repeat_rows_correct_witness:
  "\<exists>rep rows'. repeat_dp 2 True sample_dp = Inr rep \<and> tensor_col rep ''ids'' = Some rows' \<and> rows' ! 3 = 6"
proof -
  have "tensor_col sample_dp ''ids'' = Some [5, 6, 7]" by (simp add: tensor_col_def sample_dp_def)
  from repeat_rows_correct [OF sample_dp_ok(1) this, of 2 True] show ?thesis by (force simp: numeral_3_eq_3)
qed

text \<open>
  Union of two batches of the same length succeeds exactly when every key they share has
  equal values in both (tensors, object arrays and meta values alike), and then holds every
  entry of both.
\<close>

theorem union_succeeds_iff_compatible:
  assumes "dp_batch dp = Some (n, cols)" and "dp_batch other = Some (n, cols')"
    and "dict_ok cols'" and "dict_ok (dp_non_tensor other)" and "dict_ok (dp_meta other)"
    and "\<And>v w. py_eq v w \<longleftrightarrow> v = w"
  shows "((\<exists>u. union_dp py_eq dp other = Inr u) \<longleftrightarrow>
           (\<forall>k v w. map_of cols k = Some w \<longrightarrow> map_of cols' k = Some v \<longrightarrow> w = v) \<and>
           (\<forall>k v w. map_of (dp_non_tensor dp) k = Some w \<longrightarrow> map_of (dp_non_tensor other) k = Some v \<longrightarrow> w = v) \<and>
           (\<forall>k v w. map_of (dp_meta dp) k = Some w \<longrightarrow> map_of (dp_meta other) k = Some v \<longrightarrow> w = v)) \<and>
         (\<forall>u k. union_dp py_eq dp other = Inr u \<longrightarrow>
            tensor_col u k = (case map_of cols k of Some v \<Rightarrow> Some v | None \<Rightarrow> map_of cols' k))"
proof (intro conjI allI impI)
  have eqs: "array_equal w v \<longleftrightarrow> w = v" "py_eq v' w' \<longleftrightarrow> w' = v'" for w v v' w'
    using assms(6) by (auto simp: array_equal_iff)
  have "(\<exists>u. union_dp py_eq dp other = Inr u) \<longleftrightarrow>
        (\<exists>d. union_columns (=) False cols cols' = Inr d) \<and>
        (\<exists>d. union_columns array_equal True (dp_non_tensor dp) (dp_non_tensor other) = Inr d) \<and>
        (\<exists>d. union_columns (\<lambda>w v. py_eq v w) True (dp_meta dp) (dp_meta other) = Inr d)"
    using assms(1,2) by (auto simp: union_dp_def union_tensor_dict_def union_numpy_dict_def union_two_dict_def res_simps)
  then show "(\<exists>u. union_dp py_eq dp other = Inr u) \<longleftrightarrow>
           (\<forall>k v w. map_of cols k = Some w \<longrightarrow> map_of cols' k = Some v \<longrightarrow> w = v) \<and>
           (\<forall>k v w. map_of (dp_non_tensor dp) k = Some w \<longrightarrow> map_of (dp_non_tensor other) k = Some v \<longrightarrow> w = v) \<and>
           (\<forall>k v w. map_of (dp_meta dp) k = Some w \<longrightarrow> map_of (dp_meta other) k = Some v \<longrightarrow> w = v)"
    using union_columns_error [OF assms(3), of "(=)" False cols]
      union_columns_error [OF assms(4), of array_equal True "dp_non_tensor dp", OF eqs(1)]
      union_columns_error [OF assms(5), of "\<lambda>w v. py_eq v w" True "dp_meta dp", OF eqs(2)] by simp
next
  fix u k
  assume u: "union_dp py_eq dp other = Inr u"
  obtain d where d: "union_columns (=) False cols cols' = Inr d" "dp_batch u = Some (n, d)"
    using u assms(1,2) by (auto simp: union_dp_def union_tensor_dict_def res_simps)
  then show "tensor_col u k = (case map_of cols k of Some v \<Rightarrow> Some v | None \<Rightarrow> map_of cols' k)"
    using union_columns_Inr [OF d(1) assms(3), of k] by (simp add: tensor_col_def)
qed

lemma union_succeeds_iff_compatible_witness:
  "\<not> (\<exists>u. union_dp (=) sample_dp (sample_dp\<lparr>dp_batch := Some (3, [(''mask'', [1, 1, 1])])\<rparr>) = Inr u)"
proof -
  let ?other = "sample_dp\<lparr>dp_batch := Some (3, [(''mask'', [1, 1, 1])])\<rparr>"
  have 1: "dp_batch sample_dp = Some (3, [(''ids'', [5, 6, 7]), (''mask'', [1, 0, 1])])"
    and 2: "dp_batch ?other = Some (3, [(''mask'', [1, 1, 1])])" by (simp_all add: sample_dp_def)
  have ok: "dict_ok [(''mask'', [1, 1, 1 :: int])]" "dict_ok (dp_non_tensor ?other)" "dict_ok (dp_meta ?other)"
    by (simp_all add: sample_dp_def dict_ok_def)
  have "\<not> (\<forall>k v w. map_of [(''ids'', [5, 6, 7 :: int]), (''mask'', [1, 0, 1])] k = Some w \<longrightarrow>
                 map_of [(''mask'', [1, 1, 1])] k = Some v \<longrightarrow> w = v)"
    by (intro notI, drule spec [of _ "''mask''"]) simp
  then show ?thesis using union_succeeds_iff_compatible [OF 1 2 ok, of "(=)"] by blast
qed

text \<open>
  Chunking a future and resolving one of its pieces is the same as resolving the
  concatenation and taking that chunk, for every number of chunks and whatever the outcome.
\<close>

theorem future_chunk_commutes:
  assumes "i < c"
  shows "future_get tc asp global py_eq (future_chunk c (future_concat dps) ! i) =
         bind_res (concat_dp py_eq dps) (\<lambda>dp. bind_res (chunk_dp tc asp global c dp) (\<lambda>cs.
           Inr (cs ! i)))"
proof -
  have "length cs = c" if "chunk_dp tc asp global c dp = Inr cs" for dp and cs :: "('a, 'b, 'c) data_proto list"
    using that unfolding chunk_dp_def Let_def by (auto simp: res_simps dest: traverse_length)
  then have "bind_res (chunk_dp tc asp global c dp) (\<lambda>cs. guard_res (i < length cs) IndexError (Inr (cs ! i))) =
             bind_res (chunk_dp tc asp global c dp) (\<lambda>cs. Inr (cs ! i))" for dp :: "('a, 'b, 'c) data_proto"
    using assms by (cases "chunk_dp tc asp global c dp") auto
  then show ?thesis using assms by (simp add: future_get_def future_chunk_def future_concat_def)
qed

lemma future_chunk_commutes_witness:
  "future_get even_split even_split False (=) (future_chunk 3 (future_concat [sample_dp]) ! 1) =
   bind_res (concat_dp (=) [sample_dp]) (\<lambda>dp. bind_res (chunk_dp even_split even_split False 3 dp) (\<lambda>cs. Inr (cs ! 1)))"
  by (rule future_chunk_commutes) simp

end
