(* ===== verification/ProtocolType.thy ===== *)
theory ProtocolType
  imports Protocol
begin

section \<open>The type of data items\<close>

text \<open>
  Every operation of \<open>DataProto\<close> (\<open>src/verl/protocol.py\<close>) keeps its items well formed: each column has one
  value per row and no two columns share a name. The items a program can build are an inductive
  predicate with one rule for each constructor and operation; well-formedness is preserved by the rules,
  and the row operations of a well-formed item do not get stuck.
\<close>

subsection \<open>Columns of a width\<close>

definition cols_ok :: "nat \<Rightarrow> (string, 'a list) dict \<Rightarrow> bool" where
  "cols_ok n cols \<longleftrightarrow> dict_ok cols \<and> (\<forall>(k, v)\<in>set cols. length v = n)"

named_theorems cols_intros \<open>columns of a width\<close>

lemma dp_ok_cols:
  "dp_ok dp \<longleftrightarrow>
     (case dp_batch dp of None \<Rightarrow> (\<exists>n. cols_ok n (dp_non_tensor dp))
      | Some (n, cols) \<Rightarrow> cols_ok n cols \<and> cols_ok n (dp_non_tensor dp))"
  by (cases "dp_non_tensor dp") (auto simp: dp_ok_def cols_ok_def dp_len_def split: option.splits)

lemma cols_ok_Nil [simp, cols_intros]: "cols_ok n []"
  by (simp add: cols_ok_def)

lemma cols_ok_dict [cols_intros]: "cols_ok n cols \<Longrightarrow> dict_ok cols"
  by (simp add: cols_ok_def)

lemma cols_ok_filter [cols_intros]: "cols_ok n cols \<Longrightarrow> cols_ok n (dict_only ks cols)"
  by (auto simp: cols_ok_def dict_only_def dict_ok_def distinct_map_filter)

lemma cols_ok_delete [cols_intros]: "cols_ok n cols \<Longrightarrow> cols_ok n (AList.delete k cols)"
  by (auto simp: cols_ok_def dict_ok_def AList.delete_eq distinct_map_filter)

lemma set_update_subset: "set (AList.update k v d) \<subseteq> insert (k, v) (set d)"
  by (induction d) auto

lemma cols_ok_update [cols_intros]: "cols_ok n cols \<Longrightarrow> length v = n \<Longrightarrow> cols_ok n (dict_set k v cols)"
  using set_update_subset [of k v cols] by (auto simp: cols_ok_def)

lemma cols_ok_lookup: "cols_ok n cols \<Longrightarrow> map_of cols k = Some v \<Longrightarrow> length v = n"
  by (auto simp: cols_ok_def dest: map_of_SomeD)

lemma cols_ok_map [cols_intros]:
  "dict_ok cols \<Longrightarrow> (\<And>k v. (k, v) \<in> set cols \<Longrightarrow> length (f v) = n) \<Longrightarrow> cols_ok n (map_columns f cols)"
  by (auto simp: cols_ok_def set_map_columns)

text \<open>The constructor checks the object arrays of an item with a batch.\<close>

lemma mk_data_proto_ok:
  assumes "mk_data_proto b nt meta = Inr dp" and "dict_ok nt"
    and "\<And>n cols. b = Some (n, cols) \<Longrightarrow> cols_ok n cols" and "b = None \<Longrightarrow> \<exists>n. cols_ok n nt"
  shows "dp_ok dp"
  using assms by (auto simp: Let_def mk_data_proto_def check_consistency_def dp_ok_cols cols_ok_def res_simps list_all_iff split: option.splits) blast

lemma mk_data_proto_batch: "mk_data_proto b nt meta = Inr dp \<Longrightarrow> dp_batch dp = b"
  by (auto simp: mk_data_proto_def res_simps Let_def)

lemma traverse_columns:
  assumes "traverse (\<lambda>(k, v). bind_res (f v) (\<lambda>v'. Inr (k, v'))) cols = Inr cols'" and "dict_ok cols"
    and "\<And>v w. f v = Inr w \<Longrightarrow> length w = n"
  shows "cols_ok n cols'"
proof -
  have "map fst cols' = map fst cols \<and> (\<forall>(k, w)\<in>set cols'. length w = n)"
    using assms(1) by (induction cols arbitrary: cols') (auto simp: res_simps dest: assms(3))
  then show ?thesis using assms(2) by (simp add: cols_ok_def dict_ok_def)
qed

subsection \<open>Each operation\<close>

lemma split_fields_ok:
  "split_fields data ts ns = Inr (ts', ns') \<Longrightarrow> dict_ok ts \<Longrightarrow> dict_ok ns \<Longrightarrow> dict_ok ts' \<and> dict_ok ns'"
  by (induction data ts ns rule: split_fields.induct) (auto split: field_value.splits)

lemma split_fields_tensor:
  "split_fields data ts ns = Inr (ts', ns') \<Longrightarrow> ts \<noteq> [] \<or> (\<exists>k t. (k, TensorField t) \<in> set data) \<Longrightarrow> ts' \<noteq> []"
proof (induction data ts ns rule: split_fields.induct)
  case (2 k v more ts ns)
  have "dict_set k t ts \<noteq> []" for t using set_fst_update [of k t ts] by auto
  then show ?case using 2 by (auto split: field_value.splits)
qed auto

lemma common_batch_size_all:
  "common_batch_size b cols = Inr (Some n) \<Longrightarrow> (\<forall>(k, v)\<in>set cols. length v = n) \<and> (case b of None \<Rightarrow> True | Some m \<Rightarrow> m = n)"
  by (induction b cols rule: common_batch_size.induct) (auto simp: res_simps)

lemma common_batch_size_None: "common_batch_size b cols = Inr None \<Longrightarrow> cols = [] \<and> b = None"
  by (induction b cols rule: common_batch_size.induct) (auto simp: res_simps)

lemma from_dict_ok:
  assumes "from_dict ts ns meta auto = Inr dp" and "dict_ok ts" and "dict_ok ns" and "ts = [] \<Longrightarrow> \<exists>n. cols_ok n ns"
  shows "dp_ok dp"
proof -
  obtain b where b: "common_batch_size None ts = Inr b" using assms(1) by (auto simp: from_dict_def res_simps)
  show ?thesis
  proof (cases b)
    case None
    then have "ts = []" using common_batch_size_None b by blast
    then show ?thesis using assms b None by (auto simp: from_dict_def Let_def intro!: mk_data_proto_ok)
  next
    case (Some n)
    then have "cols_ok n ts" using common_batch_size_all [of None ts n] b assms(2) by (auto simp: cols_ok_def)
    then show ?thesis using assms b Some
      by (auto simp: from_dict_def Let_def tensor_dict_def res_simps intro!: mk_data_proto_ok)
  qed
qed

lemma select_dp_ok:
  assumes "select_dp bs ns ms dp = Inr dp'" and "dp_ok dp"
  shows "dp_ok dp'"
  using assms unfolding select_dp_def dp_ok_cols [of dp]
  by (auto simp: res_simps split: option.splits prod.splits intro!: mk_data_proto_ok intro: cols_intros)

lemma index_rows_length: "index_rows idx v = Inr w \<Longrightarrow> length w = index_count idx"
proof -
  have "length (filter fst (zip bs v)) = length (filter id bs)" if "length bs = length v" for bs
    using that by (induction bs v rule: list_induct2) auto
  then show "index_rows idx v = Inr w \<Longrightarrow> length w = index_count idx"
    by (auto simp: index_rows_def index_count_def res_simps traverse_length split: row_index.splits)
qed

lemma index_columns_ok: "index_columns idx cols = Inr cols' \<Longrightarrow> dict_ok cols \<Longrightarrow> cols_ok (index_count idx) cols'"
  unfolding index_columns_def by (rule traverse_columns) (auto intro: index_rows_length)

lemma sample_level_columns_ok: "sample_level_columns rs cols = Inr cols' \<Longrightarrow> dict_ok cols \<Longrightarrow> cols_ok (sum_list rs) cols'"
proof (unfold sample_level_columns_def, erule (1) traverse_columns)
  fix v w :: "'a list"
  assume "sample_level_rows rs v = Inr w"
  then have "length rs = length v" "w = concat (map2 replicate rs v)" by (auto simp: sample_level_rows_def res_simps)
  then show "length w = sum_list rs" by (induction rs v arbitrary: w rule: list_induct2) auto
qed

lemma dp_ok_dicts: "dp_ok dp \<Longrightarrow> dict_ok (dp_non_tensor dp)" "dp_ok dp \<Longrightarrow> dp_batch dp = Some (n, cols) \<Longrightarrow> dict_ok cols"
  by (auto simp: dp_ok_def)

lemma select_idxs_ok:
  assumes "select_idxs idx dp = Inr dp'" and "dp_ok dp"
  shows "dp_ok dp'"
proof -
  obtain b nt where nt: "index_columns idx (dp_non_tensor dp) = Inr nt" and mk: "mk_data_proto b nt (dp_meta dp) = Inr dp'"
    and b: "\<And>n cols. b = Some (n, cols) \<Longrightarrow> \<exists>m cols'. dp_batch dp = Some (m, cols') \<and> index_columns idx cols' = Inr cols \<and> n = index_count idx"
    using assms(1) by (fastforce simp: select_idxs_def res_simps tensor_dict_def split: option.splits prod.splits)
  have "cols_ok (index_count idx) nt" using index_columns_ok [OF nt] dp_ok_dicts(1) [OF assms(2)] by simp
  moreover have "cols_ok n cols" if "b = Some (n, cols)" for n cols
    using b [OF that] index_columns_ok dp_ok_dicts(2) [OF assms(2)] by blast
  ultimately show ?thesis using mk by (auto intro: mk_data_proto_ok cols_intros)
qed

lemma sample_level_repeat_ok:
  assumes "sample_level_repeat rs dp = Inr dp'" and "dp_ok dp"
  shows "dp_ok dp'"
proof -
  obtain b nt where nt: "sample_level_columns rs (dp_non_tensor dp) = Inr nt" and mk: "mk_data_proto b nt (dp_meta dp) = Inr dp'"
    and b: "\<And>n cols. b = Some (n, cols) \<Longrightarrow> \<exists>m cols'. dp_batch dp = Some (m, cols') \<and> sample_level_columns rs cols' = Inr cols \<and> n = sum_list rs"
    using assms(1) by (fastforce simp: sample_level_repeat_def res_simps tensor_dict_def split: option.splits prod.splits)
  have "cols_ok (sum_list rs) nt" using sample_level_columns_ok [OF nt] dp_ok_dicts(1) [OF assms(2)] by simp
  moreover have "cols_ok n cols" if "b = Some (n, cols)" for n cols
    using b [OF that] sample_level_columns_ok dp_ok_dicts(2) [OF assms(2)] by blast
  ultimately show ?thesis using mk by (auto intro: mk_data_proto_ok cols_intros)
qed

lemma reorder_dp_ok:
  assumes "reorder_dp idx dp = Inr dp'" and "dp_ok dp"
  shows "dp_ok dp'"
  using assms dp_ok_dicts [OF assms(2)]
  by (auto simp: reorder_dp_def dp_ok_cols [of dp'] res_simps index_columns_ok split: option.splits prod.splits)

lemma slice_dp_ok: "slice_dp a b st dp = Inr dp' \<Longrightarrow> dp_ok dp \<Longrightarrow> dp_ok dp'"
  using slice_dp_pick [of dp st a b] dp_ok_pick by (cases "st = Some 0") (auto simp: slice_dp_def)

lemma repeat_dp_ok: "repeat_dp r il dp = Inr dp' \<Longrightarrow> dp_ok dp \<Longrightarrow> dp_ok dp'"
  using repeat_dp_pick [of dp r il] dp_ok_pick by auto

lemma pop_keys_ok:
  "pop_keys ks d out = Inr (out', d') \<Longrightarrow> cols_ok n d \<Longrightarrow> cols_ok n out \<Longrightarrow> cols_ok n out' \<and> cols_ok n d'"
  by (induction ks d out rule: pop_keys.induct) (auto split: option.splits intro: cols_intros dest: cols_ok_lookup)

lemma pop_dp_ok:
  assumes "pop_dp bs ns ms dp = Inr (popped, dp')" and "dp_ok dp"
  shows "dp_ok popped \<and> dp_ok dp'"
proof -
  obtain ts b vs nt us meta where
    ts: "(case dp_batch dp of None \<Rightarrow> if bs = [] then Inr ([], None) else Inl AttributeError
          | Some (n, cols) \<Rightarrow> bind_res (pop_keys bs cols []) (\<lambda>(ts, more). Inr (ts, Some (n, more)))) = Inr (ts, b)"
    and vs: "pop_keys ns (dp_non_tensor dp) [] = Inr (vs, nt)"
    and popped: "from_dict ts vs us False = Inr popped" and dp': "dp' = \<lparr>dp_batch = b, dp_non_tensor = nt, dp_meta = meta\<rparr>"
    using assms(1) by (auto simp: pop_dp_def res_simps)
  have "\<exists>n. cols_ok n ts \<and> cols_ok n vs \<and> cols_ok n nt \<and> (case b of None \<Rightarrow> True | Some (m, cols) \<Rightarrow> m = n \<and> cols_ok n cols)"
  proof (cases "dp_batch dp")
    case None
    then obtain n where "cols_ok n (dp_non_tensor dp)" using assms(2) by (auto simp: dp_ok_cols)
    then show ?thesis using None ts pop_keys_ok [OF vs, of n] by (auto split: if_splits)
  next
    case (Some nc)
    then obtain n cols where nc: "dp_batch dp = Some (n, cols)" by (cases nc) auto
    then obtain more where "pop_keys bs cols [] = Inr (ts, more)" "b = Some (n, more)" using ts by (auto simp: res_simps)
    then show ?thesis using nc assms(2) pop_keys_ok [OF vs, of n] pop_keys_ok [of bs cols "[]" ts more n] by (auto simp: dp_ok_cols)
  qed
  then obtain n where n: "cols_ok n ts" "cols_ok n vs" "cols_ok n nt" "\<And>m cols. b = Some (m, cols) \<Longrightarrow> m = n \<and> cols_ok n cols"
    by fastforce
  have "dp_ok popped" using popped by (rule from_dict_ok) (use n in \<open>auto intro: cols_intros\<close>)
  moreover have "dp_ok dp'" using n(3,4) by (auto simp: dp' dp_ok_cols split: option.splits)
  ultimately show ?thesis ..
qed

lemma union_columns_ok:
  "union_columns eq ow d1 d2 = Inr d \<Longrightarrow> cols_ok n d1 \<Longrightarrow> cols_ok n d2 \<Longrightarrow> cols_ok n d"
proof (induction eq ow d1 d2 rule: union_columns.induct)
  case (2 eq ow d1 k v more)
  have "cols_ok n more" "length v = n" using 2(5) by (auto simp: cols_ok_def dict_ok_def)
  then show ?case using 2 by (auto simp: res_simps split: option.splits if_splits intro: cols_intros)
qed simp

lemma union_dp_ok:
  assumes "union_dp py_eq dp other = Inr dp'" and "dp_ok dp" and "dp_ok other"
  shows "dp_ok dp'"
  using assms
  by (auto simp: union_dp_def union_tensor_dict_def union_numpy_dict_def dp_ok_cols res_simps split: option.splits prod.splits
      dest: union_columns_ok)

text \<open>Concatenation: the batch adds up, and the constructor checks the object arrays against it.\<close>

lemma cat_batches_ok:
  assumes "cat_batches tds = Inr (m, cols)" and "\<forall>(n, cs)\<in>set tds. cols_ok n cs"
  shows "cols_ok m cols"
proof -
  obtain td more where tds: "tds = td # more" using assms(1) by (cases tds) (auto simp: cat_batches_def)
  let ?get = "\<lambda>k t. case map_of (snd t) k of Some w \<Rightarrow> w | None \<Rightarrow> []"
  have keys: "\<forall>t\<in>set tds. set (map fst (snd t)) = set (map fst (snd td))" and m: "m = (\<Sum>t\<leftarrow>tds. fst t)"
    and cols: "cols = map (\<lambda>(k, v). (k, concat (map (?get k) tds))) (snd td)"
    using assms(1) by (auto simp: cat_batches_def tds res_simps list_all_iff)
  have "length (concat (map (?get k) tds)) = m" if k: "k \<in> set (map fst (snd td))" for k
  proof -
    have "length (?get k t) = fst t" if "t \<in> set tds" for t
    proof -
      have "k \<in> fst ` set (snd t)" using keys that k by auto
      then obtain w where "map_of (snd t) k = Some w" by (metis map_of_eq_None_iff not_None_eq)
      then show ?thesis using assms(2) that cols_ok_lookup by (cases t) fastforce
    qed
    then have "map (\<lambda>t. length (?get k t)) tds = map fst tds" by simp
    then show ?thesis unfolding m length_concat map_map comp_def by (rule arg_cong)
  qed
  moreover have "dict_ok (snd td)" using assms(2) by (auto simp: tds cols_ok_def)
  ultimately show ?thesis by (auto simp: cols cols_ok_def dict_ok_def comp_def case_prod_beta' image_iff)
qed

lemma append_items_dict_ok: "append_items d out = Inr out' \<Longrightarrow> dict_ok out \<Longrightarrow> dict_ok out'"
  by (induction d out rule: append_items.induct) (auto split: option.splits)

lemma list_of_dict_dict_ok: "list_of_dict_to_dict_of_list ds = Inr d \<Longrightarrow> \<forall>d\<in>set ds. dict_ok d \<Longrightarrow> dict_ok d"
proof (cases ds)
  case (Cons e more)
  assume "list_of_dict_to_dict_of_list ds = Inr d" and ok: "\<forall>d\<in>set ds. dict_ok d"
  then have run: "fold_res append_items ds (map (\<lambda>(k, v). (k, [])) e) = Inr d" by (simp add: list_of_dict_to_dict_of_list_def Cons)
  have "dict_ok (map (\<lambda>(k, v). (k, [])) e)" using ok Cons by (simp add: dict_ok_def comp_def case_prod_beta')
  from fold_res_invariant [OF run, of dict_ok, OF this] show ?thesis using append_items_dict_ok by blast
qed (simp add: list_of_dict_to_dict_of_list_def)

lemma concat_dp_ok:
  assumes "concat_dp py_eq dps = Inr dp" and "\<forall>d\<in>set dps. dp_ok d" and "dp_batch (hd dps) \<noteq> None"
  shows "dp_ok dp"
proof -
  obtain d more where dps: "dps = d # more" using assms(1) by (cases dps) (auto simp: concat_dp_def)
  obtain tds td nt meta where tds: "traverse (\<lambda>d. case dp_batch d of Some td \<Rightarrow> Inr td | None \<Rightarrow> Inl TypeError) dps = Inr tds"
    and td: "cat_batches tds = Inr td" and nt: "list_of_dict_to_dict_of_list (map dp_non_tensor dps) = Inr nt"
    and dp: "mk_data_proto (Some td) (map_columns concat nt) meta = Inr dp"
    using assms(1,3) by (auto simp: concat_dp_def dps res_simps)
  have "\<forall>(n, cs)\<in>set tds. cols_ok n cs"
    using tds assms(2) by (induction dps arbitrary: tds) (auto simp: res_simps dp_ok_cols split: option.splits)
  moreover have "dict_ok nt" using list_of_dict_dict_ok [OF nt] assms(2) by (auto simp: dp_ok_def)
  ultimately show ?thesis using dp td cat_batches_ok [of tds] by (cases td) (auto intro!: mk_data_proto_ok)
qed

lemma traverse_member: "traverse f xs = Inr ys \<Longrightarrow> y \<in> set ys \<Longrightarrow> \<exists>x\<in>set xs. f x = Inr y"
  by (induction xs arbitrary: ys) (auto simp: res_simps)

lemma split_sizes_width:
  "i < length ss \<Longrightarrow> sum_list ss \<le> length v \<Longrightarrow> length (split_sizes ss v ! i) = ss ! i"
  by (induction ss v arbitrary: i rule: split_sizes.induct) (auto simp: nth_Cons split: nat.splits)

lemma split_sizes_same_width:
  "length v = length w \<Longrightarrow> i < length ss \<Longrightarrow> length (split_sizes ss v ! i) = length (split_sizes ss w ! i)"
  by (induction ss arbitrary: i v w) (auto simp: nth_Cons split: nat.splits)

lemma length_split_sizes: "length (split_sizes ss v) = length ss"
  by (induction ss v rule: split_sizes.induct) auto

lemma chunk_dp_ok:
  assumes run: "chunk_dp tc asp global c dp = Inr dps" and "torch_chunk_law tc" and "dp_ok dp" and "d \<in> set dps"
  shows "dp_ok d"
proof (cases "dp_batch dp")
  case None
  obtain n where n: "cols_ok n (dp_non_tensor dp)" using assms(3) None by (auto simp: dp_ok_cols)
  let ?nt = "\<lambda>i. map_columns (\<lambda>v. split_sizes (asp c (length v)) v ! i) (dp_non_tensor dp)"
  obtain i where i: "i < c" "mk_data_proto None (?nt i) (dp_meta dp) = Inr d"
    "list_all (\<lambda>(k, v). length (split_sizes (asp c (length v)) v) = c) (dp_non_tensor dp)"
    using run by (auto simp: chunk_dp_def None Let_def res_simps dest!: traverse_member [OF _ assms(4)])
  have "\<exists>m. cols_ok m (?nt i)"
  proof (cases "dp_non_tensor dp")
    case (Cons kv more)
    have "length (split_sizes (asp c (length v)) v ! i) = length (split_sizes (asp c n) (snd kv) ! i)"
      if "(k, v) \<in> set (dp_non_tensor dp)" for k v
    proof -
      have "length v = n" "length (snd kv) = n" using n that Cons by (auto simp: cols_ok_def)
      moreover have "i < length (asp c n)" using i(1,3) that calculation by (auto simp: list_all_iff length_split_sizes)
      ultimately show ?thesis using split_sizes_same_width [of v "snd kv" i "asp c n"] by simp
    qed
    then show ?thesis using n by (intro exI cols_ok_map) (auto simp: cols_ok_def)
  qed simp
  moreover have "dict_ok (dp_non_tensor dp)" using n by (rule cols_ok_dict)
  ultimately show ?thesis by (intro mk_data_proto_ok [OF i(2)]) auto
next
  case (Some nc)
  obtain n cols where nc: "dp_batch dp = Some (n, cols)" using Some by (cases nc) auto
  let ?piece = "\<lambda>v. split_sizes (tc c n) v"
  have c: "0 < c" using run by (cases c) (auto simp: chunk_dp_def nc res_simps)
  then have total: "sum_list (tc c n) = n" using assms(2) by (simp add: torch_chunk_law_def)
  obtain i nt where i: "i < length (tc c n)" "mk_data_proto (Some (tc c n ! i, map_columns (\<lambda>v. ?piece v ! i) cols)) nt (dp_meta dp) = Inr d"
    and nt: "\<exists>f. nt = map_columns f (dp_non_tensor dp)"
    using run traverse_member [OF _ assms(4)] by (fastforce simp: chunk_dp_def nc Let_def res_simps)
  have ok: "cols_ok n cols" "cols_ok n (dp_non_tensor dp)" using assms(3) by (auto simp: dp_ok_cols nc)
  have "length (?piece v ! i) = tc c n ! i" if "(k, v) \<in> set cols" for k v
    using that ok(1) i(1) total by (intro split_sizes_width) (auto simp: cols_ok_def)
  then have "cols_ok (tc c n ! i) (map_columns (\<lambda>v. ?piece v ! i) cols)" using ok(1) by (intro cols_ok_map) (auto simp: cols_ok_def)
  moreover have "dict_ok nt" using nt ok(2) by (auto simp: cols_ok_def)
  ultimately show ?thesis using i(2) by (auto intro: mk_data_proto_ok)
qed

lemma split_dp_ok: "split_dp s dp = Inr dps \<Longrightarrow> dp_ok dp \<Longrightarrow> d \<in> set dps \<Longrightarrow> dp_ok d"
  by (auto simp: split_dp_def res_simps dest!: traverse_member slice_dp_ok)

lemma pad_dp_ok:
  assumes "pad_dataproto_to_divisor py_eq d dp = Inr (dp', n)" and "dp_ok dp" and "dp_batch dp \<noteq> None"
  shows "dp_ok dp'"
proof (cases "dp_len dp mod d = 0")
  case False
  then obtain protos where "traverse (\<lambda>s. slice_dp None (Some (int s)) None dp) (padding_sizes (d - dp_len dp mod d) (dp_len dp)) = Inr protos"
    and run: "concat_dp py_eq (dp # protos) = Inr dp'"
    using assms(1) by (auto simp: pad_dataproto_to_divisor_def Let_def res_simps)
  then have "\<forall>p\<in>set protos. dp_ok p" using slice_dp_ok [OF _ assms(2)] by (auto dest!: traverse_member)
  then show ?thesis using concat_dp_ok [OF run] assms(2,3) by simp
qed (use assms in \<open>auto simp: pad_dataproto_to_divisor_def res_simps\<close>)

lemma unpad_dp_ok: "unpad_dataproto n dp = Inr dp' \<Longrightarrow> dp_ok dp \<Longrightarrow> dp_ok dp'"
  by (auto simp: unpad_dataproto_def slice_dp_ok split: if_splits)

lemma padding_dp_ok:
  assumes "padding_dp py_eq n candidate dp = Inr dp'" and "dp_ok dp" and "dp_batch dp \<noteq> None"
  shows "dp_ok dp'"
proof (cases "n = 0")
  case False
  then obtain c part padded where "select_idxs (Positions [if candidate = ''first'' then 0 else int (dp_len dp) - 1]) dp = Inr c"
    "repeat_dp n True c = Inr part" and run: "concat_dp py_eq [dp, part] = Inr padded"
    and dp': "dp' = dp\<lparr>dp_batch := dp_batch padded, dp_non_tensor := dp_non_tensor padded\<rparr>"
    using assms(1) by (auto simp: padding_dp_def res_simps)
  then have "dp_ok part" using select_idxs_ok [OF _ assms(2)] repeat_dp_ok by blast
  then have "dp_ok padded" using concat_dp_ok [OF run] assms(2,3) by simp
  then show ?thesis by (auto simp: dp_ok_cols dp' split: option.splits)
qed (use assms in \<open>simp add: padding_dp_def\<close>)

lemma item_dp_ok:
  assumes "item_dp i dp = Inr it" and "dp_ok dp"
  shows "dict_ok (it_non_tensor it) \<and> (\<forall>b. it_batch it = Some b \<longrightarrow> dict_ok b)"
proof -
  have "map fst nt = map fst cols" if "traverse (\<lambda>(k, v). bind_res (norm_index (length v) i) (\<lambda>j. Inr (k, v ! j))) cols = Inr nt"
    for nt and cols :: "(string, 'b list) dict"
    using that by (induction cols arbitrary: nt) (auto simp: res_simps)
  then show ?thesis using assms
    by (fastforce simp: item_dp_def dp_ok_def dict_ok_def res_simps comp_def case_prod_beta' split: option.splits)
qed

lemma collate_fn_ok:
  assumes "collate_fn its = Inr dp" and "\<forall>it\<in>set its. dict_ok (it_non_tensor it) \<and> (\<forall>b. it_batch it = Some b \<longrightarrow> dict_ok b)"
  shows "dp_ok dp"
proof -
  obtain bs where bs: "traverse (\<lambda>it. case it_batch it of Some b \<Rightarrow> Inr b | None \<Rightarrow> Inl TypeError) its = Inr bs"
    using assms(1) by (auto simp: collate_fn_def res_simps)
  then obtain b more nt where b: "bs = b # more" and nt: "list_of_dict_to_dict_of_list (map it_non_tensor its) = Inr nt"
    and dp: "mk_data_proto (Some (length bs, map (\<lambda>(k, v). (k, map (\<lambda>b'. the (map_of b' k)) bs)) b)) nt [] = Inr dp"
    using assms(1) by (auto simp: collate_fn_def res_simps split: list.splits)
  obtain it where "it \<in> set its" "it_batch it = Some b"
    using traverse_member [OF bs, of b] by (auto simp: b split: option.splits)
  then have "dict_ok b" using assms(2) by blast
  then have "cols_ok (length bs) (map (\<lambda>(k, v). (k, map (\<lambda>b'. the (map_of b' k)) bs)) b)"
    by (auto simp: cols_ok_def dict_ok_def comp_def case_prod_beta')
  moreover have "dict_ok nt" using list_of_dict_dict_ok [OF nt] assms(2) by auto
  ultimately show ?thesis using dp by (auto intro: mk_data_proto_ok)
qed

subsection \<open>Items a program can build\<close>

text \<open>
  One rule for each constructor and operation. Operations that concatenate are rules for items with a batch, because only then
  does the constructor compare the object arrays.
\<close>

inductive built ::
  "('m meta_value \<Rightarrow> 'm meta_value \<Rightarrow> bool) \<Rightarrow> splitter \<Rightarrow> splitter \<Rightarrow> ('a, 'b np_obj, 'm) data_proto \<Rightarrow> bool"
  for py_eq tc asp where
  built_from_dict: "from_dict ts ns meta auto_pad = Inr dp \<Longrightarrow> ts \<noteq> [] \<Longrightarrow> dict_ok ts \<Longrightarrow> dict_ok ns \<Longrightarrow> built py_eq tc asp dp"
| built_from_single: "from_single_dict data meta auto_pad = Inr dp \<Longrightarrow> (k, TensorField t) \<in> set data \<Longrightarrow> built py_eq tc asp dp"
| built_select: "built py_eq tc asp dp \<Longrightarrow> select_dp bs ns ms dp = Inr dp' \<Longrightarrow> built py_eq tc asp dp'"
| built_index: "built py_eq tc asp dp \<Longrightarrow> select_idxs idx dp = Inr dp' \<Longrightarrow> built py_eq tc asp dp'"
| built_slice: "built py_eq tc asp dp \<Longrightarrow> slice_dp a b st dp = Inr dp' \<Longrightarrow> built py_eq tc asp dp'"
| built_popped: "built py_eq tc asp dp \<Longrightarrow> pop_dp bs ns ms dp = Inr (popped, dp') \<Longrightarrow> built py_eq tc asp popped"
| built_pop: "built py_eq tc asp dp \<Longrightarrow> pop_dp bs ns ms dp = Inr (popped, dp') \<Longrightarrow> built py_eq tc asp dp'"
| built_union: "built py_eq tc asp dp \<Longrightarrow> built py_eq tc asp other \<Longrightarrow> union_dp py_eq dp other = Inr dp' \<Longrightarrow> built py_eq tc asp dp'"
| built_concat: "\<forall>d\<in>set dps. built py_eq tc asp d \<Longrightarrow> dp_batch (hd dps) \<noteq> None \<Longrightarrow> concat_dp py_eq dps = Inr dp' \<Longrightarrow> built py_eq tc asp dp'"
| built_chunk: "built py_eq tc asp dp \<Longrightarrow> chunk_dp tc asp global c dp = Inr dps \<Longrightarrow> dp' \<in> set dps \<Longrightarrow> built py_eq tc asp dp'"
| built_split: "built py_eq tc asp dp \<Longrightarrow> split_dp s dp = Inr dps \<Longrightarrow> dp' \<in> set dps \<Longrightarrow> built py_eq tc asp dp'"
| built_repeat: "built py_eq tc asp dp \<Longrightarrow> repeat_dp r il dp = Inr dp' \<Longrightarrow> built py_eq tc asp dp'"
| built_sample_level: "built py_eq tc asp dp \<Longrightarrow> sample_level_repeat rs dp = Inr dp' \<Longrightarrow> built py_eq tc asp dp'"
| built_reorder: "built py_eq tc asp dp \<Longrightarrow> reorder_dp idx dp = Inr dp' \<Longrightarrow> built py_eq tc asp dp'"
| built_pad: "built py_eq tc asp dp \<Longrightarrow> dp_batch dp \<noteq> None \<Longrightarrow> pad_dataproto_to_divisor py_eq d dp = Inr (dp', n) \<Longrightarrow> built py_eq tc asp dp'"
| built_unpad: "built py_eq tc asp dp \<Longrightarrow> unpad_dataproto n dp = Inr dp' \<Longrightarrow> built py_eq tc asp dp'"
| built_padding: "built py_eq tc asp dp \<Longrightarrow> dp_batch dp \<noteq> None \<Longrightarrow> padding_dp py_eq n candidate dp = Inr dp' \<Longrightarrow> built py_eq tc asp dp'"
| built_collate: "\<forall>it\<in>set its. \<exists>dp i. built py_eq tc asp dp \<and> item_dp i dp = Inr it \<Longrightarrow> collate_fn its = Inr dp' \<Longrightarrow> built py_eq tc asp dp'"

lemmas operations_ok =
  select_dp_ok select_idxs_ok slice_dp_ok union_dp_ok split_dp_ok repeat_dp_ok sample_level_repeat_ok reorder_dp_ok unpad_dp_ok

lemma built_dp_ok: "built py_eq tc asp dp \<Longrightarrow> torch_chunk_law tc \<Longrightarrow> dp_ok dp"
proof (induction rule: built.induct)
  case (built_from_single data meta auto_pad dp k t)
  then show ?case by (auto simp: from_single_dict_def res_simps intro!: from_dict_ok dest: split_fields_ok split_fields_tensor)
next
  case (built_concat dps dp')
  then show ?case by (intro concat_dp_ok [of py_eq dps]) auto
next
  case (built_collate its dp')
  then show ?case by (intro collate_fn_ok [of its]) (auto dest: item_dp_ok)
qed (auto intro: operations_ok from_dict_ok chunk_dp_ok pad_dp_ok padding_dp_ok dest: pop_dp_ok)

text \<open>Progress: what a row operation needs of a well-formed item.\<close>

lemma item_dp_progress:
  assumes "dp_ok dp" and "- int (dp_len dp) \<le> i" and "i < int (dp_len dp)"
  shows "\<exists>it. item_dp i dp = Inr it"
proof -
  have "\<exists>nt. traverse (\<lambda>(k, v). bind_res (norm_index (length v) i) (\<lambda>j. Inr (k, v ! j))) cols = Inr nt"
    if "\<forall>(k, v)\<in>set cols. length v = dp_len dp" for cols :: "(string, 'b list) dict"
    using that assms(2,3) by (induction cols) (auto simp: norm_index_def)
  then show ?thesis using assms by (fastforce simp: item_dp_def dp_ok_def dp_len_def norm_index_def split: option.splits)
qed

text \<open>
  C34: Every item built from dictionaries by the operations of the protocol is well formed: its columns have distinct names and
  one value per row; and then it is consistent for the constructor, every index in range yields an item, and every slice and
  repetition succeeds. Without a batch this fails for concatenation: if a later item lacks a column, the result is ragged.
\<close>

theorem built_items_well_formed:
  assumes "built py_eq tc asp dp" and "torch_chunk_law tc"
  shows "dp_ok dp \<and> check_consistency dp \<and> (\<forall>i\<in>{- int (dp_len dp)..<int (dp_len dp)}. \<exists>it. item_dp i dp = Inr it) \<and>
         (\<exists>dp'. slice_dp a b None dp = Inr dp') \<and> (\<exists>dp'. repeat_dp r il dp = Inr dp') \<and>
         (\<exists>d1 d2 d :: (nat, nat np_obj, nat) data_proto.
            dp_ok d1 \<and> dp_ok d2 \<and> concat_dp (=) [d1, d2] = Inr d \<and> \<not> dp_ok d)"
proof -
  have ok: "dp_ok dp" by (rule built_dp_ok [OF assms])
  then have "check_consistency dp" by (auto simp: check_consistency_def dp_ok_cols cols_ok_def list_all_iff split: option.splits)
  moreover have "\<exists>d :: (nat, nat np_obj, nat) data_proto.
      dp_ok \<lparr>dp_batch = None, dp_non_tensor = [(''a'', [NpFloat None]), (''b'', [NpFloat None])], dp_meta = []\<rparr> \<and>
      dp_ok \<lparr>dp_batch = None, dp_non_tensor = [(''a'', [NpFloat None])], dp_meta = []\<rparr> \<and>
      concat_dp (=) [\<lparr>dp_batch = None, dp_non_tensor = [(''a'', [NpFloat None]), (''b'', [NpFloat None])], dp_meta = []\<rparr>,
        \<lparr>dp_batch = None, dp_non_tensor = [(''a'', [NpFloat None])], dp_meta = []\<rparr>] = Inr d \<and> \<not> dp_ok d"
    by (simp add: dp_ok_def dict_ok_def dp_len_def concat_dp_def list_of_dict_to_dict_of_list_def merge_all_meta_def mk_data_proto_def
        check_consistency_def)
  ultimately show ?thesis using ok item_dp_progress slice_dp_pick [OF ok] repeat_dp_pick [OF ok] by fastforce
qed

lemma built_items_well_formed_witness:
  "\<exists>dp :: (int, nat np_obj, nat) data_proto. built (=) even_split even_split dp \<and> dp_len dp = 2 \<and> dp_ok dp"
proof -
  obtain dp :: "(int, nat np_obj, nat) data_proto" where dp: "from_dict [(''ids'', [1, 2 :: int])] [(''uid'', [NpFloat None, NpFloat (Some 1) :: nat np_obj])] [] False = Inr dp" "dp_len dp = 2"
    by (simp add: from_dict_def tensor_dict_def mk_data_proto_def check_consistency_def dp_len_def)
  then have "built (=) even_split even_split dp" by (intro built_from_dict) (auto simp: dict_ok_def)
  from built_items_well_formed [OF this even_split_law] dp(2) this show ?thesis by blast
qed

end
