(* ===== verification/Steps.thy ===== *)
theory Steps
  imports Prelude
begin

section \<open>Runs of a step relation\<close>

text \<open>
  Asynchronous components are step relations on their state, labelled with the events the rest
  of the program observes. A component states which condition its steps keep; the interface
  \<open>kept_by_steps\<close> turns it into a condition of every run.
\<close>

inductive run :: "('s \<Rightarrow> 'e \<Rightarrow> 's \<Rightarrow> bool) \<Rightarrow> 's \<Rightarrow> 'e list \<Rightarrow> 's \<Rightarrow> bool"
  for step :: "'s \<Rightarrow> 'e \<Rightarrow> 's \<Rightarrow> bool" where
  run_refl: "run step s [] s"
| run_snoc: "run step s es t \<Longrightarrow> step t e u \<Longrightarrow> run step s (es @ [e]) u"

inductive_cases run_NilE: "run step s [] t"

lemma run_Nil_iff [simp]: "run step s [] t \<longleftrightarrow> s = t"
  by (auto elim: run_NilE intro: run_refl)

lemma run_snoc_iff: "run step s (es @ [e]) u \<longleftrightarrow> (\<exists>t. run step s es t \<and> step t e u)"
  by (subst run.simps) auto

lemma run_append: "run step s es t \<Longrightarrow> run step t es' u \<Longrightarrow> run step s (es @ es') u"
proof (induction es' arbitrary: u rule: rev_induct)
  case (snoc e es')
  then show ?case by (auto simp: run_snoc_iff simp flip: append_assoc)
qed simp

lemma run_Cons: "step s e t \<Longrightarrow> run step t es u \<Longrightarrow> run step s (e # es) u"
  using run_append [of step s "[e]" t es u] run_snoc [OF run_refl, of step s e t] by simp

text \<open>An invariant relates the events so far to the state.\<close>

locale kept_by_steps =
  fixes step :: "'s \<Rightarrow> 'e \<Rightarrow> 's \<Rightarrow> bool" and good :: "'e list \<Rightarrow> 's \<Rightarrow> bool"
  assumes step_keeps: "good es s \<Longrightarrow> step s e t \<Longrightarrow> good (es @ [e]) t"
begin

lemma run_keeps: "run step s es t \<Longrightarrow> good es0 s \<Longrightarrow> good (es0 @ es) t"
proof (induction es arbitrary: t rule: rev_induct)
  case (snoc e es)
  then obtain u where "run step s es u" "step u e t" by (auto simp: run_snoc_iff)
  then have "good ((es0 @ es) @ [e]) t" using snoc.IH [of u] snoc.prems(2) step_keeps by blast
  then show ?case by simp
qed simp

lemma reach_keeps: "run step s es t \<Longrightarrow> good [] s \<Longrightarrow> good es t"
  using run_keeps [of s es t "[]"] by simp

end

end
