(* ===== verification/MessageQueue.thy ===== *)
theory MessageQueue
  imports Steps "HOL-Library.Sublist"
begin

section \<open>The message queue between rollouter and trainer\<close>

text \<open>
  Models the actor \<open>MessageQueue\<close> of
  \<open>src/verl/experimental/fully_async_policy/message_queue.py\<close>. Every method runs under the
  actor's lock, so a method is one step; only \<open>get_sample\<close> gives the lock up while it waits
  on the condition. The state records which consumers are blocked (waiting, not notified) and
  which have been notified but have not run yet. Trace events carry what was removed from the
  deque, so that the order of deliveries can be stated.
\<close>

record 'a mq =
  queue :: "'a list"
  val_queue :: "'a list"
  running :: bool
  max_queue_size :: nat
  total_produced :: nat
  total_consumed :: nat
  dropped_samples :: nat
  blocked :: "nat list"
  notified :: "nat list"

text \<open>\<open>deque(maxlen=n)\<close> rejects a negative bound; None is rejected first, also by ValueError.\<close>

definition mq_init :: "int option \<Rightarrow> 'a mq result" where
  "mq_init max_size =
     (case max_size of
        None \<Rightarrow> Inl ValueError
      | Some n \<Rightarrow>
          guard_res (0 \<le> n) ValueError
            (Inr \<lparr>queue = [], val_queue = [], running = True, max_queue_size = nat n, total_produced = 0,
                  total_consumed = 0, dropped_samples = 0, blocked = [], notified = []\<rparr>))"

definition notify_all :: "'a mq \<Rightarrow> 'a mq" where
  "notify_all s = s\<lparr>blocked := [], notified := notified s @ blocked s\<rparr>"

text \<open>The returned flag, and the dropped sample.\<close>

definition put_sample :: "'a \<Rightarrow> 'a mq \<Rightarrow> (bool \<times> 'a option \<times> 'a mq) result" where
  "put_sample x s =
     (let is_drop = max_queue_size s \<le> length (queue s)
      in if is_drop \<and> queue s = [] then Inl IndexError
         else let s1 = (if is_drop then s\<lparr>queue := tl (queue s), dropped_samples := Suc (dropped_samples s)\<rparr> else s);
                  s2 = s1\<lparr>queue := queue s1 @ [x], total_produced := Suc (total_produced s1)\<rparr>
              in Inr (\<not> is_drop, if is_drop then Some (hd (queue s)) else None, notify_all s2))"

datatype 'a get_outcome =
    Waits
  | Closed
  | Got 'a nat

text \<open>The body of \<open>get_sample\<close> from the loop test on, as run after each acquisition of the lock.\<close>

definition get_sample :: "'a mq \<Rightarrow> 'a get_outcome \<times> 'a mq" where
  "get_sample s =
     (if queue s = [] \<and> running s then (Waits, s)
      else if \<not> running s \<and> queue s = [] then (Closed, s)
      else (Got (hd (queue s)) (length (tl (queue s))),
            s\<lparr>queue := tl (queue s), total_consumed := Suc (total_consumed s)\<rparr>))"

definition get_queue_size :: "'a mq \<Rightarrow> nat" where
  "get_queue_size s = length (queue s)"

definition get_statistics :: "'a mq \<Rightarrow> (string \<times> nat) list" where
  "get_statistics s =
     [(''queue_size'', length (queue s)), (''total_produced'', total_produced s),
      (''total_consumed'', total_consumed s), (''dropped_samples'', dropped_samples s),
      (''max_queue_size'', max_queue_size s)]"

definition clear_queue :: "'a mq \<Rightarrow> 'a mq" where
  "clear_queue s = s\<lparr>queue := []\<rparr>"

definition shutdown :: "'a mq \<Rightarrow> 'a mq" where
  "shutdown s = notify_all (s\<lparr>running := False\<rparr>)"

definition put_validate :: "'a \<Rightarrow> 'a mq \<Rightarrow> 'a mq" where
  "put_validate x s = s\<lparr>val_queue := val_queue s @ [x]\<rparr>"

definition get_validate :: "'a mq \<Rightarrow> 'a option \<times> 'a mq" where
  "get_validate s =
     (case val_queue s of [] \<Rightarrow> (None, s) | x # xs \<Rightarrow> (Some x, s\<lparr>val_queue := xs\<rparr>))"

subsection \<open>Steps\<close>

datatype 'a mq_event =
    Put 'a "'a option"
  | Deliver nat 'a
  | Block nat
  | EndOfQueue nat
  | Clear "'a list"
  | Shutdown
  | PutVal 'a
  | GetVal "'a option"

text \<open>A consumer \<open>c\<close> runs \<open>get_sample\<close>: as a new call, or when woken after a notification.\<close>

definition consumer_enters :: "nat \<Rightarrow> 'a mq \<Rightarrow> 'a mq \<Rightarrow> bool" where
  "consumer_enters c s s' \<longleftrightarrow>
     (c \<notin> set (blocked s) \<and> c \<notin> set (notified s) \<and> s' = s) \<or>
     (c \<in> set (notified s) \<and> s' = s\<lparr>notified := remove1 c (notified s)\<rparr>)"

inductive mq_step :: "'a mq \<Rightarrow> 'a mq_event \<Rightarrow> 'a mq \<Rightarrow> bool" where
  step_put: "put_sample x s = Inr (ok, d, s') \<Longrightarrow> mq_step s (Put x d) s'"
| step_got: "consumer_enters c s s1 \<Longrightarrow> get_sample s1 = (Got x n, s') \<Longrightarrow> mq_step s (Deliver c x) s'"
| step_wait: "consumer_enters c s s1 \<Longrightarrow> get_sample s1 = (Waits, s2) \<Longrightarrow>
    mq_step s (Block c) (s2\<lparr>blocked := blocked s2 @ [c]\<rparr>)"
| step_end: "consumer_enters c s s1 \<Longrightarrow> get_sample s1 = (Closed, s') \<Longrightarrow> mq_step s (EndOfQueue c) s'"
| step_clear: "mq_step s (Clear (queue s)) (clear_queue s)"
| step_shutdown: "mq_step s Shutdown (shutdown s)"
| step_put_val: "mq_step s (PutVal x) (put_validate x s)"
| step_get_val: "get_validate s = (r, s') \<Longrightarrow> mq_step s (GetVal r) s'"

inductive_cases mq_stepE: "mq_step s e s'"

subsection \<open>What the events say\<close>

text \<open>Samples put, samples that left the deque in the order they left it, and samples delivered.\<close>

definition puts_of :: "'a mq_event list \<Rightarrow> 'a list" where
  "puts_of es = concat (map (\<lambda>e. case e of Put x d \<Rightarrow> [x] | _ \<Rightarrow> []) es)"

definition removed_of :: "'a mq_event list \<Rightarrow> 'a list" where
  "removed_of es = concat (map (\<lambda>e. case e of Put x (Some d) \<Rightarrow> [d] | Deliver c x \<Rightarrow> [x] | Clear xs \<Rightarrow> xs | _ \<Rightarrow> []) es)"

definition delivered_of :: "'a mq_event list \<Rightarrow> 'a list" where
  "delivered_of es = concat (map (\<lambda>e. case e of Deliver c x \<Rightarrow> [x] | _ \<Rightarrow> []) es)"

definition dropped_of :: "'a mq_event list \<Rightarrow> 'a list" where
  "dropped_of es = concat (map (\<lambda>e. case e of Put x (Some d) \<Rightarrow> [d] | _ \<Rightarrow> []) es)"

definition cleared_of :: "'a mq_event list \<Rightarrow> 'a list" where
  "cleared_of es = concat (map (\<lambda>e. case e of Clear xs \<Rightarrow> xs | _ \<Rightarrow> []) es)"

lemmas trace_defs = puts_of_def removed_of_def delivered_of_def dropped_of_def cleared_of_def

definition mq_good :: "nat \<Rightarrow> 'a mq_event list \<Rightarrow> 'a mq \<Rightarrow> bool" where
  "mq_good m es s \<longleftrightarrow>
     max_queue_size s = m \<and> length (queue s) \<le> m \<and>
     puts_of es = removed_of es @ queue s \<and>
     total_produced s = length (puts_of es) \<and> total_consumed s = length (delivered_of es) \<and>
     dropped_samples s = length (dropped_of es) \<and>
     length (removed_of es) = length (delivered_of es) + length (dropped_of es) + length (cleared_of es) \<and>
     subseq (delivered_of es) (removed_of es) \<and>
     (blocked s \<noteq> [] \<longrightarrow> queue s = [] \<and> running s) \<and>
     (running s \<longleftrightarrow> Shutdown \<notin> set es)"

lemma consumer_enters_fields:
  "consumer_enters c s s' \<Longrightarrow>
   queue s' = queue s \<and> running s' = running s \<and> max_queue_size s' = max_queue_size s \<and>
   total_produced s' = total_produced s \<and> total_consumed s' = total_consumed s \<and>
   dropped_samples s' = dropped_samples s \<and> blocked s' = blocked s"
  by (auto simp: consumer_enters_def)

lemma mq_good_step: "mq_good m es s \<Longrightarrow> mq_step s e s' \<Longrightarrow> mq_good m (es @ [e]) s'"
proof (erule mq_stepE, goal_cases)
  case (1 x ok d)
  then show ?case
    by (cases "queue s")
      (auto simp: mq_good_def trace_defs put_sample_def notify_all_def Let_def split: if_splits intro: subseq_rev_drop_many)
next
  case (2 c s1 x n)
  then show ?case
    using consumer_enters_fields [OF 2(3)]
    by (cases "queue s")
      (auto simp: mq_good_def trace_defs get_sample_def split: if_splits intro!: list_emb_append_mono)
next
  case (3 c s1 s2)
  then show ?case
    using consumer_enters_fields [OF 3(4)] by (auto simp: mq_good_def trace_defs get_sample_def split: if_splits)
next
  case (4 c s1)
  then show ?case
    using consumer_enters_fields [OF 4(3)] by (auto simp: mq_good_def trace_defs get_sample_def split: if_splits)
next
  case 5
  then show ?case by (auto simp: mq_good_def trace_defs clear_queue_def intro: subseq_rev_drop_many)
next
  case 6
  then show ?case by (auto simp: mq_good_def trace_defs shutdown_def notify_all_def)
next
  case (7 x)
  then show ?case by (auto simp: mq_good_def trace_defs put_validate_def)
next
  case (8 r)
  then show ?case by (auto simp: mq_good_def trace_defs get_validate_def split: list.splits)
qed

interpretation mq: kept_by_steps mq_step "mq_good m" for m
  by unfold_locales (rule mq_good_step)

lemma mq_good_init: "mq_init (Some (int m)) = Inr s \<Longrightarrow> mq_good m [] s"
  by (auto simp: mq_init_def mq_good_def trace_defs)

lemma reachable_good:
  assumes "mq_init (Some (int m)) = Inr s0" and "run mq_step s0 es s"
  shows "mq_good m es s"
  by (rule mq.reach_keeps [OF assms(2) mq_good_init [OF assms(1)]])

lemma consumer_can_enter:
  assumes "c \<notin> set (blocked s)"
  obtains s1 where "consumer_enters c s s1"
  using assms by (cases "c \<in> set (notified s)") (auto simp: consumer_enters_def)

text \<open>A consumer that is not blocked takes the oldest sample when there is one.\<close>

lemma consumer_takes_oldest:
  assumes "c \<notin> set (blocked s)" and "queue s = x # xs"
  shows "\<exists>s'. mq_step s (Deliver c x) s' \<and> queue s' = xs \<and> running s' = running s \<and> blocked s' = blocked s"
proof -
  obtain s1 where e: "consumer_enters c s s1" using consumer_can_enter [OF assms(1)] .
  note f = consumer_enters_fields [OF e]
  have "get_sample s1 = (Got x (length xs), s1\<lparr>queue := xs, total_consumed := Suc (total_consumed s1)\<rparr>)"
    using f assms(2) by (simp add: get_sample_def)
  from step_got [OF e this] f show ?thesis by (intro exI) auto
qed

subsection \<open>The properties of the queue\<close>

text \<open>
  C7: The queue is first-in first-out and bounded: in every run, the samples put are, in order,
  the samples removed (delivered, dropped as the oldest, or cleared) followed by the content of
  the deque; the deliveries keep that order; and the deque never exceeds its bound.
\<close>

theorem queue_is_fifo_and_bounded:
  assumes "mq_init (Some (int m)) = Inr s0" and "run mq_step s0 es s"
  shows "puts_of es = removed_of es @ queue s \<and> subseq (delivered_of es) (puts_of es) \<and> length (queue s) \<le> m"
  using reachable_good [OF assms] by (auto simp: mq_good_def intro: subseq_rev_drop_many)

definition sample_mq :: "nat mq" where
  "sample_mq = \<lparr>queue = [], val_queue = [], running = True, max_queue_size = 1, total_produced = 0,
                total_consumed = 0, dropped_samples = 0, blocked = [], notified = []\<rparr>"

lemma sample_mq_init: "mq_init (Some (int 1)) = Inr sample_mq"
  by (simp add: mq_init_def sample_mq_def)

text \<open>One consumer waits, is woken by the first put, a second put drops the oldest sample.\<close>

lemma sample_mq_run:
  "run mq_step sample_mq [Block 7, Put 10 None, Put 11 (Some 10), Deliver 7 11]
     (sample_mq\<lparr>total_produced := 2, total_consumed := 1, dropped_samples := 1\<rparr>)"
proof -
  have 1: "mq_step sample_mq (Block 7) (sample_mq\<lparr>blocked := [7]\<rparr>)"
    using step_wait [of 7 sample_mq sample_mq sample_mq]
    by (simp add: consumer_enters_def get_sample_def sample_mq_def)
  have 2: "mq_step (sample_mq\<lparr>blocked := [7]\<rparr>) (Put 10 None)
             (sample_mq\<lparr>queue := [10], total_produced := 1, notified := [7]\<rparr>)"
    by (rule step_put [of _ _ True]) (simp add: put_sample_def notify_all_def sample_mq_def)
  have 3: "mq_step (sample_mq\<lparr>queue := [10], total_produced := 1, notified := [7]\<rparr>) (Put 11 (Some 10))
             (sample_mq\<lparr>queue := [11], total_produced := 2, dropped_samples := 1, notified := [7]\<rparr>)"
    by (rule step_put [of _ _ False]) (simp add: put_sample_def notify_all_def sample_mq_def)
  have 4: "mq_step (sample_mq\<lparr>queue := [11], total_produced := 2, dropped_samples := 1, notified := [7]\<rparr>) (Deliver 7 11)
             (sample_mq\<lparr>total_produced := 2, total_consumed := 1, dropped_samples := 1\<rparr>)"
    by (rule step_got [of _ _ "sample_mq\<lparr>queue := [11], total_produced := 2, dropped_samples := 1\<rparr>" _ 0])
      (simp_all add: consumer_enters_def get_sample_def sample_mq_def)
  show ?thesis by (rule run_Cons, rule 1, rule run_Cons, rule 2, rule run_Cons, rule 3, rule run_Cons, rule 4, rule run_refl)
qed

lemma queue_is_fifo_and_bounded_witness:
  "puts_of [Block 7, Put 10 None, Put 11 (Some 10), Deliver 7 (11 :: nat)] = [10, 11] \<and>
   subseq (delivered_of [Block 7, Put 10 None, Put 11 (Some 10), Deliver 7 (11 :: nat)]) [10, 11]"
  using queue_is_fifo_and_bounded [OF sample_mq_init sample_mq_run] by (simp add: trace_defs)

text \<open>
  The statistics account for every sample: produced samples are the consumed, the dropped,
  the cleared and the queued ones, and the counters count the events they are named after.
\<close>

theorem statistics_account_for_samples:
  assumes "mq_init (Some (int m)) = Inr s0" and "run mq_step s0 es s"
  shows "total_produced s = total_consumed s + dropped_samples s + length (cleared_of es) + get_queue_size s \<and>
         total_produced s = length (puts_of es) \<and> total_consumed s = length (delivered_of es) \<and>
         dropped_samples s = length (dropped_of es)"
  using reachable_good [OF assms] by (auto simp: mq_good_def get_queue_size_def)

lemma statistics_account_for_samples_witness:
  "length (puts_of [Block 7, Put 10 None, Put 11 (Some 10), Deliver 7 (11 :: nat)]) = 2"
  using statistics_account_for_samples [OF sample_mq_init sample_mq_run] by simp

text \<open>
  C8: No wake-up is lost and shutdown releases the consumers: a blocked consumer means an empty,
  running queue; while samples are queued every consumer that calls takes the oldest one; after a
  shutdown nobody blocks again, remaining samples are still delivered, and a consumer of the
  empty queue is told that it ended.
\<close>

theorem no_lost_wakeup:
  assumes "mq_init (Some (int m)) = Inr s0" and "run mq_step s0 es s"
  shows "(blocked s \<noteq> [] \<longrightarrow> queue s = [] \<and> Shutdown \<notin> set es) \<and>
         (\<forall>c x xs. queue s = x # xs \<longrightarrow> (\<exists>s'. mq_step s (Deliver c x) s' \<and> queue s' = xs)) \<and>
         (Shutdown \<in> set es \<longrightarrow>
            (\<forall>c s'. \<not> mq_step s (Block c) s') \<and> (\<forall>c. queue s = [] \<longrightarrow> (\<exists>s'. mq_step s (EndOfQueue c) s')))"
proof -
  have good: "blocked s \<noteq> [] \<longrightarrow> queue s = [] \<and> running s" "running s \<longleftrightarrow> Shutdown \<notin> set es"
    using reachable_good [OF assms] by (auto simp: mq_good_def)
  have take: "\<exists>s'. mq_step s (Deliver c x) s' \<and> queue s' = xs" if "queue s = x # xs" for c x xs
    using consumer_takes_oldest [of c s x xs] that good(1) by auto
  have wait: "\<not> mq_step s (Block c) s'" if "\<not> running s" for c s'
    using that by (auto elim!: mq_stepE dest: consumer_enters_fields simp: get_sample_def split: if_splits)
  have ends: "\<exists>s'. mq_step s (EndOfQueue c) s'" if "\<not> running s" "queue s = []" for c
  proof -
    have "c \<notin> set (blocked s)" using good(1) that(1) by auto
    then obtain s1 where e: "consumer_enters c s s1" using consumer_can_enter by blast
    then have "get_sample s1 = (Closed, s1)"
      using consumer_enters_fields [OF e] that by (simp add: get_sample_def)
    then show ?thesis using step_end [OF e] by blast
  qed
  show ?thesis using good take wait ends by blast
qed

lemma no_lost_wakeup_witness:
  "\<exists>s'. mq_step (sample_mq\<lparr>total_produced := 2, total_consumed := 1, dropped_samples := 1, running := False\<rparr>) (EndOfQueue 3) s'"
proof -
  have "mq_step (sample_mq\<lparr>total_produced := 2, total_consumed := 1, dropped_samples := 1\<rparr>) Shutdown
          (sample_mq\<lparr>total_produced := 2, total_consumed := 1, dropped_samples := 1, running := False\<rparr>)"
    using step_shutdown [of "sample_mq\<lparr>total_produced := 2, total_consumed := 1, dropped_samples := 1\<rparr>"]
    by (simp add: shutdown_def notify_all_def sample_mq_def)
  from no_lost_wakeup [OF sample_mq_init run_snoc [OF sample_mq_run this]]
  show ?thesis by (simp add: sample_mq_def)
qed

end
