(* ===== verification/FullyAsync.thy ===== *)
theory FullyAsync
  imports MessageQueue
begin

section \<open>The rollouter of fully asynchronous training\<close>

text \<open>
  Models \<open>FullyAsyncRollouter\<close> of
  \<open>src/verl/experimental/fully_async_policy/fully_async_rollouter.py\<close> together with the message queue and
  the trainer that collects from it. Every stretch of a coroutine between two suspension points is a step: the feeder,
  the processor with its pauses and drains, the tasks that generate, the monitor, the reset of the staleness
  counter (the count of the tasks, the answer of the queue, the new value), and the trainer (\<open>_get_samples_from_queue\<close>
  of \<open>fully_async_trainer.py\<close>). Samples are numbered by the step that feeds them; None is the end
  signal. A generation can fail at any time, and so can the feeder; the error ends the processor, and the end
  signal is sent all the same. Generation, logging and time are left out.
\<close>

subsection \<open>Limits\<close>

text \<open>The product with the threshold is a float that \<open>int\<close> truncates.\<close>

definition max_required :: "nat \<Rightarrow> real \<Rightarrow> nat \<Rightarrow> nat" where
  "max_required required threshold sync = nat \<lfloor>real required * (threshold + 1) * real sync\<rfloor>"

definition total_train_steps :: "nat \<Rightarrow> nat \<Rightarrow> nat \<Rightarrow> nat result" where
  "total_train_steps rollout_steps required sync = guard_res (required * sync \<noteq> 0) ZeroDivisionError (Inr (rollout_steps div (required * sync)))"

definition max_concurrent :: "nat \<Rightarrow> nat \<Rightarrow> nat" where
  "max_concurrent replicas limit = min (replicas * 16) limit"

text \<open>The constants of a run: the last step to feed, the two limits, and the samples between two synchronizations.\<close>

record rollout_limits =
  rollout_steps :: nat
  required_limit :: nat
  concurrent_limit :: nat
  sync_samples :: nat

definition set_max_required_samples ::
  "nat \<Rightarrow> nat \<Rightarrow> real \<Rightarrow> nat \<Rightarrow> nat \<Rightarrow> (rollout_limits \<times> nat) result" where
  "set_max_required_samples steps required threshold sync replicas =
     bind_res (total_train_steps steps required sync) (\<lambda>train_steps.
       let m = max_required required threshold sync
       in Inr (\<lparr>rollout_steps = steps, required_limit = m, concurrent_limit = max_concurrent replicas m,
                sync_samples = required * sync\<rparr>, train_steps))"

subsection \<open>State\<close>

text \<open>The feeder feeds, is about to send the end signal, has sent it, has failed, or was cancelled.\<close>

datatype feeder = Feeding | Closing | Closed_feed | Failed_feed | Cancelled_feed

text \<open>
  Where the processor is: at the top of its loop, with the size of the queue it asked for, about to pause, draining, waiting
  for a sample, with a sample to submit, awaiting the last tasks, after its loop, ended by an error or cancelled, and after
  the end signal was sent.
\<close>

datatype processor =
    Top
  | Asked nat
  | Pausing
  | Draining
  | Fetching
  | Holding nat
  | Ending
  | Ended
  | Crashed
  | Stopped

text \<open>A task generates, has put its sample, has returned, or has raised an error; it is listed until the processor reaps it.\<close>

datatype task = Generating | Published bool | Returned | Failed

record rollouter =
  ro_step_count :: nat
  items_left :: nat
  feeder :: feeder
  pending :: "nat option list"
  processor :: processor
  active_tasks :: "(nat \<times> task) list"
  staleness_samples :: nat
  paused :: bool
  resume_event :: bool
  lock_taken :: bool
  reset_tasks :: nat
  reset_answer :: "nat option"
  generated_samples :: nat
  dropped_stale :: nat
  processed_count :: nat
  samples :: "nat option mq"
  collected_since :: nat
  trainer_stopped :: bool

definition should_pause :: "rollout_limits \<Rightarrow> nat \<Rightarrow> rollouter \<Rightarrow> bool" where
  "should_pause cfg queue_size s \<longleftrightarrow> required_limit cfg \<le> queue_size \<or> required_limit cfg \<le> staleness_samples s"

definition new_rollouter :: "nat \<Rightarrow> nat \<Rightarrow> nat option mq \<Rightarrow> rollouter" where
  "new_rollouter first_step items q =
     \<lparr>ro_step_count = first_step, items_left = items, feeder = Feeding, pending = [], processor = Top, active_tasks = [],
      staleness_samples = 0, paused = False, resume_event = True, lock_taken = False, reset_tasks = 0,
      reset_answer = None, generated_samples = 0,
      dropped_stale = 0, processed_count = 0, samples = q, collected_since = 0, trainer_stopped = False\<rparr>"

definition queue_bound :: nat where
  "queue_bound = 128"

text \<open>The statistics of the rollouter.\<close>

definition rollouter_statistics :: "rollout_limits \<Rightarrow> rollouter \<Rightarrow> (string \<times> nat) list" where
  "rollouter_statistics cfg s =
     [(''monitor/active_tasks_size'', length (active_tasks s)),
      (''monitor/queue/pending_queue_size'', length (pending s)),
      (''monitor/queue/mq_queue_size'', length (queue (samples s))),
      (''count/total_generated_samples'', generated_samples s),
      (''count/staleness_samples'', staleness_samples s),
      (''count/dropped_stale_samples'', dropped_stale s),
      (''static/max_required_samples'', required_limit cfg),
      (''static/max_queue_size'', required_limit cfg),
      (''static/max_concurrent_samples'', concurrent_limit cfg)]"

subsection \<open>Operations\<close>

text \<open>Feeding one item: the step is the last one if the counter has reached the number of steps.\<close>

definition feed_sample :: "rollout_limits \<Rightarrow> rollouter \<Rightarrow> rollouter" where
  "feed_sample cfg s =
     (let s1 = s\<lparr>items_left := items_left s - 1, pending := pending s @ [Some (ro_step_count s)]\<rparr>
      in if rollout_steps cfg \<le> ro_step_count s then s1\<lparr>feeder := Closing\<rparr> else s1\<lparr>ro_step_count := ro_step_count s + 1\<rparr>)"

definition take_pending :: "rollouter \<Rightarrow> nat option \<Rightarrow> nat option list \<Rightarrow> rollouter" where
  "take_pending s x later =
     s\<lparr>pending := later, staleness_samples := staleness_samples s + 1,
       processor := (case x of None \<Rightarrow> Ending | Some i \<Rightarrow> Holding i)\<rparr>"

definition reap :: "(nat \<times> task) list \<Rightarrow> (nat \<times> task) list" where
  "reap ts = filter (\<lambda>(i, t). t \<noteq> Returned \<and> t \<noteq> Failed) ts"

definition any_failed :: "(nat \<times> task) list \<Rightarrow> bool" where
  "any_failed ts = list_ex (\<lambda>(i, t). t = Failed) ts"

definition submit_task :: "nat \<Rightarrow> rollouter \<Rightarrow> rollouter" where
  "submit_task i s = s\<lparr>active_tasks := active_tasks s @ [(i, Generating)], processor := Top\<rparr>"

definition return_task :: "nat \<Rightarrow> bool \<Rightarrow> rollouter \<Rightarrow> rollouter" where
  "return_task n ok s =
     s\<lparr>active_tasks := (active_tasks s)[n := (fst (active_tasks s ! n), Returned)],
       generated_samples := generated_samples s + (if ok then 1 else 0),
       dropped_stale := dropped_stale s + (if ok then 0 else 1), processed_count := processed_count s + 1\<rparr>"

text \<open>
  The reset resumes the processor and counts the listed tasks, then asks the queue for its size, and sets the counter
  to the sum when it has the answer.
\<close>

definition begin_reset :: "rollouter \<Rightarrow> rollouter" where
  "begin_reset s =
     s\<lparr>lock_taken := True, paused := False, resume_event := True, reset_tasks := length (active_tasks s), reset_answer := None\<rparr>"

definition answer_reset :: "rollouter \<Rightarrow> rollouter" where
  "answer_reset s = s\<lparr>reset_answer := Some (get_queue_size (samples s))\<rparr>"

definition end_reset :: "nat \<Rightarrow> rollouter \<Rightarrow> rollouter" where
  "end_reset n s = s\<lparr>lock_taken := False, reset_answer := None, staleness_samples := reset_tasks s + n, collected_since := 0\<rparr>"

definition monitor_resumes :: "rollouter \<Rightarrow> rollouter" where
  "monitor_resumes s = s\<lparr>paused := False, resume_event := True\<rparr>"

text \<open>The trainer counts what it collects and stops at the end signal.\<close>

definition collect_sample :: "nat option \<Rightarrow> nat option mq \<Rightarrow> rollouter \<Rightarrow> rollouter" where
  "collect_sample x q s =
     (if x = None then s\<lparr>samples := q, trainer_stopped := True\<rparr> else s\<lparr>samples := q, collected_since := collected_since s + 1\<rparr>)"

text \<open>Where the samples of the processor are; the end signal it has taken counts as held until it is sent on.\<close>

definition held :: "rollouter \<Rightarrow> nat option list" where
  "held s = (case processor s of Holding i \<Rightarrow> [Some i] | Ending \<Rightarrow> [None] | Ended \<Rightarrow> [None] | _ \<Rightarrow> [])"

text \<open>The processor waits for tasks to end: for a free place, or for the last ones.\<close>

definition reaping :: "rollout_limits \<Rightarrow> rollouter \<Rightarrow> bool" where
  "reaping cfg s =
     (case processor s of Holding i \<Rightarrow> concurrent_limit cfg \<le> length (active_tasks s) | Ending \<Rightarrow> True | _ \<Rightarrow> False)"

text \<open>The main coroutine ends after the processor, or, when that has ended by an error, after the feeder too.\<close>

definition main_ends :: "rollouter \<Rightarrow> bool" where
  "main_ends s \<longleftrightarrow> processor s = Ended \<or> processor s = Crashed \<and> feeder s \<noteq> Feeding \<and> feeder s \<noteq> Closing"

subsection \<open>Steps\<close>

text \<open>A crash loses what the processor holds.\<close>

datatype ro_event =
    Fed "nat option"
  | Taken "nat option"
  | Put_sample "nat option" "nat option option"
  | Collected "nat option"
  | Synchronized
  | Task_failed nat
  | Feed_failed
  | Crash "nat option list"
  | Silent

inductive ro_step :: "rollout_limits \<Rightarrow> rollouter \<Rightarrow> ro_event \<Rightarrow> rollouter \<Rightarrow> bool" for cfg where
  ro_feed: "feeder s = Feeding \<Longrightarrow> 0 < items_left s \<Longrightarrow> length (pending s) < queue_bound \<Longrightarrow>
    ro_step cfg s (Fed (Some (ro_step_count s))) (feed_sample cfg s)"
| ro_exhausted: "feeder s = Feeding \<Longrightarrow> items_left s = 0 \<Longrightarrow> ro_step cfg s Silent (s\<lparr>feeder := Closing\<rparr>)"
| ro_close: "feeder s = Closing \<Longrightarrow> length (pending s) < queue_bound \<Longrightarrow>
    ro_step cfg s (Fed None) (s\<lparr>feeder := Closed_feed, pending := pending s @ [None]\<rparr>)"
| ro_feed_fails: "feeder s = Feeding \<Longrightarrow> ro_step cfg s Feed_failed (s\<lparr>feeder := Failed_feed\<rparr>)"
| ro_ask: "processor s = Top \<Longrightarrow> \<not> paused s \<Longrightarrow> ro_step cfg s Silent (s\<lparr>processor := Asked (length (queue (samples s)))\<rparr>)"
| ro_go: "processor s = Asked n \<Longrightarrow> \<not> should_pause cfg n s \<Longrightarrow> ro_step cfg s Silent (s\<lparr>processor := Fetching\<rparr>)"
| ro_must_pause: "processor s = Top \<and> paused s \<or> processor s = Asked n \<and> should_pause cfg n s \<Longrightarrow>
    ro_step cfg s Silent (s\<lparr>processor := Pausing\<rparr>)"
| ro_pause: "processor s = Pausing \<Longrightarrow> \<not> lock_taken s \<Longrightarrow>
    ro_step cfg s Silent (s\<lparr>processor := Draining, paused := True, resume_event := False\<rparr>)"
| ro_drain: "processor s = Draining \<Longrightarrow> \<not> lock_taken s \<Longrightarrow> n < length (active_tasks s) \<Longrightarrow> snd (active_tasks s ! n) = Returned \<Longrightarrow>
    ro_step cfg s Silent (s\<lparr>active_tasks := take n (active_tasks s) @ drop (Suc n) (active_tasks s)\<rparr>)"
| ro_resume: "processor s = Draining \<Longrightarrow> resume_event s \<Longrightarrow> ro_step cfg s Silent (s\<lparr>processor := Top\<rparr>)"
| ro_take: "processor s = Fetching \<Longrightarrow> pending s = x # later \<Longrightarrow> ro_step cfg s (Taken x) (take_pending s x later)"
| ro_drain_failed: "processor s = Draining \<Longrightarrow> \<not> lock_taken s \<Longrightarrow> n < length (active_tasks s) \<Longrightarrow> snd (active_tasks s ! n) = Failed \<Longrightarrow>
    ro_step cfg s (Crash []) (s\<lparr>active_tasks := take n (active_tasks s) @ drop (Suc n) (active_tasks s), processor := Crashed\<rparr>)"
| ro_reap: "reaping cfg s \<Longrightarrow> \<not> lock_taken s \<Longrightarrow> \<not> any_failed (active_tasks s) \<Longrightarrow> reap (active_tasks s) \<noteq> active_tasks s \<Longrightarrow>
    ro_step cfg s Silent (s\<lparr>active_tasks := reap (active_tasks s)\<rparr>)"
| ro_reap_failed: "reaping cfg s \<Longrightarrow> \<not> lock_taken s \<Longrightarrow> any_failed (active_tasks s) \<Longrightarrow>
    ro_step cfg s (Crash (held s)) (s\<lparr>active_tasks := reap (active_tasks s), processor := Crashed\<rparr>)"
| ro_submit: "processor s = Holding i \<Longrightarrow> length (active_tasks s) < concurrent_limit cfg \<Longrightarrow> \<not> lock_taken s \<Longrightarrow>
    \<not> paused s \<or> resume_event s \<Longrightarrow> ro_step cfg s Silent (submit_task i s)"
| ro_put: "n < length (active_tasks s) \<Longrightarrow> active_tasks s ! n = (i, Generating) \<Longrightarrow> put_sample (Some i) (samples s) = Inr (ok, d, q) \<Longrightarrow>
    ro_step cfg s (Put_sample (Some i) d) (s\<lparr>samples := q, active_tasks := (active_tasks s)[n := (i, Published ok)]\<rparr>)"
| ro_fail: "n < length (active_tasks s) \<Longrightarrow> active_tasks s ! n = (i, Generating) \<Longrightarrow>
    ro_step cfg s (Task_failed i) (s\<lparr>active_tasks := (active_tasks s)[n := (i, Failed)]\<rparr>)"
| ro_return: "n < length (active_tasks s) \<Longrightarrow> active_tasks s ! n = (i, Published ok) \<Longrightarrow> ro_step cfg s Silent (return_task n ok s)"
| ro_ended: "processor s = Ending \<Longrightarrow> active_tasks s = [] \<Longrightarrow> ro_step cfg s Silent (s\<lparr>processor := Ended\<rparr>)"
| ro_cancel_processor: "feeder s = Failed_feed \<Longrightarrow> processor s \<noteq> Crashed \<Longrightarrow> processor s \<noteq> Stopped \<Longrightarrow>
    ro_step cfg s (Crash (held s)) (s\<lparr>processor := Crashed\<rparr>)"
| ro_cancel_feed: "processor s = Crashed \<Longrightarrow> feeder s = Feeding \<or> feeder s = Closing \<Longrightarrow> ro_step cfg s Silent (s\<lparr>feeder := Cancelled_feed\<rparr>)"
| ro_end_signal: "main_ends s \<Longrightarrow> put_sample None (samples s) = Inr (ok, d, q) \<Longrightarrow>
    ro_step cfg s (Put_sample None d) (s\<lparr>samples := q, processor := Stopped\<rparr>)"
| ro_monitor: "paused s \<Longrightarrow> processor s \<noteq> Stopped \<Longrightarrow> \<not> should_pause cfg (length (queue (samples s))) s \<Longrightarrow> \<not> lock_taken s \<Longrightarrow>
    ro_step cfg s Silent (monitor_resumes s)"
| ro_collect: "\<not> trainer_stopped s \<Longrightarrow> collected_since s < sync_samples cfg \<Longrightarrow> get_sample (samples s) = (Got x n, q) \<Longrightarrow>
    ro_step cfg s (Collected x) (collect_sample x q s)"
| ro_begin_reset: "collected_since s = sync_samples cfg \<or> trainer_stopped s \<Longrightarrow> \<not> lock_taken s \<Longrightarrow> ro_step cfg s Silent (begin_reset s)"
| ro_answer_reset: "lock_taken s \<Longrightarrow> reset_answer s = None \<Longrightarrow> ro_step cfg s Silent (answer_reset s)"
| ro_end_reset: "lock_taken s \<Longrightarrow> reset_answer s = Some n \<Longrightarrow> ro_step cfg s Synchronized (end_reset n s)"

inductive_cases ro_stepE: "ro_step cfg s e s'"

subsection \<open>Schedules\<close>

text \<open>An action names the coroutine that runs next, and the task it concerns; a schedule is executable.\<close>

datatype action =
    Feed | Exhaust | Close | Ask | Go | Must_pause | Pause | Drain nat | Resume | Take | Reap | Submit
  | Publish nat | Return nat | End | End_signal | Monitor | Gather | Begin_reset | Answer_reset | End_reset
  | Feed_fail | Fail nat | Drain_failed nat | Reap_failed | Cancel_processor | Cancel_feed

definition enabled :: "bool \<Rightarrow> ro_event \<Rightarrow> rollouter \<Rightarrow> (ro_event \<times> rollouter) option" where
  "enabled b e s = (if b then Some (e, s) else None)"

fun perform :: "rollout_limits \<Rightarrow> action \<Rightarrow> rollouter \<Rightarrow> (ro_event \<times> rollouter) option" where
  "perform cfg Feed s =
     enabled (feeder s = Feeding \<and> 0 < items_left s \<and> length (pending s) < queue_bound) (Fed (Some (ro_step_count s))) (feed_sample cfg s)"
| "perform cfg Exhaust s = enabled (feeder s = Feeding \<and> items_left s = 0) Silent (s\<lparr>feeder := Closing\<rparr>)"
| "perform cfg Close s =
     enabled (feeder s = Closing \<and> length (pending s) < queue_bound) (Fed None) (s\<lparr>feeder := Closed_feed, pending := pending s @ [None]\<rparr>)"
| "perform cfg Ask s = enabled (processor s = Top \<and> \<not> paused s) Silent (s\<lparr>processor := Asked (length (queue (samples s)))\<rparr>)"
| "perform cfg Go s = (case processor s of Asked n \<Rightarrow> enabled (\<not> should_pause cfg n s) Silent (s\<lparr>processor := Fetching\<rparr>) | _ \<Rightarrow> None)"
| "perform cfg Must_pause s =
     (case processor s of
        Top \<Rightarrow> enabled (paused s) Silent (s\<lparr>processor := Pausing\<rparr>)
      | Asked n \<Rightarrow> enabled (should_pause cfg n s) Silent (s\<lparr>processor := Pausing\<rparr>)
      | _ \<Rightarrow> None)"
| "perform cfg Pause s =
     enabled (processor s = Pausing \<and> \<not> lock_taken s) Silent (s\<lparr>processor := Draining, paused := True, resume_event := False\<rparr>)"
| "perform cfg (Drain n) s =
     enabled (processor s = Draining \<and> \<not> lock_taken s \<and> n < length (active_tasks s) \<and> snd (active_tasks s ! n) = Returned) Silent
       (s\<lparr>active_tasks := take n (active_tasks s) @ drop (Suc n) (active_tasks s)\<rparr>)"
| "perform cfg Resume s = enabled (processor s = Draining \<and> resume_event s) Silent (s\<lparr>processor := Top\<rparr>)"
| "perform cfg Take s =
     (case pending s of [] \<Rightarrow> None | x # later \<Rightarrow> enabled (processor s = Fetching) (Taken x) (take_pending s x later))"
| "perform cfg Reap s =
     enabled (reaping cfg s \<and> \<not> lock_taken s \<and> \<not> any_failed (active_tasks s) \<and> reap (active_tasks s) \<noteq> active_tasks s) Silent
       (s\<lparr>active_tasks := reap (active_tasks s)\<rparr>)"
| "perform cfg Submit s =
     (case processor s of
        Holding i \<Rightarrow> enabled (length (active_tasks s) < concurrent_limit cfg \<and> \<not> lock_taken s \<and> (\<not> paused s \<or> resume_event s)) Silent (submit_task i s)
      | _ \<Rightarrow> None)"
| "perform cfg (Publish n) s =
     (if n < length (active_tasks s)
      then case active_tasks s ! n of
             (i, Generating) \<Rightarrow>
               (case put_sample (Some i) (samples s) of
                  Inl e \<Rightarrow> None
                | Inr (ok, d, q) \<Rightarrow> Some (Put_sample (Some i) d, s\<lparr>samples := q, active_tasks := (active_tasks s)[n := (i, Published ok)]\<rparr>))
           | _ \<Rightarrow> None
      else None)"
| "perform cfg (Return n) s =
     (if n < length (active_tasks s) then case active_tasks s ! n of (i, Published ok) \<Rightarrow> Some (Silent, return_task n ok s) | _ \<Rightarrow> None else None)"
| "perform cfg End s = enabled (processor s = Ending \<and> active_tasks s = []) Silent (s\<lparr>processor := Ended\<rparr>)"
| "perform cfg End_signal s =
     (if main_ends s
      then case put_sample None (samples s) of Inl e \<Rightarrow> None | Inr (ok, d, q) \<Rightarrow> Some (Put_sample None d, s\<lparr>samples := q, processor := Stopped\<rparr>)
      else None)"
| "perform cfg Monitor s =
     enabled (paused s \<and> processor s \<noteq> Stopped \<and> \<not> should_pause cfg (length (queue (samples s))) s \<and> \<not> lock_taken s) Silent (monitor_resumes s)"
| "perform cfg Gather s =
     (if \<not> trainer_stopped s \<and> collected_since s < sync_samples cfg
      then case get_sample (samples s) of
             (Got x n, q) \<Rightarrow> Some (Collected x, collect_sample x q s)
           | _ \<Rightarrow> None
      else None)"
| "perform cfg Begin_reset s =
     enabled ((collected_since s = sync_samples cfg \<or> trainer_stopped s) \<and> \<not> lock_taken s) Silent (begin_reset s)"
| "perform cfg Answer_reset s = enabled (lock_taken s \<and> reset_answer s = None) Silent (answer_reset s)"
| "perform cfg End_reset s = (case reset_answer s of None \<Rightarrow> None | Some n \<Rightarrow> enabled (lock_taken s) Synchronized (end_reset n s))"
| "perform cfg Feed_fail s = enabled (feeder s = Feeding) Feed_failed (s\<lparr>feeder := Failed_feed\<rparr>)"
| "perform cfg (Fail n) s =
     (if n < length (active_tasks s)
      then case active_tasks s ! n of
             (i, Generating) \<Rightarrow> Some (Task_failed i, s\<lparr>active_tasks := (active_tasks s)[n := (i, Failed)]\<rparr>)
           | _ \<Rightarrow> None
      else None)"
| "perform cfg (Drain_failed n) s =
     enabled (processor s = Draining \<and> \<not> lock_taken s \<and> n < length (active_tasks s) \<and> snd (active_tasks s ! n) = Failed) (Crash [])
       (s\<lparr>active_tasks := take n (active_tasks s) @ drop (Suc n) (active_tasks s), processor := Crashed\<rparr>)"
| "perform cfg Reap_failed s =
     enabled (reaping cfg s \<and> \<not> lock_taken s \<and> any_failed (active_tasks s)) (Crash (held s))
       (s\<lparr>active_tasks := reap (active_tasks s), processor := Crashed\<rparr>)"
| "perform cfg Cancel_processor s =
     enabled (feeder s = Failed_feed \<and> processor s \<noteq> Crashed \<and> processor s \<noteq> Stopped) (Crash (held s)) (s\<lparr>processor := Crashed\<rparr>)"
| "perform cfg Cancel_feed s =
     enabled (processor s = Crashed \<and> (feeder s = Feeding \<or> feeder s = Closing)) Silent (s\<lparr>feeder := Cancelled_feed\<rparr>)"

lemma enabled_Some_iff: "enabled b e s = Some (e', s') \<longleftrightarrow> b \<and> e' = e \<and> s' = s"
  by (auto simp: enabled_def)

lemma perform_step: "perform cfg a s = Some (e, s') \<Longrightarrow> ro_step cfg s e s'"
  by (cases a)
    (auto simp: enabled_Some_iff intro: ro_step.intros split: processor.splits list.splits if_splits prod.splits task.splits
      sum.splits option.splits get_outcome.splits)

fun schedule :: "rollout_limits \<Rightarrow> action list \<Rightarrow> rollouter \<Rightarrow> (ro_event list \<times> rollouter) option" where
  "schedule cfg [] s = Some ([], s)"
| "schedule cfg (a # as) s =
     (case perform cfg a s of
        None \<Rightarrow> None
      | Some (e, s1) \<Rightarrow> (case schedule cfg as s1 of None \<Rightarrow> None | Some (es, s2) \<Rightarrow> Some (e # es, s2)))"

lemma schedule_run: "schedule cfg as s = Some (es, s') \<Longrightarrow> run (ro_step cfg) s es s'"
  by (induction as arbitrary: s es) (fastforce split: option.splits dest: perform_step intro: run_Cons)+

subsection \<open>Samples and where they are\<close>

definition generating :: "(nat \<times> task) list \<Rightarrow> nat list" where
  "generating ts = map fst (filter (\<lambda>(i, t). t = Generating) ts)"

text \<open>The end signal is not a sample.\<close>

fun samples_of :: "nat option list \<Rightarrow> nat list" where
  "samples_of [] = []"
| "samples_of (None # xs) = samples_of xs"
| "samples_of (Some i # xs) = i # samples_of xs"

definition in_flight :: "rollouter \<Rightarrow> nat" where
  "in_flight s = length (generating (active_tasks s)) + length (samples_of (held s)) + length (samples_of (queue (samples s)))"

lemma samples_of_append [simp]: "samples_of (xs @ ys) = samples_of xs @ samples_of ys"
  by (induction xs rule: samples_of.induct) auto

lemma samples_of_Some [simp]: "samples_of (map Some xs) = xs"
  by (induction xs) auto

lemma samples_of_Cons: "samples_of (x # xs) = (case x of None \<Rightarrow> [] | Some i \<Rightarrow> [i]) @ samples_of xs"
  by (cases x) auto

lemma length_samples_of: "length (samples_of xs) \<le> length xs"
  by (induction xs rule: samples_of.induct) auto

lemma samples_of_all: "None \<notin> set xs \<Longrightarrow> length (samples_of xs) = length xs"
  by (induction xs rule: samples_of.induct) auto

lemma put_sample_cases:
  assumes "put_sample x q = Inr (ok, d, q')"
  obtains "d = None" "length (queue q) < max_queue_size q" "queue q' = queue q @ [x]" "max_queue_size q' = max_queue_size q"
  | y ys where "d = Some y" "queue q = y # ys" "queue q' = ys @ [x]" "max_queue_size q \<le> length (queue q)" "max_queue_size q' = max_queue_size q"
  using assms by (cases "queue q") (auto simp: put_sample_def Let_def notify_all_def split: if_splits)

lemma get_sample_Got: "get_sample q = (Got x n, q') \<Longrightarrow> queue q = x # queue q' \<and> max_queue_size q' = max_queue_size q"
  by (auto simp: get_sample_def split: if_splits)

lemma generating_simps [simp]:
  "generating [] = []" "generating (ts @ us) = generating ts @ generating us" "generating (reap ts) = generating ts"
  "generating ((i, t) # ts) = (if t = Generating then i # generating ts else generating ts)"
  by (auto simp: generating_def reap_def intro: arg_cong [where f = "map fst"] filter_cong)

lemma length_reap: "length (reap ts) \<le> length ts"
  by (simp add: reap_def)

lemma length_generating: "length (generating ts) \<le> length ts"
  by (simp add: generating_def)

lemma generating_split: "n < length ts \<Longrightarrow> generating ts = generating (take n ts) @ generating [ts ! n] @ generating (drop (Suc n) ts)"
  by (metis append.assoc append_Cons append_Nil generating_simps(2) id_take_nth_drop)

lemma generating_update:
  "n < length ts \<Longrightarrow> generating (ts[n := (j, t)]) = generating (take n ts) @ generating [(j, t)] @ generating (drop (Suc n) ts)"
  by (simp add: upd_conv_take_nth_drop)

lemma generating_remove: "n < length ts \<Longrightarrow> snd (ts ! n) \<noteq> Generating \<Longrightarrow> generating (take n ts @ drop (Suc n) ts) = generating ts"
  using generating_split [of n ts] by (cases "ts ! n") simp

lemma generating_return: "n < length ts \<Longrightarrow> ts ! n = (i, Published ok) \<Longrightarrow> generating (ts[n := (j, Returned)]) = generating ts"
  using generating_split [of n ts] by (simp add: generating_update)

lemma generating_ends:
  "n < length ts \<Longrightarrow> ts ! n = (i, Generating) \<Longrightarrow> t \<noteq> Generating \<Longrightarrow>
   mset (generating ts) = add_mset i (mset (generating (ts[n := (j, t)])))"
  using generating_split [of n ts] by (simp add: generating_update)

lemma length_generating_ends:
  "n < length ts \<Longrightarrow> ts ! n = (i, Generating) \<Longrightarrow> t \<noteq> Generating \<Longrightarrow> length (generating ts) = Suc (length (generating (ts[n := (j, t)])))"
  using generating_ends [of n ts i t j] by (metis size_add_mset size_mset)

subsection \<open>The bound on the samples in flight\<close>

text \<open>
  The counter misses at most the sample that the processor holds during a reset, and the last check of the counter precedes the
  taking of one sample.
\<close>

definition bounds_good :: "rollout_limits \<Rightarrow> ro_event list \<Rightarrow> rollouter \<Rightarrow> bool" where
  "bounds_good cfg es s \<longleftrightarrow>
     in_flight s \<le> staleness_samples s + 1 \<and> in_flight s \<le> required_limit cfg + 1 \<and>
     (processor s = Fetching \<longrightarrow> in_flight s \<le> required_limit cfg) \<and>
     length (active_tasks s) \<le> concurrent_limit cfg \<and> max_queue_size (samples s) = required_limit cfg \<and>
     length (queue (samples s)) \<le> required_limit cfg \<and>
     (lock_taken s \<longrightarrow> reset_tasks s = length (active_tasks s) \<and>
        (\<forall>n. reset_answer s = Some n \<longrightarrow>
           length (generating (active_tasks s)) + length (samples_of (queue (samples s))) \<le> reset_tasks s + n))"

lemma length_held: "length (samples_of (held s)) \<le> 1"
  by (auto simp: held_def split: processor.splits)

lemmas ro_update_defs =
  feed_sample_def take_pending_def submit_task_def return_task_def begin_reset_def answer_reset_def end_reset_def monitor_resumes_def
  collect_sample_def Let_def

lemma bounds_step_keeps:
  assumes good: "bounds_good cfg es s" and "ro_step cfg s e s'"
  shows "bounds_good cfg (es @ [e]) s'"
  using assms(2)
proof cases
  case (ro_put n i ok d q)
  show ?thesis using ro_put(5) good length_generating_ends [OF ro_put(3,4), of "Published ok" i]
    by (cases rule: put_sample_cases) (auto simp: ro_put bounds_good_def in_flight_def held_def samples_of_Cons split: option.splits)
next
  case (ro_fail n i)
  then show ?thesis using good length_generating_ends [OF ro_fail(3,4), of Failed i] by (auto simp: bounds_good_def in_flight_def held_def)
next
  case (ro_end_signal ok d q)
  show ?thesis using ro_end_signal(4) good
    by (cases rule: put_sample_cases) (auto simp: ro_end_signal bounds_good_def in_flight_def held_def samples_of_Cons split: option.splits)
next
  case (ro_collect x n q)
  have "queue (samples s) = x # queue q" "max_queue_size q = max_queue_size (samples s)"
    using get_sample_Got [OF ro_collect(5)] by simp_all
  then show ?thesis using good
    by (auto simp: ro_collect bounds_good_def in_flight_def held_def collect_sample_def samples_of_Cons split: option.splits if_splits)
next
  case ro_begin_reset
  then show ?thesis using good by (auto simp: bounds_good_def in_flight_def held_def begin_reset_def)
next
  case ro_answer_reset
  then show ?thesis using good length_generating [of "active_tasks s"] length_samples_of [of "queue (samples s)"]
    by (auto simp: bounds_good_def in_flight_def held_def answer_reset_def get_queue_size_def)
next
  case (ro_end_reset n)
  then show ?thesis using good length_held [of s] by (auto simp: bounds_good_def in_flight_def held_def end_reset_def)
next
  case (ro_drain n)
  then show ?thesis using good generating_remove [of n "active_tasks s"] by (auto simp: bounds_good_def in_flight_def held_def)
next
  case (ro_drain_failed n)
  then show ?thesis using good generating_remove [of n "active_tasks s"] by (auto simp: bounds_good_def in_flight_def held_def)
next
  case (ro_return n i ok)
  then show ?thesis using good generating_return [of n "active_tasks s" i ok] by (auto simp: bounds_good_def in_flight_def held_def return_task_def)
next
  case ro_reap
  then show ?thesis using good length_reap [of "active_tasks s"] by (auto simp: bounds_good_def in_flight_def held_def)
next
  case ro_reap_failed
  then show ?thesis using good length_reap [of "active_tasks s"] by (auto simp: bounds_good_def in_flight_def held_def)
qed (use good in \<open>auto simp: bounds_good_def in_flight_def held_def should_pause_def ro_update_defs split: option.splits processor.splits\<close>)

interpretation bounded: kept_by_steps "ro_step cfg" "bounds_good cfg" for cfg
  by unfold_locales (rule bounds_step_keeps)

lemma new_rollouter_bounded:
  "queue q = [] \<Longrightarrow> max_queue_size q = required_limit cfg \<Longrightarrow> bounds_good cfg [] (new_rollouter first_step its q)"
  by (simp add: bounds_good_def new_rollouter_def in_flight_def held_def)

text \<open>A run with two samples per synchronization, a threshold of one, and one replica.\<close>

definition sample_limits :: rollout_limits where
  "sample_limits = \<lparr>rollout_steps = 100, required_limit = 4, concurrent_limit = 4, sync_samples = 2\<rparr>"

lemma sample_limits_set: "set_max_required_samples 100 2 1 1 1 = Inr (sample_limits, 50)"
  by (simp add: set_max_required_samples_def total_train_steps_def max_required_def max_concurrent_def sample_limits_def)

definition sample_queue :: "nat \<Rightarrow> nat option mq" where
  "sample_queue n =
     \<lparr>queue = [], val_queue = [], running = True, max_queue_size = n, total_produced = 0, total_consumed = 0,
      dropped_samples = 0, blocked = [], notified = []\<rparr>"

definition take_submit :: "action list" where
  "take_submit = [Ask, Go, Take, Submit]"

text \<open>The processor takes the sixth sample while the second reset waits for the queue.\<close>

definition held_schedule :: "action list" where
  "held_schedule =
     replicate 9 Feed @ concat (replicate 4 take_submit) @ [Ask, Must_pause, Pause] @ map Publish [0, 1, 2, 3] @ map Return [0, 1, 2, 3] @
     replicate 4 (Drain 0) @ [Gather, Gather, Begin_reset, Answer_reset, End_reset, Resume] @ take_submit @
     [Gather, Gather, Ask, Go, Begin_reset, Answer_reset, Take, End_reset, Submit] @ take_submit @ take_submit @ [Ask, Go, Take]"

definition overflow_schedule :: "action list" where
  "overflow_schedule = held_schedule @ [Publish 0, Return 0, Reap, Submit, Publish 0, Publish 1, Publish 2, Publish 3]"

lemma held_schedule_result:
  "map_option (\<lambda>(es, s). (in_flight s, staleness_samples s)) (schedule sample_limits held_schedule (new_rollouter 1 100 (sample_queue 4))) = Some (5, 4)"
  by code_simp

lemma overflow_schedule_result:
  "map_option (\<lambda>(es, s). last es) (schedule sample_limits overflow_schedule (new_rollouter 1 100 (sample_queue 4))) =
     Some (Put_sample (Some 9) (Some (Some 5)))"
  by code_simp

lemma schedule_reaches:
  "map_option (\<lambda>(es, s). f es s) (schedule cfg as s0) = Some y \<Longrightarrow> \<exists>es s. run (ro_step cfg) s0 es s \<and> f es s = y"
  by (cases "schedule cfg as s0") (auto dest: schedule_run)

lemma held_run: "\<exists>es s. run (ro_step sample_limits) (new_rollouter 1 100 (sample_queue 4)) es s \<and> (in_flight s, staleness_samples s) = (5, 4)"
  by (rule schedule_reaches [OF held_schedule_result])

lemma overflow_run:
  "\<exists>es s. run (ro_step sample_limits) (new_rollouter 1 100 (sample_queue 4)) es s \<and> last es = Put_sample (Some 9) (Some (Some 5))"
  using schedule_reaches [OF overflow_schedule_result] by blast

text \<open>
  C35: Whatever the order in which the coroutines run, and whichever generations fail, the samples in flight (being generated, held
  by the processor, or in the queue) exceed neither the limit nor the staleness counter by more than one, no more tasks are listed than the
  concurrency limit allows, and the queue keeps its bound. The excess of one happens: a sample that the processor takes
  during a reset is not counted, so with limits set by the rollouter itself five samples are in flight for a limit of four, and
  the queue then drops one.
\<close>

theorem rollouter_in_flight_bounded:
  assumes "run (ro_step cfg) (new_rollouter first_step its q) es s" and "queue q = []" and "max_queue_size q = required_limit cfg"
  shows "in_flight s \<le> required_limit cfg + 1 \<and> in_flight s \<le> staleness_samples s + 1 \<and>
         length (active_tasks s) \<le> concurrent_limit cfg \<and> length (queue (samples s)) \<le> required_limit cfg \<and>
         set_max_required_samples 100 2 1 1 1 = Inr (sample_limits, 50) \<and>
         (\<exists>es' t. run (ro_step sample_limits) (new_rollouter 1 100 (sample_queue 4)) es' t \<and> in_flight t = required_limit sample_limits + 1) \<and>
         (\<exists>es' t x y. run (ro_step sample_limits) (new_rollouter 1 100 (sample_queue 4)) es' t \<and> last es' = Put_sample (Some x) (Some (Some y)))"
proof -
  have "bounds_good cfg es s"
    using bounded.reach_keeps [OF assms(1) new_rollouter_bounded [OF assms(2,3)]] .
  moreover have "\<exists>es' t. run (ro_step sample_limits) (new_rollouter 1 100 (sample_queue 4)) es' t \<and> in_flight t = required_limit sample_limits + 1"
    using held_run by (force simp: sample_limits_def)
  ultimately show ?thesis using overflow_run sample_limits_set by (auto simp: bounds_good_def)
qed

lemma rollouter_in_flight_bounded_witness:
  "\<exists>s. in_flight s = 5 \<and> in_flight s \<le> required_limit sample_limits + 1 \<and> length (active_tasks s) \<le> 4"
proof -
  obtain es s where run: "run (ro_step sample_limits) (new_rollouter 1 100 (sample_queue 4)) es s" and five: "in_flight s = 5" using held_run by auto
  have "in_flight s \<le> required_limit sample_limits + 1 \<and> length (active_tasks s) \<le> concurrent_limit sample_limits"
    using rollouter_in_flight_bounded [OF run] by (simp add: sample_queue_def sample_limits_def)
  then show ?thesis using five by (auto simp: sample_limits_def)
qed

subsection \<open>No sample is lost or repeated\<close>

definition fed_of :: "ro_event list \<Rightarrow> nat option list" where
  "fed_of es = concat (map (\<lambda>e. case e of Fed x \<Rightarrow> [x] | _ \<Rightarrow> []) es)"

definition collected_of :: "ro_event list \<Rightarrow> nat option list" where
  "collected_of es = concat (map (\<lambda>e. case e of Collected x \<Rightarrow> [x] | _ \<Rightarrow> []) es)"

definition lost_of :: "ro_event list \<Rightarrow> nat option list" where
  "lost_of es = concat (map (\<lambda>e. case e of Put_sample x (Some y) \<Rightarrow> [y] | _ \<Rightarrow> []) es)"

definition abandoned_of :: "ro_event list \<Rightarrow> nat list" where
  "abandoned_of es = concat (map (\<lambda>e. case e of Task_failed i \<Rightarrow> [i] | Crash xs \<Rightarrow> samples_of xs | _ \<Rightarrow> []) es)"

definition faultless :: "ro_event list \<Rightarrow> bool" where
  "faultless es = list_all (\<lambda>e. case e of Task_failed i \<Rightarrow> False | Feed_failed \<Rightarrow> False | _ \<Rightarrow> True) es"

lemmas ro_trace_defs = fed_of_def collected_of_def lost_of_def abandoned_of_def faultless_def

definition located :: "rollouter \<Rightarrow> nat multiset" where
  "located s =
     mset (samples_of (pending s)) + mset (samples_of (held s)) + mset (generating (active_tasks s)) + mset (samples_of (queue (samples s)))"

definition conserved :: "ro_event list \<Rightarrow> rollouter \<Rightarrow> bool" where
  "conserved es s \<longleftrightarrow>
     mset (samples_of (fed_of es)) =
       located s + mset (samples_of (collected_of es)) + mset (samples_of (lost_of es)) + mset (abandoned_of es)"

text \<open>Without faults the end signal is the last of the pending items, and later the last of the queue.\<close>

definition end_signals :: "ro_event list \<Rightarrow> rollouter \<Rightarrow> nat" where
  "end_signals es s =
     count_list (pending s) None + count_list (held s) None + count_list (queue (samples s)) None +
     count_list (collected_of es) None + count_list (lost_of es) None"

definition orderly :: "ro_event list \<Rightarrow> rollouter \<Rightarrow> bool" where
  "orderly es s \<longleftrightarrow>
     \<not> any_failed (active_tasks s) \<and> processor s \<noteq> Crashed \<and> feeder s \<noteq> Failed_feed \<and> feeder s \<noteq> Cancelled_feed \<and>
     abandoned_of es = [] \<and> end_signals es s = (if feeder s = Closed_feed then 1 else 0) \<and>
     (\<exists>xs. pending s = map Some xs @ (if feeder s = Closed_feed \<and> processor s \<notin> {Ending, Ended, Stopped} then [None] else [])) \<and>
     (processor s \<in> {Ending, Ended, Stopped} \<longrightarrow> feeder s = Closed_feed \<and> pending s = []) \<and>
     (processor s \<in> {Ended, Stopped} \<longrightarrow> active_tasks s = []) \<and>
     (\<exists>ys. queue (samples s) = map Some ys @ (if processor s = Stopped \<and> \<not> trainer_stopped s then [None] else [])) \<and>
     (trainer_stopped s \<longrightarrow> processor s = Stopped \<and> queue (samples s) = [])"

definition places_good :: "ro_event list \<Rightarrow> rollouter \<Rightarrow> bool" where
  "places_good es s \<longleftrightarrow> conserved es s \<and> (faultless es \<longrightarrow> orderly es s)"

text \<open>The feeder counts consecutive steps until the last one, or until the data ends.\<close>

definition feed_good :: "rollout_limits \<Rightarrow> nat \<Rightarrow> nat \<Rightarrow> ro_event list \<Rightarrow> rollouter \<Rightarrow> bool" where
  "feed_good cfg first_step its es s \<longleftrightarrow>
     (\<exists>n. fed_of es = map Some [first_step..<first_step + n] @ (if feeder s = Closed_feed then [None] else []) \<and> n + items_left s = its \<and>
          (feeder s = Feeding \<longrightarrow> ro_step_count s = first_step + n \<and> (n = 0 \<or> first_step + n \<le> rollout_steps cfg)) \<and>
          (feeder s = Closing \<or> feeder s = Closed_feed \<longrightarrow> items_left s = 0 \<and> (n = 0 \<or> first_step + n \<le> rollout_steps cfg) \<or> first_step + n = Suc (rollout_steps cfg) \<or> n = 1 \<and> rollout_steps cfg \<le> first_step))"

lemma trace_snoc [simp]:
  "fed_of (es @ [e]) = fed_of es @ (case e of Fed x \<Rightarrow> [x] | _ \<Rightarrow> [])"
  "collected_of (es @ [e]) = collected_of es @ (case e of Collected x \<Rightarrow> [x] | _ \<Rightarrow> [])"
  "lost_of (es @ [e]) = lost_of es @ (case e of Put_sample x (Some y) \<Rightarrow> [y] | _ \<Rightarrow> [])"
  "abandoned_of (es @ [e]) = abandoned_of es @ (case e of Task_failed i \<Rightarrow> [i] | Crash xs \<Rightarrow> samples_of xs | _ \<Rightarrow> [])"
  "faultless (es @ [e]) \<longleftrightarrow> faultless es \<and> (case e of Task_failed i \<Rightarrow> False | Feed_failed \<Rightarrow> False | _ \<Rightarrow> True)"
  "fed_of [] = []" "collected_of [] = []" "lost_of [] = []" "abandoned_of [] = []" "faultless []"
  by (simp_all add: ro_trace_defs)

lemma feed_frame:
  "feed_good cfg first_step its es s \<Longrightarrow> fed_of es' = fed_of es \<Longrightarrow> feeder s' = feeder s \<Longrightarrow> items_left s' = items_left s \<Longrightarrow>
   ro_step_count s' = ro_step_count s \<Longrightarrow> feed_good cfg first_step its es' s'"
  by (simp add: feed_good_def)

lemma feed_step_keeps:
  assumes good: "feed_good cfg first_step its es s" and "ro_step cfg s e s'"
  shows "feed_good cfg first_step its (es @ [e]) s'"
proof -
  obtain n where n: "fed_of es = map Some [first_step..<first_step + n] @ (if feeder s = Closed_feed then [None] else [])" "n + items_left s = its"
    "feeder s = Feeding \<longrightarrow> ro_step_count s = first_step + n \<and> (n = 0 \<or> first_step + n \<le> rollout_steps cfg)"
    "feeder s = Closing \<or> feeder s = Closed_feed \<longrightarrow> items_left s = 0 \<and> (n = 0 \<or> first_step + n \<le> rollout_steps cfg) \<or> first_step + n = Suc (rollout_steps cfg) \<or> n = 1 \<and> rollout_steps cfg \<le> first_step"
    using good by (auto simp: feed_good_def)
  show ?thesis using assms(2)
  proof cases
    case ro_feed
    then show ?thesis using n unfolding feed_good_def by (intro exI [of _ "Suc n"]) (auto simp: feed_sample_def Let_def)
  next
    case ro_exhausted
    then show ?thesis using n unfolding feed_good_def by (intro exI [of _ n]) auto
  next
    case ro_close
    then show ?thesis using n unfolding feed_good_def by (intro exI [of _ n]) auto
  next
    case ro_feed_fails
    then show ?thesis using n unfolding feed_good_def by (intro exI [of _ n]) auto
  next
    case ro_cancel_feed
    then show ?thesis using n unfolding feed_good_def by (intro exI [of _ n]) auto
  qed (rule feed_frame [OF good]; simp add: ro_update_defs split: option.splits)+
qed

lemma conserved_step:
  assumes good: "conserved es s" and "ro_step cfg s e s'"
  shows "conserved (es @ [e]) s'"
  using assms(2)
proof cases
  case (ro_put n i ok d q)
  show ?thesis using ro_put(5) good generating_ends [OF ro_put(3,4), of "Published ok" i]
    by (cases rule: put_sample_cases) (auto simp: ro_put conserved_def located_def held_def samples_of_Cons split: option.splits)
next
  case (ro_fail n i)
  then show ?thesis using good generating_ends [OF ro_fail(3,4), of Failed i] by (auto simp: conserved_def located_def held_def)
next
  case (ro_end_signal ok d q)
  have none: "samples_of (held s) = []" using ro_end_signal(3) by (auto simp: held_def main_ends_def)
  show ?thesis using ro_end_signal(4) good none
    by (cases rule: put_sample_cases) (auto simp: ro_end_signal conserved_def located_def held_def samples_of_Cons split: option.splits)
next
  case (ro_collect x n q)
  have "queue (samples s) = x # queue q" using get_sample_Got [OF ro_collect(5)] by simp
  then show ?thesis using good
    by (auto simp: ro_collect conserved_def located_def held_def collect_sample_def samples_of_Cons split: option.splits)
next
  case (ro_drain n)
  then show ?thesis using good generating_remove [of n "active_tasks s"] by (auto simp: conserved_def located_def held_def)
next
  case (ro_drain_failed n)
  then show ?thesis using good generating_remove [of n "active_tasks s"] by (auto simp: conserved_def located_def held_def)
next
  case (ro_return n i ok)
  then show ?thesis using good generating_return [of n "active_tasks s" i ok] by (auto simp: conserved_def located_def held_def return_task_def)
next
  case ro_begin_reset
  then show ?thesis using good by (auto simp: conserved_def located_def held_def begin_reset_def)
qed (use good in \<open>auto simp: conserved_def located_def held_def samples_of_Cons ro_update_defs split: option.splits processor.splits\<close>)

lemma failed_nth: "n < length ts \<Longrightarrow> snd (ts ! n) = Failed \<Longrightarrow> any_failed ts"
  unfolding any_failed_def list_ex_iff by (rule bexI [of _ "ts ! n"]) (auto split: prod.splits)

lemma unfailed_update: "\<not> any_failed ts \<Longrightarrow> t \<noteq> Failed \<Longrightarrow> \<not> any_failed (ts[n := (i, t)])"
  using set_update_subset_insert [of ts n "(i, t)"] by (auto simp: any_failed_def list_ex_iff)

lemma unfailed_parts [simp]:
  "any_failed [] \<longleftrightarrow> False" "any_failed (ts @ us) \<longleftrightarrow> any_failed ts \<or> any_failed us" "any_failed ((i, t) # ts) \<longleftrightarrow> t = Failed \<or> any_failed ts"
  "\<not> any_failed (reap ts)" "reap [] = []"
  by (auto simp: any_failed_def list_ex_iff reap_def)

lemma unfailed_remove: "\<not> any_failed ts \<Longrightarrow> \<not> any_failed (take n ts) \<and> \<not> any_failed (drop m ts)"
  by (auto simp: any_failed_def list_ex_iff dest: in_set_takeD in_set_dropD)

lemma orderly_step:
  assumes good: "orderly es s" and "ro_step cfg s e s'" and "faultless (es @ [e])"
  shows "orderly (es @ [e]) s'"
  using assms(2)
proof cases
  case (ro_put n i ok d q)
  have "processor s \<notin> {Ended, Stopped}" using good ro_put(3) by (auto simp: orderly_def)
  then have open_queue: "\<exists>ys. queue (samples s) = map Some ys" "\<not> trainer_stopped s" "processor s \<noteq> Stopped"
    using good by (auto simp: orderly_def split: if_splits)
  have "active_tasks s \<noteq> []" and unfailed: "\<not> any_failed ((active_tasks s)[n := (i, Published ok)])"
    using ro_put(3) good unfailed_update by (auto simp: orderly_def)
  show ?thesis using ro_put(5)
  proof (cases rule: put_sample_cases)
    case 1
    have "\<exists>zs. queue q = map Some zs" using open_queue(1) 1(3) by (metis list.map(1,2) map_append)
    then show ?thesis using good open_queue unfailed 1 by (auto simp: ro_put orderly_def end_signals_def held_def)
  next
    case (2 y ys)
    obtain zs where "ys = map Some zs" using open_queue(1) 2(2) by (auto simp: Cons_eq_map_conv)
    then have "\<exists>zs. ys @ [Some i] = map Some zs" by (metis list.map(1,2) map_append)
    then show ?thesis using good open_queue unfailed 2 by (auto simp: ro_put orderly_def end_signals_def held_def)
  qed
next
  case (ro_end_signal ok d q)
  have ended: "processor s = Ended" and state: "feeder s = Closed_feed" "pending s = []" "active_tasks s = []" "\<not> trainer_stopped s"
    using good ro_end_signal(3) by (auto simp: orderly_def main_ends_def)
  then obtain ys where ys: "queue (samples s) = map Some ys" using good by (auto simp: orderly_def)
  show ?thesis using ro_end_signal(4)
  proof (cases rule: put_sample_cases)
    case 1
    then show ?thesis using good ended state ys by (auto simp: ro_end_signal orderly_def end_signals_def held_def)
  next
    case (2 y zs)
    then obtain i vs where "y = Some i" "zs = map Some vs" using ys by (auto simp: Cons_eq_map_conv)
    then show ?thesis using good ended state 2 by (auto simp: ro_end_signal orderly_def end_signals_def held_def)
  qed
next
  case (ro_collect x n q)
  have front: "queue (samples s) = x # queue q" using get_sample_Got [OF ro_collect(5)] by simp
  moreover obtain ys where "queue (samples s) = map Some ys @ (if processor s = Stopped then [None] else [])"
    using good ro_collect(3) by (auto simp: orderly_def)
  ultimately have ys: "x # queue q = map Some ys @ (if processor s = Stopped then [None] else [])" by simp
  show ?thesis
  proof (cases x)
    case None
    then have "processor s = Stopped" "queue q = []" using ys by (cases ys; auto split: if_splits)+
    then show ?thesis using good front None ro_collect(3) by (auto simp: ro_collect(1,2) orderly_def end_signals_def held_def collect_sample_def)
  next
    case (Some i)
    then have "\<exists>zs. queue q = map Some zs @ (if processor s = Stopped then [None] else [])" using ys by (cases ys) (auto split: if_splits)
    then show ?thesis using good front Some ro_collect(3) by (auto simp: ro_collect(1,2) orderly_def end_signals_def held_def collect_sample_def)
  qed
next
  case (ro_drain n)
  then show ?thesis using good unfailed_remove [of "active_tasks s" n "Suc n"] by (auto simp: orderly_def end_signals_def held_def)
next
  case (ro_drain_failed n)
  then show ?thesis using good failed_nth by (auto simp: orderly_def)
next
  case (ro_return n i ok)
  then show ?thesis using good unfailed_update [of "active_tasks s" Returned n i]
    by (auto simp: orderly_def end_signals_def held_def return_task_def)
next
  case (ro_take x later)
  obtain xs where xs: "x # later = map Some xs @ (if feeder s = Closed_feed then [None] else [])"
    using good ro_take(3,4) by (auto simp: orderly_def)
  show ?thesis
  proof (cases x)
    case None
    then have "xs = []" "later = []" "feeder s = Closed_feed" using xs by (cases xs; auto split: if_splits)+
    then show ?thesis using good None ro_take by (auto simp: orderly_def end_signals_def held_def take_pending_def)
  next
    case (Some i)
    then have "later = map Some (tl xs) @ (if feeder s = Closed_feed then [None] else [])" using xs by (cases xs) (auto split: if_splits)
    then show ?thesis using good Some ro_take by (auto simp: orderly_def end_signals_def held_def take_pending_def)
  qed
qed (use good assms(3) in \<open>auto simp: orderly_def end_signals_def held_def feed_sample_def Let_def submit_task_def begin_reset_def answer_reset_def
      end_reset_def monitor_resumes_def split: processor.splits intro: exI [of _ "xs @ [y]" for xs y]\<close>)

lemma places_step_keeps:
  assumes "places_good es s" and "ro_step cfg s e s'"
  shows "places_good (es @ [e]) s'"
proof -
  have "faultless (es @ [e]) \<Longrightarrow> faultless es" by simp
  then show ?thesis using conserved_step [OF _ assms(2), of es] orderly_step [OF _ assms(2), of es] assms(1)
    by (auto simp: places_good_def simp del: trace_snoc)
qed

interpretation placed: kept_by_steps "ro_step cfg" places_good for cfg
  by unfold_locales (rule places_step_keeps)

interpretation fed: kept_by_steps "ro_step cfg" "feed_good cfg first_step its" for cfg first_step its
  by unfold_locales (rule feed_step_keeps)

lemma new_rollouter_placed: "queue q = [] \<Longrightarrow> places_good [] (new_rollouter first_step its q)"
  by (simp add: places_good_def conserved_def orderly_def end_signals_def new_rollouter_def located_def held_def)

lemma new_rollouter_fed: "feed_good cfg first_step its [] (new_rollouter first_step its q)"
  by (simp add: feed_good_def new_rollouter_def)

lemma fed_distinct: "feed_good cfg first_step its es s \<Longrightarrow> distinct (fed_of es)"
  by (auto simp: feed_good_def distinct_map)

lemma fed_complete:
  assumes "feed_good cfg first_step its es s" and "feeder s = Closed_feed"
    and "first_step \<le> rollout_steps cfg" and "rollout_steps cfg - first_step < its"
  shows "fed_of es = map Some [first_step..<Suc (rollout_steps cfg)] @ [None]"
proof -
  obtain n where n: "fed_of es = map Some [first_step..<first_step + n] @ (if feeder s = Closed_feed then [None] else [])" "n + items_left s = its"
    "feeder s = Closing \<or> feeder s = Closed_feed \<longrightarrow> items_left s = 0 \<and> (n = 0 \<or> first_step + n \<le> rollout_steps cfg) \<or>
       first_step + n = Suc (rollout_steps cfg) \<or> n = 1 \<and> rollout_steps cfg \<le> first_step"
    using assms(1) unfolding feed_good_def by blast
  then have "first_step + n = Suc (rollout_steps cfg)" using assms(2-4) by auto
  then show ?thesis using n(1) assms(2) by simp
qed

lemma mset_of_samples: "mset xs = image_mset Some (mset (samples_of xs)) + replicate_mset (count_list xs None) None"
  by (induction xs rule: samples_of.induct) auto

lemma distinct_samples_of: "distinct xs \<Longrightarrow> distinct (samples_of xs)"
proof (induction xs rule: samples_of.induct)
  case (3 i xs)
  have "j \<in> set (samples_of ys) \<Longrightarrow> Some j \<in> set ys" for j ys by (induction ys rule: samples_of.induct) auto
  then show ?case using 3 by auto
qed auto

text \<open>When the trainer has seen the end signal of a run without faults, nothing is left anywhere.\<close>

lemma faultless_end:
  assumes "places_good es s" and "faultless es" and "trainer_stopped s"
  shows "mset (collected_of es) + mset (lost_of es) = image_mset Some (mset (samples_of (fed_of es))) + {#None#} \<and> feeder s = Closed_feed"
proof -
  have tidy: "orderly es s" and "conserved es s" using assms(1,2) by (auto simp: places_good_def)
  then have "processor s = Stopped" "pending s = []" "active_tasks s = []" "queue (samples s) = []" "feeder s = Closed_feed" "abandoned_of es = []"
    using assms(3) by (auto simp: orderly_def)
  moreover from this have "count_list (collected_of es) None + count_list (lost_of es) None = 1"
    using tidy by (simp add: orderly_def end_signals_def held_def)
  then have "replicate_mset (count_list (collected_of es) None) None + replicate_mset (count_list (lost_of es) None) None = {#None :: nat option#}"
    by (cases "count_list (collected_of es) None") auto
  ultimately show ?thesis using \<open>conserved es s\<close> mset_of_samples [of "collected_of es"] mset_of_samples [of "lost_of es"]
    by (simp add: conserved_def located_def held_def ac_simps)
qed

definition two_limits :: rollout_limits where
  "two_limits = \<lparr>rollout_steps = 2, required_limit = 2, concurrent_limit = 2, sync_samples = 2\<rparr>"

text \<open>Four steps are to be trained; the generation of the first one fails.\<close>

definition four_limits :: rollout_limits where
  "four_limits = \<lparr>rollout_steps = 4, required_limit = 2, concurrent_limit = 2, sync_samples = 2\<rparr>"

lemma four_limits_set: "set_max_required_samples 4 2 0 1 1 = Inr (four_limits, 2)"
  by (simp add: set_max_required_samples_def total_train_steps_def max_required_def max_concurrent_def four_limits_def)

definition failing_schedule :: "action list" where
  "failing_schedule =
     replicate 4 Feed @ take_submit @ take_submit @
     [Fail 0, Ask, Must_pause, Pause, Publish 1, Drain_failed 0, Cancel_feed, End_signal, Gather, Gather]"

lemma failing_schedule_result:
  "map_option (\<lambda>(es, s). (trainer_stopped s, collected_of es, abandoned_of es, pending s))
     (schedule four_limits failing_schedule (new_rollouter 1 100 (sample_queue 2))) =
     Some (True, [Some 2, None], [1], [Some 3, Some 4])"
  by code_simp

lemma failing_run:
  "\<exists>es s. run (ro_step four_limits) (new_rollouter 1 100 (sample_queue 2)) es s \<and> trainer_stopped s \<and> collected_of es = [Some 2, None] \<and>
     abandoned_of es = [1] \<and> pending s = [Some 3, Some 4]"
  using schedule_reaches [OF failing_schedule_result] by blast

text \<open>
  C36: Every sample fed is in exactly one place: pending, held, being generated, in the queue, collected, pushed out of the
  queue, or abandoned by a failed generation or with the processor; none is duplicated. If no generation and no feeder fails and the data
  suffices, then by the time the trainer sees the end signal every step from the first to the last one has been collected or pushed out.
  A failing generation breaks this: it ends the processor, the end signal is sent all the same, and the trainer stops as at a
  regular end, here with one of four samples collected, one abandoned, and two still pending.
\<close>

theorem samples_conserved:
  assumes "run (ro_step cfg) (new_rollouter first_step its q) es s" and "queue q = []"
  shows "mset (samples_of (fed_of es)) =
           located s + mset (samples_of (collected_of es)) + mset (samples_of (lost_of es)) + mset (abandoned_of es) \<and>
         distinct (samples_of (fed_of es)) \<and>
         (if trainer_stopped s \<and> faultless es \<and> first_step \<le> rollout_steps cfg \<and> rollout_steps cfg - first_step < its
          then mset (collected_of es) + mset (lost_of es) = mset (map Some [first_step..<Suc (rollout_steps cfg)] @ [None])
          else True) \<and>
         set_max_required_samples 4 2 0 1 1 = Inr (four_limits, 2) \<and>
         (\<exists>es' t. run (ro_step four_limits) (new_rollouter 1 100 (sample_queue 2)) es' t \<and> trainer_stopped t \<and>
            collected_of es' = [Some 2, None] \<and> abandoned_of es' = [1] \<and> pending t = [Some 3, Some 4])"
proof -
  have placed: "places_good es s" using placed.reach_keeps [OF assms(1) new_rollouter_placed [OF assms(2)]] .
  have fed: "feed_good cfg first_step its es s" using fed.reach_keeps [OF assms(1) new_rollouter_fed] .
  have "mset (collected_of es) + mset (lost_of es) = mset (map Some [first_step..<Suc (rollout_steps cfg)] @ [None])"
    if "trainer_stopped s" "faultless es" "first_step \<le> rollout_steps cfg" "rollout_steps cfg - first_step < its"
    using faultless_end [OF placed that(2,1)] fed_complete [OF fed _ that(3,4)] by simp
  then show ?thesis using placed distinct_samples_of [OF fed_distinct [OF fed]] four_limits_set failing_run
    by (auto simp: places_good_def conserved_def)
qed

text \<open>Two steps are fed, generated, and collected, then the end signal.\<close>

definition whole_schedule :: "action list" where
  "whole_schedule =
     [Feed, Feed, Close] @ take_submit @ take_submit @ [Ask, Must_pause, Pause, Publish 1, Publish 0, Return 0, Return 1, Drain 0, Drain 0] @
     [Gather, Gather, Begin_reset, Answer_reset, End_reset, Resume, Ask, Go, Take, End, End_signal, Gather]"

lemma whole_schedule_result:
  "map_option (\<lambda>(es, s). (trainer_stopped s, collected_of es, faultless es))
     (schedule two_limits whole_schedule (new_rollouter 1 5 (sample_queue 2))) = Some (True, [Some 2, Some 1, None], True)"
  by code_simp

lemma samples_conserved_witness:
  "\<exists>es. mset (collected_of es) + mset (lost_of es) = mset [Some 1, Some 2, None] \<and> collected_of es = [Some 2, Some 1, None]"
proof -
  obtain es s where run: "run (ro_step two_limits) (new_rollouter 1 5 (sample_queue 2)) es s" and "trainer_stopped s" and "faultless es"
    and es: "collected_of es = [Some 2, Some 1, None]"
    using schedule_reaches [OF whole_schedule_result] by blast
  then have "mset (collected_of es) + mset (lost_of es) = mset (map Some [1..<Suc 2] @ [None])"
    using samples_conserved [OF run] by (simp add: sample_queue_def two_limits_def)
  then show ?thesis using es by (intro exI [of _ es]) (simp add: numeral_eq_Suc)
qed

subsection \<open>The trainer is not starved\<close>

text \<open>
  A reset overcounts at most the tasks that are listed when it begins. The processor is leaving when it has taken the end
  signal, was ended by an error, or will meet the error of a task.
\<close>

definition leaving :: "rollouter \<Rightarrow> bool" where
  "leaving s \<longleftrightarrow> processor s \<in> {Ending, Ended, Crashed, Stopped} \<or> any_failed (active_tasks s)"

definition supply_good :: "rollout_limits \<Rightarrow> ro_event list \<Rightarrow> rollouter \<Rightarrow> bool" where
  "supply_good cfg es s \<longleftrightarrow>
     bounds_good cfg es s \<and>
     (processor s \<noteq> Stopped \<longrightarrow> None \<notin> set (queue (samples s))) \<and>
     (lock_taken s \<longrightarrow> collected_since s = sync_samples cfg \<or> trainer_stopped s) \<and>
     (trainer_stopped s \<or> leaving s \<or>
        min (staleness_samples s) (required_limit cfg) \<le> collected_since s + in_flight s + concurrent_limit cfg \<and>
        (lock_taken s \<longrightarrow> (\<forall>n. reset_answer s = Some n \<longrightarrow> n \<le> length (queue (samples s)))))"

lemma failed_stays:
  "n < length ts \<Longrightarrow> snd (ts ! n) = Returned \<Longrightarrow> any_failed (take n ts @ drop (Suc n) ts) = any_failed ts"
  "n < length ts \<Longrightarrow> ts ! n = (i, t) \<Longrightarrow> t \<noteq> Failed \<Longrightarrow> u \<noteq> Failed \<Longrightarrow> any_failed (ts[n := (i, u)]) = any_failed ts"
  "n < length ts \<Longrightarrow> any_failed (ts[n := (i, Failed)])"
proof -
  show "n < length ts \<Longrightarrow> snd (ts ! n) = Returned \<Longrightarrow> any_failed (take n ts @ drop (Suc n) ts) = any_failed ts"
    using unfailed_parts(2,3) by (metis append_take_drop_id Cons_nth_drop_Suc prod.collapse task.distinct(11))
  show "n < length ts \<Longrightarrow> ts ! n = (i, t) \<Longrightarrow> t \<noteq> Failed \<Longrightarrow> u \<noteq> Failed \<Longrightarrow> any_failed (ts[n := (i, u)]) = any_failed ts"
    using unfailed_parts(2,3) by (metis append_take_drop_id Cons_nth_drop_Suc upd_conv_take_nth_drop)
  show "n < length ts \<Longrightarrow> any_failed (ts[n := (i, Failed)])"
    by (simp add: upd_conv_take_nth_drop)
qed

lemma supply_step_keeps:
  assumes good: "supply_good cfg es s" and "ro_step cfg s e s'"
  shows "supply_good cfg (es @ [e]) s'"
proof -
  have bounds: "bounds_good cfg es s" and bounds': "bounds_good cfg (es @ [e]) s'"
    using good bounds_step_keeps assms(2) by (auto simp: supply_good_def)
  have "(processor s' \<noteq> Stopped \<longrightarrow> None \<notin> set (queue (samples s'))) \<and>
     (lock_taken s' \<longrightarrow> collected_since s' = sync_samples cfg \<or> trainer_stopped s') \<and>
     (trainer_stopped s' \<or> leaving s' \<or>
        min (staleness_samples s') (required_limit cfg) \<le> collected_since s' + in_flight s' + concurrent_limit cfg \<and>
        (lock_taken s' \<longrightarrow> (\<forall>n. reset_answer s' = Some n \<longrightarrow> n \<le> length (queue (samples s')))))"
    using assms(2)
  proof cases
    case (ro_put n i ok d q)
    note task = length_generating_ends [OF ro_put(3,4), of "Published ok" i] failed_stays(2) [OF ro_put(3,4), of "Published ok"]
    have all: "processor s \<noteq> Stopped \<Longrightarrow> length (samples_of (queue (samples s))) = length (queue (samples s))"
      and full: "max_queue_size (samples s) = required_limit cfg"
      using good bounds samples_of_all by (auto simp: supply_good_def bounds_good_def)
    show ?thesis using ro_put(5) task good all full
      by (cases rule: put_sample_cases) (auto simp: ro_put supply_good_def leaving_def in_flight_def held_def samples_of_Cons split: option.splits)
  next
    case (ro_fail n i)
    then show ?thesis using good failed_stays(3) by (auto simp: supply_good_def leaving_def)
  next
    case (ro_end_signal ok d q)
    then show ?thesis using good by (auto simp: supply_good_def leaving_def main_ends_def)
  next
    case (ro_collect x n q)
    have "queue (samples s) = x # queue q" using get_sample_Got [OF ro_collect(5)] by simp
    then show ?thesis using good ro_collect(3,4)
      by (auto simp: ro_collect(1,2) supply_good_def leaving_def in_flight_def held_def collect_sample_def samples_of_Cons split: option.splits)
  next
    case ro_answer_reset
    then show ?thesis using good by (auto simp: supply_good_def leaving_def in_flight_def held_def answer_reset_def get_queue_size_def)
  next
    case (ro_end_reset n)
    have "processor s \<noteq> Stopped \<Longrightarrow> length (samples_of (queue (samples s))) = length (queue (samples s))"
      using good samples_of_all by (auto simp: supply_good_def)
    then show ?thesis using ro_end_reset good bounds
      by (auto simp: supply_good_def bounds_good_def leaving_def in_flight_def held_def end_reset_def)
  next
    case (ro_drain n)
    then show ?thesis using good generating_remove [of n "active_tasks s"] failed_stays(1) [of n "active_tasks s"]
      by (auto simp: supply_good_def leaving_def in_flight_def held_def)
  next
    case (ro_return n i ok)
    then show ?thesis using good generating_return [of n "active_tasks s" i ok] failed_stays(2) [of n "active_tasks s" i "Published ok" Returned]
      by (auto simp: supply_good_def leaving_def in_flight_def held_def return_task_def)
  next
    case ro_reap_failed
    then show ?thesis using good by (auto simp: supply_good_def leaving_def reaping_def)
  qed (use good in \<open>auto simp: supply_good_def leaving_def in_flight_def held_def feed_sample_def Let_def take_pending_def submit_task_def
        begin_reset_def monitor_resumes_def samples_of_Cons split: option.splits processor.splits\<close>)
  then show ?thesis using bounds' by (simp add: supply_good_def)
qed

interpretation supplied: kept_by_steps "ro_step cfg" "supply_good cfg" for cfg
  by unfold_locales (rule supply_step_keeps)

lemma new_rollouter_supplied:
  "queue q = [] \<Longrightarrow> max_queue_size q = required_limit cfg \<Longrightarrow> supply_good cfg [] (new_rollouter first_step its q)"
  by (simp add: supply_good_def new_rollouter_bounded) (simp add: new_rollouter_def)

lemma flying_sample_moves:
  assumes "processor s = Draining" and "0 < in_flight s" and "0 < max_queue_size (samples s)"
    and "\<not> trainer_stopped s" and "collected_since s < sync_samples cfg"
  shows "\<exists>e s'. ro_step cfg s e s' \<and> (\<exists>x d. e = Collected x \<or> e = Put_sample x d)"
proof (cases "queue (samples s)")
  case Nil
  then have "generating (active_tasks s) \<noteq> []" using assms(1,2) by (simp add: in_flight_def held_def)
  then obtain i where "(i, Generating) \<in> set (active_tasks s)" by (auto simp: generating_def filter_empty_conv)
  then obtain n where n: "n < length (active_tasks s)" "active_tasks s ! n = (i, Generating)" by (metis in_set_conv_nth)
  obtain ok d q where "put_sample (Some i) (samples s) = Inr (ok, d, q)" using Nil assms(3) by (simp add: put_sample_def Let_def)
  from ro_put [OF n this] show ?thesis by blast
next
  case (Cons x xs)
  then obtain n q where "get_sample (samples s) = (Got x n, q)" by (simp add: get_sample_def)
  from ro_collect [OF assms(4,5) this] show ?thesis by blast
qed

lemma failed_task_raises:
  assumes "processor s = Draining" and "\<not> lock_taken s" and "any_failed (active_tasks s)"
  shows "\<exists>s'. ro_step cfg s (Crash []) s'"
proof -
  obtain i where "(i, Failed) \<in> set (active_tasks s)" using assms(3) by (auto simp: any_failed_def list_ex_iff)
  then obtain n where n: "n < length (active_tasks s)" "active_tasks s ! n = (i, Failed)" by (metis in_set_conv_nth)
  then show ?thesis using ro_drain_failed [OF assms(1,2) n(1), of cfg] by auto
qed

definition starved :: "rollout_limits \<Rightarrow> rollouter \<Rightarrow> bool" where
  "starved cfg s \<longleftrightarrow>
     processor s = Draining \<and> active_tasks s = [] \<and> \<not> resume_event s \<and> \<not> lock_taken s \<and> queue (samples s) = [] \<and> feeder s = Closed_feed \<and>
     required_limit cfg \<le> staleness_samples s \<and> collected_since s < sync_samples cfg \<and> \<not> trainer_stopped s"

lemma starved_step: "ro_step cfg s e s' \<Longrightarrow> starved cfg s \<Longrightarrow> starved cfg s' \<and> (\<nexists>x. e = Collected x)"
  by (cases rule: ro_step.cases)
    (auto simp: starved_def feed_sample_def Let_def should_pause_def get_sample_def reaping_def main_ends_def split: if_splits)

lemma starved_run: "run (ro_step cfg) s es s' \<Longrightarrow> starved cfg s \<Longrightarrow> starved cfg s' \<and> (\<forall>x. Collected x \<notin> set es)"
  by (induction rule: run.induct) (auto dest: starved_step)

text \<open>With a threshold of zero: the reset counts two tasks whose samples have been collected.\<close>

definition starving_schedule :: "action list" where
  "starving_schedule =
     replicate 4 Feed @ [Close] @ take_submit @ take_submit @
     [Publish 0, Publish 1, Gather, Gather, Return 0, Return 1, Begin_reset, Answer_reset, End_reset] @
     [Ask, Must_pause, Pause, Drain 0, Drain 0]"

lemma starving_schedule_result:
  "map_option (\<lambda>(es, s). (starved four_limits s, pending s)) (schedule four_limits starving_schedule (new_rollouter 1 100 (sample_queue 2))) =
     Some (True, [Some 3, Some 4, None])"
  by code_simp

lemma starving_run:
  "set_max_required_samples 4 2 0 1 1 = Inr (four_limits, 2) \<and>
   (\<exists>es s. run (ro_step four_limits) (new_rollouter 1 100 (sample_queue 2)) es s \<and> pending s = [Some 3, Some 4, None] \<and>
      (\<forall>es' t. run (ro_step four_limits) s es' t \<longrightarrow> processor t = Draining \<and> (\<forall>x. Collected x \<notin> set es')))"
proof
  show "set_max_required_samples 4 2 0 1 1 = Inr (four_limits, 2)" by (rule four_limits_set)
  obtain es s where s: "run (ro_step four_limits) (new_rollouter 1 100 (sample_queue 2)) es s" "starved four_limits s"
      "pending s = [Some 3, Some 4, None]"
    using schedule_reaches [OF starving_schedule_result] by blast
  moreover have "processor t = Draining \<and> (\<forall>x. Collected x \<notin> set es')" if "run (ro_step four_limits) s es' t" for es' t
    using starved_run [OF that s(2)] by (simp add: starved_def)
  ultimately show "\<exists>es s. run (ro_step four_limits) (new_rollouter 1 100 (sample_queue 2)) es s \<and> pending s = [Some 3, Some 4, None] \<and>
      (\<forall>es' t. run (ro_step four_limits) s es' t \<longrightarrow> processor t = Draining \<and> (\<forall>x. Collected x \<notin> set es'))"
    by (intro exI [of _ es] exI [of _ s]) simp
qed

text \<open>
  C37: If the limit exceeds the samples of a synchronization by the number of concurrent tasks, a paused rollouter never starves
  the trainer: while the trainer waits for samples, either the counter is below the limit, so that the monitor resumes the
  rollouter, or a sample is in flight and the next step of its task or of the trainer is enabled, or a generation has failed and the
  processor is about to end with its error. With a threshold of zero there is
  no such margin: a run without any failure reaches a state from which, with samples still pending, the processor drains forever and
  nothing is ever collected again.
\<close>

theorem rollouter_does_not_starve:
  assumes "run (ro_step cfg) (new_rollouter first_step its q) es s" and "queue q = []" and "max_queue_size q = required_limit cfg"
    and "sync_samples cfg + concurrent_limit cfg \<le> required_limit cfg"
    and "processor s = Draining" and "\<not> trainer_stopped s" and "collected_since s < sync_samples cfg"
  shows "(staleness_samples s < required_limit cfg \<or>
          (\<exists>e s'. ro_step cfg s e s' \<and> (\<exists>x d. e = Collected x \<or> e = Put_sample x d)) \<or>
          any_failed (active_tasks s) \<and> (\<exists>s'. ro_step cfg s (Crash []) s')) \<and>
         set_max_required_samples 4 2 0 1 1 = Inr (four_limits, 2) \<and>
         (\<exists>es0 t0. run (ro_step four_limits) (new_rollouter 1 100 (sample_queue 2)) es0 t0 \<and> pending t0 = [Some 3, Some 4, None] \<and>
            (\<forall>es' t. run (ro_step four_limits) t0 es' t \<longrightarrow> processor t = Draining \<and> (\<forall>x. Collected x \<notin> set es')))"
proof -
  have good: "supply_good cfg es s" using supplied.reach_keeps [OF assms(1) new_rollouter_supplied [OF assms(2,3)]] .
  have unlocked: "\<not> lock_taken s" using good assms(6,7) by (auto simp: supply_good_def)
  have "\<exists>e s'. ro_step cfg s e s' \<and> (\<exists>x d. e = Collected x \<or> e = Put_sample x d)"
    if "required_limit cfg \<le> staleness_samples s" and "\<not> any_failed (active_tasks s)"
  proof (rule flying_sample_moves)
    show "0 < in_flight s" using good that assms(4-7) by (auto simp: supply_good_def leaving_def)
    show "0 < max_queue_size (samples s)" using good assms(4,7) by (simp add: supply_good_def bounds_good_def)
  qed (use assms in auto)
  then show ?thesis using starving_run failed_task_raises [OF assms(5) unlocked] by (metis not_le)
qed

definition margin_limits :: rollout_limits where
  "margin_limits = \<lparr>rollout_steps = 100, required_limit = 2, concurrent_limit = 1, sync_samples = 1\<rparr>"

definition margin_schedule :: "action list" where
  "margin_schedule =
     replicate 3 Feed @ take_submit @ [Ask, Go, Take, Publish 0, Return 0, Reap, Submit, Ask, Must_pause, Pause]"

lemma margin_schedule_result:
  "map_option (\<lambda>(es, s). (processor s, trainer_stopped s, collected_since s, staleness_samples s, any_failed (active_tasks s)))
     (schedule margin_limits margin_schedule (new_rollouter 1 100 (sample_queue 2))) = Some (Draining, False, 0, 2, False)"
  by code_simp

lemma rollouter_does_not_starve_witness:
  "\<exists>s e s'. staleness_samples s = 2 \<and> ro_step margin_limits s e s' \<and> (\<exists>x d. e = Collected x \<or> e = Put_sample x d)"
proof -
  obtain es s where run: "run (ro_step margin_limits) (new_rollouter 1 100 (sample_queue 2)) es s" and s: "processor s = Draining"
      "\<not> trainer_stopped s" "collected_since s = 0" "staleness_samples s = 2" "\<not> any_failed (active_tasks s)"
    using schedule_reaches [OF margin_schedule_result] by auto
  from rollouter_does_not_starve [OF run] s show ?thesis by (auto simp: margin_limits_def sample_queue_def)
qed

end
