(* ===== verification/PyString.thy ===== *)
theory PyString
  imports Complex_Main "HOL-Library.Char_ord"
begin

section \<open>Strings\<close>

text \<open>
  The string methods and the conversion to a number the configuration code uses. Characters are
  those of one byte. A number is read exactly; the spellings of infinity and of not-a-number have no value
  among the reals and are read as errors.
\<close>

definition py_space :: "char \<Rightarrow> bool" where
  "py_space c \<longleftrightarrow> (let k = of_char c :: nat in (9 \<le> k \<and> k \<le> 13) \<or> (28 \<le> k \<and> k \<le> 32) \<or> k = 133 \<or> k = 160)"

definition py_strip :: "string \<Rightarrow> string" where
  "py_strip s = rev (dropWhile py_space (rev (dropWhile py_space s)))"

fun split_on :: "char \<Rightarrow> string \<Rightarrow> string list" where
  "split_on c [] = [[]]"
| "split_on c (d # ds) =
     (if d = c then [] # split_on c ds
      else (case split_on c ds of [] \<Rightarrow> [[d]] | w # ws \<Rightarrow> (d # w) # ws))"

text \<open>\<open>split(c, 1)\<close> of a string that holds \<open>c\<close>.\<close>

definition split_first :: "char \<Rightarrow> string \<Rightarrow> string \<times> string" where
  "split_first c s = (takeWhile (\<lambda>d. d \<noteq> c) s, tl (dropWhile (\<lambda>d. d \<noteq> c) s))"

definition starts_with :: "string \<Rightarrow> string \<Rightarrow> bool" where
  "starts_with p s \<longleftrightarrow> take (length p) s = p"

definition ends_with :: "string \<Rightarrow> string \<Rightarrow> bool" where
  "ends_with p s \<longleftrightarrow> drop (length s - length p) s = p \<and> length p \<le> length s"

text \<open>The comma-separated parts of a list, without spaces around them and without empty ones.\<close>

definition comma_list :: "string \<Rightarrow> string list" where
  "comma_list s = filter (\<lambda>p. p \<noteq> []) (map py_strip (split_on (CHR '','') s))"

definition is_digit :: "char \<Rightarrow> bool" where
  "is_digit c \<longleftrightarrow> (let k = of_char c :: nat in 48 \<le> k \<and> k \<le> 57)"

definition digit_value :: "char \<Rightarrow> int" where
  "digit_value c = of_char c - 48"

text \<open>Digits, single underscores between them allowed: their value and their number.\<close>

fun read_digits :: "int \<Rightarrow> nat \<Rightarrow> string \<Rightarrow> (int \<times> nat) option" where
  "read_digits v n [] = None"
| "read_digits v n [c] = (if is_digit c then Some (10 * v + digit_value c, n + 1) else None)"
| "read_digits v n (c # d # cs) =
     (if is_digit c then read_digits (10 * v + digit_value c) (n + 1) (if d = CHR ''_'' then cs else d # cs) else None)"

definition read_sign :: "string \<Rightarrow> real \<times> string" where
  "read_sign s =
     (case s of [] \<Rightarrow> (1, s) | c # cs \<Rightarrow> if c = CHR ''-'' then (- 1, cs) else if c = CHR ''+'' then (1, cs) else (1, s))"

definition read_mantissa :: "string \<Rightarrow> real option" where
  "read_mantissa s =
     (if CHR ''.'' \<in> set s then
        (let (ip, fp) = split_first (CHR ''.'') s
         in if ip = [] \<and> fp = [] then None
            else (case (if ip = [] then Some (0, 0) else read_digits 0 0 ip, if fp = [] then Some (0, 0) else read_digits 0 0 fp) of
                    (Some (v, n), Some (w, m)) \<Rightarrow> Some (real_of_int v + real_of_int w / 10 ^ m)
                  | _ \<Rightarrow> None))
      else map_option (\<lambda>(v, n). real_of_int v) (read_digits 0 0 s))"

definition is_exponent_mark :: "char \<Rightarrow> bool" where
  "is_exponent_mark c \<longleftrightarrow> c = CHR ''e'' \<or> c = CHR ''E''"

definition parse_float :: "string \<Rightarrow> real option" where
  "parse_float s =
     (let (sign, body) = read_sign (py_strip s);
          mantissa = takeWhile (\<lambda>c. \<not> is_exponent_mark c) body;
          rest = dropWhile (\<lambda>c. \<not> is_exponent_mark c) body
      in case read_mantissa mantissa of
           None \<Rightarrow> None
         | Some v \<Rightarrow>
             if rest = [] then Some (sign * v)
             else (let (esign, ebody) = read_sign (tl rest)
                   in case read_digits 0 0 ebody of
                        None \<Rightarrow> None
                      | Some (k, n) \<Rightarrow> Some (if esign < 0 then sign * v / 10 ^ nat k else sign * v * 10 ^ nat k)))"

lemma split_on_plain: "c \<notin> set s \<Longrightarrow> split_on c s = [s]"
  by (induction s) auto

lemma split_on_join: "c \<notin> set s \<Longrightarrow> split_on c (s @ c # t) = s # split_on c t"
  by (induction s) auto

lemma parse_float_examples:
  "parse_float ''2.0'' = Some 2" "parse_float '' 1e-2'' = Some (1 / 100)" "parse_float ''-.5'' = Some (- 1 / 2)"
  "parse_float ''1_000'' = Some 1000" "parse_float ''1__0'' = None" "parse_float ''abc'' = None" "parse_float ''.'' = None"
  by (code_simp)+

end
