(* ===== verification/PyText.thy ===== *)
theory PyText
  imports PyString
begin

section \<open>Texts\<close>

text \<open>
  The methods of Python's \<open>str\<close> and the substitutions of \<open>re\<close> the answer checkers use, over one-byte
  characters, and \<open>float\<close> of a decimal numeral with the rounding of IEEE doubles, in integers.
\<close>

subsection \<open>Substitution\<close>

text \<open>
  \<open>re.sub\<close> from left to right: the matcher gives the replacement and the (positive) length of a match at the
  start of the rest of the text; the counter skips what has been matched.
\<close>

fun sub_from :: "(string \<Rightarrow> (string \<times> nat) option) \<Rightarrow> nat \<Rightarrow> string \<Rightarrow> string" where
  "sub_from m n [] = []"
| "sub_from m n (c # cs) =
     (if 0 < n then sub_from m (n - 1) cs
      else (case m (c # cs) of
              None \<Rightarrow> c # sub_from m 0 cs
            | Some (r, k) \<Rightarrow> r @ sub_from m (k - 1) cs))"

definition re_sub :: "(string \<Rightarrow> (string \<times> nat) option) \<Rightarrow> string \<Rightarrow> string" where
  "re_sub m s = sub_from m 0 s"

definition literal :: "string \<Rightarrow> string \<Rightarrow> string \<Rightarrow> (string \<times> nat) option" where
  "literal p r s = (if starts_with p s then Some (r, length p) else None)"

definition py_replace :: "string \<Rightarrow> string \<Rightarrow> string \<Rightarrow> string" where
  "py_replace p r s = re_sub (literal p r) s"

text \<open>A name behind a backslash.\<close>

abbreviation tex :: "string \<Rightarrow> string" where
  "tex w \<equiv> CHR 0x5C # w"

subsection \<open>Searching and splitting\<close>

fun contains :: "string \<Rightarrow> string \<Rightarrow> bool" where
  "contains p [] = (p = [])"
| "contains p (c # cs) = (starts_with p (c # cs) \<or> contains p cs)"

text \<open>The number of disjoint occurrences; the parts between them; the rests at the first and at the last.\<close>

fun count_from :: "string \<Rightarrow> nat \<Rightarrow> string \<Rightarrow> nat" where
  "count_from p n [] = 0"
| "count_from p n (c # cs) =
     (if 0 < n then count_from p (n - 1) cs
      else if starts_with p (c # cs) then count_from p (length p - 1) cs + 1
      else count_from p 0 cs)"

definition py_count :: "string \<Rightarrow> string \<Rightarrow> nat" where
  "py_count p s = count_from p 0 s"

definition onto_head :: "'a \<Rightarrow> 'a list list \<Rightarrow> 'a list list" where
  "onto_head c ws = (case ws of [] \<Rightarrow> [[c]] | w # vs \<Rightarrow> (c # w) # vs)"

fun split_from :: "string \<Rightarrow> nat \<Rightarrow> string \<Rightarrow> string list" where
  "split_from p n [] = [[]]"
| "split_from p n (c # cs) =
     (if 0 < n then split_from p (n - 1) cs
      else if starts_with p (c # cs) then [] # split_from p (length p - 1) cs
      else onto_head c (split_from p 0 cs))"

definition py_split :: "string \<Rightarrow> string \<Rightarrow> string list" where
  "py_split p s = split_from p 0 s"

fun find_first :: "string \<Rightarrow> string \<Rightarrow> nat option" where
  "find_first p [] = None"
| "find_first p (c # cs) = (if starts_with p (c # cs) then Some 0 else map_option Suc (find_first p cs))"

fun find_last :: "string \<Rightarrow> string \<Rightarrow> nat option" where
  "find_last p [] = None"
| "find_last p (c # cs) =
     (case find_last p cs of
        Some i \<Rightarrow> Some (i + 1)
      | None \<Rightarrow> if starts_with p (c # cs) then Some 0 else None)"

text \<open>Some rest of the text satisfies a predicate: \<open>re.search\<close> without an anchor.\<close>

fun search :: "(string \<Rightarrow> bool) \<Rightarrow> string \<Rightarrow> bool" where
  "search q [] = q []"
| "search q (c # cs) = (q (c # cs) \<or> search q cs)"

subsection \<open>Letters and numbers\<close>

definition lower_char :: "char \<Rightarrow> char" where
  "lower_char c = (let k = of_char c :: nat in
     if (65 \<le> k \<and> k \<le> 90) \<or> (192 \<le> k \<and> k \<le> 222 \<and> k \<noteq> 215) then char_of (k + 32) else c)"

definition py_lower :: "string \<Rightarrow> string" where
  "py_lower s = map lower_char s"

definition is_alpha :: "char \<Rightarrow> bool" where
  "is_alpha c \<longleftrightarrow> (let k = of_char c :: nat in
     (65 \<le> k \<and> k \<le> 90) \<or> (97 \<le> k \<and> k \<le> 122) \<or> k \<in> {170, 181, 186} \<or> (192 \<le> k \<and> k \<le> 255 \<and> k \<noteq> 215 \<and> k \<noteq> 247))"

definition digit_char :: "int \<Rightarrow> char" where
  "digit_char d = char_of (48 + d)"

text \<open>\<open>str\<close> of an integer.\<close>

function show_digits :: "int \<Rightarrow> string" where
  "show_digits n = (if n < 10 then [digit_char n] else show_digits (n div 10) @ [digit_char (n mod 10)])"
  by pat_completeness auto
termination by (relation "measure nat") auto

declare show_digits.simps [simp del]

definition show_int :: "int \<Rightarrow> string" where
  "show_int k = (if k < 0 then CHR ''-'' # show_digits (- k) else show_digits k)"

text \<open>\<open>int\<close> of a text; more than 4300 digits raise ValueError like a text that is no number.\<close>

definition py_int :: "string \<Rightarrow> int option" where
  "py_int s =
     (let (sign, body) = read_sign (py_strip s)
      in case read_digits 0 0 body of
           None \<Rightarrow> None
         | Some (v, n) \<Rightarrow> if 4300 < n then None else Some (if sign < 0 then - v else v))"

subsection \<open>Floating-point numerals\<close>

text \<open>A decimal numeral: whether it is negative, its digits as a number, and its power of ten.\<close>

definition read_decimal_mantissa :: "string \<Rightarrow> (int \<times> int) option" where
  "read_decimal_mantissa s =
     (if CHR ''.'' \<in> set s then
        (let (ip, fp) = split_first (CHR ''.'') s
         in if ip = [] \<and> fp = [] then None
            else (case (if ip = [] then Some (0, 0) else read_digits 0 0 ip, if fp = [] then Some (0, 0) else read_digits 0 0 fp) of
                    (Some (v, n), Some (w, m)) \<Rightarrow> Some (v * 10 ^ m + w, int m)
                  | _ \<Rightarrow> None))
      else map_option (\<lambda>(v, n). (v, 0)) (read_digits 0 0 s))"

definition read_decimal :: "string \<Rightarrow> (bool \<times> int \<times> int) option" where
  "read_decimal s =
     (let (sign, body) = read_sign (py_strip s);
          mantissa = takeWhile (\<lambda>c. \<not> is_exponent_mark c) body;
          rest = dropWhile (\<lambda>c. \<not> is_exponent_mark c) body
      in case read_decimal_mantissa mantissa of
           None \<Rightarrow> None
         | Some (v, m) \<Rightarrow>
             if rest = [] then Some (sign < 0, v, - m)
             else (let (esign, ebody) = read_sign (tl rest)
                   in case read_digits 0 0 ebody of
                        None \<Rightarrow> None
                      | Some (k, n) \<Rightarrow> Some (sign < 0, v, (if esign < 0 then - k else k) - m)))"

text \<open>The nearest double of a quotient of positive integers, ties to even: an integer times a power of two.\<close>

function bit_count :: "int \<Rightarrow> int" where
  "bit_count n = (if n \<le> 0 then 0 else bit_count (n div 2) + 1)"
  by pat_completeness auto
termination by (relation "measure nat") auto

declare bit_count.simps [simp del]

definition round_half_even :: "int \<Rightarrow> int \<Rightarrow> int" where
  "round_half_even p q =
     (let d = p div q; r = p mod q
      in if 2 * r < q \<or> (2 * r = q \<and> even d) then d else d + 1)"

definition scaled :: "int \<Rightarrow> int \<Rightarrow> int \<Rightarrow> int \<times> int" where
  "scaled p q e = (p * 2 ^ nat (- e), q * 2 ^ nat e)"

definition floor_log2 :: "int \<Rightarrow> int \<Rightarrow> int" where
  "floor_log2 p q =
     (let b = bit_count p - bit_count q; (p', q') = scaled p q b
      in if q' \<le> p' then b else b - 1)"

definition nearest_double :: "int \<Rightarrow> int \<Rightarrow> int \<times> int" where
  "nearest_double p q =
     (if p = 0 then (0, 0)
      else (let e = max (floor_log2 p q - 52) (- 1074); (p', q') = scaled p q e
            in (round_half_even p' q', e)))"

datatype py_float =
    Finite bool int int
  | Infinite
  | Not_a_number

text \<open>\<open>float\<close> of a text: a sign, a mantissa and a power of two.\<close>

definition py_float_of :: "string \<Rightarrow> py_float option" where
  "py_float_of s =
     (case read_decimal s of
        Some (neg, v, k) \<Rightarrow>
          (let (m, e) = nearest_double (v * 10 ^ nat k) (10 ^ nat (- k))
           in Some (if 2 ^ 1024 \<le> m * 2 ^ nat e then Infinite else Finite neg m e))
      | None \<Rightarrow>
          (let w = py_lower (snd (read_sign (py_strip s)))
           in if w = ''inf'' \<or> w = ''infinity'' then Some Infinite
              else if w = ''nan'' then Some Not_a_number else None))"

text \<open>The nearest integer of a finite double, and the integer its fraction is cut to.\<close>

definition round_double :: "int \<Rightarrow> int \<Rightarrow> int" where
  "round_double m e = (if e < 0 then round_half_even m (2 ^ nat (- e)) else m * 2 ^ nat e)"

definition trunc_double :: "int \<Rightarrow> int \<Rightarrow> int" where
  "trunc_double m e = (if e < 0 then m div 2 ^ nat (- e) else m * 2 ^ nat e)"

subsection \<open>Lengths of substitutions\<close>

text \<open>A substitution whose replacements are shorter than the matches shortens the text or leaves it alone.\<close>

lemma sub_from_shrinks:
  assumes "\<And>s r k. m s = Some (r, k) \<Longrightarrow> length r < k \<and> k \<le> length s" and "n \<le> length s"
  shows "length (sub_from m n s) + n < length s \<or> sub_from m n s = drop n s"
  using assms(2)
proof (induction s arbitrary: n)
  case (Cons c cs)
  show ?case
  proof (cases "0 < n")
    case True
    then show ?thesis using Cons by (cases n) auto
  next
    case skip: False
    show ?thesis
    proof (cases "m (c # cs)")
      case None
      then show ?thesis using Cons.IH [of 0] skip by auto
    next
      case (Some rk)
      obtain r k where rk: "rk = (r, k)" by (cases rk)
      have b: "length r < k" "k \<le> length (c # cs)" using assms(1) [of "c # cs" r k] Some rk by simp_all
      then have "length (sub_from m (k - 1) cs) \<le> length cs - (k - 1)" using Cons.IH [of "k - 1"] b by (auto simp: le_diff_conv)
      then show ?thesis using skip Some rk b by auto
    qed
  qed
qed simp

lemma re_sub_shrinks:
  assumes "\<And>s r k. m s = Some (r, k) \<Longrightarrow> length r < k \<and> k \<le> length s" and "re_sub m s \<noteq> s"
  shows "length (re_sub m s) < length s"
  using sub_from_shrinks [OF assms(1), of m 0 s] assms(2) by (auto simp: re_sub_def)

subsection \<open>Texts without a character\<close>

text \<open>A pattern with a character that a text lacks occurs nowhere in it.\<close>

lemma starts_with_subset: "starts_with p s \<Longrightarrow> set p \<subseteq> set s"
  by (metis starts_with_def set_take_subset)

lemma starts_with_append [simp]: "starts_with p (p @ s)"
  by (simp add: starts_with_def)

lemma starts_with_Nil [simp]: "starts_with p [] \<longleftrightarrow> p = []"
  by (auto simp: starts_with_def)

lemma starts_with_Cons [simp]: "starts_with (a # p) (c # s) \<longleftrightarrow> a = c \<and> starts_with p s"
  by (auto simp: starts_with_def)

lemma starts_with_empty [simp]: "starts_with [] s"
  by (simp add: starts_with_def)

lemma sub_from_same:
  assumes "\<And>t. t \<noteq> [] \<Longrightarrow> set t \<subseteq> set s \<Longrightarrow> m t = None"
  shows "sub_from m 0 s = s"
  using assms
proof (induction s)
  case (Cons c s)
  then show ?case using Cons.prems [of "c # s"] by (fastforce simp: subset_eq)
qed simp

lemma re_sub_same: "(\<And>t. t \<noteq> [] \<Longrightarrow> set t \<subseteq> set s \<Longrightarrow> m t = None) \<Longrightarrow> re_sub m s = s"
  unfolding re_sub_def by (rule sub_from_same)

lemma py_replace_absent: "c \<in> set p \<Longrightarrow> c \<notin> set s \<Longrightarrow> py_replace p r s = s"
  unfolding py_replace_def by (rule re_sub_same) (auto simp: literal_def dest: starts_with_subset)

lemma contains_set: "contains p s \<Longrightarrow> set p \<subseteq> set s"
  by (induction p s rule: contains.induct) (auto simp del: starts_with_Cons dest!: starts_with_subset)

lemma contains_absent: "c \<in> set p \<Longrightarrow> c \<notin> set s \<Longrightarrow> \<not> contains p s"
  using contains_set by auto

lemma py_split_absent: "c \<in> set p \<Longrightarrow> c \<notin> set s \<Longrightarrow> py_split p s = [s]"
proof -
  have "split_from p 0 s = [s]" if "c \<in> set p" "c \<notin> set s"
    using that(2)
  proof (induction s)
    case (Cons a s)
    then show ?case using that(1) starts_with_subset [of p "a # s"] by (auto simp: onto_head_def)
  qed simp
  then show "c \<in> set p \<Longrightarrow> c \<notin> set s \<Longrightarrow> py_split p s = [s]" by (simp add: py_split_def)
qed

lemma search_absent: "(\<And>t. q t \<Longrightarrow> c \<in> set t) \<Longrightarrow> c \<notin> set s \<Longrightarrow> \<not> search q s"
  by (induction s) (auto, force+)

subsection \<open>Numerals\<close>

definition all_digits :: "string \<Rightarrow> bool" where
  "all_digits s \<longleftrightarrow> (\<forall>c\<in>set s. is_digit c)"

lemma digit_facts:
  "\<forall>d\<in>set [0..9]. is_digit (digit_char d) \<and> digit_value (digit_char d) = d"
  by code_simp

lemma digit_char_digit [simp]: "0 \<le> d \<Longrightarrow> d < 10 \<Longrightarrow> is_digit (digit_char d)" "0 \<le> d \<Longrightarrow> d < 10 \<Longrightarrow> digit_value (digit_char d) = d"
  using digit_facts by auto

lemma is_digit_cases:
  assumes "is_digit c"
  shows "c \<in> set ''0123456789''"
proof -
  have "\<forall>k\<in>set [48..<58 :: nat]. (char_of k :: char) \<in> set ''0123456789''" by code_simp
  moreover have "(of_char c :: nat) \<in> set [48..<58]" using assms
    by (simp only: is_digit_def Let_def set_upt atLeastLessThan_iff) simp
  ultimately have "char_of (of_char c :: nat) \<in> set ''0123456789''" by blast
  then show ?thesis by simp
qed

lemma nondigits:
  "\<not> is_digit (CHR '' '')" "\<not> is_digit (CHR '','')" "\<not> is_digit (CHR ''.'')" "\<not> is_digit (CHR ''-'')" "\<not> is_digit (CHR ''/'')"
  "\<not> is_digit (CHR ''='')" "\<not> is_digit (CHR 0x5C)" "\<not> is_digit (CHR ''^'')" "\<not> is_digit (CHR ''{'')" "\<not> is_digit (CHR ''}'')"
  "\<not> is_digit (CHR ''('')" "\<not> is_digit (CHR '')'')" "\<not> is_digit (CHR ''['')" "\<not> is_digit (CHR '']'')" "\<not> is_digit (CHR 0x0A)"
  "\<not> is_digit (CHR ''+'')" "\<not> is_digit (CHR ''$'')" "\<not> is_digit (CHR ''%'')"
  by code_simp+

lemma digit_properties:
  assumes "is_digit c"
  shows "\<not> py_space c" "\<not> is_exponent_mark c" "lower_char c = c" "\<not> is_alpha c"
proof -
  have "\<forall>c\<in>set ''0123456789''. \<not> py_space c \<and> \<not> is_exponent_mark c \<and> lower_char c = c \<and> \<not> is_alpha c" by code_simp
  then show "\<not> py_space c" "\<not> is_exponent_mark c" "lower_char c = c" "\<not> is_alpha c"
    using is_digit_cases [OF assms] by auto
qed

lemma all_digits_absent: "all_digits s \<Longrightarrow> \<not> is_digit c \<Longrightarrow> c \<notin> set s"
  by (auto simp: all_digits_def)

definition digits_value :: "string \<Rightarrow> int \<Rightarrow> int" where
  "digits_value s v = fold (\<lambda>c v. 10 * v + digit_value c) s v"

lemma read_digits_all:
  "s \<noteq> [] \<Longrightarrow> all_digits s \<Longrightarrow> read_digits v n s = Some (digits_value s v, n + length s)"
proof (induction v n s rule: read_digits.induct)
  case (3 v n c d cs)
  then have "d \<noteq> CHR ''_''" by (auto simp: all_digits_def dest: is_digit_cases)
  then show ?case using 3 by (auto simp: all_digits_def digits_value_def)
qed (auto simp: all_digits_def digits_value_def)

lemma show_digits_facts:
  "0 \<le> n \<Longrightarrow> show_digits n \<noteq> [] \<and> all_digits (show_digits n) \<and> digits_value (show_digits n) 0 = n"
proof (induction n rule: show_digits.induct)
  case (1 n)
  show ?case
  proof (cases "n < 10")
    case True
    then show ?thesis using 1 by (simp add: show_digits.simps [of n] all_digits_def digits_value_def)
  next
    case False
    then have "0 \<le> n mod 10" "n mod 10 < 10" by simp_all
    moreover have "show_digits n = show_digits (n div 10) @ [digit_char (n mod 10)]"
      using False by (simp add: show_digits.simps [of n])
    ultimately show ?thesis using 1 False by (auto simp: all_digits_def digits_value_def)
  qed
qed

lemma read_show_digits: "0 \<le> n \<Longrightarrow> read_digits 0 0 (show_digits n) = Some (n, length (show_digits n))"
  using show_digits_facts [of n] by (simp add: read_digits_all)

lemma show_digits_inject: "0 \<le> m \<Longrightarrow> 0 \<le> n \<Longrightarrow> show_digits m = show_digits n \<longleftrightarrow> m = n"
  using show_digits_facts by metis

lemma py_strip_plain: "(\<And>c. c \<in> set s \<Longrightarrow> \<not> py_space c) \<Longrightarrow> py_strip s = s"
proof -
  assume plain: "\<And>c. c \<in> set s \<Longrightarrow> \<not> py_space c"
  have "dropWhile py_space t = t" if "set t \<subseteq> set s" for t
    using plain that by (cases t) auto
  then show "py_strip s = s" by (simp add: py_strip_def)
qed

subsection \<open>Integers read as floats\<close>

lemma bit_count_bounds: "0 \<le> bit_count n" "n < 2 ^ k \<Longrightarrow> bit_count n \<le> int k"
proof -
  show "0 \<le> bit_count n" by (induction n rule: bit_count.induct) (subst bit_count.simps, auto)
  show "n < 2 ^ k \<Longrightarrow> bit_count n \<le> int k"
  proof (induction k arbitrary: n)
    case 0
    then show ?case by (simp add: bit_count.simps [of n])
  next
    case (Suc k)
    then have "n div 2 < 2 ^ k" by simp
    then show ?case using Suc.IH [of "n div 2"] by (simp add: bit_count.simps [of n])
  qed
qed

lemma floor_log2_integer:
  assumes "0 < n" and "n < 2 ^ 53"
  shows "- 1 \<le> floor_log2 n 1" "floor_log2 n 1 \<le> 52"
proof -
  have one: "bit_count 1 = 1" by (simp add: bit_count.simps [of 1] bit_count.simps [of 0])
  have "1 \<le> bit_count n" using bit_count_bounds(1) [of "n div 2"] assms(1) by (simp add: bit_count.simps [of n])
  moreover have "bit_count n \<le> 53" using bit_count_bounds(2) [of n 53] assms(2) by simp
  ultimately show "- 1 \<le> floor_log2 n 1" "floor_log2 n 1 \<le> 52"
    by (auto simp: floor_log2_def one Let_def split: prod.splits)
qed

lemma round_half_even_exact [simp]: "0 < q \<Longrightarrow> round_half_even (p * q) q = p"
  by (simp add: round_half_even_def)

lemma nearest_double_integer:
  assumes "0 \<le> n" and "n < 2 ^ 53"
  obtains e where "nearest_double n 1 = (n * 2 ^ nat (- e), e)" "e \<le> 0" "- 53 \<le> e"
proof (cases "n = 0")
  case True
  then show ?thesis using that [of 0] by (simp add: nearest_double_def)
next
  case False
  define e where "e = max (floor_log2 n 1 - 52) (- 1074)"
  have e: "e \<le> 0" "- 53 \<le> e" using floor_log2_integer [of n] False assms by (auto simp: e_def)
  then have "nearest_double n 1 = (n * 2 ^ nat (- e), e)"
    using False round_half_even_exact [of 1 "n * 2 ^ nat (- e)"]
    by (simp add: nearest_double_def e_def [symmetric] scaled_def Let_def)
  then show ?thesis using that e by blast
qed

lemma py_float_of_integer:
  assumes "0 \<le> n" and "n < 2 ^ 53"
  obtains e where "py_float_of (show_digits n) = Some (Finite False (n * 2 ^ nat (- e)) e)" "e \<le> 0" "- 53 \<le> e"
proof -
  let ?s = "show_digits n"
  have ds: "?s \<noteq> []" "all_digits ?s" using show_digits_facts assms(1) by auto
  then have plain: "c \<in> set ?s \<Longrightarrow> is_digit c" for c by (simp add: all_digits_def)
  have strip: "py_strip ?s = ?s" by (rule py_strip_plain) (use plain digit_properties in blast)
  have "CHR ''-'' \<noteq> hd ?s" "CHR ''+'' \<noteq> hd ?s" using plain [of "hd ?s"] ds(1) nondigits by auto
  then have sign: "read_sign ?s = (1, ?s)" using ds(1) by (auto simp: read_sign_def split: list.splits)
  have unmarked: "\<forall>c\<in>set ?s. \<not> is_exponent_mark c" using plain digit_properties by blast
  have nodot: "CHR ''.'' \<notin> set ?s" using plain nondigits by blast
  have dec: "read_decimal ?s = Some (False, n, 0)"
    using unmarked by (simp add: read_decimal_def strip sign Let_def read_decimal_mantissa_def nodot read_show_digits [OF assms(1)]
        takeWhile_eq_all_conv [THEN iffD2] dropWhile_eq_Nil_conv [THEN iffD2])
  obtain e where e: "nearest_double n 1 = (n * 2 ^ nat (- e), e)" "e \<le> 0" "- 53 \<le> e"
    using nearest_double_integer [OF assms] by blast
  have "n * 2 ^ nat (- e) < (2 :: int) ^ 53 * 2 ^ 53"
  proof (rule mult_less_le_imp_less)
    show "(2 :: int) ^ nat (- e) \<le> 2 ^ 53" using e(3) by (intro power_increasing) auto
  qed (use assms in auto)
  also have "\<dots> < 2 ^ 1024" by simp
  finally have "py_float_of ?s = Some (Finite False (n * 2 ^ nat (- e)) e)"
    using e by (simp add: py_float_of_def dec Let_def)
  then show ?thesis using that e by blast
qed

end
