(* ===== verification/AsyncTrainer.thy ===== *)
theory AsyncTrainer
  imports FullyAsync PyText
begin

section \<open>The trainer of fully asynchronous training\<close>

text \<open>
  Models the schedule of \<open>FullyAsyncTrainer\<close>
  (\<open>src/verl/experimental/fully_async_policy/fully_async_trainer.py\<close>): training steps, synchronization of the weights,
  validation, and checkpoints; the positions at which the trainer and the rollouter resume
  (\<open>fully_async_rollouter.py\<close>); and the aggregation of metrics over the steps of one version
  (\<open>detach_utils.py\<close>). The computations of a step, logging and time are left out; the events say what happens
  in which order.
\<close>

subsection \<open>Schedule\<close>

record async_config =
  sync_step :: nat
  async_test_freq :: int
  async_save_freq :: int

record async_trainer =
  local_trigger_step :: nat
  param_version :: nat
  last_ckpt_version :: nat
  async_global_steps :: nat

datatype trainer_event = Trained | Weights_synced nat | Validated_version nat | Checkpoint nat

definition new_async_trainer :: async_trainer where
  "new_async_trainer = \<lparr>local_trigger_step = 1, param_version = 0, last_ckpt_version = 0, async_global_steps = 0\<rparr>"

definition update_local_step :: "async_config \<Rightarrow> async_trainer \<Rightarrow> async_trainer" where
  "update_local_step cfg t =
     (if local_trigger_step t < sync_step cfg then t\<lparr>local_trigger_step := local_trigger_step t + 1\<rparr>
      else t\<lparr>param_version := param_version t + 1, local_trigger_step := 1\<rparr>)"

definition update_weights :: "async_trainer \<Rightarrow> trainer_event list" where
  "update_weights t = (if local_trigger_step t \<noteq> 1 then [] else [Weights_synced (param_version t)])"

definition fit_validate :: "async_config \<Rightarrow> bool \<Rightarrow> async_trainer \<Rightarrow> trainer_event list" where
  "fit_validate cfg val_before_train t =
     (let need_validate = 0 < async_test_freq cfg \<and> int (param_version t) mod async_test_freq cfg = 0 \<and> 0 < param_version t
      in if local_trigger_step t \<noteq> 1 then []
         else if \<not> need_validate \<and> \<not> val_before_train then []
         else [Validated_version (param_version t)])"

definition fit_save_checkpoint :: "async_config \<Rightarrow> bool \<Rightarrow> bool \<Rightarrow> async_trainer \<Rightarrow> trainer_event list \<times> async_trainer" where
  "fit_save_checkpoint cfg force esi t =
     (if param_version t = last_ckpt_version t then ([], t)
      else if 0 < async_save_freq cfg \<and> (force \<or> int (param_version t) mod async_save_freq cfg = 0 \<or> esi)
      then ([Checkpoint (param_version t)], t\<lparr>last_ckpt_version := param_version t\<rparr>)
      else ([], t))"

text \<open>One step; whether the instance is about to expire is an input.\<close>

definition fit_step :: "async_config \<Rightarrow> bool \<Rightarrow> async_trainer \<Rightarrow> trainer_event list \<times> async_trainer" where
  "fit_step cfg esi t =
     (let t1 = update_local_step cfg t; (saved, t2) = fit_save_checkpoint cfg False esi t1
      in ([Trained] @ update_weights t1 @ fit_validate cfg False t1 @ saved, t2\<lparr>async_global_steps := async_global_steps t2 + 1\<rparr>))"

fun fit_loop :: "async_config \<Rightarrow> bool list \<Rightarrow> async_trainer \<Rightarrow> trainer_event list \<times> async_trainer" where
  "fit_loop cfg [] t = ([], t)"
| "fit_loop cfg (esi # later) t =
     (let (es, t1) = fit_step cfg esi t; (es', t2) = fit_loop cfg later t1 in (es @ es', t2))"

text \<open>After the end signal: the last synchronization, validation and checkpoint. A frequency of zero divides by zero.\<close>

definition fit_end :: "async_config \<Rightarrow> bool \<Rightarrow> async_trainer \<Rightarrow> (trainer_event list \<times> async_trainer) result" where
  "fit_end cfg esi t =
     guard_res (async_test_freq cfg \<noteq> 0) ZeroDivisionError (
       let again = int (param_version t) mod async_test_freq cfg \<noteq> 0 \<or> 1 < local_trigger_step t;
           (saved, t1) = fit_save_checkpoint cfg True esi t
       in Inr ((if again then update_weights t @ fit_validate cfg False t else []) @ saved, t1))"

text \<open>The events of a run, and its state or the error at its end.\<close>

definition fit_trainer :: "async_config \<Rightarrow> bool list \<Rightarrow> bool \<Rightarrow> async_trainer \<Rightarrow> trainer_event list \<times> async_trainer result" where
  "fit_trainer cfg esis esi_end t =
     (let (es, t1) = fit_loop cfg esis (t\<lparr>async_global_steps := async_global_steps t + 1\<rparr>)
      in case fit_end cfg esi_end t1 of Inl e \<Rightarrow> (es, Inl e) | Inr (es', t2) \<Rightarrow> (es @ es', Inr t2))"

subsection \<open>Resuming\<close>

text \<open>
  The folder of a checkpoint names its version after the last marker. The trainer writes natural numbers; a negative number in a
  path given by hand, which the code would take, counts as zero here.
\<close>

definition step_marker :: string where
  "step_marker = ''global_step_''"

definition folder_version :: "string \<Rightarrow> int result" where
  "folder_version folder = (case py_int (last (py_split step_marker folder)) of None \<Rightarrow> Inl ValueError | Some v \<Rightarrow> Inr v)"

definition explicit_folder :: "string option \<Rightarrow> string result" where
  "explicit_folder path =
     (case path of None \<Rightarrow> Inl AssertionError | Some p \<Rightarrow> guard_res (contains step_marker p) AssertionError (Inr p))"

text \<open>The latest folder, if any, and the configured path; None is a start from scratch.\<close>

definition trainer_resume :: "string \<Rightarrow> bool \<Rightarrow> string option \<Rightarrow> string option \<Rightarrow> nat \<Rightarrow> async_trainer \<Rightarrow> async_trainer result" where
  "trainer_resume mode hdfs latest path sync t =
     (if mode = ''disable'' then Inr t
      else guard_res (\<not> hdfs) NotImplementedError (
        if mode = ''auto'' \<and> latest = None then Inr t
        else bind_res (if mode = ''resume_path'' then explicit_folder path else case latest of None \<Rightarrow> Inl AttributeError | Some f \<Rightarrow> Inr f) (\<lambda>folder.
          bind_res (folder_version folder) (\<lambda>v.
            Inr (t\<lparr>param_version := nat v, async_global_steps := nat v * sync + 1, last_ckpt_version := nat v\<rparr>)))))"

definition rollouter_resume :: "string \<Rightarrow> bool \<Rightarrow> string option \<Rightarrow> string option \<Rightarrow> nat \<Rightarrow> nat \<Rightarrow> nat \<Rightarrow> nat result" where
  "rollouter_resume mode hdfs latest path required sync first_step =
     (if mode = ''disable'' then Inr first_step
      else guard_res (\<not> hdfs) NotImplementedError (
        bind_res
          (if mode = ''auto'' then Inr latest
           else if mode = ''resume_path'' then bind_res (explicit_folder path) (\<lambda>f. Inr (Some f))
           else Inl ValueError) (\<lambda>folder.
          case folder of
            None \<Rightarrow> Inr first_step
          | Some f \<Rightarrow> bind_res (folder_version f) (\<lambda>v. Inr (nat v * required * sync + 1)))))"

text \<open>How many training steps the samples from a step to the last one make.\<close>

definition steps_of_samples :: "nat \<Rightarrow> nat \<Rightarrow> nat \<Rightarrow> nat" where
  "steps_of_samples required first_step last_step = (Suc last_step - first_step) div required"

subsection \<open>Aggregation of metrics\<close>

datatype metric_entry = Number real | Not_a_number

record metrics_aggregator =
  metric_values :: "(string, real list) dict"
  sample_counts :: "nat list"
  step_count :: nat
  total_gpus :: nat

definition add_step_metrics :: "(string, metric_entry) dict \<Rightarrow> nat \<Rightarrow> metrics_aggregator \<Rightarrow> metrics_aggregator" where
  "add_step_metrics metrics n a =
     a\<lparr>sample_counts := sample_counts a @ [n], step_count := step_count a + 1,
       metric_values := fold (\<lambda>(k, v) d. case v of Number x \<Rightarrow> dict_append k x d | Not_a_number \<Rightarrow> d) metrics (metric_values a)\<rparr>"

definition aggregation_rules :: "(string \<times> string list) list" where
  "aggregation_rules =
     [(''time_sum'', [''perf/time_per_step'']),
      (''min'', [''timing_s/agent_loop/tool_calls/min'']),
      (''avg'', [''timing_s/agent_loop/tool_calls/mean'']),
      (''max'', [''timing_s/agent_loop/tool_calls/max'']),
      (''last'', [''fully_async/count/total_generated_samples'', ''fully_async/count/stale_samples_processed'',
         ''fully_async/count/stale_trajectory_processed'', ''fully_async/count/current_param_version'',
         ''fully_async/count/dropped_stale_samples'', ''training/global_step''])]"

definition keyword_rules :: "(string \<times> string list) list" where
  "keyword_rules =
     [(''time_sum'', [''timing_s/'']), (''avg'', [''mean'', ''avg'', ''average'']), (''max'', [''max'', ''maximum'']),
      (''min'', [''min'', ''minimum'']), (''sum'', [''sum'', ''total'']), (''weighted_avg'', [''weighted_avg''])]"

definition get_aggregation_type :: "string \<Rightarrow> string" where
  "get_aggregation_type name =
     (case filter (\<lambda>(t, names). name \<in> set names) aggregation_rules of
        (t, names) # later \<Rightarrow> t
      | [] \<Rightarrow>
          (case filter (\<lambda>(t, ws). list_ex (\<lambda>w. contains w (py_lower name)) ws) keyword_rules of
             (t, ws) # later \<Rightarrow> t
           | [] \<Rightarrow> ''avg''))"

definition mean_of :: "real list \<Rightarrow> real" where
  "mean_of xs = sum_list xs / real (length xs)"

definition aggregate_single_metric :: "nat list \<Rightarrow> string \<Rightarrow> real list \<Rightarrow> real" where
  "aggregate_single_metric counts name xs =
     (let t = get_aggregation_type name
      in if xs = [] then 0
         else if t = ''last'' then last xs
         else if t = ''weighted_avg'' then
           (if length xs \<noteq> length counts \<or> sum_list counts = 0 then mean_of xs
            else sum_list (map2 (\<lambda>v c. v * real c) xs counts) / real (sum_list counts))
         else if t = ''sum'' \<or> t = ''time_sum'' then sum_list xs
         else if t = ''avg'' then mean_of xs
         else if t = ''max'' then Max (set xs)
         else if t = ''min'' then Min (set xs)
         else mean_of xs)"

definition quotient :: "real \<Rightarrow> real \<Rightarrow> real result" where
  "quotient x y = guard_res (y \<noteq> 0) ZeroDivisionError (Inr (x / y))"

definition special_metrics :: "nat \<Rightarrow> (string, real) dict \<Rightarrow> (string, real) dict result" where
  "special_metrics gpus agg =
     bind_res
       (if map_of agg ''global_seqlen/minmax_diff'' = None then Inr agg
        else case (map_of agg ''global_seqlen/max'', map_of agg ''global_seqlen/min'') of
               (Some hi, Some lo) \<Rightarrow> Inr (dict_set ''global_seqlen/minmax_diff'' (hi - lo) agg)
             | _ \<Rightarrow> Inl KeyError) (\<lambda>agg1.
     bind_res
       (case (map_of agg1 ''perf/throughput'', map_of agg1 ''perf/total_num_tokens'', map_of agg1 ''perf/time_per_step'') of
          (Some _, Some tokens, Some seconds) \<Rightarrow>
            bind_res (quotient tokens (seconds * real gpus)) (\<lambda>x. Inr (dict_set ''perf/throughput'' x agg1))
        | _ \<Rightarrow> Inr agg1) (\<lambda>agg2.
     case (map_of agg2 ''timing_s/gen'', map_of agg2 ''timing_s/step'') of
       (Some gen, Some step) \<Rightarrow> bind_res (quotient gen step) (\<lambda>x. Inr (dict_set ''fully_async/trainer/idle_ratio'' x agg2))
     | _ \<Rightarrow> Inr agg2))"

definition get_aggregated_metrics :: "metrics_aggregator \<Rightarrow> (string, real) dict result" where
  "get_aggregated_metrics a =
     (if step_count a = 0 then Inr []
      else special_metrics (total_gpus a) (map (\<lambda>(k, xs). (k, aggregate_single_metric (sample_counts a) k xs)) (metric_values a)))"

definition reset_aggregator :: "metrics_aggregator \<Rightarrow> metrics_aggregator" where
  "reset_aggregator a = a\<lparr>metric_values := [], sample_counts := [], step_count := 0\<rparr>"

subsection \<open>The schedule of a run\<close>

definition synced_of :: "trainer_event list \<Rightarrow> nat list" where
  "synced_of es = concat (map (\<lambda>e. case e of Weights_synced v \<Rightarrow> [v] | _ \<Rightarrow> []) es)"

definition validated_of :: "trainer_event list \<Rightarrow> nat list" where
  "validated_of es = concat (map (\<lambda>e. case e of Validated_version v \<Rightarrow> [v] | _ \<Rightarrow> []) es)"

definition checkpoints_of :: "trainer_event list \<Rightarrow> nat list" where
  "checkpoints_of es = concat (map (\<lambda>e. case e of Checkpoint v \<Rightarrow> [v] | _ \<Rightarrow> []) es)"

lemmas schedule_traces = synced_of_def validated_of_def checkpoints_of_def

lemma schedule_trace_simps [simp]:
  "synced_of [] = []" "validated_of [] = []" "checkpoints_of [] = []"
  "synced_of (es @ es') = synced_of es @ synced_of es'" "validated_of (es @ es') = validated_of es @ validated_of es'"
  "checkpoints_of (es @ es') = checkpoints_of es @ checkpoints_of es'"
  "synced_of (e # es) = (case e of Weights_synced v \<Rightarrow> [v] | _ \<Rightarrow> []) @ synced_of es"
  "validated_of (e # es) = (case e of Validated_version v \<Rightarrow> [v] | _ \<Rightarrow> []) @ validated_of es"
  "checkpoints_of (e # es) = (case e of Checkpoint v \<Rightarrow> [v] | _ \<Rightarrow> []) @ checkpoints_of es"
  by (simp_all add: schedule_traces)

text \<open>The training steps done since the start, counted in versions and steps of the next one.\<close>

definition progress :: "async_config \<Rightarrow> async_trainer \<Rightarrow> nat" where
  "progress cfg t = param_version t * sync_step cfg + (local_trigger_step t - 1)"

definition local_ok :: "async_config \<Rightarrow> async_trainer \<Rightarrow> bool" where
  "local_ok cfg t \<longleftrightarrow> 1 \<le> local_trigger_step t \<and> local_trigger_step t \<le> sync_step cfg"

lemma progress_div:
  assumes "local_ok cfg t"
  shows "param_version t = progress cfg t div sync_step cfg" "local_trigger_step t = 1 + progress cfg t mod sync_step cfg"
  using assms by (cases "local_trigger_step t"; auto simp: progress_def local_ok_def)+

definition wanted :: "int \<Rightarrow> nat \<Rightarrow> bool" where
  "wanted freq v \<longleftrightarrow> 0 < freq \<and> int v mod freq = 0"

lemma save_fields:
  "fit_save_checkpoint cfg force esi t = (es, t') \<Longrightarrow>
   param_version t' = param_version t \<and> local_trigger_step t' = local_trigger_step t \<and> synced_of es = [] \<and> validated_of es = []"
  by (auto simp: fit_save_checkpoint_def split: if_splits)

lemma fit_step_parts:
  assumes "fit_step cfg esi t = (es, t')"
  obtains saved t2 where "fit_save_checkpoint cfg False esi (update_local_step cfg t) = (saved, t2)"
    and "t' = t2\<lparr>async_global_steps := async_global_steps t2 + 1\<rparr>"
    and "es = [Trained] @ update_weights (update_local_step cfg t) @ fit_validate cfg False (update_local_step cfg t) @ saved"
  using assms by (cases "fit_save_checkpoint cfg False esi (update_local_step cfg t)") (auto simp: fit_step_def Let_def)

lemma local_step_version: "param_version t \<le> param_version (update_local_step cfg t)"
  by (simp add: update_local_step_def)

lemma fit_step_effect:
  assumes "fit_step cfg esi t = (es, t')" and "local_ok cfg t"
  shows "local_ok cfg t' \<and> progress cfg t' = progress cfg t + 1 \<and>
         synced_of es = [Suc (param_version t)..<Suc (param_version t')] \<and>
         validated_of es = filter (wanted (async_test_freq cfg)) [Suc (param_version t)..<Suc (param_version t')]"
proof -
  obtain saved t2 where save: "fit_save_checkpoint cfg False esi (update_local_step cfg t) = (saved, t2)"
    and t': "t' = t2\<lparr>async_global_steps := async_global_steps t2 + 1\<rparr>"
    and es: "es = [Trained] @ update_weights (update_local_step cfg t) @ fit_validate cfg False (update_local_step cfg t) @ saved"
    using assms(1) by (rule fit_step_parts)
  show ?thesis using assms(2) save_fields [OF save]
    by (cases "local_trigger_step t < sync_step cfg")
      (auto simp: t' es update_local_step_def update_weights_def fit_validate_def local_ok_def progress_def wanted_def)
qed

lemma version_mono: "local_ok cfg t \<Longrightarrow> local_ok cfg t' \<Longrightarrow> progress cfg t \<le> progress cfg t' \<Longrightarrow> param_version t \<le> param_version t'"
  using progress_div by (metis div_le_mono)

lemma fit_loop_effect:
  "fit_loop cfg esis t = (es, t') \<Longrightarrow> local_ok cfg t \<Longrightarrow>
   local_ok cfg t' \<and> progress cfg t' = progress cfg t + length esis \<and>
   synced_of es = [Suc (param_version t)..<Suc (param_version t')] \<and>
   validated_of es = filter (wanted (async_test_freq cfg)) [Suc (param_version t)..<Suc (param_version t')]"
proof (induction esis arbitrary: t es)
  case (Cons esi esis)
  obtain es1 t1 where one: "fit_step cfg esi t = (es1, t1)" by force
  obtain es2 t2 where rest: "fit_loop cfg esis t1 = (es2, t2)" by force
  have es: "es = es1 @ es2" and t': "t' = t2" using Cons.prems(1) by (simp_all add: one rest)
  note s = fit_step_effect [OF one Cons.prems(2)]
  note r = Cons.IH [OF rest [folded t'] conjunct1 [OF s]]
  have "param_version t \<le> param_version t1" "param_version t1 \<le> param_version t'"
    using s r Cons.prems(2) by (auto intro: version_mono)
  then have "[Suc (param_version t)..<Suc (param_version t')] =
      [Suc (param_version t)..<Suc (param_version t1)] @ [Suc (param_version t1)..<Suc (param_version t')]"
    by (metis Suc_le_mono le_Suc_ex upt_add_eq_append)
  then show ?case using s r by (simp add: es)
qed simp

lemma fit_step_version: "fit_step cfg esi t = (es, t') \<Longrightarrow> param_version t \<le> param_version t'"
  using local_step_version by (elim fit_step_parts) (simp add: save_fields)

lemma fit_loop_version: "fit_loop cfg esis t = (es, t') \<Longrightarrow> param_version t \<le> param_version t'"
proof (induction esis arbitrary: t es)
  case (Cons esi esis)
  obtain es1 t1 where one: "fit_step cfg esi t = (es1, t1)" by force
  then obtain es2 where "fit_loop cfg esis t1 = (es2, t')" using Cons.prems by (auto split: prod.splits)
  then show ?case using Cons.IH fit_step_version [OF one] order_trans by blast
qed simp

lemma fit_step_checkpoints:
  assumes "fit_step cfg esi t = (es, t')" and "async_save_freq cfg = 1" and "last_ckpt_version t = param_version t"
  shows "checkpoints_of es = [Suc (param_version t)..<Suc (param_version t')] \<and> last_ckpt_version t' = param_version t'"
proof -
  obtain saved t2 where save: "fit_save_checkpoint cfg False esi (update_local_step cfg t) = (saved, t2)"
    and t': "t' = t2\<lparr>async_global_steps := async_global_steps t2 + 1\<rparr>"
    and es: "es = [Trained] @ update_weights (update_local_step cfg t) @ fit_validate cfg False (update_local_step cfg t) @ saved"
    using assms(1) by (rule fit_step_parts)
  have quiet: "checkpoints_of (update_weights u) = []" "checkpoints_of (fit_validate cfg b u) = []" for b u
    by (simp_all add: update_weights_def fit_validate_def Let_def)
  show ?thesis
    using save assms(2,3) by (cases "local_trigger_step t < sync_step cfg") (auto simp: t' es quiet fit_save_checkpoint_def update_local_step_def)
qed

lemma fit_loop_checkpoints:
  "fit_loop cfg esis t = (es, t') \<Longrightarrow> async_save_freq cfg = 1 \<Longrightarrow> last_ckpt_version t = param_version t \<Longrightarrow>
   checkpoints_of es = [Suc (param_version t)..<Suc (param_version t')] \<and> last_ckpt_version t' = param_version t'"
proof (induction esis arbitrary: t es)
  case (Cons esi esis)
  obtain es1 t1 where one: "fit_step cfg esi t = (es1, t1)" by force
  obtain es2 where rest: "fit_loop cfg esis t1 = (es2, t')" and es: "es = es1 @ es2" using Cons.prems(1) by (auto simp: one split: prod.splits)
  note s = fit_step_checkpoints [OF one Cons.prems(2,3)]
  have "[Suc (param_version t)..<Suc (param_version t')] =
      [Suc (param_version t)..<Suc (param_version t1)] @ [Suc (param_version t1)..<Suc (param_version t')]"
    using fit_step_version [OF one] fit_loop_version [OF rest] by (metis Suc_le_mono le_Suc_ex upt_add_eq_append)
  then show ?case using s Cons.IH [OF rest Cons.prems(2)] by (simp add: es)
qed simp

text \<open>The checkpoints of a run, each with the number of training steps before it.\<close>

fun saved_at :: "nat \<Rightarrow> trainer_event list \<Rightarrow> (nat \<times> nat) list" where
  "saved_at k [] = []"
| "saved_at k (Trained # es) = saved_at (Suc k) es"
| "saved_at k (Weights_synced v # es) = saved_at k es"
| "saved_at k (Validated_version v # es) = saved_at k es"
| "saved_at k (Checkpoint v # es) = (v, k) # saved_at k es"

lemma saved_at_append: "saved_at k (es @ es') = saved_at k es @ saved_at (k + count_list es Trained) es'"
  by (induction k es rule: saved_at.induct) auto

lemma saved_at_quiet [simp]:
  "saved_at k (update_weights t) = []" "saved_at k (fit_validate cfg b t) = []"
  "count_list (update_weights t) Trained = 0" "count_list (fit_validate cfg b t) Trained = 0"
  by (simp_all add: update_weights_def fit_validate_def Let_def)

lemma save_trained: "fit_save_checkpoint cfg force esi t = (es, t') \<Longrightarrow> count_list es Trained = 0"
  by (auto simp: fit_save_checkpoint_def split: if_splits)

lemma fit_step_trained: "fit_step cfg esi t = (es, t') \<Longrightarrow> count_list es Trained = 1"
  by (elim fit_step_parts) (simp add: save_trained)

lemma fit_loop_trained: "fit_loop cfg esis t = (es, t') \<Longrightarrow> count_list es Trained = length esis"
proof (induction esis arbitrary: t es)
  case (Cons esi esis)
  obtain es1 t1 where one: "fit_step cfg esi t = (es1, t1)" by force
  then show ?case using Cons fit_step_trained [OF one] by (auto split: prod.splits)
qed simp

text \<open>The version is saved if it is the one the run started with or one at the frequency.\<close>

definition ckpt_ok :: "async_config \<Rightarrow> nat \<Rightarrow> async_trainer \<Rightarrow> bool" where
  "ckpt_ok cfg v0 t \<longleftrightarrow>
     last_ckpt_version t \<le> param_version t \<and> v0 \<le> param_version t \<and>
     (last_ckpt_version t = param_version t \<longleftrightarrow> param_version t = v0 \<or> wanted (async_save_freq cfg) (param_version t))"

lemma fit_step_saved:
  assumes "fit_step cfg False t = (es, t')" and "local_ok cfg t" and "ckpt_ok cfg v0 t"
  shows "ckpt_ok cfg v0 t' \<and>
         saved_at k es = map (\<lambda>v. (v, k + (v * sync_step cfg - progress cfg t)))
           (filter (wanted (async_save_freq cfg)) [Suc (param_version t)..<Suc (param_version t')])"
proof -
  obtain saved t2 where save: "fit_save_checkpoint cfg False False (update_local_step cfg t) = (saved, t2)"
    and t': "t' = t2\<lparr>async_global_steps := async_global_steps t2 + 1\<rparr>"
    and es: "es = [Trained] @ update_weights (update_local_step cfg t) @ fit_validate cfg False (update_local_step cfg t) @ saved"
    using assms(1) by (rule fit_step_parts)
  have events: "saved_at k es = saved_at (Suc k) saved" by (simp add: es saved_at_append)
  show ?thesis
  proof (cases "local_trigger_step t < sync_step cfg")
    case True
    then show ?thesis using save assms(3)
      by (auto simp: events t' ckpt_ok_def update_local_step_def fit_save_checkpoint_def wanted_def split: if_splits)
  next
    case False
    then have "Suc (progress cfg t) = Suc (param_version t) * sync_step cfg"
      using assms(2) by (cases "local_trigger_step t") (auto simp: local_ok_def progress_def)
    then have "Suc (param_version t) * sync_step cfg - progress cfg t = 1" by linarith
    then show ?thesis using False save assms(3)
      by (auto simp: events t' ckpt_ok_def update_local_step_def fit_save_checkpoint_def wanted_def split: if_splits)
  qed
qed

lemma fit_loop_saved:
  "fit_loop cfg esis t = (es, t') \<Longrightarrow> True \<notin> set esis \<Longrightarrow> local_ok cfg t \<Longrightarrow> ckpt_ok cfg v0 t \<Longrightarrow>
   ckpt_ok cfg v0 t' \<and>
   saved_at k es = map (\<lambda>v. (v, k + (v * sync_step cfg - progress cfg t)))
     (filter (wanted (async_save_freq cfg)) [Suc (param_version t)..<Suc (param_version t')])"
proof (induction esis arbitrary: t es k)
  case (Cons esi esis)
  obtain es1 t1 where one: "fit_step cfg False t = (es1, t1)" by force
  obtain es2 where rest: "fit_loop cfg esis t1 = (es2, t')" and es: "es = es1 @ es2"
    using Cons.prems(1,2) one by (auto split: prod.splits)
  note s = fit_step_saved [OF one Cons.prems(3,4)] and effect = fit_step_effect [OF one Cons.prems(3)]
  have versions: "[Suc (param_version t)..<Suc (param_version t')] =
      [Suc (param_version t)..<Suc (param_version t1)] @ [Suc (param_version t1)..<Suc (param_version t')]"
    using fit_step_version [OF one] fit_loop_version [OF rest] by (metis Suc_le_mono le_Suc_ex upt_add_eq_append)
  have later: "Suc k + (v * sync_step cfg - progress cfg t1) = k + (v * sync_step cfg - progress cfg t)"
    if "v \<in> set [Suc (param_version t1)..<Suc (param_version t')]" for v
  proof -
    have "progress cfg t1 < Suc (param_version t1) * sync_step cfg" using effect by (auto simp: progress_def local_ok_def)
    also have "\<dots> \<le> v * sync_step cfg" using that by (intro mult_le_mono1) auto
    finally show ?thesis using effect by auto
  qed
  have "ckpt_ok cfg v0 t' \<and> saved_at (Suc k) es2 = map (\<lambda>v. (v, Suc k + (v * sync_step cfg - progress cfg t1)))
      (filter (wanted (async_save_freq cfg)) [Suc (param_version t1)..<Suc (param_version t')])"
    using Cons.IH [OF rest] Cons.prems(2) s effect by auto
  then show ?case using s later fit_step_trained [OF one]
    by (simp add: es saved_at_append versions del: upt_Suc cong: map_cong)
qed simp

text \<open>
  C38: A run of \<open>n\<close> training steps raises the version once for every full group of steps, synchronizes the weights exactly then, and
  validates the versions at the configured frequency. What follows the end signal neither synchronizes nor validates the steps of an
  incomplete group; for a complete run whose last version
  was not validated the same weights are synchronized again but still not validated. If no instance is about to expire, a checkpoint is
  written at every version of the configured frequency, after exactly the steps of that version, and a last one
  after the end signal if the last version is not among them: only that one, under the number of the last version, holds the
  steps of an incomplete group too. In particular, if every version is saved, those steps are in no checkpoint.
  A validation frequency of zero makes the run end in an error instead of the last checkpoint.
\<close>

theorem leftover_steps_are_dropped:
  assumes "fit_trainer cfg esis esi_end t = (es, r)" and "local_trigger_step t = 1" and "0 < sync_step cfg"
  shows "if async_test_freq cfg = 0 then r = Inl ZeroDivisionError
         else \<exists>t'. r = Inr t' \<and> param_version t' = param_version t + length esis div sync_step cfg \<and>
           local_trigger_step t' = 1 + length esis mod sync_step cfg \<and>
           synced_of es = [Suc (param_version t)..<Suc (param_version t')] @
             (if local_trigger_step t' = 1 \<and> int (param_version t') mod async_test_freq cfg \<noteq> 0 then [param_version t'] else []) \<and>
           validated_of es = filter (wanted (async_test_freq cfg)) [Suc (param_version t)..<Suc (param_version t')] \<and>
           (if async_save_freq cfg = 1 \<and> last_ckpt_version t = param_version t
            then checkpoints_of es = [Suc (param_version t)..<Suc (param_version t')] else True) \<and>
           (if True \<notin> set esis \<and> last_ckpt_version t = param_version t
            then saved_at 0 es =
              map (\<lambda>v. (v, (v - param_version t) * sync_step cfg))
                (filter (wanted (async_save_freq cfg)) [Suc (param_version t)..<Suc (param_version t')]) @
              (if 0 < async_save_freq cfg \<and> param_version t' \<noteq> param_version t \<and> \<not> wanted (async_save_freq cfg) (param_version t')
               then [(param_version t', length esis)] else [])
            else True)"
proof -
  define t0 where "t0 = t\<lparr>async_global_steps := async_global_steps t + 1\<rparr>"
  obtain es1 t1 where loop: "fit_loop cfg esis t0 = (es1, t1)" by force
  obtain saved t2 where save: "fit_save_checkpoint cfg True esi_end t1 = (saved, t2)" by force
  have fields: "param_version t0 = param_version t" "local_trigger_step t0 = 1" "last_ckpt_version t0 = last_ckpt_version t"
    using assms(2) by (simp_all add: t0_def)
  have ok: "local_ok cfg t0" using assms(3) by (simp add: local_ok_def fields)
  note l = fit_loop_effect [OF loop ok]
  have start: "progress cfg t0 = param_version t * sync_step cfg" by (simp add: progress_def fields)
  then have v: "param_version t1 = param_version t + length esis div sync_step cfg" and m: "local_trigger_step t1 = 1 + length esis mod sync_step cfg"
    using progress_div [of cfg t1] l assms(3) by simp_all
  have run: "(es, r) = (case fit_end cfg esi_end t1 of Inl e \<Rightarrow> (es1, Inl e) | Inr (es', t2) \<Rightarrow> (es1 @ es', Inr t2))"
    using assms(1) by (simp add: fit_trainer_def Let_def loop [unfolded t0_def, simplified])
  show ?thesis
  proof (cases "async_test_freq cfg = 0")
    case False
    let ?again = "int (param_version t1) mod async_test_freq cfg \<noteq> 0 \<or> 1 < local_trigger_step t1"
    have r: "r = Inr t2" and es: "es = es1 @ (if ?again then update_weights t1 @ fit_validate cfg False t1 else []) @ saved"
      using run False by (simp_all add: fit_end_def save)
    have every: "if async_save_freq cfg = 1 \<and> last_ckpt_version t = param_version t
        then checkpoints_of es = [Suc (param_version t)..<Suc (param_version t1)] else True"
      using fit_loop_checkpoints [OF loop] save by (auto simp: es fields fit_save_checkpoint_def update_weights_def fit_validate_def split: if_splits)
    have saved: "saved_at 0 es =
        map (\<lambda>v. (v, (v - param_version t) * sync_step cfg))
          (filter (wanted (async_save_freq cfg)) [Suc (param_version t)..<Suc (param_version t1)]) @
        (if 0 < async_save_freq cfg \<and> param_version t1 \<noteq> param_version t \<and> \<not> wanted (async_save_freq cfg) (param_version t1)
         then [(param_version t1, length esis)] else [])"
      if "True \<notin> set esis" "last_ckpt_version t = param_version t"
    proof -
      have "ckpt_ok cfg (param_version t) t0" using that(2) by (simp add: ckpt_ok_def fields)
      note c = fit_loop_saved [OF loop that(1) ok this, of 0]
      have "saved_at (length esis) saved =
          (if 0 < async_save_freq cfg \<and> param_version t1 \<noteq> param_version t \<and> \<not> wanted (async_save_freq cfg) (param_version t1)
           then [(param_version t1, length esis)] else [])"
        using save conjunct1 [OF c] by (auto simp: fit_save_checkpoint_def ckpt_ok_def split: if_splits)
      then show ?thesis using conjunct2 [OF c] fit_loop_trained [OF loop]
        by (simp add: es saved_at_append start fields diff_mult_distrib del: upt_Suc)
    qed
    have synced: "synced_of es = [Suc (param_version t)..<Suc (param_version t1)] @
        (if local_trigger_step t1 = 1 \<and> int (param_version t1) mod async_test_freq cfg \<noteq> 0 then [param_version t1] else [])"
      and validated: "validated_of es = filter (wanted (async_test_freq cfg)) [Suc (param_version t)..<Suc (param_version t1)]"
      using l m save_fields [OF save] by (auto simp: es fields update_weights_def fit_validate_def)
    show ?thesis using False r v m every saved synced validated save_fields [OF save]
      by (simp del: upt_Suc)
  qed (use run in \<open>simp add: fit_end_def\<close>)
qed

definition sample_async :: async_config where
  "sample_async = \<lparr>sync_step = 2, async_test_freq = 2, async_save_freq = 1\<rparr>"

definition rarely_saved :: async_config where
  "rarely_saved = \<lparr>sync_step = 2, async_test_freq = 2, async_save_freq = 10\<rparr>"

lemma leftover_steps_are_dropped_witness:
  "(\<exists>es t'. fit_trainer sample_async (replicate 5 False) False new_async_trainer = (es, Inr t') \<and> param_version t' = 2 \<and>
     local_trigger_step t' = 2 \<and> synced_of es = [1, 2] \<and> validated_of es = [2] \<and> checkpoints_of es = [1, 2] \<and>
     saved_at 0 es = [(1, 2), (2, 4)]) \<and>
   (\<exists>es t'. fit_trainer rarely_saved (replicate 5 False) False new_async_trainer = (es, Inr t') \<and> saved_at 0 es = [(2, 5)])"
proof
  obtain es r where run: "fit_trainer sample_async (replicate 5 False) False new_async_trainer = (es, r)" by force
  from leftover_steps_are_dropped [OF run] run
  show "\<exists>es t'. fit_trainer sample_async (replicate 5 False) False new_async_trainer = (es, Inr t') \<and> param_version t' = 2 \<and>
     local_trigger_step t' = 2 \<and> synced_of es = [1, 2] \<and> validated_of es = [2] \<and> checkpoints_of es = [1, 2] \<and> saved_at 0 es = [(1, 2), (2, 4)]"
    by (auto simp: sample_async_def new_async_trainer_def wanted_def upt_conv_Cons)
  obtain es r where run: "fit_trainer rarely_saved (replicate 5 False) False new_async_trainer = (es, r)" by force
  from leftover_steps_are_dropped [OF run] run
  show "\<exists>es t'. fit_trainer rarely_saved (replicate 5 False) False new_async_trainer = (es, Inr t') \<and> saved_at 0 es = [(2, 5)]"
    by (auto simp: rarely_saved_def new_async_trainer_def wanted_def upt_conv_Cons)
qed

subsection \<open>Resumed runs\<close>

lemma resume_same_folder:
  assumes "mode \<in> {''disable'', ''auto'', ''resume_path''}" and "param_version t = 0"
    and "trainer_resume mode hdfs latest path sync t = Inr t'"
  shows "rollouter_resume mode hdfs latest path required sync 1 = Inr (param_version t' * required * sync + 1)"
  using assms
  by (auto simp: trainer_resume_def rollouter_resume_def explicit_folder_def res_simps split: if_splits option.splits)

lemma resume_same_error:
  assumes "mode \<in> {''disable'', ''auto'', ''resume_path''}" and "trainer_resume mode hdfs latest path sync t = Inl e"
  shows "rollouter_resume mode hdfs latest path required sync 1 = Inl e"
  using assms
  by (auto simp: trainer_resume_def rollouter_resume_def explicit_folder_def folder_version_def guard_res_def bind_res_def
      split: if_splits option.splits)

text \<open>
  C39: Trainer and rollouter resume from the same version, or fail with the same error, in every known mode; and a resumed run that
  trains on all samples from the position of the rollouter to the last step ends with the number of versions that
  \<open>total_train_steps\<close> announces. In an unknown mode the trainer resumes from the latest checkpoint while the rollouter fails.
\<close>

theorem resumed_run_completes:
  assumes "mode \<in> {''disable'', ''auto'', ''resume_path''}" and "0 < required" and "0 < sync_step cfg"
    and "param_version t = 0" and "local_trigger_step t = 1" and "async_test_freq cfg \<noteq> 0"
  shows "case trainer_resume mode hdfs latest path (sync_step cfg) t of
           Inl e \<Rightarrow> rollouter_resume mode hdfs latest path required (sync_step cfg) 1 = Inl e
         | Inr t1 \<Rightarrow> \<exists>first_step. rollouter_resume mode hdfs latest path required (sync_step cfg) 1 = Inr first_step \<and>
             (if first_step \<le> Suc last_step \<and> length esis = steps_of_samples required first_step last_step
              then \<exists>es t2. fit_trainer cfg esis esi_end t1 = (es, Inr t2) \<and>
                total_train_steps last_step required (sync_step cfg) = Inr (param_version t2)
              else True)"
proof (cases "trainer_resume mode hdfs latest path (sync_step cfg) t")
  case (Inl e)
  then show ?thesis using resume_same_error [OF assms(1) Inl] by simp
next
  case (Inr t1)
  let ?v = "param_version t1" and ?k = "sync_step cfg"
  have one: "local_trigger_step t1 = 1"
    using Inr assms(5) by (auto simp: trainer_resume_def res_simps split: if_splits option.splits)
  have version: "last_step div (required * ?k) = ?v + (last_step - ?v * required * ?k) div required div ?k"
    if "?v * required * ?k \<le> last_step"
  proof -
    have "last_step = last_step - ?v * (required * ?k) + ?v * (required * ?k)" using that by (simp add: mult.assoc)
    then have "last_step div (required * ?k) = ?v + (last_step - ?v * (required * ?k)) div (required * ?k)"
      using assms(2,3) by (metis div_mult_self1 mult_is_0 not_gr_zero)
    then show ?thesis by (simp add: div_mult2_eq mult.assoc)
  qed
  have "\<exists>es t2. fit_trainer cfg esis esi_end t1 = (es, Inr t2) \<and> total_train_steps last_step required ?k = Inr (param_version t2)"
    if "?v * required * ?k + 1 \<le> Suc last_step" and "length esis = steps_of_samples required (?v * required * ?k + 1) last_step"
  proof -
    obtain es r where run: "fit_trainer cfg esis esi_end t1 = (es, r)" by force
    from leftover_steps_are_dropped [OF run one assms(3)] assms(6) obtain t2
      where "r = Inr t2" "param_version t2 = ?v + length esis div ?k" by auto
    then show ?thesis using run version that assms(2,3) by (simp add: steps_of_samples_def total_train_steps_def)
  qed
  then show ?thesis using Inr resume_same_folder [OF assms(1,4) Inr, of required] by auto
qed

lemma resumed_run_completes_witness:
  "\<exists>es t2. fit_trainer sample_async (replicate 14 False) False
     \<lparr>local_trigger_step = 1, param_version = 3, last_ckpt_version = 3, async_global_steps = 7\<rparr> = (es, Inr t2) \<and> param_version t2 = 10"
proof -
  have resume: "trainer_resume ''resume_path'' False None (Some ''runs/global_step_3'') (sync_step sample_async) new_async_trainer =
      Inr \<lparr>local_trigger_step = 1, param_version = 3, last_ckpt_version = 3, async_global_steps = 7\<rparr>"
    "rollouter_resume ''resume_path'' False None (Some ''runs/global_step_3'') 4 (sync_step sample_async) 1 = Inr 25"
    by code_simp+
  have "steps_of_samples 4 25 80 = 14" by (simp add: steps_of_samples_def)
  then show ?thesis
    using resumed_run_completes [of "''resume_path''" 4 sample_async new_async_trainer False None "Some ''runs/global_step_3''" 80
        "replicate 14 False" False] resume
    by (auto simp: sample_async_def new_async_trainer_def total_train_steps_def)
qed

subsection \<open>What the aggregation computes\<close>

lemma contains_iff_infix: "contains p s \<longleftrightarrow> (\<exists>a b. s = a @ p @ b)"
proof (induction s)
  case (Cons c s)
  have "starts_with p (c # s) \<longleftrightarrow> (\<exists>b. c # s = p @ b)"
    by (metis append_eq_conv_conj starts_with_append starts_with_def append_take_drop_id)
  moreover have "(\<exists>a b. c # s = a @ p @ b) \<longleftrightarrow> (\<exists>b. c # s = p @ b) \<or> (\<exists>a b. s = a @ p @ b)"
    by (metis append_Cons append_Nil append_eq_Cons_conv)
  ultimately show ?case using Cons by simp
qed simp

lemma contains_suffix: "contains (p @ q) s \<Longrightarrow> contains q s"
  by (metis append.assoc contains_iff_infix)

lemma weighted_avg_is_avg: "contains ''weighted_avg'' s \<Longrightarrow> contains ''avg'' s"
  using contains_suffix [of "''weighted_''" "''avg''" s] by simp

definition numbers :: "(string, metric_entry) dict \<Rightarrow> (string \<times> real) list" where
  "numbers m = concat (map (\<lambda>(k, v). case v of Number x \<Rightarrow> [(k, x)] | Not_a_number \<Rightarrow> []) m)"

definition new_aggregator :: "nat \<Rightarrow> metrics_aggregator" where
  "new_aggregator gpus = \<lparr>metric_values = [], sample_counts = [], step_count = 0, total_gpus = gpus\<rparr>"

definition add_steps :: "((string, metric_entry) dict \<times> nat) list \<Rightarrow> metrics_aggregator \<Rightarrow> metrics_aggregator" where
  "add_steps steps a = fold (\<lambda>(m, n). add_step_metrics m n) steps a"

lemma fold_numbers:
  "fold (\<lambda>(k, v) d. case v of Number x \<Rightarrow> dict_append k x d | Not_a_number \<Rightarrow> d) m d = fold (\<lambda>(k, x) d. dict_append k x d) (numbers m) d"
  by (induction m arbitrary: d) (auto simp: numbers_def split: metric_entry.splits)

lemma add_steps_fields:
  "metric_values (add_steps steps a) = fold (\<lambda>(k, x) d. dict_append k x d) (concat (map (numbers \<circ> fst) steps)) (metric_values a) \<and>
   step_count (add_steps steps a) = step_count a + length steps \<and> total_gpus (add_steps steps a) = total_gpus a"
  by (induction steps arbitrary: a) (auto simp: add_steps_def add_step_metrics_def fold_numbers)

lemma recorded_values:
  "map_of (metric_values (add_steps steps (new_aggregator gpus))) k =
     (let xs = values_of (concat (map (numbers \<circ> fst) steps)) k in if xs = [] then None else Some xs)"
proof -
  have "metric_values (add_steps steps (new_aggregator gpus)) = group_by (concat (map (numbers \<circ> fst) steps))"
    by (simp add: add_steps_fields new_aggregator_def group_by_def)
  then show ?thesis by (auto simp add: map_of_group_by values_of_eq_Nil Let_def simp del: set_concat)
qed

lemma map_of_mapped: "map_of (map (\<lambda>(k, xs). (k, f k xs)) d) k = map_option (f k) (map_of d k)"
  by (induction d) auto

lemma perf_types:
  "get_aggregation_type ''perf/total_num_tokens'' = ''sum''" "get_aggregation_type ''perf/time_per_step'' = ''time_sum''"
  by code_simp+

lemma never_weighted: "get_aggregation_type name \<noteq> ''weighted_avg''"
  using weighted_avg_is_avg [of "py_lower name"]
  by (auto simp: get_aggregation_type_def aggregation_rules_def keyword_rules_def)

text \<open>
  No metric is averaged with the sample counts as weights, because a name with the keyword of that rule also has the keyword of the
  plain average, which is tested first. The throughput over the steps of a version is the sum of the tokens divided by the sum of
  the times and the number of GPUs, not an average of the recorded throughputs.
\<close>

theorem throughput_is_aggregated:
  fixes steps gpus
  defines "vals \<equiv> values_of (concat (map (numbers \<circ> fst) steps))"
  assumes "vals ''perf/throughput'' \<noteq> []" and "vals ''perf/total_num_tokens'' \<noteq> []" and "vals ''perf/time_per_step'' \<noteq> []"
    and "vals ''global_seqlen/minmax_diff'' = []" and "vals ''timing_s/gen'' = []"
    and "sum_list (vals ''perf/time_per_step'') * real gpus \<noteq> 0"
  shows "get_aggregation_type name \<noteq> ''weighted_avg'' \<and>
         (\<exists>agg. get_aggregated_metrics (add_steps steps (new_aggregator gpus)) = Inr agg \<and>
            map_of agg ''perf/throughput'' =
              Some (sum_list (vals ''perf/total_num_tokens'') / (sum_list (vals ''perf/time_per_step'') * real gpus)))"
proof -
  let ?a = "add_steps steps (new_aggregator gpus)"
  let ?agg = "map (\<lambda>(k, xs). (k, aggregate_single_metric (sample_counts ?a) k xs)) (metric_values ?a)"
  have steps: "step_count ?a \<noteq> 0" "total_gpus ?a = gpus"
    using assms(2) by (auto simp: add_steps_fields new_aggregator_def vals_def)
  have get: "map_of ?agg k = (if vals k = [] then None else Some (aggregate_single_metric (sample_counts ?a) k (vals k)))" for k
    by (simp add: map_of_mapped recorded_values vals_def Let_def)
  have "aggregate_single_metric (sample_counts ?a) ''perf/total_num_tokens'' (vals ''perf/total_num_tokens'') = sum_list (vals ''perf/total_num_tokens'')"
    "aggregate_single_metric (sample_counts ?a) ''perf/time_per_step'' (vals ''perf/time_per_step'') = sum_list (vals ''perf/time_per_step'')"
    using assms(3,4) by (simp_all add: aggregate_single_metric_def perf_types)
  then have "special_metrics gpus ?agg =
      Inr (dict_set ''perf/throughput'' (sum_list (vals ''perf/total_num_tokens'') / (sum_list (vals ''perf/time_per_step'') * real gpus)) ?agg)"
    using assms(2-7) by (simp add: special_metrics_def get quotient_def)
  then show ?thesis using never_weighted steps by (auto simp: get_aggregated_metrics_def)
qed

lemma throughput_is_aggregated_witness:
  "\<exists>agg. get_aggregated_metrics (add_steps
       [([(''perf/throughput'', Number 9), (''perf/total_num_tokens'', Number 60), (''perf/time_per_step'', Number 2)], 4),
        ([(''perf/throughput'', Number 1), (''perf/total_num_tokens'', Number 20), (''perf/time_per_step'', Number 8)], 4)]
       (new_aggregator 2)) = Inr agg \<and> map_of agg ''perf/throughput'' = Some 4"
  using throughput_is_aggregated [of
      "[([(''perf/throughput'', Number 9), (''perf/total_num_tokens'', Number 60), (''perf/time_per_step'', Number 2)], 4),
        ([(''perf/throughput'', Number 1), (''perf/total_num_tokens'', Number 20), (''perf/time_per_step'', Number 8)], 4)]" 2]
  by (simp add: numbers_def)

end
