(* ===== verification/LoadBalancer.thy ===== *)
theory LoadBalancer
  imports Steps
begin

section \<open>Sticky, least-loaded routing and resumable generation\<close>

text \<open>
  Models \<open>GlobalRequestLoadBalancer\<close>, \<open>LLMServerClient.generate\<close> and
  \<open>FullyLLMServerClient.generate\<close> of \<open>src/verl/workers/rollout/llm_server.py\<close>. The
  routing cache (\<open>cachetools.LRUCache\<close>) is a parameter: its lookup, the use that refreshes an
  entry, and its insertion, which may evict; the interface \<open>routing_cache\<close> states what the
  balancer relies on. The servers' answers are a parameter, too.
\<close>

subsection \<open>The balancer\<close>

record ('r, 'c) cache_ops =
  lookup :: "'c \<Rightarrow> 'r \<Rightarrow> string option"
  refresh :: "'r \<Rightarrow> 'c \<Rightarrow> 'c"
  insert_route :: "'r \<Rightarrow> string \<Rightarrow> 'c \<Rightarrow> 'c"

record 'c balancer =
  inflight :: "(string, int) dict"
  routes :: 'c

definition lb_init :: "'c \<Rightarrow> string list \<Rightarrow> 'c balancer result" where
  "lb_init empty_cache servers =
     guard_res (servers \<noteq> []) ValueError
       (Inr \<lparr>inflight = map (\<lambda>s. (s, 0)) servers, routes = empty_cache\<rparr>)"

text \<open>\<open>min(d, key=d.get)\<close>: the first key with the least value.\<close>

fun least_loaded :: "(string, int) dict \<Rightarrow> string" where
  "least_loaded [] = undefined"
| "least_loaded [(s, n)] = s"
| "least_loaded ((s, n) # (s', n') # rest) =
     (if n' < n then least_loaded ((s', n') # rest) else least_loaded ((s, n) # rest))"

definition incr_inflight :: "string \<Rightarrow> int \<Rightarrow> (string, int) dict \<Rightarrow> (string, int) dict result" where
  "incr_inflight s k d =
     (case map_of d s of None \<Rightarrow> Inl KeyError | Some n \<Rightarrow> Inr (dict_set s (n + k) d))"

definition acquire_server :: "('r, 'c) cache_ops \<Rightarrow> 'r \<Rightarrow> 'c balancer \<Rightarrow> (string \<times> 'c balancer) result" where
  "acquire_server ops r lb =
     (case lookup ops (routes lb) r of
        Some s \<Rightarrow>
          bind_res (incr_inflight s 1 (inflight lb))
            (\<lambda>d. Inr (s, \<lparr>inflight = d, routes = refresh ops r (routes lb)\<rparr>))
      | None \<Rightarrow>
          if inflight lb = [] then Inl ValueError
          else let s = least_loaded (inflight lb)
               in bind_res (incr_inflight s 1 (inflight lb))
                    (\<lambda>d. Inr (s, \<lparr>inflight = d, routes = insert_route ops r s (routes lb)\<rparr>)))"

definition release_server :: "string \<Rightarrow> 'c balancer \<Rightarrow> 'c balancer result" where
  "release_server s lb =
     (case map_of (inflight lb) s of
        None \<Rightarrow> Inl ValueError
      | Some n \<Rightarrow>
          guard_res (0 < n) ValueError (Inr (lb\<lparr>inflight := dict_set s (n - 1) (inflight lb)\<rparr>)))"

definition add_servers :: "string list \<Rightarrow> 'c balancer \<Rightarrow> 'c balancer result" where
  "add_servers servers lb = Inl NotImplementedError"

definition remove_servers :: "string list \<Rightarrow> 'c balancer \<Rightarrow> 'c balancer result" where
  "remove_servers servers lb = Inl NotImplementedError"

subsection \<open>The client\<close>

record 'e token_output =
  token_ids :: "int list"
  log_probs :: "real list option"
  routed_experts :: "'e list option"
  stop_reason :: "string option"
  num_preempted :: "int option"
  global_steps :: "int option"

text \<open>The servers: what server \<open>s\<close> answers to a prompt under a token limit in a given turn.\<close>

type_synonym 'e serve = "string \<Rightarrow> nat \<Rightarrow> int list \<Rightarrow> int option \<Rightarrow> 'e token_output result"

text \<open>
  \<open>generate\<close> of the plain client: the server is released in the \<open>finally\<close> clause; the
  release is not awaited, so its error would not reach the caller.
\<close>

definition client_generate ::
  "('r, 'c) cache_ops \<Rightarrow> 'e serve \<Rightarrow> 'r \<Rightarrow> nat \<Rightarrow> int list \<Rightarrow> int option \<Rightarrow> 'c balancer \<Rightarrow>
   'e token_output result \<times> 'c balancer" where
  "client_generate ops serve r turn prompt limit lb =
     (case acquire_server ops r lb of
        Inl e \<Rightarrow> (Inl e, lb)
      | Inr (s, lb1) \<Rightarrow>
          (serve s turn prompt limit, case release_server s lb1 of Inl e \<Rightarrow> lb1 | Inr lb2 \<Rightarrow> lb2))"

record sampling_params =
  max_tokens :: "int option"
  max_new_tokens :: "int option"

definition token_limit :: "sampling_params \<Rightarrow> int option" where
  "token_limit p = (case max_tokens p of Some m \<Rightarrow> Some m | None \<Rightarrow> max_new_tokens p)"

definition set_token_limit :: "int \<Rightarrow> sampling_params \<Rightarrow> sampling_params" where
  "set_token_limit m p =
     (if max_tokens p \<noteq> None then p\<lparr>max_tokens := Some m\<rparr> else p\<lparr>max_new_tokens := Some m\<rparr>)"

definition empty_output :: "'e token_output" where
  "empty_output = \<lparr>token_ids = [], log_probs = Some [], routed_experts = None, stop_reason = None,
                   num_preempted = Some 0, global_steps = None\<rparr>"

definition merge_output :: "'e token_output \<Rightarrow> 'e token_output \<Rightarrow> 'e token_output" where
  "merge_output final out =
     \<lparr>token_ids = token_ids final @ token_ids out,
      log_probs = (case log_probs out of
          None \<Rightarrow> log_probs final
        | Some l \<Rightarrow> map_option (\<lambda>l0. l0 @ l) (log_probs final)),
      routed_experts = (case routed_experts out of
          None \<Rightarrow> routed_experts final
        | Some e \<Rightarrow>
            if token_ids out = [] then routed_experts final
            else (case routed_experts final of
                    None \<Rightarrow> Some e
                  | Some e0 \<Rightarrow> Some (e0 @ py_slice (Some (- int (length (token_ids out)))) None e))),
      stop_reason = stop_reason out,
      num_preempted = (case num_preempted out of
          None \<Rightarrow> num_preempted final
        | Some k \<Rightarrow> map_option (\<lambda>k0. k0 + k) (num_preempted final)),
      global_steps = global_steps final\<rparr>"

definition is_abort :: "string option \<Rightarrow> bool" where
  "is_abort reason \<longleftrightarrow> reason = Some ''aborted'' \<or> reason = Some ''abort''"

record 'e resumed =
  final_output :: "'e token_output"
  min_global_steps :: "int option"
  max_global_steps :: "int option"
  params_after :: sampling_params

text \<open>
  The loop of the resuming client; \<open>fuel\<close> bounds the turns, None means that the loop has not
  ended. \<open>budget\<close> is the limit of the original parameters.
\<close>

fun resume_loop ::
  "nat \<Rightarrow> ('r, 'c) cache_ops \<Rightarrow> 'e serve \<Rightarrow> bool \<Rightarrow> 'r \<Rightarrow> int list \<Rightarrow> int option \<Rightarrow> nat \<Rightarrow>
   sampling_params \<Rightarrow> 'e token_output \<Rightarrow> int option \<Rightarrow> 'c balancer \<Rightarrow>
   ('e resumed result \<times> 'c balancer) option" where
  "resume_loop 0 ops serve partial r prompt budget turn params final mn lb = None"
| "resume_loop (Suc fuel) ops serve partial r prompt budget turn params final mn lb =
     (case client_generate ops serve r turn (prompt @ token_ids final) (token_limit params) lb of
        (Inl e, lb') \<Rightarrow> Some (Inl e, lb')
      | (Inr out, lb') \<Rightarrow>
          let final1 = merge_output final out;
              steps = global_steps out;
              mn' = (case mn of None \<Rightarrow> steps | Some g \<Rightarrow> Some g);
              params' = (case budget of
                  None \<Rightarrow> params
                | Some m \<Rightarrow> set_token_limit (m - int (length (token_ids final1))) params);
              full = (case budget of None \<Rightarrow> False | Some m \<Rightarrow> m \<le> int (length (token_ids final1)));
              final2 = (if full then final1\<lparr>stop_reason := Some ''length''\<rparr> else final1)
          in if full \<or> \<not> is_abort (stop_reason out) \<or> \<not> partial
             then Some (Inr \<lparr>final_output = final2\<lparr>global_steps := steps\<rparr>, min_global_steps = mn',
                             max_global_steps = steps, params_after = params'\<rparr>, lb')
             else resume_loop fuel ops serve partial r prompt budget (Suc turn) params' final2 mn' lb')"

definition fully_generate ::
  "nat \<Rightarrow> ('r, 'c) cache_ops \<Rightarrow> 'e serve \<Rightarrow> bool \<Rightarrow> 'r \<Rightarrow> int list \<Rightarrow> sampling_params \<Rightarrow> 'c balancer \<Rightarrow>
   ('e resumed result \<times> 'c balancer) option" where
  "fully_generate fuel ops serve partial r prompt params lb =
     resume_loop fuel ops serve partial r prompt (token_limit params) 0 params empty_output None lb"

subsection \<open>Counting requests in flight\<close>

text \<open>A well-formed balancer routes to known servers and never counts below zero.\<close>

definition lb_ok :: "('r, 'c) cache_ops \<Rightarrow> string list \<Rightarrow> 'c balancer \<Rightarrow> bool" where
  "lb_ok ops servers lb \<longleftrightarrow>
     map fst (inflight lb) = servers \<and> distinct servers \<and> servers \<noteq> [] \<and>
     (\<forall>(s, n)\<in>set (inflight lb). 0 \<le> n) \<and>
     (\<forall>r s. lookup ops (routes lb) r = Some s \<longrightarrow> s \<in> set servers)"

definition count_of :: "string \<Rightarrow> 'c balancer \<Rightarrow> int" where
  "count_of s lb = (case map_of (inflight lb) s of None \<Rightarrow> 0 | Some n \<Rightarrow> n)"

lemma least_loaded_min:
  "d \<noteq> [] \<Longrightarrow> \<exists>n. (least_loaded d, n) \<in> set d \<and> (\<forall>(s, m)\<in>set d. n \<le> m)"
proof (induction d rule: least_loaded.induct)
  case (3 s n s' n' rest)
  show ?case
  proof (cases "n' < n")
    case True
    then show ?thesis using 3(1) by fastforce
  next
    case False
    then show ?thesis using 3(2) by fastforce
  qed
qed auto

lemma incr_inflight_present:
  assumes "s \<in> set (map fst d)" and "distinct (map fst d)"
  obtains n where "(s, n) \<in> set d" and "incr_inflight s k d = Inr (dict_set s (n + k) d)"
proof -
  obtain n where n: "(s, n) \<in> set d" using assms(1) by auto
  then have "map_of d s = Some n" using assms(2) by simp
  then show ?thesis using that [OF n] by (simp add: incr_inflight_def)
qed

lemma set_update_entries: "(k', v') \<in> set (AList.update k v d) \<Longrightarrow> (k', v') = (k, v) \<or> (k', v') \<in> set d"
  by (induction d) (auto split: if_splits)

lemma lb_ok_update:
  assumes "lb_ok ops servers lb" and "s \<in> set servers" and "0 \<le> n"
    and "\<And>r x. lookup ops c r = Some x \<Longrightarrow> x \<in> set servers"
  shows "lb_ok ops servers \<lparr>inflight = dict_set s n (inflight lb), routes = c\<rparr>"
proof -
  have "map fst (dict_set s n (inflight lb)) = servers"
    using assms(1,2) by (simp add: lb_ok_def update_keys)
  moreover have "\<forall>(k, v)\<in>set (dict_set s n (inflight lb)). 0 \<le> v"
    using assms(1,3) by (auto simp: lb_ok_def dest!: set_update_entries)
  ultimately show ?thesis using assms(1,4) by (auto simp: lb_ok_def)
qed

lemma server_entry: "lb_ok ops servers lb \<Longrightarrow> s \<in> set servers \<longleftrightarrow> (\<exists>n. (s, n) \<in> set (inflight lb))"
proof -
  assume "lb_ok ops servers lb"
  then have "set servers = fst ` set (inflight lb)" unfolding lb_ok_def by (metis list.set_map)
  then show ?thesis by force
qed

lemma count_of_mem: "lb_ok ops servers lb \<Longrightarrow> (s, n) \<in> set (inflight lb) \<Longrightarrow> count_of s lb = n"
  by (auto simp: lb_ok_def count_of_def)

lemma count_of_server:
  assumes "lb_ok ops servers lb" and "s \<in> set servers"
  shows "map_of (inflight lb) s = Some (count_of s lb)" and "0 \<le> count_of s lb"
proof -
  obtain n where "(s, n) \<in> set (inflight lb)" using server_entry [OF assms(1)] assms(2) by blast
  then show "map_of (inflight lb) s = Some (count_of s lb)" "0 \<le> count_of s lb"
    using assms(1) count_of_mem [OF assms(1)] by (auto simp: lb_ok_def)
qed

lemma release_ok:
  assumes "lb_ok ops servers lb" and "s \<in> set servers" and "0 < count_of s lb"
  shows "\<exists>lb'. release_server s lb = Inr lb' \<and> lb_ok ops servers lb' \<and> routes lb' = routes lb \<and>
           (\<forall>x. count_of x lb' = count_of x lb - (if x = s then 1 else 0))"
proof -
  note c = count_of_server(1) [OF assms(1,2)]
  let ?lb = "lb\<lparr>inflight := dict_set s (count_of s lb - 1) (inflight lb)\<rparr>"
  have "release_server s lb = Inr ?lb" using c assms(3) by (simp add: release_server_def)
  moreover have "lb_ok ops servers \<lparr>inflight = dict_set s (count_of s lb - 1) (inflight lb), routes = routes lb\<rparr>"
    using assms by (intro lb_ok_update) (auto simp: lb_ok_def)
  then have "lb_ok ops servers ?lb" by (simp add: lb_ok_def)
  moreover have "count_of x ?lb = count_of x lb - (if x = s then 1 else 0)" for x
    using c by (auto simp: count_of_def)
  ultimately show ?thesis by auto
qed

lemma release_Inr:
  assumes "lb_ok ops servers lb" and "release_server s lb = Inr lb'"
  shows "s \<in> set servers \<and> 0 < count_of s lb"
proof -
  obtain n where n: "map_of (inflight lb) s = Some n" "0 < n"
    using assms(2) by (auto simp: release_server_def res_simps split: option.splits)
  then have "s \<in> set servers" using server_entry [OF assms(1)] map_of_SomeD by fast
  then show ?thesis using n by (simp add: count_of_def)
qed

subsection \<open>What the balancer relies on\<close>

datatype 'r lb_event = Acquired 'r string | Released string

inductive lb_step :: "('r, 'c) cache_ops \<Rightarrow> 'c balancer \<Rightarrow> 'r lb_event \<Rightarrow> 'c balancer \<Rightarrow> bool"
  for ops :: "('r, 'c) cache_ops" where
  lb_acquire: "acquire_server ops r lb = Inr (s, lb') \<Longrightarrow> lb_step ops lb (Acquired r s) lb'"
| lb_release: "release_server s lb = Inr lb' \<Longrightarrow> lb_step ops lb (Released s) lb'"

inductive_cases lb_stepE: "lb_step ops lb e lb'"

definition held :: "string \<Rightarrow> 'r lb_event list \<Rightarrow> int" where
  "held s es =
     int (length (filter (\<lambda>e. \<exists>r. e = Acquired r s) es)) - int (length (filter (\<lambda>e. e = Released s) es))"

definition lb_good :: "('r, 'c) cache_ops \<Rightarrow> string list \<Rightarrow> 'r lb_event list \<Rightarrow> 'c balancer \<Rightarrow> bool" where
  "lb_good ops servers es lb \<longleftrightarrow> lb_ok ops servers lb \<and> (\<forall>s. count_of s lb = held s es)"

locale routing_cache =
  fixes ops :: "('r, 'c) cache_ops" and empty_cache :: 'c
  assumes lookup_empty: "lookup ops empty_cache r = None"
    and lookup_refresh: "lookup ops (refresh ops r c) r' = lookup ops c r'"
    and lookup_inserted: "lookup ops (insert_route ops r s c) r = Some s"
    and lookup_other: "r' \<noteq> r \<Longrightarrow> lookup ops (insert_route ops r s c) r' = Some x \<Longrightarrow> lookup ops c r' = Some x"
begin

lemma init_ok:
  assumes "lb_init empty_cache servers = Inr lb" and "distinct servers"
  shows "lb_ok ops servers lb \<and> (\<forall>s. count_of s lb = 0)"
proof -
  have lb: "lb = \<lparr>inflight = map (\<lambda>s. (s, 0)) servers, routes = empty_cache\<rparr>" "servers \<noteq> []"
    using assms(1) by (auto simp: lb_init_def res_simps)
  have zero: "map_of (map (\<lambda>s. (s, 0 :: int)) xs) x = (if x \<in> set xs then Some 0 else None)" for xs x
    by (induction xs) auto
  have "count_of x lb = 0" for x by (simp add: lb count_of_def zero)
  then show ?thesis using assms(2) lb by (auto simp: lb_ok_def lookup_empty comp_def)
qed

lemma acquire_ok:
  assumes ok: "lb_ok ops servers lb"
  shows "\<exists>s lb'. acquire_server ops r lb = Inr (s, lb') \<and> s \<in> set servers \<and> lb_ok ops servers lb' \<and>
           (\<forall>x. count_of x lb' = count_of x lb + (if x = s then 1 else 0)) \<and>
           lookup ops (routes lb') r = Some s \<and>
           (case lookup ops (routes lb) r of
              Some s0 \<Rightarrow> s = s0 | None \<Rightarrow> (\<forall>x\<in>set servers. count_of s lb \<le> count_of x lb)) \<and>
           (\<forall>r' x. r' \<noteq> r \<longrightarrow> lookup ops (routes lb') r' = Some x \<longrightarrow> lookup ops (routes lb) r' = Some x)"
proof -
  have incr: "incr_inflight s 1 (inflight lb) = Inr (dict_set s (count_of s lb + 1) (inflight lb))"
    if "s \<in> set servers" for s
    using count_of_server(1) [OF ok that] by (simp add: incr_inflight_def)
  have upd: "lb_ok ops servers \<lparr>inflight = dict_set s (count_of s lb + 1) (inflight lb), routes = c\<rparr>"
    if "s \<in> set servers" "\<And>r x. lookup ops c r = Some x \<Longrightarrow> x \<in> set servers" for s c
    using count_of_server(2) [OF ok that(1)] that by (intro lb_ok_update [OF ok]) auto
  have cnt: "count_of x \<lparr>inflight = dict_set s (count_of s lb + 1) (inflight lb), routes = c\<rparr> =
             count_of x lb + (if x = s then 1 else 0)" for x s and c :: 'c
    by (simp add: count_of_def)
  show ?thesis
  proof (cases "lookup ops (routes lb) r")
    case (Some s)
    then have s: "s \<in> set servers" using ok by (auto simp: lb_ok_def)
    have known: "lookup ops (refresh ops r (routes lb)) r' = Some x \<Longrightarrow> x \<in> set servers" for r' x
      using ok by (auto simp: lookup_refresh lb_ok_def)
    have "lb_ok ops servers \<lparr>inflight = dict_set s (count_of s lb + 1) (inflight lb),
            routes = refresh ops r (routes lb)\<rparr>"
      by (rule upd [OF s]) (rule known)
    then show ?thesis
      using Some s incr [OF s] cnt by (simp add: acquire_server_def lookup_refresh)
  next
    case None
    let ?s = "least_loaded (inflight lb)"
    have ne: "inflight lb \<noteq> []" using ok by (auto simp: lb_ok_def)
    obtain n where n: "(?s, n) \<in> set (inflight lb)" "\<forall>(x, m)\<in>set (inflight lb). n \<le> m"
      using least_loaded_min [OF ne] by blast
    then have s: "?s \<in> set servers" using server_entry [OF ok] by blast
    have least: "count_of ?s lb \<le> count_of x lb" if x: "x \<in> set servers" for x
    proof -
      obtain m where m: "(x, m) \<in> set (inflight lb)" using x server_entry [OF ok] by blast
      then have "n \<le> m" using n(2) by blast
      then show ?thesis using count_of_mem [OF ok n(1)] count_of_mem [OF ok m] by simp
    qed
    have old: "lookup ops (routes lb) r' = Some x \<Longrightarrow> x \<in> set servers" for r' x
      using ok unfolding lb_ok_def by blast
    have known: "x \<in> set servers" if l: "lookup ops (insert_route ops r ?s (routes lb)) r' = Some x" for r' x
    proof (cases "r' = r")
      case True
      then show ?thesis using l s by (simp add: lookup_inserted)
    next
      case False
      show ?thesis by (rule old, rule lookup_other [OF False l])
    qed
    define lb' where "lb' = \<lparr>inflight = dict_set ?s (count_of ?s lb + 1) (inflight lb),
                               routes = insert_route ops r ?s (routes lb)\<rparr>"
    have "lb_ok ops servers lb'" unfolding lb'_def by (rule upd [OF s]) (rule known)
    moreover have "acquire_server ops r lb = Inr (?s, lb')"
      using None ne incr [OF s] by (simp add: acquire_server_def Let_def lb'_def)
    moreover have "\<forall>x. count_of x lb' = count_of x lb + (if x = ?s then 1 else 0)"
      unfolding lb'_def using cnt by blast
    moreover have "lookup ops (routes lb') r = Some ?s" by (simp add: lb'_def lookup_inserted)
    moreover have "\<forall>r' x. r' \<noteq> r \<longrightarrow> lookup ops (routes lb') r' = Some x \<longrightarrow> lookup ops (routes lb) r' = Some x"
    proof (intro allI impI)
      fix r' x
      assume ne: "r' \<noteq> r" and "lookup ops (routes lb') r' = Some x"
      then have "lookup ops (insert_route ops r ?s (routes lb)) r' = Some x" by (simp add: lb'_def)
      then show "lookup ops (routes lb) r' = Some x" by (rule lookup_other [OF ne])
    qed
    moreover have "\<forall>x\<in>set servers. count_of ?s lb \<le> count_of x lb" using least by blast
    ultimately show ?thesis
      unfolding None option.case using s by (intro exI [of _ ?s] exI [of _ lb'] conjI)
  qed
qed

lemma lb_good_step: "lb_good ops servers es lb \<Longrightarrow> lb_step ops lb e lb' \<Longrightarrow> lb_good ops servers (es @ [e]) lb'"
proof (erule lb_stepE, goal_cases)
  case (1 r s)
  obtain s1 lb1 where "acquire_server ops r lb = Inr (s1, lb1)" "lb_ok ops servers lb1"
    "\<forall>x. count_of x lb1 = count_of x lb + (if x = s1 then 1 else 0)"
    using acquire_ok [of servers lb r] 1(1) unfolding lb_good_def by blast
  then show ?case using 1 by (auto simp: lb_good_def held_def)
next
  case (2 s)
  have "lb_ok ops servers lb" using 2(1) by (simp add: lb_good_def)
  moreover from release_Inr [OF this 2(3)] have "s \<in> set servers" "0 < count_of s lb" by auto
  ultimately obtain lb1 where "release_server s lb = Inr lb1" "lb_ok ops servers lb1"
    "\<forall>x. count_of x lb1 = count_of x lb - (if x = s then 1 else 0)"
    using release_ok by blast
  then show ?case using 2 by (auto simp: lb_good_def held_def)
qed

end

sublocale routing_cache \<subseteq> steps: kept_by_steps "lb_step ops" "lb_good ops servers" for servers
  by unfold_locales (rule lb_good_step)

subsection \<open>The least recently used cache\<close>

text \<open>
  The documented behaviour of an LRU cache of at least one entry, the least recently used entry
  first: it satisfies the interface.
\<close>

definition lru_insert :: "nat \<Rightarrow> 'r \<Rightarrow> string \<Rightarrow> ('r \<times> string) list \<Rightarrow> ('r \<times> string) list" where
  "lru_insert cap r s c =
     (let c' = filter (\<lambda>e. fst e \<noteq> r) c in drop (Suc (length c') - cap) c' @ [(r, s)])"

definition lru_ops :: "nat \<Rightarrow> ('r, ('r \<times> string) list) cache_ops" where
  "lru_ops cap =
     \<lparr>lookup = (\<lambda>c r. map_of (rev c) r), refresh = (\<lambda>r c. case map_of (rev c) r of None \<Rightarrow> c
        | Some s \<Rightarrow> filter (\<lambda>e. fst e \<noteq> r) c @ [(r, s)]),
      insert_route = lru_insert cap\<rparr>"

lemma map_of_filter_other: "r' \<noteq> r \<Longrightarrow> map_of (filter (\<lambda>e. fst e \<noteq> r) c) r' = map_of c r'"
  by (induction c) auto

lemma map_of_rev_drop: "map_of (rev (drop k c)) r = Some x \<Longrightarrow> map_of (rev c) r = Some x"
proof -
  assume "map_of (rev (drop k c)) r = Some x"
  then have "map_of (rev (drop k c) @ rev (take k c)) r = Some x" by simp
  then show ?thesis by (simp only: rev_append [symmetric] append_take_drop_id)
qed

interpretation lru: routing_cache "lru_ops cap" "[]" for cap
proof unfold_locales
  fix r r' :: 'r and c s
  show "lookup (lru_ops cap) (refresh (lru_ops cap) r c) r' = lookup (lru_ops cap) c r'"
    by (auto simp: lru_ops_def rev_filter map_of_filter_other split: option.splits)
next
  fix r r' :: 'r and c s x
  assume "r' \<noteq> r" and "lookup (lru_ops cap) (insert_route (lru_ops cap) r s c) r' = Some x"
  then show "lookup (lru_ops cap) c r' = Some x"
    by (auto simp: lru_ops_def lru_insert_def Let_def map_of_filter_other rev_filter [symmetric]
        dest!: map_of_rev_drop simp flip: rev_filter)
      (simp add: rev_filter map_of_filter_other)
qed (auto simp: lru_ops_def lru_insert_def Let_def)

subsection \<open>What follows from the interface\<close>

fun acquire_all :: "('r, 'c) cache_ops \<Rightarrow> 'r list \<Rightarrow> 'c balancer \<Rightarrow> (string list \<times> 'c balancer) result" where
  "acquire_all ops [] lb = Inr ([], lb)"
| "acquire_all ops (r # rs) lb =
     bind_res (acquire_server ops r lb) (\<lambda>(s, lb1).
       bind_res (acquire_all ops rs lb1) (\<lambda>(ss, lb2). Inr (s # ss, lb2)))"

definition level :: "string list \<Rightarrow> 'c balancer \<Rightarrow> bool" where
  "level servers lb \<longleftrightarrow> (\<forall>x\<in>set servers. \<forall>y\<in>set servers. count_of x lb \<le> count_of y lb + 1)"

context routing_cache begin

lemma run_counts:
  assumes "lb_init empty_cache servers = Inr lb0" and "distinct servers" and "run (lb_step ops) lb0 es lb"
  shows "lb_ok ops servers lb \<and> (\<forall>s. count_of s lb = held s es)"
proof -
  have "lb_good ops servers [] lb0" using init_ok [OF assms(1,2)] by (simp add: lb_good_def held_def)
  from steps.reach_keeps [OF assms(3) this] show ?thesis by (simp add: lb_good_def)
qed

lemma fresh_requests_level:
  assumes "lb_ok ops servers lb" and "level servers lb" and "distinct rs"
    and "\<forall>r\<in>set rs. lookup ops (routes lb) r = None"
  shows "\<exists>ss lb'. acquire_all ops rs lb = Inr (ss, lb') \<and> lb_ok ops servers lb' \<and> level servers lb'"
  using assms
proof (induction rs arbitrary: lb)
  case (Cons r rs)
  obtain s lb1 where a: "acquire_server ops r lb = Inr (s, lb1)" "s \<in> set servers" "lb_ok ops servers lb1"
    "\<forall>x. count_of x lb1 = count_of x lb + (if x = s then 1 else 0)"
    "case lookup ops (routes lb) r of Some s0 \<Rightarrow> s = s0 | None \<Rightarrow> (\<forall>x\<in>set servers. count_of s lb \<le> count_of x lb)"
    "\<forall>r' x. r' \<noteq> r \<longrightarrow> lookup ops (routes lb1) r' = Some x \<longrightarrow> lookup ops (routes lb) r' = Some x"
    using acquire_ok [OF Cons.prems(1), of r] by blast
  have least: "\<forall>x\<in>set servers. count_of s lb \<le> count_of x lb" using a(5) Cons.prems(4) by simp
  have lev: "level servers lb1"
    unfolding level_def
  proof (intro ballI)
    fix x y assume "x \<in> set servers" "y \<in> set servers"
    then have "count_of x lb \<le> count_of y lb + 1" "count_of s lb \<le> count_of y lb"
      using Cons.prems(2) least by (auto simp: level_def)
    then show "count_of x lb1 \<le> count_of y lb1 + 1" using a(4) by auto
  qed
  have "\<forall>r'\<in>set rs. lookup ops (routes lb1) r' = None"
  proof
    fix r' assume r': "r' \<in> set rs"
    then have "r' \<noteq> r" "lookup ops (routes lb) r' = None" using Cons.prems(3,4) by auto
    then show "lookup ops (routes lb1) r' = None" using a(6) by (cases "lookup ops (routes lb1) r'") auto
  qed
  then obtain ss lb' where "acquire_all ops rs lb1 = Inr (ss, lb')" "lb_ok ops servers lb'" "level servers lb'"
    using Cons.IH [OF a(3) lev] Cons.prems(3) by auto
  then show ?case using a(1) by auto
qed simp

lemma client_generate_ok:
  assumes ok: "lb_ok ops servers lb" and gen: "client_generate ops serve r turn prompt limit lb = (res, lb')"
  shows "lb_ok ops servers lb' \<and> (\<forall>x. count_of x lb' = count_of x lb) \<and>
         (\<exists>s\<in>set servers. res = serve s turn prompt limit)"
proof -
  obtain s lb1 where a: "acquire_server ops r lb = Inr (s, lb1)" "s \<in> set servers" "lb_ok ops servers lb1"
    "\<forall>x. count_of x lb1 = count_of x lb + (if x = s then 1 else 0)"
    using acquire_ok [OF ok, of r] by blast
  have "0 < count_of s lb1" using a(4) count_of_server(2) [OF ok a(2)] by simp
  then obtain lb2 where "release_server s lb1 = Inr lb2" "lb_ok ops servers lb2"
    "\<forall>x. count_of x lb2 = count_of x lb1 - (if x = s then 1 else 0)"
    using release_ok [OF a(3,2)] by blast
  then show ?thesis using gen a by (auto simp: client_generate_def)
qed

lemma resume_loop_counts:
  assumes "lb_ok ops servers lb"
    and "resume_loop fuel ops serve partial r prompt budget turn params final mn lb = Some (res, lb')"
  shows "lb_ok ops servers lb' \<and> (\<forall>x. count_of x lb' = count_of x lb)"
  using assms
proof (induction fuel arbitrary: turn params final mn lb)
  case (Suc fuel)
  obtain g lb1 where g: "client_generate ops serve r turn (prompt @ token_ids final) (token_limit params) lb = (g, lb1)"
    by force
  note ok = client_generate_ok [OF Suc.prems(1) g]
  show ?case
  proof (cases g)
    case (Inl e)
    then show ?thesis using Suc.prems(2) g ok by simp
  next
    case (Inr out)
    then show ?thesis
      using Suc.prems(2) g ok Suc.IH [of lb1] by (auto simp: Let_def split: if_splits)
  qed
qed simp

end

subsection \<open>Resumed generation\<close>

definition respects_limit :: "'e serve \<Rightarrow> bool" where
  "respects_limit serve \<longleftrightarrow>
     (\<forall>s t p l out. serve s t p (Some l) = Inr out \<longrightarrow> int (length (token_ids out)) \<le> max 0 l)"

definition aborts_with_progress :: "'e serve \<Rightarrow> bool" where
  "aborts_with_progress serve \<longleftrightarrow>
     (\<forall>s t p l out. serve s t p l = Inr out \<longrightarrow> is_abort (stop_reason out) \<longrightarrow> token_ids out \<noteq> [])"

text \<open>The deterministic continuation of a prompt, and servers that may be interrupted anywhere in it.\<close>

fun continuation :: "(int list \<Rightarrow> int) \<Rightarrow> nat \<Rightarrow> int list \<Rightarrow> int list" where
  "continuation nxt 0 p = []"
| "continuation nxt (Suc k) p = nxt p # continuation nxt k (p @ [nxt p])"

definition continues :: "(int list \<Rightarrow> int) \<Rightarrow> 'e serve \<Rightarrow> bool" where
  "continues nxt serve \<longleftrightarrow>
     (\<forall>s t p l out. serve s t p l = Inr out \<longrightarrow> token_ids out = continuation nxt (length (token_ids out)) p)"

lemma length_continuation [simp]: "length (continuation nxt k p) = k"
  by (induction k arbitrary: p) auto

lemma continuation_add:
  "continuation nxt (a + b) p = continuation nxt a p @ continuation nxt b (p @ continuation nxt a p)"
  by (induction a arbitrary: p) auto

lemma token_limit_set: "token_limit p \<noteq> None \<Longrightarrow> token_limit (set_token_limit m p) = Some m"
  by (auto simp: token_limit_def set_token_limit_def split: option.splits)

lemma token_ids_merge [simp]: "token_ids (merge_output final out) = token_ids final @ token_ids out"
  by (simp add: merge_output_def)

lemma client_generate_served:
  "client_generate ops serve r turn p l lb = (Inr out, lb') \<Longrightarrow> \<exists>s. serve s turn p l = Inr out"
  by (auto simp: client_generate_def split: sum.splits)

lemma resume_loop_budget:
  assumes "respects_limit serve" and "token_limit params = Some (m - int (length (token_ids final)))"
    and "int (length (token_ids final)) \<le> m"
    and "resume_loop fuel ops serve partial r prompt (Some m) turn params final mn lb = Some (Inr res, lb')"
  shows "int (length (token_ids (final_output res))) \<le> m \<and>
         token_limit (params_after res) = Some (m - int (length (token_ids (final_output res))))"
  using assms(2-)
proof (induction fuel arbitrary: turn params final mn lb)
  case (Suc fuel)
  obtain g lb1 where g: "client_generate ops serve r turn (prompt @ token_ids final) (token_limit params) lb = (g, lb1)"
    by force
  obtain out where out: "g = Inr out" using Suc.prems(3) g by (cases g) auto
  then obtain s where s: "serve s turn (prompt @ token_ids final) (Some (m - int (length (token_ids final)))) = Inr out"
    using client_generate_served g Suc.prems(1) by metis
  then have "int (length (token_ids out)) \<le> max 0 (m - int (length (token_ids final)))"
    using assms(1) unfolding respects_limit_def by blast
  then have le: "int (length (token_ids (merge_output final out))) \<le> m" using Suc.prems(2) by simp
  have lim: "token_limit (set_token_limit k params) = Some k" for k
    using Suc.prems(1) by (intro token_limit_set) simp
  let ?final = "merge_output final out"
  let ?params = "set_token_limit (m - int (length (token_ids ?final))) params"
  show ?case
  proof (cases "m \<le> int (length (token_ids ?final)) \<or> \<not> is_abort (stop_reason out) \<or> \<not> partial")
    case True
    then show ?thesis using Suc.prems(3) g out le lim by (auto simp: Let_def split: if_splits)
  next
    case False
    then have "resume_loop fuel ops serve partial r prompt (Some m) (Suc turn) ?params ?final
                 (case mn of None \<Rightarrow> global_steps out | Some x \<Rightarrow> Some x) lb1 = Some (Inr res, lb')"
      using Suc.prems(3) g out by (simp add: Let_def)
    from Suc.IH [OF lim le this] show ?thesis .
  qed
qed simp

lemma resume_loop_terminates:
  assumes "aborts_with_progress serve" and "nat (m - int (length (token_ids final))) < fuel"
  shows "\<exists>res lb'. resume_loop fuel ops serve partial r prompt (Some m) turn params final mn lb = Some (res, lb')"
  using assms(2)
proof (induction fuel arbitrary: turn params final mn lb)
  case (Suc fuel)
  obtain g lb1 where g: "client_generate ops serve r turn (prompt @ token_ids final) (token_limit params) lb = (g, lb1)"
    by force
  show ?case
  proof (cases g)
    case (Inl e)
    then show ?thesis using g by simp
  next
    case (Inr out)
    show ?thesis
    proof (cases "m \<le> int (length (token_ids (merge_output final out))) \<or> \<not> is_abort (stop_reason out) \<or> \<not> partial")
      case True
      then show ?thesis using g Inr by (simp add: Let_def)
    next
      case False
      then have "token_ids out \<noteq> []"
        using client_generate_served [OF g [unfolded Inr]] assms(1) unfolding aborts_with_progress_def by blast
      then have "0 < length (token_ids out)" by simp
      moreover have "int (length (token_ids final)) + int (length (token_ids out)) < m" using False by simp
      ultimately have "nat (m - int (length (token_ids (merge_output final out)))) < fuel"
        using Suc.prems unfolding token_ids_merge length_append of_nat_add by linarith
      from Suc.IH [OF this] show ?thesis using g Inr False by (simp add: Let_def)
    qed
  qed
qed simp

lemma resume_loop_continues:
  assumes "continues nxt serve" and "token_ids final = continuation nxt (length (token_ids final)) prompt"
    and "resume_loop fuel ops serve partial r prompt budget turn params final mn lb = Some (Inr res, lb')"
  shows "token_ids (final_output res) = continuation nxt (length (token_ids (final_output res))) prompt"
  using assms(2-)
proof (induction fuel arbitrary: turn params final mn lb)
  case (Suc fuel)
  obtain g lb1 where g: "client_generate ops serve r turn (prompt @ token_ids final) (token_limit params) lb = (g, lb1)"
    by force
  obtain out where out: "g = Inr out" using Suc.prems(2) g by (cases g) auto
  have "token_ids out = continuation nxt (length (token_ids out)) (prompt @ token_ids final)"
    using client_generate_served [OF g [unfolded out]] assms(1) unfolding continues_def by blast
  then have merged: "token_ids (merge_output final out) =
      continuation nxt (length (token_ids (merge_output final out))) prompt"
    using Suc.prems(1) continuation_add [of nxt "length (token_ids final)" "length (token_ids out)" prompt] by simp
  show ?case
  proof (cases "(case budget of None \<Rightarrow> False | Some m \<Rightarrow> m \<le> int (length (token_ids (merge_output final out)))) \<or>
                \<not> is_abort (stop_reason out) \<or> \<not> partial")
    case True
    then show ?thesis using Suc.prems(2) g out merged by (auto simp: Let_def split: option.splits if_splits)
  next
    case False
    then show ?thesis using Suc.prems(2) g out
      by (auto simp: Let_def split: option.splits intro!: Suc.IH [OF merged])
  qed
qed simp

subsection \<open>The properties of routing and generation\<close>

text \<open>
  C9: In every run of acquisitions and releases from the initial balancer, the in-flight count
  of a server is the number of its acquisitions minus the number of its releases and is never
  negative, and the next acquisition succeeds: a request known to the cache gets its server
  again, a new one gets a server with the least count, and the cache then knows the request.
\<close>

theorem balancer_counts_and_routes:
  assumes "routing_cache ops empty_cache" and "distinct servers"
    and "lb_init empty_cache servers = Inr lb0" and "run (lb_step ops) lb0 es lb"
  shows "(\<forall>s\<in>set servers. map_of (inflight lb) s = Some (held s es) \<and> 0 \<le> held s es) \<and>
         (\<forall>r. \<exists>s lb'. acquire_server ops r lb = Inr (s, lb') \<and> lookup ops (routes lb') r = Some s \<and>
            (case lookup ops (routes lb) r of
               Some s0 \<Rightarrow> s = s0 | None \<Rightarrow> (\<forall>x\<in>set servers. held s es \<le> held x es)))"
proof -
  have ok: "lb_ok ops servers lb" and cnt: "\<forall>s. count_of s lb = held s es"
    using routing_cache.run_counts [OF assms(1,3,2,4)] by auto
  have "map_of (inflight lb) s = Some (held s es) \<and> 0 \<le> held s es" if "s \<in> set servers" for s
    using count_of_server [OF ok that] cnt by simp
  moreover have "\<exists>s lb'. acquire_server ops r lb = Inr (s, lb') \<and> lookup ops (routes lb') r = Some s \<and>
            (case lookup ops (routes lb) r of
               Some s0 \<Rightarrow> s = s0 | None \<Rightarrow> (\<forall>x\<in>set servers. held s es \<le> held x es))" for r
    using routing_cache.acquire_ok [OF assms(1) ok, of r] cnt by (auto split: option.splits)
  ultimately show ?thesis by blast
qed

definition two_servers :: "(string \<times> string) list balancer" where
  "two_servers = \<lparr>inflight = [(''a'', 0), (''b'', 0)], routes = []\<rparr>"

lemma two_servers_init: "lb_init [] [''a'', ''b''] = Inr two_servers"
  by (simp add: lb_init_def two_servers_def)

lemma balancer_counts_and_routes_witness:
  "\<exists>s lb'. acquire_server (lru_ops 2) ''req'' two_servers = Inr (s, lb')"
proof -
  have "distinct [''a'', ''b'']" by simp
  from balancer_counts_and_routes [OF lru.routing_cache_axioms [of 2] this two_servers_init run_refl]
  show ?thesis by blast
qed

text \<open>
  Distinct new requests spread evenly: when none of them has been seen and nothing is
  released, the counts of two servers never differ by more than one.
\<close>

theorem new_requests_balance:
  assumes "routing_cache ops empty_cache" and "distinct servers" and "lb_init empty_cache servers = Inr lb0"
    and "distinct rs"
  shows "\<exists>ss lb. acquire_all ops rs lb0 = Inr (ss, lb) \<and>
           (\<forall>x\<in>set servers. \<forall>y\<in>set servers. \<exists>m n. map_of (inflight lb) x = Some m \<and>
              map_of (inflight lb) y = Some n \<and> m \<le> n + 1)"
proof -
  have init: "lb_ok ops servers lb0" "\<forall>s. count_of s lb0 = 0"
    using routing_cache.init_ok [OF assms(1,3,2)] by auto
  have "routes lb0 = empty_cache" using assms(3) by (auto simp: lb_init_def res_simps)
  then have "\<forall>r\<in>set rs. lookup ops (routes lb0) r = None"
    using routing_cache.lookup_empty [OF assms(1)] by simp
  then obtain ss lb where "acquire_all ops rs lb0 = Inr (ss, lb)" "lb_ok ops servers lb" "level servers lb"
    using routing_cache.fresh_requests_level [OF assms(1) init(1) _ assms(4)] init(2) by (auto simp: level_def)
  moreover from this have "\<forall>x\<in>set servers. \<forall>y\<in>set servers. \<exists>m n. map_of (inflight lb) x = Some m \<and>
              map_of (inflight lb) y = Some n \<and> m \<le> n + 1"
    using count_of_server(1) unfolding level_def by blast
  ultimately show ?thesis by blast
qed

lemma new_requests_balance_witness:
  "\<exists>ss lb. acquire_all (lru_ops 2) [''r'', ''s'', ''t''] two_servers = Inr (ss, lb)"
proof -
  have "distinct [''a'', ''b'']" "distinct [''r'', ''s'', ''t'']" by simp_all
  from new_requests_balance [OF lru.routing_cache_axioms [of 2] this(1) two_servers_init this(2)]
  show ?thesis by blast
qed

text \<open>
  Generation releases what it acquires: whatever the servers answer, errors included and
  however often a generation is resumed, it leaves every in-flight count as it was.
\<close>

theorem generation_releases_servers:
  assumes "routing_cache ops empty_cache" and "lb_ok ops servers lb"
    and "fully_generate fuel ops serve partial r prompt params lb = Some (res, lb')" and "s \<in> set servers"
  shows "map_of (inflight lb') s = map_of (inflight lb) s"
proof -
  have "lb_ok ops servers lb'" "\<forall>x. count_of x lb' = count_of x lb"
    using routing_cache.resume_loop_counts [OF assms(1,2)] assms(3) unfolding fully_generate_def by blast+
  then show ?thesis using count_of_server(1) assms(2,4) by metis
qed

text \<open>A server that answers two tokens at a time, interrupted, each the length of its context.\<close>

definition sample_serve :: "int serve" where
  "sample_serve s t p l =
     Inr \<lparr>token_ids = continuation (\<lambda>q. int (length q)) (case l of None \<Rightarrow> 2 | Some k \<Rightarrow> min 2 (nat k)) p,
          log_probs = None, routed_experts = None, stop_reason = Some ''abort'', num_preempted = None,
          global_steps = Some 1\<rparr>"

definition sample_params :: sampling_params where
  "sample_params = \<lparr>max_tokens = Some 3, max_new_tokens = None\<rparr>"

lemma sample_generate:
  "\<exists>res lb'. fully_generate 4 (lru_ops 2) sample_serve True ''req'' [7] sample_params two_servers = Some (Inr res, lb') \<and>
     token_ids (final_output res) = [1, 2, 3]"
  by (simp add: fully_generate_def sample_params_def two_servers_def eval_nat_numeral client_generate_def
      acquire_server_def release_server_def lru_ops_def lru_insert_def incr_inflight_def sample_serve_def
      token_limit_def set_token_limit_def merge_output_def empty_output_def is_abort_def Let_def)

lemma generation_releases_servers_witness:
  "\<exists>res lb'. fully_generate 4 (lru_ops 2) sample_serve True ''req'' [7] sample_params two_servers = Some (Inr res, lb') \<and>
     map_of (inflight lb') ''a'' = Some 0"
proof -
  obtain res lb' where g: "fully_generate 4 (lru_ops 2) sample_serve True ''req'' [7] sample_params two_servers = Some (Inr res, lb')"
    using sample_generate by blast
  have "lb_ok (lru_ops 2) [''a'', ''b''] two_servers" by (auto simp: lb_ok_def two_servers_def lru_ops_def)
  from generation_releases_servers [OF lru.routing_cache_axioms [of 2] this g, of "''a''"] g
  show ?thesis by (auto simp: two_servers_def)
qed

text \<open>
  With a token limit, servers that respect the limit they are sent, and interrupted answers
  that make progress, resuming ends within \<open>limit + 1\<close> turns, and whatever is returned has at
  most the tokens of the original limit. The caller's sampling parameters are left with the
  remaining budget.
\<close>

theorem resumed_generation_within_budget:
  assumes "respects_limit serve" and "aborts_with_progress serve" and "token_limit params = Some m" and "0 \<le> m"
  shows "\<exists>res lb'. fully_generate (nat m + 1) ops serve partial r prompt params lb = Some (res, lb') \<and>
           (\<forall>out. res = Inr out \<longrightarrow> int (length (token_ids (final_output out))) \<le> m \<and>
              token_limit (params_after out) = Some (m - int (length (token_ids (final_output out)))))"
proof -
  have "nat (m - int (length (token_ids (empty_output :: 'a token_output)))) < nat m + 1"
    by (simp add: empty_output_def)
  from resume_loop_terminates [OF assms(2) this, of ops partial r prompt 0 params None lb]
  obtain res lb' where g: "fully_generate (nat m + 1) ops serve partial r prompt params lb = Some (res, lb')"
    by (auto simp: fully_generate_def assms(3))
  have "int (length (token_ids (final_output out))) \<le> m \<and>
        token_limit (params_after out) = Some (m - int (length (token_ids (final_output out))))"
    if "res = Inr out" for out
    using resume_loop_budget [OF assms(1), of params m empty_output "nat m + 1" ops partial r prompt 0 None lb out lb']
      g that assms(3,4) by (simp add: fully_generate_def empty_output_def)
  then show ?thesis using g by blast
qed

lemma sample_serve_continues: "continues (\<lambda>q. int (length q)) sample_serve"
  by (auto simp: continues_def sample_serve_def)

definition one_token_serve :: "int serve" where
  "one_token_serve s t p l =
     Inr \<lparr>token_ids = (if l = None \<or> 0 < the l then [int (length p)] else []), log_probs = None, routed_experts = None,
                stop_reason = (if l = None \<or> 0 < the l then Some ''abort'' else Some ''completed''),
                num_preempted = None, global_steps = Some 1\<rparr>"

lemma resumed_generation_within_budget_witness:
  "\<exists>res lb'. fully_generate 4 (lru_ops 2) one_token_serve True ''req'' [7] sample_params two_servers = Some (res, lb')"
proof -
  have "respects_limit one_token_serve" "aborts_with_progress one_token_serve"
    by (auto simp: respects_limit_def aborts_with_progress_def one_token_serve_def is_abort_def split: if_splits)
  from resumed_generation_within_budget [OF this, of sample_params 3 "lru_ops 2" True "''req''" "[7]" two_servers]
  show ?thesis by (auto simp: sample_params_def token_limit_def)
qed

text \<open>
  Interruptions are invisible: if every answer of a server is some prefix of the
  deterministic continuation of the context it was sent, then the resumed generation returns a
  prefix of the continuation of the original prompt, wherever the answers were cut and whichever
  servers gave them.
\<close>

theorem resumption_is_transparent:
  assumes "continues nxt serve"
    and "fully_generate fuel ops serve partial r prompt params lb = Some (Inr res, lb')"
  shows "token_ids (final_output res) = continuation nxt (length (token_ids (final_output res))) prompt"
  using resume_loop_continues [OF assms(1), of empty_output prompt] assms(2)
  by (simp add: fully_generate_def empty_output_def)

lemma resumption_is_transparent_witness:
  "\<exists>res lb'. fully_generate 4 (lru_ops 2) sample_serve True ''req'' [7] sample_params two_servers = Some (Inr res, lb') \<and>
     token_ids (final_output res) = continuation (\<lambda>q. int (length q)) 3 [7]"
proof -
  obtain res lb' where g: "fully_generate 4 (lru_ops 2) sample_serve True ''req'' [7] sample_params two_servers = Some (Inr res, lb')"
    and "token_ids (final_output res) = [1, 2, 3]"
    using sample_generate by blast
  with resumption_is_transparent [OF sample_serve_continues g] show ?thesis by (auto simp: eval_nat_numeral)
qed

end
