(* ===== verification/TokenBucket.thy ===== *)
theory TokenBucket
  imports Steps
begin

section \<open>Rate limiting of reward requests\<close>

text \<open>
  Models \<open>AsyncTokenBucket\<close> and \<open>RateLimitedRewardManager\<close> of
  \<open>src/verl/experimental/reward_loop/reward_manager/limited.py\<close>. An attempt is one passage
  through the bucket's lock at the time the event loop reports; between attempts a task sleeps, so
  attempts of different tasks interleave. Times, rates and tokens are exact reals where the code
  has floats.
\<close>

subsection \<open>The bucket\<close>

record bucket =
  rate_limit :: real
  capacity :: real
  tokens_left :: real
  last_update :: "real option"

text \<open>\<open>max_tokens or rate_limit\<close>: a missing or zero capacity becomes the rate.\<close>

definition new_bucket :: "real \<Rightarrow> real option \<Rightarrow> bucket" where
  "new_bucket rate cap =
     (let m = (case cap of None \<Rightarrow> rate | Some c \<Rightarrow> if c = 0 then rate else c)
      in \<lparr>rate_limit = rate, capacity = m, tokens_left = m, last_update = None\<rparr>)"

definition refill :: "real \<Rightarrow> bucket \<Rightarrow> bucket" where
  "refill now b =
     (let last = (case last_update b of None \<Rightarrow> now | Some t \<Rightarrow> t)
      in b\<lparr>tokens_left := min (capacity b) (tokens_left b + (now - last) * rate_limit b), last_update := Some now\<rparr>)"

datatype attempt_outcome =
    Granted
  | GrantedAfter real
  | RetryAfter real

text \<open>
  One passage through the lock. A request above the capacity is booked at once and only sleeps;
  any other request is booked when the tokens are there, and tells the waiting time otherwise.
\<close>

definition oversized_attempt :: "real \<Rightarrow> bucket \<Rightarrow> (attempt_outcome \<times> bucket) result" where
  "oversized_attempt num b =
     (let needed = num - tokens_left b; b' = b\<lparr>tokens_left := tokens_left b - num\<rparr>
      in if 0 < needed
         then guard_res (rate_limit b \<noteq> 0) ZeroDivisionError
                (Inr (let wait = needed / rate_limit b in if 0 < wait then GrantedAfter wait else Granted, b'))
         else Inr (Granted, b'))"

definition standard_attempt :: "real \<Rightarrow> bucket \<Rightarrow> (attempt_outcome \<times> bucket) result" where
  "standard_attempt num b =
     (if num \<le> tokens_left b then Inr (Granted, b\<lparr>tokens_left := tokens_left b - num\<rparr>)
      else guard_res (rate_limit b \<noteq> 0) ZeroDivisionError
             (Inr (RetryAfter ((num - tokens_left b) / rate_limit b), b)))"

definition attempt :: "real \<Rightarrow> real \<Rightarrow> bucket \<Rightarrow> (attempt_outcome \<times> bucket) result" where
  "attempt num now b =
     (if capacity b < num then oversized_attempt num (refill now b)
      else standard_attempt num (refill now b))"

text \<open>
  The loop of \<open>acquire\<close> for a task no other task comes between: the time at which it returns,
  and the bucket; at most \<open>fuel\<close> passages. A waiting time that is not positive is not slept.
\<close>

fun acquire :: "nat \<Rightarrow> real \<Rightarrow> real \<Rightarrow> bucket \<Rightarrow> (real \<times> bucket) option result" where
  "acquire 0 num now b = Inr None"
| "acquire (Suc fuel) num now b =
     bind_res (attempt num now b) (\<lambda>(out, b').
       case out of
         Granted \<Rightarrow> Inr (Some (now, b'))
       | GrantedAfter w \<Rightarrow> Inr (Some (now + w, b'))
       | RetryAfter w \<Rightarrow> acquire fuel num (now + max 0 w) b')"

subsection \<open>Interleaved attempts\<close>

text \<open>Attempts of all tasks in the order they take the lock: amount, time and outcome of each.\<close>

datatype attempt_event = Attempt (amount: real) (time_of: real) (outcome: attempt_outcome)

inductive bucket_step :: "bucket \<Rightarrow> attempt_event \<Rightarrow> bucket \<Rightarrow> bool" where
  bucket_attempt:
    "(\<forall>t. last_update b = Some t \<longrightarrow> t \<le> now) \<Longrightarrow> 0 \<le> num \<Longrightarrow> attempt num now b = Inr (out, b') \<Longrightarrow>
     bucket_step b (Attempt num now out) b'"

inductive_cases bucket_stepE: "bucket_step b e b'"

definition granted_amount :: "attempt_event \<Rightarrow> real" where
  "granted_amount e = (case outcome e of RetryAfter w \<Rightarrow> 0 | _ \<Rightarrow> amount e)"

definition total_granted :: "attempt_event list \<Rightarrow> real" where
  "total_granted es = (\<Sum>e\<leftarrow>es. granted_amount e)"

text \<open>When a granted request returns to its caller.\<close>

definition return_time :: "attempt_event \<Rightarrow> real" where
  "return_time e = (case outcome e of GrantedAfter w \<Rightarrow> time_of e + w | _ \<Rightarrow> time_of e)"

definition returned_by :: "real \<Rightarrow> attempt_event list \<Rightarrow> attempt_event list" where
  "returned_by T es = filter (\<lambda>e. return_time e \<le> T) es"

text \<open>
  The budget: what was granted plus what is left never exceeds the supply, and every request has
  returned no earlier than the supply covers all the requests booked up to it.
\<close>

definition covered :: "real \<Rightarrow> real \<Rightarrow> attempt_event list \<Rightarrow> attempt_event \<Rightarrow> bool" where
  "covered rate cap es e \<longleftrightarrow>
     total_granted (es @ [e]) \<le> cap + rate * (return_time e - time_of (hd (es @ [e])))"

definition bucket_good :: "real \<Rightarrow> real \<Rightarrow> attempt_event list \<Rightarrow> bucket \<Rightarrow> bool" where
  "bucket_good rate cap es b \<longleftrightarrow>
     0 \<le> rate \<and> 0 \<le> cap \<and> rate_limit b = rate \<and> capacity b = cap \<and> tokens_left b \<le> cap \<and>
     (\<forall>e\<in>set es. 0 \<le> granted_amount e) \<and>
     (\<forall>xs e ys. es = xs @ e # ys \<longrightarrow> granted_amount e = 0 \<or> covered rate cap xs e) \<and>
     (if es = [] then last_update b = None
      else last_update b = Some (time_of (last es)) \<and>
           total_granted es + tokens_left b \<le> cap + rate * (time_of (last es) - time_of (hd es)))"

lemma total_granted_simps [simp]:
  "total_granted [] = 0"
  "total_granted (e # es) = granted_amount e + total_granted es"
  "total_granted (xs @ ys) = total_granted xs + total_granted ys"
  by (simp_all add: total_granted_def)

lemma refill_fields [simp]:
  "rate_limit (refill now b) = rate_limit b" "capacity (refill now b) = capacity b"
  "last_update (refill now b) = Some now" "tokens_left (refill now b) \<le> capacity b"
  by (simp_all add: refill_def Let_def)

lemma attempt_cases:
  assumes "attempt num now b = Inr (out, b')"
  shows "last_update b' = Some now \<and> rate_limit b' = rate_limit b \<and> capacity b' = capacity b \<and>
         tokens_left b' = tokens_left (refill now b) - granted_amount (Attempt num now out) \<and>
         (out = Granted \<longrightarrow> 0 \<le> rate_limit b \<longrightarrow> 0 \<le> tokens_left b') \<and>
         (\<forall>w. out = GrantedAfter w \<longrightarrow> rate_limit b * w = - tokens_left b')"
  using assms
  by (auto simp: attempt_def oversized_attempt_def standard_attempt_def Let_def granted_amount_def
      guard_res_def divide_simps split: if_splits)

lemma bucket_good_step:
  assumes good: "bucket_good rate cap es b" and step: "bucket_step b e b'"
  shows "bucket_good rate cap (es @ [e]) b'"
proof -
  obtain num now out where e: "e = Attempt num now out" "0 \<le> num" "attempt num now b = Inr (out, b')"
    and mono: "\<forall>t. last_update b = Some t \<longrightarrow> t \<le> now"
    using step by (auto elim: bucket_stepE)
  note a = attempt_cases [OF e(3)]
  have params: "rate_limit b = rate" "capacity b = cap" "0 \<le> rate" "tokens_left b \<le> cap"
    using good by (simp_all add: bucket_good_def)
  have g: "0 \<le> granted_amount e"
    using e(2) by (auto simp: granted_amount_def e(1) split: attempt_outcome.splits)
  have cap: "tokens_left (refill now b) \<le> cap" using refill_fields(4) [of now b] params by simp
  have budget: "total_granted (es @ [e]) + tokens_left b' \<le> cap + rate * (now - time_of (hd (es @ [e])))"
  proof (cases "es = []")
    case True
    then show ?thesis using a cap by (simp add: e(1))
  next
    case False
    then have last: "last_update b = Some (time_of (last es))"
      and "total_granted es + tokens_left b \<le> cap + rate * (time_of (last es) - time_of (hd es))"
      using good by (auto simp: bucket_good_def)
    moreover have "tokens_left (refill now b) \<le> tokens_left b + (now - time_of (last es)) * rate"
      by (simp add: refill_def Let_def params last)
    ultimately show ?thesis using False a by (simp add: e(1) algebra_simps)
  qed
  have cov: "granted_amount e = 0 \<or> covered rate cap es e"
    using a budget params by (cases out) (auto simp: covered_def e(1) granted_amount_def return_time_def algebra_simps)
  have splits: "granted_amount x = 0 \<or> covered rate cap xs x" if s: "es @ [e] = xs @ x # ys" for xs x ys
  proof (cases ys rule: rev_cases)
    case Nil
    then show ?thesis using s cov by simp
  next
    case (snoc zs z)
    then have "es = xs @ x # zs" using s by simp
    then show ?thesis using good by (auto simp: bucket_good_def)
  qed
  show ?thesis
    using a good budget g cap splits by (auto simp: bucket_good_def e(1) params)
qed

interpretation bucket_run: kept_by_steps bucket_step "bucket_good rate cap" for rate cap
  by unfold_locales (rule bucket_good_step)

lemma returned_total_le:
  assumes "\<forall>e\<in>set es. 0 \<le> granted_amount e"
  shows "total_granted (filter P es) \<le> total_granted es"
  using assms by (induction es) auto

lemma total_granted_zero: "\<forall>e\<in>set es. granted_amount e = 0 \<Longrightarrow> total_granted es = 0"
  by (induction es) auto

lemma bucket_good_init:
  "0 \<le> rate \<Longrightarrow> b = new_bucket rate cap \<Longrightarrow> 0 \<le> capacity b \<Longrightarrow> bucket_good rate (capacity b) [] b"
  by (simp add: bucket_good_def new_bucket_def Let_def)

lemma returned_covered:
  assumes good: "bucket_good rate cap es b" and "es \<noteq> []" and T: "time_of (hd es) \<le> T"
  shows "total_granted (returned_by T es) \<le> cap + rate * (T - time_of (hd es))"
proof (cases "filter (\<lambda>e. return_time e \<le> T \<and> granted_amount e \<noteq> 0) es = []")
  case True
  then have "\<forall>e\<in>set (returned_by T es). granted_amount e = 0"
    by (auto simp: returned_by_def filter_empty_conv)
  then have "total_granted (returned_by T es) = 0" by (rule total_granted_zero)
  then show ?thesis using good T by (simp add: bucket_good_def)
next
  case False
  then have "\<exists>e\<in>set es. return_time e \<le> T \<and> granted_amount e \<noteq> 0" by (auto simp: filter_empty_conv)
  then obtain xs e ys where es: "es = xs @ e # ys" "return_time e \<le> T" "granted_amount e \<noteq> 0"
    and rest: "\<forall>y\<in>set ys. \<not> (return_time y \<le> T \<and> granted_amount y \<noteq> 0)"
    using split_list_last_prop_iff [of es "\<lambda>e. return_time e \<le> T \<and> granted_amount e \<noteq> 0"] by auto
  have nonneg: "\<forall>e\<in>set es. 0 \<le> granted_amount e" and rate: "0 \<le> rate" using good by (simp_all add: bucket_good_def)
  have "total_granted (returned_by T ys) = 0"
    using rest by (induction ys) (auto simp: returned_by_def)
  moreover have "total_granted (returned_by T xs) \<le> total_granted xs"
    unfolding returned_by_def by (rule returned_total_le) (use nonneg es in auto)
  ultimately have le: "total_granted (returned_by T es) \<le> total_granted (xs @ [e])"
    using es by (auto simp: returned_by_def)
  have "covered rate cap xs e" using good es by (auto simp: bucket_good_def)
  moreover have "hd (xs @ [e]) = hd es" using es by (cases xs) auto
  moreover have "rate * (return_time e - time_of (hd es)) \<le> rate * (T - time_of (hd es))"
    using rate es(2) by (intro mult_left_mono) auto
  ultimately show ?thesis using le by (simp add: covered_def)
qed

text \<open>
  C10: However the requests of all tasks interleave, those that have returned to their callers by
  a time \<open>T\<close> amount to no more than the capacity plus the rate times the time since the first
  attempt: requests above the capacity, which overdraw the bucket, included.
\<close>

theorem bucket_limits_rate:
  assumes "run bucket_step (new_bucket rate cap) es b" and "0 \<le> rate" and "0 \<le> capacity (new_bucket rate cap)"
    and "es \<noteq> []" and "time_of (hd es) \<le> T"
  shows "total_granted (returned_by T es) \<le> capacity (new_bucket rate cap) + rate * (T - time_of (hd es))"
  using returned_covered bucket_run.reach_keeps bucket_good_init assms by blast

theorem bucket_limits_rate_witness:
  "total_granted (returned_by 3 [Attempt 1 0 Granted, Attempt 3 0 (GrantedAfter 2), Attempt 1 1 (RetryAfter 2)])
     \<le> capacity (new_bucket 1 (Some 2)) + 1 * (3 - 0)"
proof -
  have "run bucket_step (new_bucket 1 (Some 2))
     [Attempt 1 0 Granted, Attempt 3 0 (GrantedAfter 2), Attempt 1 1 (RetryAfter 2)]
     \<lparr>rate_limit = 1, capacity = 2, tokens_left = -1, last_update = Some 1\<rparr>"
    by (rule run_Cons, rule bucket_attempt [where b' = "\<lparr>rate_limit = 1, capacity = 2, tokens_left = 1, last_update = Some 0\<rparr>"],
        simp_all add: new_bucket_def attempt_def standard_attempt_def oversized_attempt_def refill_def)
      (rule run_Cons, rule bucket_attempt [where b' = "\<lparr>rate_limit = 1, capacity = 2, tokens_left = -2, last_update = Some 0\<rparr>"],
        simp_all add: attempt_def standard_attempt_def oversized_attempt_def refill_def,
       rule run_Cons, rule bucket_attempt, simp_all add: attempt_def standard_attempt_def oversized_attempt_def refill_def)
  from bucket_limits_rate [OF this, of 3] show ?thesis by (simp add: new_bucket_def)
qed

lemma refill_twice:
  "tokens_left b \<le> capacity b \<Longrightarrow> 0 \<le> w \<Longrightarrow> 0 \<le> rate_limit b \<Longrightarrow>
   tokens_left (refill (now + w) (refill now b)) = min (capacity b) (tokens_left (refill now b) + w * rate_limit b)"
  by (simp add: refill_def Let_def)

text \<open>
  A request that no other comes between returns after at most two passages through the lock,
  exactly when the missing tokens have flowed in; with a rate of zero the same request raises a
  division error, although the documentation says that no exceptions are raised.
\<close>

theorem acquire_returns:
  assumes "tokens_left b \<le> capacity b" and "0 < num"
  shows "(0 < rate_limit b \<longrightarrow> (\<exists>b'. acquire 2 num now b =
           Inr (Some (now + max 0 ((num - tokens_left (refill now b)) / rate_limit b), b')) \<and>
           tokens_left b' = (if num \<le> capacity b then max 0 (tokens_left (refill now b) - num)
                             else tokens_left (refill now b) - num))) \<and>
         (rate_limit b = 0 \<longrightarrow> tokens_left (refill now b) < num \<longrightarrow> acquire (Suc fuel) num now b = Inl ZeroDivisionError)"
proof (intro conjI impI)
  let ?t = "tokens_left (refill now b)"
  assume r: "0 < rate_limit b"
  show "\<exists>b'. acquire 2 num now b = Inr (Some (now + max 0 ((num - ?t) / rate_limit b), b')) \<and>
          tokens_left b' = (if num \<le> capacity b then max 0 (?t - num) else ?t - num)"
  proof (cases "num \<le> capacity b")
    case False
    then have "?t < num" using refill_fields(4) [of now b] by linarith
    then show ?thesis using False r
      by (simp add: numeral_2_eq_2 attempt_def oversized_attempt_def Let_def max_def divide_less_0_iff)
  next
    case True
    show ?thesis
    proof (cases "num \<le> ?t")
      case True
      then have "(num - ?t) / rate_limit b \<le> 0" using r by (simp add: divide_le_0_iff)
      then show ?thesis using True \<open>num \<le> capacity b\<close>
        by (simp add: numeral_2_eq_2 attempt_def standard_attempt_def)
    next
      case False
      then have w: "0 < (num - ?t) / rate_limit b" using r by simp
      have "tokens_left (refill (now + (num - ?t) / rate_limit b) (refill now b)) = num"
        using refill_twice [OF assms(1), of "(num - ?t) / rate_limit b" now] w r True by simp
      then show ?thesis using False True r w
        by (simp add: numeral_2_eq_2 attempt_def standard_attempt_def max_def)
    qed
  qed
next
  assume "rate_limit b = 0" "tokens_left (refill now b) < num"
  then show "acquire (Suc fuel) num now b = Inl ZeroDivisionError"
    by (simp add: attempt_def standard_attempt_def oversized_attempt_def Let_def guard_res_def)
qed

theorem acquire_returns_witness:
  "(\<exists>b'. acquire 2 4 0 (new_bucket 2 (Some 3)) = Inr (Some (1/2, b'))) \<and>
   acquire 1 4 0 (new_bucket 0 (Some 3)) = Inl ZeroDivisionError"
  using acquire_returns [of "new_bucket 2 (Some 3)" 4 0] acquire_returns [of "new_bucket 0 (Some 3)" 4 0 0]
  by (auto simp: new_bucket_def refill_def max_def)

subsection \<open>The limiters all managers share\<close>

record limit_config =
  cfg_max_concurrent :: "int option"
  cfg_max_rpm :: "real option"
  cfg_max_tpm :: "real option"
  cfg_estimated_tokens :: "real option"

text \<open>The class attributes; every instance of the manager uses the same ones.\<close>

record limiters =
  max_concurrent :: "int option"
  rpm_limiter :: "bucket option"
  max_rpm :: "real option"
  tpm_limiter :: "bucket option"
  max_tpm :: "real option"
  estimated_tokens :: "real option"
  class_initialized :: bool

definition no_limiters :: limiters where
  "no_limiters = \<lparr>max_concurrent = None, rpm_limiter = None, max_rpm = None, tpm_limiter = None,
     max_tpm = None, estimated_tokens = None, class_initialized = False\<rparr>"

definition per_minute_bucket :: "real option \<Rightarrow> bucket option" where
  "per_minute_bucket limit =
     map_option (\<lambda>m. let per_second = m / 60 in new_bucket per_second (Some per_second)) limit"

definition get_or :: "'a \<Rightarrow> 'a option \<Rightarrow> 'a" where
  "get_or d v = (case v of None \<Rightarrow> d | Some x \<Rightarrow> x)"

definition ignored_limits :: "limit_config \<Rightarrow> limiters \<Rightarrow> bool" where
  "ignored_limits cfg c \<longleftrightarrow> class_initialized c \<and> (cfg_max_rpm cfg \<noteq> max_rpm c \<or> cfg_max_tpm cfg \<noteq> max_tpm c) \<and>
     (cfg_max_rpm cfg \<noteq> None \<or> cfg_max_tpm cfg \<noteq> None \<or> max_rpm c \<noteq> None \<or> max_tpm c \<noteq> None)"

text \<open>The warning and the class after the call; a negative semaphore value is refused.\<close>

definition init_class :: "limit_config \<Rightarrow> limiters \<Rightarrow> (bool \<times> limiters) result" where
  "init_class cfg c =
     (if class_initialized c then Inr (ignored_limits cfg c, c)
      else let n = get_or 1 (cfg_max_concurrent cfg)
           in guard_res (0 \<le> n) ValueError (Inr (False,
                \<lparr>max_concurrent = Some n,
                 rpm_limiter = per_minute_bucket (cfg_max_rpm cfg), max_rpm = cfg_max_rpm cfg,
                 tpm_limiter = per_minute_bucket (cfg_max_tpm cfg), max_tpm = cfg_max_tpm cfg,
                 estimated_tokens = Some (get_or 2000 (cfg_estimated_tokens cfg)),
                 class_initialized = True\<rparr>)))"

text \<open>
  The limiters a request passes before its reward is computed: one request, then its estimated
  tokens; the time is that of a task no other comes between. The semaphore is the caller's.
\<close>

definition pass_limiter :: "real \<Rightarrow> real \<Rightarrow> bucket option \<Rightarrow> (real \<times> bucket option) result" where
  "pass_limiter num now limiter =
     (case limiter of None \<Rightarrow> Inr (now, None)
      | Some b \<Rightarrow> bind_res (acquire 2 num now b) (\<lambda>r.
          case r of None \<Rightarrow> Inl RuntimeError | Some (t, b') \<Rightarrow> Inr (t, Some b')))"

definition pass_limiters :: "real \<Rightarrow> limiters \<Rightarrow> (real \<times> limiters) result" where
  "pass_limiters now c =
     bind_res (pass_limiter 1 now (rpm_limiter c)) (\<lambda>(t1, r).
     bind_res (pass_limiter (get_or 0 (estimated_tokens c)) t1 (tpm_limiter c)) (\<lambda>(t2, tp).
       Inr (t2, c\<lparr>rpm_limiter := r, tpm_limiter := tp\<rparr>)))"

subsection \<open>Scoring behind the limiters\<close>

datatype info =
    InfoNum real
  | InfoBool bool
  | InfoText string

datatype compute_outcome =
    ComputedDict "(string, info) dict"
  | ComputedValue real
  | TimedOut
  | Raised string

text \<open>
  What \<open>run_single\<close> makes of the computation: a dictionary's score is read before its entries are
  copied, so that a missing score is one of the caught failures. The message of that failure is the
  missing key.
\<close>

definition failed_reward :: "string \<Rightarrow> info \<Rightarrow> info \<times> (string, info) dict" where
  "failed_reward key v = (InfoNum 0, dict_set ''acc'' (InfoNum 0) [(key, v)])"

definition limited_reward :: "compute_outcome \<Rightarrow> info \<times> (string, info) dict" where
  "limited_reward r =
     (case r of
        ComputedDict d \<Rightarrow>
          (case dict_get d ''score'' of
             None \<Rightarrow> failed_reward ''error'' (InfoText (CHR 0x27 # ''score'' @ [CHR 0x27]))
           | Some s \<Rightarrow> (s, fold (\<lambda>(k, v) e. dict_set k v e) d []))
      | ComputedValue x \<Rightarrow> (InfoNum x, [(''acc'', InfoNum x)])
      | TimedOut \<Rightarrow> failed_reward ''timeout'' (InfoBool True)
      | Raised msg \<Rightarrow> failed_reward ''error'' (InfoText msg))"

lemma init_class_first_wins:
  "init_class cfg no_limiters = Inr (False, c) \<Longrightarrow> init_class cfg' c = Inr (ignored_limits cfg' c, c)"
  by (auto simp: init_class_def no_limiters_def Let_def guard_res_def split: if_splits)

text \<open>A limit of zero requests a minute lets no request wait: the first one raises.\<close>

lemma zero_limit_raises:
  assumes "init_class cfg no_limiters = Inr (False, c)" and "cfg_max_rpm cfg = Some 0"
  shows "pass_limiters now c = Inl ZeroDivisionError"
proof -
  have "rpm_limiter c = Some (new_bucket 0 (Some 0))"
    using assms by (auto simp: init_class_def no_limiters_def Let_def guard_res_def per_minute_bucket_def split: if_splits)
  then show ?thesis
    by (simp add: pass_limiters_def pass_limiter_def numeral_2_eq_2 attempt_def oversized_attempt_def new_bucket_def
        refill_def Let_def)
qed

lemma limited_reward_failure:
  "dict_get (snd (limited_reward TimedOut)) ''acc'' = Some (InfoNum 0)"
  "dict_get (snd (limited_reward (Raised m))) ''acc'' = Some (InfoNum 0)"
  "fst (limited_reward (Raised m)) = InfoNum 0"
  by (simp_all add: limited_reward_def failed_reward_def)

end
