(* ===== verification/Dispatch.thy ===== *)
theory Dispatch
  imports Protocol
begin

section \<open>Dispatching worker-group calls\<close>

text \<open>
  Models the dispatch and collect functions of \<open>src/verl/single_controller/base/decorator.py\<close>,
  the batch wrapper \<open>BatchData\<close> of \<open>src/verl/protocol.py\<close>, the ranks the workers register
  (\<open>base/worker.py\<close>, \<open>base/worker_group.py\<close>) and the method a worker group binds for a remote
  call (\<open>ray/base.py\<close>). A remote call is the value it returns; a reference to it is the
  constructor \<open>RefArg\<close>.
\<close>

subsection \<open>Values that are passed around\<close>

datatype ('a, 'b, 'm) data_arg =
    BatchArg "('a, 'b, 'm) data_proto"
  | FutureArg "('a, 'b, 'm) data_proto_future"
  | FunctionArg string
  | NumArg real
  | ListArg "('a, 'b, 'm) data_arg list"
  | RefArg "('a, 'b, 'm) data_arg"

type_synonym ('a, 'b, 'm) kwargs = "(string, ('a, 'b, 'm) data_arg) dict"

text \<open>What the libraries and the process environment provide.\<close>

record 'm data_env =
  env_chunk :: splitter
  env_split :: splitter
  env_padding :: bool
  env_eq :: "'m meta_value \<Rightarrow> 'm meta_value \<Rightarrow> bool"

fun is_chunkable :: "('a, 'b, 'm) data_arg \<Rightarrow> bool" where
  "is_chunkable (BatchArg d) = True"
| "is_chunkable (FutureArg f) = True"
| "is_chunkable _ = False"

fun is_concatable :: "('a, 'b, 'm) data_arg list \<Rightarrow> bool" where
  "is_concatable (BatchArg d # xs) = True"
| "is_concatable (RefArg r # xs) = True"
| "is_concatable _ = False"

definition batch_chunk ::
  "'m data_env \<Rightarrow> nat \<Rightarrow> ('a, 'b, 'm) data_arg \<Rightarrow> ('a, 'b, 'm) data_arg list result" where
  "batch_chunk env c a =
     (case a of
        BatchArg d \<Rightarrow>
          bind_res (chunk_dp (env_chunk env) (env_split env) (env_padding env) c d) (\<lambda>cs. Inr (map BatchArg cs))
      | FutureArg f \<Rightarrow> Inr (map FutureArg (future_chunk c f))
      | _ \<Rightarrow> Inl AttributeError)"

fun as_batch :: "('a, 'b, 'm) data_arg \<Rightarrow> ('a, 'b, 'm) data_proto result" where
  "as_batch (BatchArg d) = Inr d"
| "as_batch (RefArg (BatchArg d)) = Inr d"
| "as_batch _ = Inl AssertionError"

text \<open>
  Batches are concatenated at once; references become a future of the batches they resolve to. A
  reference to anything else fails here, where the code fails when the future is read.
\<close>

definition batch_concat :: "'m data_env \<Rightarrow> ('a, 'b, 'm) data_arg list \<Rightarrow> ('a, 'b, 'm) data_arg result" where
  "batch_concat env xs =
     (case xs of
        [] \<Rightarrow> Inl ValueError
      | RefArg r # _ \<Rightarrow> bind_res (traverse as_batch xs) (\<lambda>ds. Inr (FutureArg (future_concat ds)))
      | BatchArg d # _ \<Rightarrow> bind_res (traverse as_batch xs) (\<lambda>ds. bind_res (concat_dp (env_eq env) ds) (\<lambda>d. Inr (BatchArg d)))
      | _ \<Rightarrow> Inl AttributeError)"

fun same_kind :: "('a, 'b, 'm) data_arg \<Rightarrow> ('a, 'b, 'm) data_arg \<Rightarrow> bool" where
  "same_kind (BatchArg _) (BatchArg _) = True"
| "same_kind (FutureArg _) (FutureArg _) = True"
| "same_kind (FunctionArg _) (FunctionArg _) = True"
| "same_kind (NumArg _) (NumArg _) = True"
| "same_kind (ListArg _) (ListArg _) = True"
| "same_kind (RefArg _) (RefArg _) = True"
| "same_kind _ _ = False"

definition concat_data_proto_or_future ::
  "'m data_env \<Rightarrow> ('a, 'b, 'm) data_arg list \<Rightarrow> ('a, 'b, 'm) data_arg result" where
  "concat_data_proto_or_future env output =
     guard_res (list_all (\<lambda>o1. same_kind o1 (hd output)) output) AssertionError (batch_concat env output)"

subsection \<open>Splitting arguments\<close>

definition traverse_dict :: "('v \<Rightarrow> 'w result) \<Rightarrow> (string, 'v) dict \<Rightarrow> (string, 'w) dict result" where
  "traverse_dict f d = traverse (\<lambda>(k, v). bind_res (f v) (\<lambda>w. Inr (k, w))) d"

definition split_one ::
  "'m data_env \<Rightarrow> nat \<Rightarrow> ('a, 'b, 'm) data_arg \<Rightarrow> ('a, 'b, 'm) data_arg result" where
  "split_one env c a =
     guard_res (is_chunkable a) AssertionError
       (bind_res (batch_chunk env c a) (\<lambda>cs. guard_res (length cs = c) AssertionError (Inr (ListArg cs))))"

definition split_args_kwargs_data_proto ::
  "'m data_env \<Rightarrow> nat \<Rightarrow> ('a, 'b, 'm) data_arg list \<Rightarrow> ('a, 'b, 'm) kwargs \<Rightarrow>
   (('a, 'b, 'm) data_arg list \<times> ('a, 'b, 'm) kwargs) result" where
  "split_args_kwargs_data_proto env c args kwargs =
     bind_res (traverse (split_one env c) args) (\<lambda>sa.
       bind_res (traverse_dict (split_one env c) kwargs) (\<lambda>sk. Inr (sa, sk)))"

definition padding_size_key :: string where
  "padding_size_key = ''_padding_size_key_x123d''"

text \<open>
  The first batch with automatic padding fixes the length and the padding of all the others. The
  batch is padded in place: the first component of the result is the caller's object afterwards.
\<close>

type_synonym pad_state = "(nat \<times> nat) option"

definition padding_and_split_data ::
  "'m data_env \<Rightarrow> nat \<Rightarrow> ('a, 'b, 'm) data_arg \<Rightarrow> pad_state \<Rightarrow>
   (('a, 'b, 'm) data_arg \<times> ('a, 'b, 'm) data_arg \<times> pad_state) result" where
  "padding_and_split_data env c a st =
     (case a of
        BatchArg d \<Rightarrow>
          (if is_padding_enabled (env_padding env) d
           then bind_res
             (case st of
                None \<Rightarrow> guard_res (c \<noteq> 0) ZeroDivisionError
                          (let n = dp_len d in Inr (n, if n mod c > 0 then c - n mod c else 0))
              | Some (n, p) \<Rightarrow> guard_res (n = dp_len d) AssertionError (Inr (n, p)))
             (\<lambda>(n, p). bind_res (padding_dp (env_eq env) p [] d) (\<lambda>d'.
                bind_res (batch_chunk env c (BatchArg d')) (\<lambda>cs. Inr (BatchArg d', ListArg cs, Some (n, p)))))
           else bind_res (batch_chunk env c a) (\<lambda>cs. Inr (a, ListArg cs, st)))
      | FutureArg f \<Rightarrow> bind_res (batch_chunk env c a) (\<lambda>cs. Inr (a, ListArg cs, st))
      | _ \<Rightarrow> Inl AssertionError)"

fun pad_split_list ::
  "'m data_env \<Rightarrow> nat \<Rightarrow> ('k \<times> ('a, 'b, 'm) data_arg) list \<Rightarrow> pad_state \<Rightarrow>
   (('k \<times> ('a, 'b, 'm) data_arg) list \<times> ('k \<times> ('a, 'b, 'm) data_arg) list \<times> pad_state) result" where
  "pad_split_list env c [] st = Inr ([], [], st)"
| "pad_split_list env c ((k, a) # xs) st =
     bind_res (padding_and_split_data env c a st) (\<lambda>(a', cs, st').
       bind_res (pad_split_list env c xs st') (\<lambda>(as, css, st''). Inr ((k, a') # as, (k, cs) # css, st'')))"

record ('a, 'b, 'm) dispatched =
  sent_args :: "('a, 'b, 'm) data_arg list"
  sent_kwargs :: "('a, 'b, 'm) kwargs"
  callers_args :: "('a, 'b, 'm) data_arg list"
  callers_kwargs :: "('a, 'b, 'm) kwargs"

definition split_with_auto_padding ::
  "'m data_env \<Rightarrow> nat \<Rightarrow> ('a, 'b, 'm) data_arg list \<Rightarrow> ('a, 'b, 'm) kwargs \<Rightarrow> ('a, 'b, 'm) dispatched result" where
  "split_with_auto_padding env c args kwargs =
     bind_res (pad_split_list env c (map (Pair ()) args) None) (\<lambda>(as, cs, st).
     bind_res (pad_split_list env c kwargs st) (\<lambda>(ks, kcs, st').
       Inr \<lparr>sent_args = map snd cs,
            sent_kwargs = (case st' of None \<Rightarrow> kcs | Some (n, p) \<Rightarrow> dict_set padding_size_key (NumArg (real p)) kcs),
            callers_args = map snd as, callers_kwargs = ks\<rparr>))"

subsection \<open>Worker groups\<close>

text \<open>The ranks every worker registers for the meshes it belongs to.\<close>

record worker_info =
  dispatch_dp_rank :: "(string, nat) dict"
  collect_dp_rank :: "(string, bool) dict"

definition register_dispatch_collect_info :: "string \<Rightarrow> nat \<Rightarrow> bool \<Rightarrow> worker_info \<Rightarrow> worker_info result" where
  "register_dispatch_collect_info mesh rank collect w =
     guard_res (mesh \<notin> set (dict_keys (dispatch_dp_rank w)) \<and> mesh \<notin> set (dict_keys (collect_dp_rank w))) ValueError
       (Inr \<lparr>dispatch_dp_rank = dict_set mesh rank (dispatch_dp_rank w),
             collect_dp_rank = dict_set mesh collect (collect_dp_rank w)\<rparr>)"

text \<open>The values of a fused worker's ranks are all stored under one mesh name: the last one stays.\<close>

definition set_dispatch_collect ::
  "string \<Rightarrow> (string, nat) dict \<Rightarrow> (string, bool) dict \<Rightarrow> worker_info \<Rightarrow> worker_info result" where
  "set_dispatch_collect mesh ranks collects w =
     guard_res (mesh \<notin> set (dict_keys (dispatch_dp_rank w))) AssertionError (
     guard_res (mesh \<notin> set (dict_keys (collect_dp_rank w))) AssertionError (
       Inr \<lparr>dispatch_dp_rank = fold (\<lambda>(k, r) d. dict_set mesh r d) ranks (dispatch_dp_rank w),
            collect_dp_rank = fold (\<lambda>(k, c) d. dict_set mesh c d) collects (collect_dp_rank w)\<rparr>))"

definition query_dispatch_info :: "string \<Rightarrow> worker_info \<Rightarrow> nat result" where
  "query_dispatch_info mesh w =
     (case dict_get (dispatch_dp_rank w) mesh of None \<Rightarrow> Inl AssertionError | Some r \<Rightarrow> Inr r)"

definition query_collect_info :: "string \<Rightarrow> worker_info \<Rightarrow> bool result" where
  "query_collect_info mesh w =
     (case dict_get (collect_dp_rank w) mesh of None \<Rightarrow> Inl AssertionError | Some c \<Rightarrow> Inr c)"

record worker_group =
  workers :: "worker_info list"
  dispatch_info :: "(string, nat list) dict"
  collect_info :: "(string, bool list) dict"

abbreviation world_size :: "worker_group \<Rightarrow> nat" where
  "world_size wg \<equiv> length (workers wg)"

text \<open>The ranks are asked once, from all workers, and cached.\<close>

definition cached_dispatch_info :: "string \<Rightarrow> worker_group \<Rightarrow> (nat list \<times> worker_group) result" where
  "cached_dispatch_info mesh wg =
     (case dict_get (dispatch_info wg) mesh of
        Some ranks \<Rightarrow> Inr (ranks, wg)
      | None \<Rightarrow> bind_res (traverse (query_dispatch_info mesh) (workers wg)) (\<lambda>ranks.
          guard_res (length ranks = world_size wg) AssertionError
            (Inr (ranks, wg\<lparr>dispatch_info := dict_set mesh ranks (dispatch_info wg)\<rparr>))))"

definition cached_collect_info :: "string \<Rightarrow> worker_group \<Rightarrow> (bool list \<times> worker_group) result" where
  "cached_collect_info mesh wg =
     (case dict_get (collect_info wg) mesh of
        Some collect \<Rightarrow> Inr (collect, wg)
      | None \<Rightarrow> bind_res (traverse (query_collect_info mesh) (workers wg)) (\<lambda>collect.
          guard_res (length collect = world_size wg) AssertionError
            (Inr (collect, wg\<lparr>collect_info := dict_set mesh collect (collect_info wg)\<rparr>))))"

subsection \<open>Dispatch and collect functions\<close>

definition dispatch_one_to_all ::
  "worker_group \<Rightarrow> ('a, 'b, 'm) data_arg list \<Rightarrow> ('a, 'b, 'm) kwargs \<Rightarrow> ('a, 'b, 'm) dispatched result" where
  "dispatch_one_to_all wg args kwargs =
     Inr \<lparr>sent_args = map (\<lambda>a. ListArg (replicate (world_size wg) a)) args,
          sent_kwargs = map_columns (\<lambda>a. ListArg (replicate (world_size wg) a)) kwargs,
          callers_args = args, callers_kwargs = kwargs\<rparr>"

definition dispatch_all_to_all ::
  "('a, 'b, 'm) data_arg list \<Rightarrow> ('a, 'b, 'm) kwargs \<Rightarrow> ('a, 'b, 'm) dispatched result" where
  "dispatch_all_to_all args kwargs =
     Inr \<lparr>sent_args = args, sent_kwargs = kwargs, callers_args = args, callers_kwargs = kwargs\<rparr>"

definition is_list_of :: "nat \<Rightarrow> ('a, 'b, 'm) data_arg \<Rightarrow> bool" where
  "is_list_of n a = (case a of ListArg xs \<Rightarrow> length xs = n | _ \<Rightarrow> False)"

definition dispatch_dp_compute ::
  "worker_group \<Rightarrow> ('a, 'b, 'm) data_arg list \<Rightarrow> ('a, 'b, 'm) kwargs \<Rightarrow> ('a, 'b, 'm) dispatched result" where
  "dispatch_dp_compute wg args kwargs =
     guard_res (list_all (is_list_of (world_size wg)) args \<and> list_all (\<lambda>(k, v). is_list_of (world_size wg) v) kwargs)
       AssertionError (dispatch_all_to_all args kwargs)"

definition collect_dp_compute ::
  "worker_group \<Rightarrow> ('a, 'b, 'm) data_arg list \<Rightarrow> ('a, 'b, 'm) data_arg list result" where
  "collect_dp_compute wg output = guard_res (length output = world_size wg) AssertionError (Inr output)"

definition dispatch_dp_compute_data_proto_with_func ::
  "'m data_env \<Rightarrow> worker_group \<Rightarrow> ('a, 'b, 'm) data_arg list \<Rightarrow> ('a, 'b, 'm) kwargs \<Rightarrow>
   ('a, 'b, 'm) dispatched result" where
  "dispatch_dp_compute_data_proto_with_func env wg args kwargs =
     (case args of
        [] \<Rightarrow> Inl IndexError
      | FunctionArg f # rest \<Rightarrow>
          bind_res (split_args_kwargs_data_proto env (world_size wg) rest kwargs) (\<lambda>(sa, sk).
            Inr \<lparr>sent_args = ListArg (replicate (world_size wg) (FunctionArg f)) # sa, sent_kwargs = sk,
                 callers_args = args, callers_kwargs = kwargs\<rparr>)
      | _ \<Rightarrow> Inl AssertionError)"

definition collect_dp_compute_data_proto ::
  "'m data_env \<Rightarrow> worker_group \<Rightarrow> ('a, 'b, 'm) data_arg list \<Rightarrow> ('a, 'b, 'm) data_arg result" where
  "collect_dp_compute_data_proto env wg output =
     guard_res (is_concatable output) AssertionError
       (bind_res (collect_dp_compute wg output) (concat_data_proto_or_future env))"

text \<open>Every worker gets the chunk of its data-parallel rank; chunks are put into the object store.\<close>

definition nd_transform ::
  "nat list \<Rightarrow> nat \<Rightarrow> worker_group \<Rightarrow> ('a, 'b, 'm) data_arg \<Rightarrow> ('a, 'b, 'm) data_arg result" where
  "nd_transform ranks dp_size wg a =
     (case a of
        ListArg xs \<Rightarrow>
          guard_res (xs \<noteq> []) AssertionError (
          guard_res (length xs = dp_size) AssertionError (
            bind_res (traverse (\<lambda>i. guard_res (i < length ranks \<and> ranks ! i < length xs) IndexError
                                      (Inr (RefArg (xs ! (ranks ! i))))) [0..<world_size wg])
              (\<lambda>ys. Inr (ListArg ys))))
      | _ \<Rightarrow> Inl TypeError)"

definition dispatch_nd_compute ::
  "nat list \<Rightarrow> nat \<Rightarrow> worker_group \<Rightarrow> ('a, 'b, 'm) data_arg list \<Rightarrow> ('a, 'b, 'm) kwargs \<Rightarrow>
   (('a, 'b, 'm) data_arg list \<times> ('a, 'b, 'm) kwargs) result" where
  "dispatch_nd_compute ranks dp_size wg args kwargs =
     guard_res (args \<noteq> []) IndexError (
       bind_res (traverse (nd_transform ranks dp_size wg) args) (\<lambda>as.
         bind_res (traverse_dict (nd_transform ranks dp_size wg) kwargs) (\<lambda>ks. Inr (as, ks))))"

definition collect_nd_compute ::
  "bool list \<Rightarrow> worker_group \<Rightarrow> ('a, 'b, 'm) data_arg list \<Rightarrow> ('a, 'b, 'm) data_arg list result" where
  "collect_nd_compute collect wg output =
     guard_res (length output = world_size wg) AssertionError (
     guard_res (world_size wg \<le> length collect) IndexError
       (Inr (map (\<lambda>r. output ! r) (filter (\<lambda>r. collect ! r) [0..<world_size wg]))))"

definition dispatch_nd_compute_dataproto ::
  "'m data_env \<Rightarrow> nat list \<Rightarrow> nat \<Rightarrow> worker_group \<Rightarrow> ('a, 'b, 'm) data_arg list \<Rightarrow> ('a, 'b, 'm) kwargs \<Rightarrow>
   (('a, 'b, 'm) data_arg list \<times> ('a, 'b, 'm) kwargs) result" where
  "dispatch_nd_compute_dataproto env ranks dp_size wg args kwargs =
     bind_res (split_args_kwargs_data_proto env dp_size args kwargs) (\<lambda>(sa, sk).
       dispatch_nd_compute ranks dp_size wg sa sk)"

definition collect_nd_compute_dataproto ::
  "'m data_env \<Rightarrow> bool list \<Rightarrow> worker_group \<Rightarrow> ('a, 'b, 'm) data_arg list \<Rightarrow> ('a, 'b, 'm) data_arg result" where
  "collect_nd_compute_dataproto env collect wg output =
     bind_res (collect_nd_compute collect wg output) (\<lambda>out.
       guard_res (is_concatable out) AssertionError (concat_data_proto_or_future env out))"

definition dispatch_lazy_compute_data_proto ::
  "'m data_env \<Rightarrow> string \<Rightarrow> worker_group \<Rightarrow> ('a, 'b, 'm) data_arg list \<Rightarrow> ('a, 'b, 'm) kwargs \<Rightarrow>
   (('a, 'b, 'm) dispatched \<times> worker_group) result" where
  "dispatch_lazy_compute_data_proto env mesh wg args kwargs =
     bind_res (cached_dispatch_info mesh wg) (\<lambda>(ranks, wg').
     guard_res (ranks \<noteq> []) ValueError (
     bind_res (dispatch_nd_compute_dataproto env ranks (Max (set ranks) + 1) wg' args kwargs) (\<lambda>(sa, sk).
       Inr (\<lparr>sent_args = sa, sent_kwargs = sk, callers_args = args, callers_kwargs = kwargs\<rparr>, wg'))))"

definition collect_lazy_compute_data_proto ::
  "'m data_env \<Rightarrow> string \<Rightarrow> worker_group \<Rightarrow> ('a, 'b, 'm) data_arg list \<Rightarrow>
   (('a, 'b, 'm) data_arg \<times> worker_group) result" where
  "collect_lazy_compute_data_proto env mesh wg output =
     guard_res (mesh \<in> set (dict_keys (dispatch_info wg))) AssertionError (
     bind_res (cached_collect_info mesh wg) (\<lambda>(collect, wg').
     bind_res (collect_nd_compute_dataproto env collect wg' output) (\<lambda>out. Inr (out, wg'))))"

text \<open>
  The dispatch modes. \<open>RankZero\<close> is a registered name without functions; the last one stands
  for the pair of functions made for a mesh.
\<close>

datatype dispatch_mode =
    RankZero
  | OneToAll
  | AllToAll
  | DpCompute
  | DpComputeProto
  | DpComputeProtoWithFunc
  | DpComputeMetric
  | DirectRollout
  | NdCompute string

definition mode_dispatch ::
  "'m data_env \<Rightarrow> dispatch_mode \<Rightarrow> worker_group \<Rightarrow> ('a, 'b, 'm) data_arg list \<Rightarrow> ('a, 'b, 'm) kwargs \<Rightarrow>
   (('a, 'b, 'm) dispatched \<times> worker_group) result" where
  "mode_dispatch env mode wg args kwargs =
     (let keep = (\<lambda>r. bind_res r (\<lambda>d. Inr (d, wg)))
      in case mode of
           RankZero \<Rightarrow> Inl KeyError
         | OneToAll \<Rightarrow> keep (dispatch_one_to_all wg args kwargs)
         | AllToAll \<Rightarrow> keep (dispatch_all_to_all args kwargs)
         | DpCompute \<Rightarrow> keep (dispatch_dp_compute wg args kwargs)
         | DpComputeProto \<Rightarrow> keep (split_with_auto_padding env (world_size wg) args kwargs)
         | DpComputeProtoWithFunc \<Rightarrow> keep (dispatch_dp_compute_data_proto_with_func env wg args kwargs)
         | DpComputeMetric \<Rightarrow> keep (split_with_auto_padding env (world_size wg) args kwargs)
         | DirectRollout \<Rightarrow> Inl NotImplementedError
         | NdCompute mesh \<Rightarrow> dispatch_lazy_compute_data_proto env mesh wg args kwargs)"

definition mode_collect ::
  "'m data_env \<Rightarrow> dispatch_mode \<Rightarrow> worker_group \<Rightarrow> ('a, 'b, 'm) data_arg list \<Rightarrow>
   (('a, 'b, 'm) data_arg \<times> worker_group) result" where
  "mode_collect env mode wg output =
     (case mode of
        RankZero \<Rightarrow> Inl KeyError
      | DirectRollout \<Rightarrow> Inl NotImplementedError
      | NdCompute mesh \<Rightarrow> collect_lazy_compute_data_proto env mesh wg output
      | DpComputeProto \<Rightarrow> bind_res (collect_dp_compute_data_proto env wg output) (\<lambda>a. Inr (a, wg))
      | DpComputeProtoWithFunc \<Rightarrow> bind_res (collect_dp_compute_data_proto env wg output) (\<lambda>a. Inr (a, wg))
      | DpCompute \<Rightarrow> bind_res (collect_dp_compute wg output) (\<lambda>out. Inr (ListArg out, wg))
      | DpComputeMetric \<Rightarrow> bind_res (collect_dp_compute wg output) (\<lambda>out. Inr (ListArg out, wg))
      | _ \<Rightarrow> Inr (ListArg output, wg))"

subsection \<open>Remote execution\<close>

text \<open>A remote call resolves the references among its arguments; futures are read by the worker.\<close>

fun deref :: "('a, 'b, 'm) data_arg \<Rightarrow> ('a, 'b, 'm) data_arg" where
  "deref (RefArg a) = a"
| "deref a = a"

definition materialize :: "'m data_env \<Rightarrow> ('a, 'b, 'm) data_arg \<Rightarrow> ('a, 'b, 'm) data_arg result" where
  "materialize env a =
     (case a of
        FutureArg f \<Rightarrow>
          bind_res (future_get (env_chunk env) (env_split env) (env_padding env) (env_eq env) f) (\<lambda>d. Inr (BatchArg d))
      | _ \<Rightarrow> Inr a)"

definition materialize_futures ::
  "'m data_env \<Rightarrow> ('a, 'b, 'm) data_arg list \<Rightarrow> ('a, 'b, 'm) kwargs \<Rightarrow>
   (('a, 'b, 'm) data_arg list \<times> ('a, 'b, 'm) kwargs) result" where
  "materialize_futures env args kwargs =
     bind_res (traverse (materialize env) args) (\<lambda>as.
       bind_res (traverse_dict (materialize env) kwargs) (\<lambda>ks. Inr (as, ks)))"

type_synonym ('a, 'b, 'm) worker_method =
  "nat \<Rightarrow> ('a, 'b, 'm) data_arg list \<Rightarrow> ('a, 'b, 'm) kwargs \<Rightarrow> ('a, 'b, 'm) data_arg result"

definition remote_call ::
  "'m data_env \<Rightarrow> ('a, 'b, 'm) worker_method \<Rightarrow> nat \<Rightarrow> ('a, 'b, 'm) data_arg list \<Rightarrow> ('a, 'b, 'm) kwargs \<Rightarrow>
   ('a, 'b, 'm) data_arg result" where
  "remote_call env method i args kwargs =
     bind_res (materialize_futures env (map deref args) (map_columns deref kwargs)) (\<lambda>(as, ks). method i as ks)"

text \<open>When all arguments are lists with one element per worker, each worker gets its element.\<close>

fun list_elem :: "nat \<Rightarrow> ('a, 'b, 'm) data_arg \<Rightarrow> ('a, 'b, 'm) data_arg" where
  "list_elem i (ListArg xs) = xs ! i"
| "list_elem i a = a"

definition execute_all ::
  "'m data_env \<Rightarrow> nat \<Rightarrow> ('a, 'b, 'm) worker_method \<Rightarrow> ('a, 'b, 'm) data_arg list \<Rightarrow> ('a, 'b, 'm) kwargs \<Rightarrow>
   ('a, 'b, 'm) data_arg list result" where
  "execute_all env n method args kwargs =
     (if list_all (is_list_of n) args \<and> list_all (\<lambda>(k, v). is_list_of n v) kwargs
      then traverse (\<lambda>i. remote_call env method i (map (list_elem i) args) (map_columns (list_elem i) kwargs)) [0..<n]
      else traverse (\<lambda>i. remote_call env method i args kwargs) [0..<n])"

text \<open>
  The method a worker group binds: dispatch, execute on all workers, collect, and drop the rows
  that automatic padding appended. The last component is what the caller's arguments have become.
\<close>

definition drop_padding :: "nat \<Rightarrow> ('a, 'b, 'm) data_arg \<Rightarrow> ('a, 'b, 'm) data_arg result" where
  "drop_padding p output =
     (if p = 0 then Inr output
      else case output of
             BatchArg d \<Rightarrow>
               bind_res (select_idxs (Positions (py_slice None (Some (- int p)) (map int [0..<dp_len d]))) d)
                 (\<lambda>d'. Inr (BatchArg d'))
           | ListArg xs \<Rightarrow> Inr (ListArg (py_slice None (Some (- int p)) xs))
           | _ \<Rightarrow> Inr output)"

fun num_of :: "('a, 'b, 'm) data_arg option \<Rightarrow> nat" where
  "num_of (Some (NumArg x)) = nat \<lfloor>x\<rfloor>"
| "num_of _ = 0"

definition call_method ::
  "'m data_env \<Rightarrow> dispatch_mode \<Rightarrow> bool \<Rightarrow> ('a, 'b, 'm) worker_method \<Rightarrow>
   ('a, 'b, 'm) data_arg list \<Rightarrow> ('a, 'b, 'm) kwargs \<Rightarrow> worker_group \<Rightarrow>
   (('a, 'b, 'm) data_arg \<times> worker_group \<times> ('a, 'b, 'm) data_arg list) result" where
  "call_method env mode blocking method args kwargs wg =
     bind_res (mode_dispatch env mode wg args kwargs) (\<lambda>(d, wg1).
     let p = num_of (dict_get (sent_kwargs d) padding_size_key);
         ks = filter (\<lambda>(k, v). k \<noteq> padding_size_key) (sent_kwargs d)
     in bind_res (execute_all env (world_size wg) method (sent_args d) ks) (\<lambda>output.
        bind_res (mode_collect env mode wg1 (if blocking then output else map RefArg output)) (\<lambda>(out, wg2).
        bind_res (drop_padding p out) (\<lambda>out'. Inr (out', wg2, callers_args d)))))"

section \<open>Calls on all workers are calls on the whole batch\<close>

text \<open>
  What dispatch needs of batches: the pieces of a batch, each transformed row by row, concatenate
  to the transformed batch.
\<close>

locale row_batches =
  fixes chunk :: "nat \<Rightarrow> 'd \<Rightarrow> 'd list result" and cat :: "'d list \<Rightarrow> 'd result"
    and good :: "nat \<Rightarrow> 'd \<Rightarrow> bool" and row_fun :: "('d \<Rightarrow> 'd) \<Rightarrow> bool"
  assumes map_chunks:
    "good c d \<Longrightarrow> row_fun f \<Longrightarrow> \<exists>cs. chunk c d = Inr cs \<and> length cs = c \<and> cat (map f cs) = Inr (f d)"
begin

text \<open>Gathering from one rank of every piece, in the order of the pieces.\<close>

lemma gather:
  assumes "good c d" and "row_fun f" and "map (\<lambda>r. ranks ! r) picked = [0..<c]"
  obtains cs where "chunk c d = Inr cs" and "length cs = c"
    and "cat (map (\<lambda>r. f (cs ! (ranks ! r))) picked) = Inr (f d)"
proof -
  obtain cs where cs: "chunk c d = Inr cs" "length cs = c" "cat (map f cs) = Inr (f d)"
    using map_chunks [OF assms(1,2)] by blast
  have "map (\<lambda>r. f (cs ! (ranks ! r))) picked = map (\<lambda>k. f (cs ! k)) (map (\<lambda>r. ranks ! r) picked)"
    by simp
  also have "\<dots> = map f cs" unfolding assms(3) using cs(2) by (auto intro: nth_equalityI)
  finally show thesis using that [OF cs(1,2)] cs(3) by simp
qed

end

text \<open>Batches that can also be padded to a good length, and the padding dropped again.\<close>

locale padded_batches = row_batches +
  fixes pad :: "nat \<Rightarrow> 'd \<Rightarrow> 'd result" and dropped :: "nat \<Rightarrow> 'd \<Rightarrow> 'd result" and whole :: "'d \<Rightarrow> bool"
    and size_of :: "'d \<Rightarrow> nat"
  assumes pad_good: "whole d \<Longrightarrow> 0 < c \<Longrightarrow> c dvd size_of d + p \<Longrightarrow> \<exists>d'. pad p d = Inr d' \<and> good c d' \<and>
                       (\<forall>f. row_fun f \<longrightarrow> dropped p (f d') = Inr (f d))"
begin

lemma pad_run_drop:
  assumes "whole d" and "0 < c" and "c dvd size_of d + p" and "row_fun f"
  obtains d' cs where "pad p d = Inr d'" and "chunk c d' = Inr cs" and "length cs = c"
    and "cat (map f cs) = Inr (f d')" and "dropped p (f d') = Inr (f d)"
  using pad_good [OF assms(1-3)] map_chunks assms(4) by blast

end

text \<open>A worker method that treats every row on its own, and keeps batches well formed.\<close>

definition rowwise :: "('m meta_value \<Rightarrow> 'm meta_value \<Rightarrow> bool) \<Rightarrow> (('a, 'b, 'm) data_proto \<Rightarrow> ('a, 'b, 'm) data_proto) \<Rightarrow> bool"
  where
  "rowwise py_eq f \<longleftrightarrow>
     (\<forall>dp is. dp_ok dp \<longrightarrow> (\<forall>i\<in>set is. i < dp_len dp) \<longrightarrow> f (pick is dp) = pick is (f dp)) \<and>
     (\<forall>dp. dp_ok dp \<longrightarrow> dp_ok (f dp) \<and> dp_len (f dp) = dp_len dp) \<and>
     (\<forall>dp. meta_ok py_eq dp \<longrightarrow> meta_ok py_eq (f dp))"

definition chunkable_dp ::
  "splitter \<Rightarrow> splitter \<Rightarrow> ('m meta_value \<Rightarrow> 'm meta_value \<Rightarrow> bool) \<Rightarrow> nat \<Rightarrow> ('a, 'b, 'm) data_proto \<Rightarrow> bool" where
  "chunkable_dp tc asp py_eq c dp \<longleftrightarrow>
     torch_chunk_law tc \<and> torch_chunk_law asp \<and> dp_ok dp \<and> meta_ok py_eq dp \<and> 0 < c \<and> 0 < dp_len dp \<and> c dvd dp_len dp"

lemma rowwiseD:
  "rowwise py_eq f \<Longrightarrow> dp_ok dp \<Longrightarrow> \<forall>i\<in>set is. i < dp_len dp \<Longrightarrow> f (pick is dp) = pick is (f dp)"
  "rowwise py_eq f \<Longrightarrow> dp_ok dp \<Longrightarrow> dp_ok (f dp)"
  "rowwise py_eq f \<Longrightarrow> dp_ok dp \<Longrightarrow> dp_len (f dp) = dp_len dp"
  "rowwise py_eq f \<Longrightarrow> meta_ok py_eq dp \<Longrightarrow> meta_ok py_eq (f dp)"
  by (simp_all add: rowwise_def)

lemma meta_ok_pick [simp]: "meta_ok py_eq (pick is dp) = meta_ok py_eq dp"
  by (simp add: meta_ok_def pick_def)

lemma rowwise_chunks:
  assumes good: "chunkable_dp tc asp py_eq c dp" and f: "rowwise py_eq f"
  shows "\<exists>cs. chunk_dp tc asp g c dp = Inr cs \<and> length cs = c \<and> concat_dp py_eq (map f cs) = Inr (f dp)"
proof -
  note g = good [unfolded chunkable_dp_def]
  obtain m where m: "dp_len dp = c * m" using g by (auto simp: dvd_def)
  let ?iss = "map (\<lambda>i. [i * m..<i * m + m]) [0..<c]"
  have ch: "chunk_dp tc asp g c dp = Inr (map (\<lambda>is. pick is dp) ?iss)"
    using chunk_picks [of dp tc asp c m] g m by (simp add: comp_def)
  have inside: "i < dp_len dp" if "is \<in> set ?iss" "i \<in> set is" for "is" i
  proof -
    have "i \<in> set (concat ?iss)" using that by auto
    then show ?thesis by (simp add: concat_segments m)
  qed
  have "map f (map (\<lambda>is. pick is dp) ?iss) = map (\<lambda>is. pick is (f dp)) ?iss"
  proof -
    have "f (pick is dp) = pick is (f dp)" if "is \<in> set ?iss" for "is"
      by (rule rowwiseD(1) [OF f]) (use g inside [OF that] in auto)
    then show ?thesis by simp
  qed
  then have "concat_dp py_eq (map f (map (\<lambda>is. pick is dp) ?iss)) = concat_dp py_eq (map (\<lambda>is. pick is (f dp)) ?iss)"
    by (rule arg_cong)
  also have "\<dots> = Inr (f dp)"
    by (rule concat_picks_to_all) (use rowwiseD [OF f] g m in \<open>auto simp: concat_segments\<close>)
  finally show ?thesis using ch by (intro exI [of _ "map (\<lambda>is. pick is dp) ?iss"] conjI) simp_all
qed

lemma index_rows_pick:
  assumes "\<forall>i\<in>set is. i < length v"
  shows "index_rows (Positions (map int is)) v = Inr (pick_rows is v)"
proof -
  have "traverse (norm_index (length v)) (map int is) = Inr (map (\<lambda>i. nat (if i < 0 then i + int (length v) else i)) (map int is))"
    by (rule traverse_Inr_map) (use assms in \<open>auto simp: norm_index_def\<close>)
  then show ?thesis by (simp add: index_rows_def pick_rows_def comp_def)
qed

lemma index_columns_pick:
  assumes "\<forall>(k, v)\<in>set cols. length v = n" and "\<forall>i\<in>set is. i < n"
  shows "index_columns (Positions (map int is)) cols = Inr (map_columns (pick_rows is) cols)"
  unfolding index_columns_def map_columns_def
proof (rule traverse_Inr_map)
  fix x
  assume "x \<in> set cols"
  then have "index_rows (Positions (map int is)) (snd x) = Inr (pick_rows is (snd x))"
    using assms by (intro index_rows_pick) auto
  then show "(case x of (k, v) \<Rightarrow> bind_res (index_rows (Positions (map int is)) v) (\<lambda>v'. Inr (k, v'))) =
             Inr (case x of (k, v) \<Rightarrow> (k, pick_rows is v))"
    by (cases x) simp
qed

lemma select_positions_pick:
  assumes ok: "dp_ok dp" and "is": "\<forall>i\<in>set is. i < dp_len dp"
  shows "select_idxs (Positions (map int is)) dp = Inr (pick is dp)"
proof -
  have nt: "index_columns (Positions (map int is)) (dp_non_tensor dp) = Inr (map_columns (pick_rows is) (dp_non_tensor dp))"
    using ok "is" by (intro index_columns_pick) (simp_all add: dp_ok_def)
  show ?thesis
  proof (cases "dp_batch dp")
    case None
    then show ?thesis using pick_consistent [of "is" dp] by (simp add: select_idxs_def nt pick_def)
  next
    case (Some b)
    obtain n cs where b: "b = (n, cs)" by force
    have "index_columns (Positions (map int is)) cs = Inr (map_columns (pick_rows is) cs)"
      using ok "is" Some b by (intro index_columns_pick) (simp_all add: dp_ok_def dp_len_def)
    moreover have "tensor_dict (length is) (map_columns (pick_rows is) cs) = Inr (length is, map_columns (pick_rows is) cs)"
      using pick_columns_length [of "is" cs] by (simp add: tensor_dict_def list_all_iff)
    ultimately show ?thesis using pick_consistent [of "is" dp] Some b
      by (simp add: select_idxs_def nt pick_def index_count_def)
  qed
qed

lemma padding_pick:
  assumes "dp_ok dp" and "meta_ok py_eq dp" and "0 < dp_len dp"
  shows "padding_dp py_eq p [] dp = Inr (pick ([0..<dp_len dp] @ replicate p (dp_len dp - 1)) dp)"
proof (cases "p = 0")
  case True
  then show ?thesis using pick_all [OF assms(1)] by (simp add: padding_dp_def)
next
  case False
  let ?n = "dp_len dp" and ?l = "dp_len dp - 1"
  have last: "select_idxs (Positions [int ?n - 1]) dp = Inr (pick [?l] dp)"
    using select_positions_pick [OF assms(1), of "[?l]"] assms(3) by (simp add: of_nat_diff)
  have len: "dp_len (pick [?l] dp) = 1" using dp_len_pick [OF dp_len_nonempty [OF assms(3)], of "[?l]"] by simp
  have "repeat_dp p True (pick [?l] dp) = Inr (pick (repeat_rows p True [0..<1]) (pick [?l] dp))"
    using repeat_dp_pick [OF dp_ok_pick [OF assms(1)], of p True "[?l]"] len by simp
  also have "pick (repeat_rows p True [0..<1]) (pick [?l] dp) = pick (replicate p ?l) dp"
    by (subst pick_pick) (auto simp: repeat_rows_def repeat_interleave_def pick_rows_def)
  finally have rep: "repeat_dp p True (pick [?l] dp) = Inr (pick (replicate p ?l) dp)" .
  have "concat_dp py_eq [dp, pick (replicate p ?l) dp] = Inr (pick ([0..<?n] @ replicate p ?l) dp)"
    using concat_picks [OF assms(1,2), of "[[0..<?n], replicate p ?l]"] pick_all [OF assms(1)] by simp
  then show ?thesis using False last rep by (simp add: padding_dp_def pick_def)
qed

definition drop_rows :: "nat \<Rightarrow> ('a, 'b, 'm) data_proto \<Rightarrow> ('a, 'b, 'm) data_proto result" where
  "drop_rows p d =
     (if p = 0 then Inr d
      else select_idxs (Positions (py_slice None (Some (- int p)) (map int [0..<dp_len d]))) d)"

lemma drop_rows_pick:
  assumes "dp_ok dp" and "0 < dp_len dp" and "\<forall>i\<in>set tail. i < dp_len dp"
  shows "drop_rows (length tail) (pick ([0..<dp_len dp] @ tail) dp) = Inr dp"
proof (cases "tail = []")
  case True
  then show ?thesis using pick_all [OF assms(1)] by (simp add: drop_rows_def)
next
  case False
  let ?n = "dp_len dp" and ?q = "pick ([0..<dp_len dp] @ tail) dp"
  have len: "dp_len ?q = ?n + length tail" using dp_len_pick [OF dp_len_nonempty [OF assms(2)]] by simp
  have "py_slice None (Some (- int (length tail))) (map int [0..<dp_len ?q]) = map int [0..<?n]"
    using False len py_slice_drop_end [of "int (length tail)" "map int [0..<dp_len ?q]"] by (simp add: take_map take_upt)
  moreover have "select_idxs (Positions (map int [0..<?n])) ?q = Inr (pick [0..<?n] ?q)"
    by (rule select_positions_pick) (use dp_ok_pick [OF assms(1)] len in auto)
  moreover have "pick [0..<?n] ?q = pick (pick_rows [0..<?n] ([0..<?n] @ tail)) dp" by (rule pick_pick) simp
  ultimately show ?thesis using False pick_all [OF assms(1)] by (simp add: drop_rows_def pick_rows_take)
qed

definition whole_dp ::
  "splitter \<Rightarrow> splitter \<Rightarrow> ('m meta_value \<Rightarrow> 'm meta_value \<Rightarrow> bool) \<Rightarrow> ('a, 'b, 'm) data_proto \<Rightarrow> bool" where
  "whole_dp tc asp py_eq dp \<longleftrightarrow>
     torch_chunk_law tc \<and> torch_chunk_law asp \<and> dp_ok dp \<and> meta_ok py_eq dp \<and> 0 < dp_len dp"

interpretation dp_rows: padded_batches "chunk_dp tc asp g" "concat_dp py_eq" "chunkable_dp tc asp py_eq"
  "rowwise py_eq" "\<lambda>p. padding_dp py_eq p []" drop_rows "whole_dp tc asp py_eq" dp_len for tc asp g py_eq
proof unfold_locales
  fix c p and d :: "('a, 'b, 'c) data_proto"
  assume d: "whole_dp tc asp py_eq d" and c: "0 < c" "c dvd dp_len d + p"
  note w = d [unfolded whole_dp_def]
  let ?tail = "replicate p (dp_len d - 1)" let ?d = "pick ([0..<dp_len d] @ ?tail) d"
  have len: "dp_len ?d = dp_len d + p" using dp_len_pick [of d] dp_len_nonempty [of d] w by simp
  have "drop_rows p (f ?d) = Inr (f d)" if f: "rowwise py_eq f" for f
  proof -
    have "f ?d = pick ([0..<dp_len d] @ ?tail) (f d)" using w by (intro rowwiseD(1) [OF f]) auto
    then show ?thesis using drop_rows_pick [of "f d" ?tail] rowwiseD [OF f] w by simp
  qed
  then show "\<exists>d'. padding_dp py_eq p [] d = Inr d' \<and> chunkable_dp tc asp py_eq c d' \<and>
                 (\<forall>f. rowwise py_eq f \<longrightarrow> drop_rows p (f d') = Inr (f d))"
    using padding_pick [of d py_eq p] w c len by (intro exI [of _ ?d]) (simp add: chunkable_dp_def dp_ok_pick)
qed (rule rowwise_chunks)

section \<open>Properties\<close>

text \<open>An argument stands for a batch: the batch itself, or a future of its parts.\<close>

definition stands_for :: "'m data_env \<Rightarrow> ('a, 'b, 'm) data_arg \<Rightarrow> ('a, 'b, 'm) data_proto \<Rightarrow> bool" where
  "stands_for env a dp \<longleftrightarrow>
     a = BatchArg dp \<or> (\<exists>dps. a = FutureArg (future_concat dps) \<and> concat_dp (env_eq env) dps = Inr dp)"

text \<open>The worker method that computes \<open>f\<close> of its only argument.\<close>

definition batch_method :: "(('a, 'b, 'm) data_proto \<Rightarrow> ('a, 'b, 'm) data_proto) \<Rightarrow> ('a, 'b, 'm) worker_method" where
  "batch_method f i args kwargs = (case args of [BatchArg d] \<Rightarrow> Inr (BatchArg (f d)) | _ \<Rightarrow> Inl TypeError)"

abbreviation env_chunk_dp :: "'m data_env \<Rightarrow> nat \<Rightarrow> ('a, 'b, 'm) data_proto \<Rightarrow> ('a, 'b, 'm) data_proto list result" where
  "env_chunk_dp env \<equiv> chunk_dp (env_chunk env) (env_split env) (env_padding env)"

lemma stands_for_materialize: "stands_for env a dp \<Longrightarrow> materialize env a = Inr (BatchArg dp)"
  by (auto simp: stands_for_def materialize_def future_get_def future_concat_def)

lemma stands_for_chunks:
  assumes "stands_for env a dp" and "env_chunk_dp env c dp = Inr cs" and "length cs = c"
  obtains xs where "split_one env c a = Inr (ListArg xs)" and "length xs = c"
    and "\<And>k. k < c \<Longrightarrow> materialize env (xs ! k) = Inr (BatchArg (cs ! k)) \<and> deref (xs ! k) = xs ! k"
proof (cases "a = BatchArg dp")
  case True
  then have "split_one env c a = Inr (ListArg (map BatchArg cs))"
    using assms(2,3) by (simp add: split_one_def batch_chunk_def)
  then show thesis by (rule that) (use assms(3) in \<open>simp_all add: materialize_def\<close>)
next
  case False
  then obtain dps where a: "a = FutureArg (future_concat dps)" "concat_dp (env_eq env) dps = Inr dp"
    using assms(1) by (auto simp: stands_for_def)
  then have "split_one env c a = Inr (ListArg (map FutureArg (future_chunk c (future_concat dps))))"
    by (simp add: split_one_def batch_chunk_def future_chunk_def)
  then show thesis
    by (rule that) (use assms(2,3) a(2) in \<open>auto simp: future_chunk_def future_concat_def future_get_def materialize_def\<close>)
qed

lemma execute_all_lists:
  assumes "length xs = n" and "\<And>i. i < n \<Longrightarrow> materialize env (deref (xs ! i)) = Inr (BatchArg (ds i))"
  shows "execute_all env n (batch_method f) [ListArg xs] [] = Inr (map (\<lambda>i. BatchArg (f (ds i))) [0..<n])"
proof -
  have "traverse (\<lambda>i. remote_call env (batch_method f) i [xs ! i] []) [0..<n] = Inr (map (\<lambda>i. BatchArg (f (ds i))) [0..<n])"
    by (rule traverse_Inr_map)
      (use assms(2) in \<open>simp add: remote_call_def materialize_futures_def traverse_dict_def batch_method_def\<close>)
  then show ?thesis by (simp add: execute_all_def is_list_of_def assms(1) map_columns_def)
qed

lemma traverse_as_batch:
  "traverse as_batch (map (\<lambda>i. BatchArg (g i)) is) = Inr (map g is)"
  "traverse as_batch (map (\<lambda>i. RefArg (BatchArg (g i))) is) = Inr (map g is)"
  by (induction "is") auto

text \<open>Collected batches are one batch; collected references are a future of it.\<close>

lemma concat_collected:
  assumes "concat_dp (env_eq env) (map g is) = Inr dp" and "is \<noteq> []"
  shows "\<exists>out. concat_data_proto_or_future env (map (\<lambda>i. if blocking then BatchArg (g i) else RefArg (BatchArg (g i))) is) = Inr out \<and>
           is_concatable (map (\<lambda>i. if blocking then BatchArg (g i) else RefArg (BatchArg (g i))) is) \<and>
           stands_for env out dp \<and> (blocking \<longrightarrow> out = BatchArg dp)"
proof (cases "is")
  case (Cons i js)
  show ?thesis
  proof (cases blocking)
    case True
    have "list_all (\<lambda>x. same_kind x (BatchArg (g i))) (map (\<lambda>i. BatchArg (g i)) is)" by (simp add: list_all_iff)
    then show ?thesis using True Cons assms(1) traverse_as_batch(1) [of g "is"]
      by (simp add: concat_data_proto_or_future_def batch_concat_def stands_for_def)
  next
    case False
    have "list_all (\<lambda>x. same_kind x (RefArg (BatchArg (g i)))) (map (\<lambda>i. RefArg (BatchArg (g i))) is)"
      by (simp add: list_all_iff)
    then have "concat_data_proto_or_future env (map (\<lambda>i. RefArg (BatchArg (g i))) is) = Inr (FutureArg (future_concat (map g is)))"
      using Cons traverse_as_batch(2) [of g "is"] by (simp add: concat_data_proto_or_future_def batch_concat_def)
    moreover have "is_concatable (map (\<lambda>i. RefArg (BatchArg (g i))) is)" using Cons by simp
    moreover have "stands_for env (FutureArg (future_concat (map g is))) dp" using assms(1) by (auto simp: stands_for_def)
    ultimately show ?thesis using False by simp
  qed
qed (use assms(2) in simp)

text \<open>What a device mesh promises: its ranks, and one collecting worker of every rank in order.\<close>

definition mesh_ok :: "string \<Rightarrow> nat \<Rightarrow> worker_group \<Rightarrow> bool" where
  "mesh_ok mesh c wg \<longleftrightarrow>
     (\<exists>ranks collect.
        traverse (query_dispatch_info mesh) (workers wg) = Inr ranks \<and>
        traverse (query_collect_info mesh) (workers wg) = Inr collect \<and>
        dict_get (dispatch_info wg) mesh \<in> {None, Some ranks} \<and>
        dict_get (collect_info wg) mesh \<in> {None, Some collect} \<and>
        ranks \<noteq> [] \<and> Max (set ranks) + 1 = c \<and>
        map (\<lambda>r. ranks ! r) (filter (\<lambda>r. collect ! r) [0..<world_size wg]) = [0..<c])"

lemma cached_infos:
  assumes "traverse (query_dispatch_info mesh) (workers wg) = Inr ranks"
    and "dict_get (dispatch_info wg) mesh \<in> {None, Some ranks}"
  obtains wg' where "cached_dispatch_info mesh wg = Inr (ranks, wg')" and "workers wg' = workers wg"
    and "collect_info wg' = collect_info wg" and "dict_get (dispatch_info wg') mesh = Some ranks"
    and "mesh \<in> set (dict_keys (dispatch_info wg'))" and "length ranks = world_size wg"
proof (cases "dict_get (dispatch_info wg) mesh")
  case None
  then show thesis
    using assms(1) traverse_length [OF assms(1)]
    by (intro that [of "wg\<lparr>dispatch_info := dict_set mesh ranks (dispatch_info wg)\<rparr>"])
      (simp_all add: cached_dispatch_info_def dict_keys_def)
next
  case (Some r)
  then show thesis
    using assms traverse_length [OF assms(1)] map_of_Some_key [OF Some]
    by (intro that [of wg]) (simp_all add: cached_dispatch_info_def dict_keys_def)
qed

lemma cached_collects:
  assumes "traverse (query_collect_info mesh) (workers wg) = Inr collect"
    and "dict_get (collect_info wg) mesh \<in> {None, Some collect}"
  obtains wg' where "cached_collect_info mesh wg = Inr (collect, wg')" and "workers wg' = workers wg"
    and "dispatch_info wg' = dispatch_info wg" and "dict_get (collect_info wg') mesh = Some collect"
    and "length collect = world_size wg"
proof (cases "dict_get (collect_info wg) mesh")
  case None
  then show thesis
    using assms(1) traverse_length [OF assms(1)]
    by (intro that [of "wg\<lparr>collect_info := dict_set mesh collect (collect_info wg)\<rparr>"])
      (simp_all add: cached_collect_info_def)
next
  case (Some r)
  then show thesis
    using assms traverse_length [OF assms(1)] by (intro that [of wg]) (simp_all add: cached_collect_info_def)
qed

text \<open>
  C11: A call dispatched over a device mesh is the call on the whole batch: the batch, or a future
  of it, is cut into one chunk per data-parallel rank, every worker computes on the chunk of its
  rank, and what is collected from one worker of every rank is the method's result on the whole
  batch. Without blocking the result is a future of it, which a next call accepts as its argument;
  the caller's argument is unchanged and the mesh can be used again with the cached ranks.
\<close>

theorem mesh_call_is_whole_call:
  assumes a: "stands_for env a dp"
    and good: "chunkable_dp (env_chunk env) (env_split env) (env_eq env) c dp"
    and f: "rowwise (env_eq env) f" and mesh: "mesh_ok mesh c wg"
  shows "\<exists>out wg'. call_method env (NdCompute mesh) blocking (batch_method f) [a] [] wg = Inr (out, wg', [a]) \<and>
           stands_for env out (f dp) \<and> (blocking \<longrightarrow> out = BatchArg (f dp)) \<and> mesh_ok mesh c wg'"
proof -
  obtain ranks collect where r: "traverse (query_dispatch_info mesh) (workers wg) = Inr ranks"
    "dict_get (dispatch_info wg) mesh \<in> {None, Some ranks}" "ranks \<noteq> []" "Max (set ranks) + 1 = c"
    and k: "traverse (query_collect_info mesh) (workers wg) = Inr collect"
    "dict_get (collect_info wg) mesh \<in> {None, Some collect}"
    and picked: "map (\<lambda>r. ranks ! r) (filter (\<lambda>r. collect ! r) [0..<world_size wg]) = [0..<c]"
    using mesh by (auto simp: mesh_ok_def)
  let ?picked = "filter (\<lambda>r. collect ! r) [0..<world_size wg]"
  obtain wg1 where wg1: "cached_dispatch_info mesh wg = Inr (ranks, wg1)" "workers wg1 = workers wg"
    "collect_info wg1 = collect_info wg" "dict_get (dispatch_info wg1) mesh = Some ranks"
    "mesh \<in> set (dict_keys (dispatch_info wg1))" "length ranks = world_size wg"
    using cached_infos [OF r(1,2)] by metis
  obtain wg2 where wg2: "cached_collect_info mesh wg1 = Inr (collect, wg2)" "workers wg2 = workers wg1"
    "dispatch_info wg2 = dispatch_info wg1" "dict_get (collect_info wg2) mesh = Some collect"
    "length collect = world_size wg"
    using cached_collects [of mesh wg1 collect] k wg1(2,3) by metis
  obtain cs where cs: "env_chunk_dp env c dp = Inr cs" "length cs = c"
    "concat_dp (env_eq env) (map (\<lambda>r. f (cs ! (ranks ! r))) ?picked) = Inr (f dp)"
    using dp_rows.gather [OF good f picked] by metis
  obtain xs where xs: "split_one env c a = Inr (ListArg xs)" "length xs = c"
    "\<And>j. j < c \<Longrightarrow> materialize env (xs ! j) = Inr (BatchArg (cs ! j))"
    using stands_for_chunks [OF a cs(1,2)] by metis
  have rank_lt: "ranks ! i < c" if "i < world_size wg" for i
  proof -
    have "ranks ! i \<le> Max (set ranks)" using that wg1(6) by (intro Max_ge) simp_all
    then show ?thesis using r(4) by simp
  qed
  have c0: "0 < c" using good by (simp add: chunkable_dp_def)
  let ?sent = "map (\<lambda>i. RefArg (xs ! (ranks ! i))) [0..<world_size wg]"
  have sent: "materialize env (deref (?sent ! i)) = Inr (BatchArg (cs ! (ranks ! i)))" if "i < world_size wg" for i
    using xs(3) [OF rank_lt [OF that]] that by simp
  have "nd_transform ranks c wg1 (ListArg xs) = Inr (ListArg ?sent)"
  proof -
    have "traverse (\<lambda>i. guard_res (i < length ranks \<and> ranks ! i < length xs) IndexError (Inr (RefArg (xs ! (ranks ! i)))))
            [0..<world_size wg] = Inr ?sent"
      by (rule traverse_Inr_map) (use rank_lt wg1(6) xs(2) in simp)
    moreover have "xs \<noteq> []" using xs(2) c0 by auto
    ultimately show ?thesis using xs(2) wg1(2) by (simp add: nd_transform_def)
  qed
  then have dispatch: "mode_dispatch env (NdCompute mesh) wg [a] [] =
      Inr (\<lparr>sent_args = [ListArg ?sent], sent_kwargs = [], callers_args = [a], callers_kwargs = []\<rparr>, wg1)"
    using wg1(1) r(3,4) xs(1)
    by (simp add: mode_dispatch_def dispatch_lazy_compute_data_proto_def dispatch_nd_compute_dataproto_def
        split_args_kwargs_data_proto_def dispatch_nd_compute_def traverse_dict_def)
  have exec: "execute_all env (world_size wg) (batch_method f) [ListArg ?sent] [] =
      Inr (map (\<lambda>i. BatchArg (f (cs ! (ranks ! i)))) [0..<world_size wg])"
    by (rule execute_all_lists) (use sent in simp_all)
  let ?one = "\<lambda>i. if blocking then BatchArg (f (cs ! (ranks ! i))) else RefArg (BatchArg (f (cs ! (ranks ! i))))"
  have "?picked \<noteq> []"
  proof
    assume "?picked = []"
    then have "[0..<c] = []" using picked by simp
    then show False using c0 by simp
  qed
  then obtain out where out: "concat_data_proto_or_future env (map ?one ?picked) = Inr out"
    "is_concatable (map ?one ?picked)" "stands_for env out (f dp)" "blocking \<longrightarrow> out = BatchArg (f dp)"
    using concat_collected [OF cs(3)] by metis
  let ?all = "map ?one [0..<world_size wg]"
  have "collect_nd_compute collect wg2 ?all = Inr (map (\<lambda>r. ?all ! r) ?picked)"
    using wg1(2) wg2(2,5) by (simp add: collect_nd_compute_def)
  also have "map (\<lambda>r. ?all ! r) ?picked = map ?one ?picked" by simp
  finally have "mode_collect env (NdCompute mesh) wg1 ?all = Inr (out, wg2)"
    using wg2(1) wg1(5) out(1,2)
    by (simp add: mode_collect_def collect_lazy_compute_data_proto_def collect_nd_compute_dataproto_def)
  moreover have "(if blocking then map (\<lambda>i. BatchArg (f (cs ! (ranks ! i)))) [0..<world_size wg]
        else map RefArg (map (\<lambda>i. BatchArg (f (cs ! (ranks ! i)))) [0..<world_size wg])) = ?all"
    by (simp add: comp_def)
  ultimately have "call_method env (NdCompute mesh) blocking (batch_method f) [a] [] wg = Inr (out, wg2, [a])"
    using dispatch exec by (simp add: call_method_def Let_def drop_padding_def)
  moreover have "mesh_ok mesh c wg2"
    unfolding mesh_ok_def using r k picked wg1 wg2 by (intro exI [of _ ranks] exI [of _ collect]) simp
  ultimately show ?thesis using out by blast
qed

text \<open>A group of four workers: two data-parallel ranks with two workers each.\<close>

definition sample_worker :: "nat \<Rightarrow> bool \<Rightarrow> worker_info" where
  "sample_worker rank collect = \<lparr>dispatch_dp_rank = [(''actor'', rank)], collect_dp_rank = [(''actor'', collect)]\<rparr>"

definition sample_group :: worker_group where
  "sample_group =
     \<lparr>workers = [sample_worker 0 True, sample_worker 0 False, sample_worker 1 True, sample_worker 1 False],
      dispatch_info = [], collect_info = []\<rparr>"

definition sample_env :: "nat data_env" where
  "sample_env = \<lparr>env_chunk = even_split, env_split = even_split, env_padding = True, env_eq = (=)\<rparr>"

text \<open>Adds one to every number of every tensor.\<close>

definition bump :: "(int, nat np_obj, nat) data_proto \<Rightarrow> (int, nat np_obj, nat) data_proto" where
  "bump dp = dp\<lparr>dp_batch := map_option (\<lambda>(n, cols). (n, map_columns (map (\<lambda>x. x + 1)) cols)) (dp_batch dp)\<rparr>"

lemma bump_rowwise: "rowwise (=) bump"
proof -
  have "bump (pick is dp) = pick is (bump dp)" if ok: "dp_ok dp" and "is": "\<forall>i\<in>set is. i < dp_len dp" for "is" dp
  proof (cases "dp_batch dp")
    case (Some b)
    obtain n cols where b: "b = (n, cols)" by force
    have "map (\<lambda>x. x + 1) (pick_rows is v) = pick_rows is (map (\<lambda>x. x + 1) v)" if "(k, v) \<in> set cols" for k v
    proof -
      have "length v = n" using ok Some b that by (auto simp: dp_ok_def)
      then show ?thesis using "is" Some b by (auto simp: pick_rows_def dp_len_def)
    qed
    then have "map_columns (map (\<lambda>x. x + 1)) (map_columns (pick_rows is) cols) =
        map_columns (pick_rows is) (map_columns (map (\<lambda>x. x + 1)) cols)"
      unfolding map_columns_comp by (rule map_columns_cong)
    then show ?thesis by (simp add: bump_def pick_def Some b)
  qed (simp add: bump_def pick_def)
  moreover have "dp_ok (bump dp) \<and> dp_len (bump dp) = dp_len dp" if "dp_ok dp" for dp
    using that by (fastforce simp: bump_def dp_ok_def dp_len_def set_map_columns split: option.splits dest: bspec)
  moreover have "meta_ok (=) (bump dp)" if "meta_ok (=) dp" for dp
    using that by (simp add: bump_def meta_ok_def)
  ultimately show ?thesis by (simp add: rowwise_def)
qed

definition sample_even_dp :: "(int, nat np_obj, nat) data_proto" where
  "sample_even_dp = \<lparr>dp_batch = Some (4, [(''ids'', [5, 6, 7, 8])]), dp_non_tensor = [], dp_meta = [(''temperature'', PyObj 1)]\<rparr>"

lemma mesh_call_is_whole_call_witness:
  "\<exists>wg'. call_method sample_env (NdCompute ''actor'') True (batch_method bump) [BatchArg sample_even_dp] [] sample_group =
     Inr (BatchArg (bump sample_even_dp), wg', [BatchArg sample_even_dp])"
proof -
  have 1: "stands_for sample_env (BatchArg sample_even_dp) sample_even_dp" by (simp add: stands_for_def)
  have 2: "chunkable_dp (env_chunk sample_env) (env_split sample_env) (env_eq sample_env) 2 sample_even_dp"
    using even_split_law
    by (simp add: chunkable_dp_def sample_env_def sample_even_dp_def dp_ok_def meta_ok_def dict_ok_def dp_len_def metrics_key_def)
  have 3: "rowwise (env_eq sample_env) bump" using bump_rowwise by (simp add: sample_env_def)
  have 4: "mesh_ok ''actor'' 2 sample_group"
    by (simp add: mesh_ok_def sample_group_def sample_worker_def query_dispatch_info_def query_collect_info_def upt_rec)
  from mesh_call_is_whole_call [OF 1 2 3 4, of True] show ?thesis by auto
qed

lemma round_up_to_multiple:
  fixes n c :: nat
  assumes "0 < c"
  shows "n + (if 0 < n mod c then c - n mod c else 0) = (n + c - 1) div c * c"
proof (cases "n mod c = 0")
  case True
  then obtain q where "n = q * c" by (metis mod_0_imp_dvd dvd_def mult.commute)
  moreover have "(c - 1) div c = 0" using assms by simp
  moreover have "(q * c + (c - 1)) div c = q + (c - 1) div c" by (rule div_mult_self3) (use assms in simp)
  moreover have "q * c + c - 1 = q * c + (c - 1)" using assms by simp
  ultimately show ?thesis using assms by (metis add_0_right mod_mult_self2_is_0 less_irrefl)
next
  case False
  define q r where "q = n div c" and "r = n mod c"
  have n: "n = q * c + r" "0 < r" "r < c" using assms False by (simp_all add: q_def r_def)
  have "n + c - 1 = (q + 1) * c + (r - 1)" using n by simp
  moreover have "((q + 1) * c + (r - 1)) div c = q + 1" using n by (subst div_mult_self3) simp_all
  moreover have "n + (c - r) = (q + 1) * c" using n by simp
  ultimately show ?thesis using False by (simp add: r_def)
qed

text \<open>
  C12: With automatic padding the number of rows does not matter: a blocking call on every worker
  pads the batch to a multiple of the workers, and after the padding rows are dropped the result is
  the method's result on the whole batch. The caller's batch object, however, stays padded.
\<close>

theorem padded_call_is_whole_call:
  assumes "whole_dp (env_chunk env) (env_split env) (env_eq env) dp" and "is_padding_enabled (env_padding env) dp"
    and "rowwise (env_eq env) f" and "0 < world_size wg"
  shows "\<exists>dp'. call_method env DpComputeProto True (batch_method f) [BatchArg dp] [] wg =
            Inr (BatchArg (f dp), wg, [BatchArg dp']) \<and>
          dp_len dp' = (dp_len dp + world_size wg - 1) div world_size wg * world_size wg"
proof -
  let ?c = "world_size wg" and ?n = "dp_len dp"
  define p where "p = (if ?n mod ?c > 0 then ?c - ?n mod ?c else 0)"
  have np: "?n + p = (?n + ?c - 1) div ?c * ?c"
    unfolding p_def by (rule round_up_to_multiple [OF assms(4)])
  then have dvd: "?c dvd ?n + p" by simp
  obtain d' cs where d': "padding_dp (env_eq env) p [] dp = Inr d'" "env_chunk_dp env ?c d' = Inr cs" "length cs = ?c"
    "concat_dp (env_eq env) (map f cs) = Inr (f d')" "drop_rows p (f d') = Inr (f dp)"
    using dp_rows.pad_run_drop [OF assms(1,4) dvd assms(3)] by metis
  have len: "dp_len d' = ?n + p"
  proof -
    have w: "dp_ok dp" "meta_ok (env_eq env) dp" "0 < ?n" using assms(1) by (simp_all add: whole_dp_def)
    then show ?thesis using padding_pick [OF w, of p] d'(1) dp_len_pick [OF dp_len_nonempty [OF w(3)]] by auto
  qed
  have st: "(if ?n mod ?c > 0 then ?c - ?n mod ?c else 0) = p" by (simp add: p_def)
  have "padding_and_split_data env ?c (BatchArg dp) None = Inr (BatchArg d', ListArg (map BatchArg cs), Some (?n, p))"
    using assms(2,4) d'(1,2) st by (simp add: padding_and_split_data_def batch_chunk_def Let_def)
  then have dispatch: "mode_dispatch env DpComputeProto wg [BatchArg dp] [] =
      Inr (\<lparr>sent_args = [ListArg (map BatchArg cs)], sent_kwargs = [(padding_size_key, NumArg (real p))],
            callers_args = [BatchArg d'], callers_kwargs = []\<rparr>, wg)"
    by (simp add: mode_dispatch_def split_with_auto_padding_def)
  have exec: "execute_all env ?c (batch_method f) [ListArg (map BatchArg cs)] [] =
      Inr (map (\<lambda>i. BatchArg (f (cs ! i))) [0..<?c])"
    by (rule execute_all_lists) (use d'(3) in \<open>simp_all add: materialize_def\<close>)
  have "map (\<lambda>i. f (cs ! i)) [0..<?c] = map f cs" using d'(3) by (auto intro: nth_equalityI)
  moreover have "[0..<?c] \<noteq> []" using assms(4) by simp
  ultimately obtain out where "concat_data_proto_or_future env (map (\<lambda>i. BatchArg (f (cs ! i))) [0..<?c]) = Inr out"
    "is_concatable (map (\<lambda>i. BatchArg (f (cs ! i))) [0..<?c])" "out = BatchArg (f d')"
    using concat_collected [of env "\<lambda>i. f (cs ! i)" "[0..<?c]" "f d'" True] d'(4) by auto
  then have "mode_collect env DpComputeProto wg (map (\<lambda>i. BatchArg (f (cs ! i))) [0..<?c]) = Inr (BatchArg (f d'), wg)"
    by (simp add: mode_collect_def collect_dp_compute_data_proto_def collect_dp_compute_def)
  moreover have "drop_padding p (BatchArg (f d')) = Inr (BatchArg (f dp))"
    using d'(5) by (simp add: drop_padding_def drop_rows_def res_simps split: if_splits)
  ultimately have "call_method env DpComputeProto True (batch_method f) [BatchArg dp] [] wg =
      Inr (BatchArg (f dp), wg, [BatchArg d'])"
    using dispatch exec by (simp add: call_method_def Let_def)
  then show ?thesis using len np by auto
qed

lemma padded_call_is_whole_call_witness:
  "\<exists>dp'. call_method sample_env DpComputeProto True (batch_method bump) [BatchArg sample_dp] [] sample_group =
     Inr (BatchArg (bump sample_dp), sample_group, [BatchArg dp']) \<and> dp_len dp' = 4"
proof -
  have "whole_dp (env_chunk sample_env) (env_split sample_env) (env_eq sample_env) sample_dp"
    using sample_dp_ok even_split_law by (simp add: whole_dp_def sample_env_def)
  moreover have "is_padding_enabled (env_padding sample_env) sample_dp"
    by (simp add: is_padding_enabled_def sample_env_def)
  moreover have "rowwise (env_eq sample_env) bump" using bump_rowwise by (simp add: sample_env_def)
  moreover have "world_size sample_group = 4" by (simp add: sample_group_def)
  ultimately show ?thesis
    using padded_call_is_whole_call [of sample_env sample_dp bump sample_group] sample_dp_ok(3) by simp
qed

text \<open>
  The padding is also dropped from results that are one value per worker: of the two workers that
  computed a metric on three rows, only the first one's is returned.
\<close>

definition row_counts :: "(int, nat np_obj, nat) worker_method" where
  "row_counts i args kwargs = (case args of [BatchArg d] \<Rightarrow> Inr (NumArg (real i)) | _ \<Rightarrow> Inl TypeError)"

lemma metric_results_dropped:
  "\<exists>wg' as. call_method sample_env DpComputeMetric True row_counts [BatchArg sample_dp] []
     \<lparr>workers = [sample_worker 0 True, sample_worker 1 True], dispatch_info = [], collect_info = []\<rparr> =
     Inr (ListArg [NumArg 0], wg', as)"
proof -
  let ?wg = "\<lparr>workers = [sample_worker 0 True, sample_worker 1 True], dispatch_info = [], collect_info = []\<rparr> :: worker_group"
  have "whole_dp (env_chunk sample_env) (env_split sample_env) (env_eq sample_env) sample_dp"
    using sample_dp_ok even_split_law by (simp add: whole_dp_def sample_env_def)
  moreover have "2 dvd dp_len sample_dp + 1" "rowwise (env_eq sample_env) (\<lambda>d. d)"
    using sample_dp_ok(3) by (simp_all add: rowwise_def)
  ultimately obtain d' cs where
    d': "padding_dp (env_eq sample_env) 1 [] sample_dp = Inr d'" "env_chunk_dp sample_env 2 d' = Inr cs" "length cs = 2"
    using dp_rows.pad_run_drop [where c = 2 and p = 1 and g = "env_padding sample_env"] zero_less_numeral by metis
  have "padding_and_split_data sample_env 2 (BatchArg sample_dp) None =
      Inr (BatchArg d', ListArg (map BatchArg cs), Some (3, 1))"
    using d'(1,2) sample_dp_ok(3)
    by (simp add: padding_and_split_data_def batch_chunk_def is_padding_enabled_def sample_env_def)
  then have dispatch: "mode_dispatch sample_env DpComputeMetric ?wg [BatchArg sample_dp] [] =
      Inr (\<lparr>sent_args = [ListArg (map BatchArg cs)], sent_kwargs = [(padding_size_key, NumArg (real 1))],
            callers_args = [BatchArg d'], callers_kwargs = []\<rparr>, ?wg)"
    by (simp add: mode_dispatch_def split_with_auto_padding_def numeral_2_eq_2)
  have "traverse (\<lambda>i. remote_call sample_env row_counts i [map BatchArg cs ! i] []) [0..<2] =
      Inr (map (\<lambda>i. NumArg (real i)) [0..<2])"
    by (rule traverse_Inr_map)
      (use d'(3) in \<open>simp add: remote_call_def materialize_futures_def materialize_def traverse_dict_def row_counts_def\<close>)
  moreover have "map (\<lambda>i. NumArg (real i)) [0..<2] = [NumArg 0, NumArg 1 :: (int, nat np_obj, nat) data_arg]"
    by (simp add: upt_rec)
  ultimately have exec: "execute_all sample_env 2 row_counts [ListArg (map BatchArg cs)] [] = Inr [NumArg 0, NumArg 1]"
    using d'(3) by (simp add: execute_all_def is_list_of_def map_columns_def)
  have "mode_collect sample_env DpComputeMetric ?wg [NumArg 0, NumArg 1 :: (int, nat np_obj, nat) data_arg] =
      Inr (ListArg [NumArg 0, NumArg 1], ?wg)"
    by (simp add: mode_collect_def collect_dp_compute_def)
  moreover have "drop_padding 1 (ListArg [NumArg 0, NumArg 1]) = Inr (ListArg [NumArg 0 :: (int, nat np_obj, nat) data_arg])"
    by (simp add: drop_padding_def py_slice_def clamp_index_def)
  moreover have "world_size ?wg = 2" by simp
  ultimately show ?thesis unfolding call_method_def dispatch using exec by (simp add: Let_def numeral_2_eq_2)
qed

end
