(* ===== verification/Tensor.thy ===== *)
theory Tensor
  imports Prelude "HOL-Library.Char_ord"
begin

section \<open>Tensors of one value per token\<close>

text \<open>
  The tensors of the training code are batches of rows: one row per response, one number per
  token. Floating-point numbers are exact reals, and the elementwise functions of the tensor
  library are the functions of the reals; a division by zero is zero here where the library gives
  an infinity or no number, and the properties exclude it. Models the masked statistics of
  \<open>src/verl/utils/torch_functional.py\<close>.
\<close>

type_synonym tensor = "real list list"

definition map2t :: "(real \<Rightarrow> real \<Rightarrow> real) \<Rightarrow> tensor \<Rightarrow> tensor \<Rightarrow> tensor" where
  "map2t f a b = map2 (map2 f) a b"

definition same_shape :: "tensor \<Rightarrow> tensor \<Rightarrow> bool" where
  "same_shape a b \<longleftrightarrow> map length a = map length b"

text \<open>Sums over tokens, over sequences and over everything; a scalar per row times a mask.\<close>

definition row_sums :: "tensor \<Rightarrow> real list" where
  "row_sums a = map sum_list a"

definition total_sum :: "tensor \<Rightarrow> real" where
  "total_sum a = sum_list (row_sums a)"

definition broadcast_rows :: "real list \<Rightarrow> tensor \<Rightarrow> tensor" where
  "broadcast_rows xs m = map2 (\<lambda>x row. map (\<lambda>k. x * k) row) xs m"

text \<open>\<open>flip().cumsum().flip()\<close>: the sum of a row from each position on; and \<open>cumsum\<close>.\<close>

fun suffix_sums :: "real list \<Rightarrow> real list" where
  "suffix_sums [] = []"
| "suffix_sums (x # xs) = (x + sum_list xs) # suffix_sums xs"

fun prefix_sums_from :: "real \<Rightarrow> real list \<Rightarrow> real list" where
  "prefix_sums_from acc [] = []"
| "prefix_sums_from acc (x # xs) = (acc + x) # prefix_sums_from (acc + x) xs"

definition prefix_sums :: "real list \<Rightarrow> real list" where
  "prefix_sums = prefix_sums_from 0"

subsection \<open>Masked statistics\<close>

text \<open>Values outside the mask are replaced by zero before the multiplication.\<close>

definition masked_product :: "real \<Rightarrow> real \<Rightarrow> real" where
  "masked_product v m = (if m \<noteq> 0 then v else 0) * m"

definition masked_sum :: "tensor \<Rightarrow> tensor \<Rightarrow> real" where
  "masked_sum values msk = total_sum (map2t masked_product values msk)"

definition masked_mean :: "tensor \<Rightarrow> tensor \<Rightarrow> real" where
  "masked_mean values msk = masked_sum values msk / (total_sum msk + 1 / 10 ^ 8)"

definition masked_var :: "bool \<Rightarrow> tensor \<Rightarrow> tensor \<Rightarrow> real result" where
  "masked_var unbiased values msk =
     (let mean = masked_mean values msk;
          variance = masked_mean (map (map (\<lambda>v. (v - mean) ^ 2)) values) msk;
          n = total_sum msk
      in if unbiased
         then guard_res (n \<noteq> 0) ValueError (guard_res (n \<noteq> 1) ValueError (Inr (variance * (n / (n - 1)))))
         else Inr variance)"

definition masked_whiten :: "bool \<Rightarrow> tensor \<Rightarrow> tensor \<Rightarrow> tensor result" where
  "masked_whiten shift_mean values msk =
     (let mean = masked_mean values msk
      in bind_res (masked_var True values msk) (\<lambda>var.
           Inr (map (map (\<lambda>v. (v - mean) * (1 / sqrt (var + 1 / 10 ^ 8)) + (if shift_mean then 0 else mean))) values)))"

definition clip_by_value :: "tensor \<Rightarrow> tensor \<Rightarrow> tensor \<Rightarrow> tensor" where
  "clip_by_value x lo hi = map2t max (map2t min x hi) lo"

definition clamp :: "real \<Rightarrow> real \<Rightarrow> real \<Rightarrow> real" where
  "clamp lo hi x = min hi (max lo x)"

lemma same_shapeD:
  assumes "same_shape a b"
  shows "length a = length b" and "i < length b \<Longrightarrow> length (a ! i) = length (b ! i)"
proof -
  have eq: "map length a = map length b" using assms by (simp add: same_shape_def)
  then show len: "length a = length b" by (rule map_eq_imp_length_eq)
  assume "i < length b"
  then have "map length a ! i = map length b ! i" "i < length a" using eq len by simp_all
  then show "length (a ! i) = length (b ! i)" using \<open>i < length b\<close> by simp
qed

lemma masked_product_simps [simp]:
  "masked_product v 0 = 0" "masked_product v 1 = v" "masked_product 0 m = 0"
  by (simp_all add: masked_product_def)

lemma masked_product_times: "masked_product v m = v * m"
  by (simp add: masked_product_def)

lemma row_sums_simps [simp]: "length (row_sums a) = length a" "i < length a \<Longrightarrow> row_sums a ! i = sum_list (a ! i)"
  by (simp_all add: row_sums_def)

lemma broadcast_rows_simps [simp]:
  "length (broadcast_rows xs m) = min (length xs) (length m)"
  "i < length xs \<Longrightarrow> i < length m \<Longrightarrow> broadcast_rows xs m ! i = map (\<lambda>k. xs ! i * k) (m ! i)"
  by (simp_all add: broadcast_rows_def)

lemma map2t_simps [simp]:
  "length (map2t f a b) = min (length a) (length b)"
  "i < length a \<Longrightarrow> i < length b \<Longrightarrow> map2t f a b ! i = map2 f (a ! i) (b ! i)"
  by (simp_all add: map2t_def)

lemma map2t_append: "length a = length c \<Longrightarrow> map2t f (a @ b) (c @ d) = map2t f a c @ map2t f b d"
  by (simp add: map2t_def)

lemma total_sum_append [simp]: "total_sum (a @ b) = total_sum a + total_sum b"
  by (simp add: total_sum_def row_sums_def)

lemma total_sum_Nil [simp]: "total_sum [] = 0"
  by (simp add: total_sum_def row_sums_def)

lemma masked_sum_append:
  "length a = length c \<Longrightarrow> masked_sum (a @ b) (c @ d) = masked_sum a c + masked_sum b d"
  by (simp add: masked_sum_def map2t_append)

lemma length_suffix_sums [simp]: "length (suffix_sums xs) = length xs"
  by (induction xs) auto

lemma nth_suffix_sums: "i < length xs \<Longrightarrow> suffix_sums xs ! i = sum_list (drop i xs)"
  by (induction xs arbitrary: i) (auto simp: nth_Cons split: nat.splits)

lemma length_prefix_sums_from [simp]: "length (prefix_sums_from acc xs) = length xs"
  by (induction xs arbitrary: acc) auto

lemma nth_prefix_sums_from: "i < length xs \<Longrightarrow> prefix_sums_from acc xs ! i = acc + sum_list (take (Suc i) xs)"
  by (induction xs arbitrary: i acc) (auto simp: nth_Cons split: nat.splits)

lemma length_prefix_sums [simp]: "length (prefix_sums xs) = length xs"
  by (simp add: prefix_sums_def)

lemma nth_prefix_sums: "i < length xs \<Longrightarrow> prefix_sums xs ! i = sum_list (take (Suc i) xs)"
  by (simp add: prefix_sums_def nth_prefix_sums_from)

text \<open>Whitening is an increasing affine map of all the values, when the mask has weights of at least zero.\<close>

definition mask_ok :: "tensor \<Rightarrow> bool" where
  "mask_ok m \<longleftrightarrow> (\<forall>row\<in>set m. \<forall>x\<in>set row. x = 0 \<or> x = 1)"

lemma row_sum_nonneg: "mask_ok m \<Longrightarrow> row \<in> set m \<Longrightarrow> 0 \<le> sum_list row"
  by (rule sum_list_nonneg) (force simp: mask_ok_def)

lemma mask_sum_nonneg: "mask_ok m \<Longrightarrow> 0 \<le> total_sum m"
  unfolding total_sum_def row_sums_def by (rule sum_list_nonneg) (auto intro: row_sum_nonneg)

lemma mask_sum_nat: "mask_ok m \<Longrightarrow> \<exists>n :: nat. total_sum m = real n"
proof -
  assume ok: "mask_ok m"
  have row: "\<exists>n :: nat. sum_list row = real n" if "\<forall>x\<in>set row. x = 0 \<or> x = (1 :: real)" for row
    using that
  proof (induction row)
    case (Cons x row)
    then obtain n where "sum_list row = real n" by auto
    then show ?case using Cons.prems by (intro exI [of _ "n + (if x = 0 then 0 else 1)"]) auto
  qed (simp add: exI [of _ 0])
  show ?thesis using ok
  proof (induction m)
    case (Cons r m)
    then obtain n k where "total_sum m = real n" "sum_list r = real k" using row [of r] by (auto simp: mask_ok_def)
    then show ?case by (intro exI [of _ "n + k"]) (simp add: total_sum_def row_sums_def)
  qed (simp add: exI [of _ 0])
qed

lemma masked_mean_nonneg:
  assumes "mask_ok m" and "\<forall>row\<in>set v. \<forall>x\<in>set row. 0 \<le> x"
  shows "0 \<le> masked_mean v m"
proof -
  have row: "0 \<le> sum_list (map2 masked_product a b)" if ab: "(a, b) \<in> set (zip v m)" for a b
  proof (rule sum_list_nonneg)
    fix x
    assume "x \<in> set (map2 masked_product a b)"
    then obtain y k where "x = masked_product y k" "y \<in> set a" "k \<in> set b" by (auto elim: in_set_zipE)
    moreover have "a \<in> set v" "b \<in> set m" using ab by (auto elim: in_set_zipE)
    ultimately show "0 \<le> x" using assms by (force simp: masked_product_times mask_ok_def)
  qed
  then have "0 \<le> masked_sum v m"
    unfolding masked_sum_def total_sum_def row_sums_def map2t_def by (intro sum_list_nonneg) auto
  then show ?thesis using mask_sum_nonneg [OF assms(1)] by (simp add: masked_mean_def)
qed

lemma whiten_affine:
  assumes "masked_whiten shift v m = Inr w" and "mask_ok m"
  shows "\<exists>a b. 0 < a \<and> w = map (map (\<lambda>x. a * x + b)) v"
proof -
  let ?mean = "masked_mean v m"
  obtain var where var: "masked_var True v m = Inr var"
    and w: "w = map (map (\<lambda>x. (x - ?mean) * (1 / sqrt (var + 1 / 10 ^ 8)) + (if shift then 0 else ?mean))) v"
    using assms(1) by (auto simp: masked_whiten_def Let_def res_simps)
  let ?n = "total_sum m"
  obtain k :: nat where k: "?n = real k" using mask_sum_nat [OF assms(2)] by blast
  have n: "?n \<noteq> 0" "?n \<noteq> 1" "var = masked_mean (map (map (\<lambda>x. (x - ?mean) ^ 2)) v) m * (?n / (?n - 1))"
    using var by (auto simp: masked_var_def Let_def res_simps)
  then have "1 < ?n" using k by simp
  moreover have "0 \<le> masked_mean (map (map (\<lambda>x. (x - ?mean) ^ 2)) v) m"
    by (rule masked_mean_nonneg [OF assms(2)]) auto
  ultimately have "0 \<le> var" using n(3) by simp
  define c where "c = 1 / sqrt (var + 1 / 10 ^ 8)"
  define d where "d = (if shift then 0 else ?mean) - ?mean * c"
  have "0 < c" using \<open>0 \<le> var\<close> by (simp add: c_def)
  moreover have "w = map (map (\<lambda>x. c * x + d)) v"
    unfolding w d_def c_def [symmetric] by (simp add: algebra_simps)
  ultimately show ?thesis by blast
qed

end
