(* ===== verification/Advantage.thy ===== *)
theory Advantage
  imports Tensor
begin

section \<open>Advantage estimators\<close>

text \<open>
  Models the advantage estimators of \<open>src/verl/trainer/ppo/core_algos.py\<close> and the grouping
  helpers of \<open>src/verl/utils/groupwise.py\<close>. A result is the pair of advantages and returns. The
  labels that group the responses of a prompt are an arbitrary type, except where the code converts
  them to indices.
\<close>

type_synonym advantage_result = "(tensor \<times> tensor) result"

subsection \<open>Generalized advantage estimation\<close>

text \<open>
  One row, from its last token to its first: the value of the next token that counts and the
  running estimate are kept over masked tokens. The result is the list of estimates with the two
  running values at its first token.
\<close>

fun gae_row :: "real \<Rightarrow> real \<Rightarrow> real list \<Rightarrow> real list \<Rightarrow> real list \<Rightarrow> real list \<times> real \<times> real" where
  "gae_row gamma lam (r # rs) (v # vs) (m # ms) =
     (let (as, nextvalues, lastgaelam) = gae_row gamma lam rs vs ms;
          delta = r + gamma * nextvalues - v;
          stepgaelam = delta + gamma * lam * lastgaelam;
          nextvalues' = v * m + (1 - m) * nextvalues;
          lastgaelam' = stepgaelam * m + (1 - m) * lastgaelam
      in (lastgaelam' # as, nextvalues', lastgaelam'))"
| "gae_row gamma lam _ _ _ = ([], 0, 0)"

definition compute_gae_advantage_return :: "tensor \<Rightarrow> tensor \<Rightarrow> tensor \<Rightarrow> real \<Rightarrow> real \<Rightarrow> advantage_result" where
  "compute_gae_advantage_return rewards values msk gamma lam =
     (let advantages = map (\<lambda>(r, v, m). fst (gae_row gamma lam r v m)) (zip rewards (zip values msk));
          returns = map2t (+) advantages values
      in bind_res (masked_whiten True advantages msk) (\<lambda>w. Inr (w, returns)))"

subsection \<open>Statistics of groups\<close>

definition mean_of :: "real list \<Rightarrow> real" where
  "mean_of xs = sum_list xs / real (length xs)"

text \<open>The unbiased standard deviation, and its square.\<close>

definition var_of :: "real list \<Rightarrow> real" where
  "var_of xs = (\<Sum>x\<leftarrow>xs. (x - mean_of xs) ^ 2) / (real (length xs) - 1)"

definition std_of :: "real list \<Rightarrow> real" where
  "std_of xs = sqrt (var_of xs)"

text \<open>\<open>id2mean\<close> and the like: a default for single responses, a statistic for several.\<close>

definition group_stat :: "'v \<Rightarrow> ('x list \<Rightarrow> 'v) \<Rightarrow> ('k, 'x list) dict \<Rightarrow> ('k, 'v) dict result" where
  "group_stat single stat groups =
     traverse (\<lambda>(k, vs).
       if length vs = 1 then Inr (k, single)
       else if length vs > 1 then Inr (k, stat vs)
       else Inl ValueError) groups"

text \<open>The loop that rewrites every score with what its group's dictionary holds.\<close>

definition rescore :: "('k \<Rightarrow> real \<Rightarrow> 'v \<Rightarrow> real) \<Rightarrow> ('k, 'v) dict \<Rightarrow> 'k list \<Rightarrow> real list \<Rightarrow> real list result" where
  "rescore f d index scores =
     traverse (\<lambda>(k, s). case dict_get d k of None \<Rightarrow> Inl KeyError | Some v \<Rightarrow> Inr (f k s v)) (zip index scores)"

text \<open>The common shape of the outcome estimators: statistics per group, one number per response.\<close>

definition outcome_scores ::
  "'v \<Rightarrow> (real list \<Rightarrow> 'v) \<Rightarrow> ('k \<Rightarrow> real \<Rightarrow> 'v \<Rightarrow> real) \<Rightarrow> 'k list \<Rightarrow> real list \<Rightarrow> real list result" where
  "outcome_scores single stat f index scores =
     guard_res (length scores \<le> length index) IndexError
       (bind_res (group_stat single stat (group_by (zip index scores))) (\<lambda>d. rescore f d index scores))"

definition broadcast_outcome :: "real list result \<Rightarrow> tensor \<Rightarrow> advantage_result" where
  "broadcast_outcome r msk = bind_res r (\<lambda>scores. Inr (broadcast_rows scores msk, broadcast_rows scores msk))"

subsection \<open>Outcome estimators\<close>

definition compute_grpo_outcome_advantage ::
  "tensor \<Rightarrow> tensor \<Rightarrow> 'k list \<Rightarrow> real \<Rightarrow> bool \<Rightarrow> advantage_result" where
  "compute_grpo_outcome_advantage rewards msk index epsilon norm_adv_by_std =
     broadcast_outcome
       (outcome_scores (0, 1) (\<lambda>vs. (mean_of vs, std_of vs))
          (\<lambda>k s (mean, std). if norm_adv_by_std then (s - mean) / (std + epsilon) else s - mean)
          index (row_sums rewards)) msk"

definition compute_rloo_outcome_advantage :: "tensor \<Rightarrow> tensor \<Rightarrow> 'k list \<Rightarrow> advantage_result" where
  "compute_rloo_outcome_advantage rewards msk index =
     (let scores = row_sums rewards;
          groups = group_by (zip index scores)
      in broadcast_outcome
           (outcome_scores 0 mean_of
              (\<lambda>k s mean. let n = real (length (dict_get_default groups k []))
                          in if n > 1 then s * n / (n - 1) - mean * n / (n - 1) else s)
              index scores) msk)"

definition compute_reinforce_plus_plus_baseline_outcome_advantage ::
  "tensor \<Rightarrow> tensor \<Rightarrow> 'k list \<Rightarrow> advantage_result" where
  "compute_reinforce_plus_plus_baseline_outcome_advantage rewards msk index =
     bind_res (outcome_scores 0 mean_of (\<lambda>k s mean. s - mean) index (row_sums rewards)) (\<lambda>scores.
     bind_res (masked_whiten True (broadcast_rows scores msk) msk) (\<lambda>w.
       Inr (map2t (*) w msk, map2t (*) w msk)))"

text \<open>The baseline of OPO weighs the scores of a group by the lengths of the responses.\<close>

definition weighted_mean :: "(real \<times> real) list \<Rightarrow> real" where
  "weighted_mean ps = (\<Sum>(l, s)\<leftarrow>ps. l * s) / (\<Sum>(l, s)\<leftarrow>ps. l)"

definition compute_opo_outcome_advantage :: "tensor \<Rightarrow> tensor \<Rightarrow> 'k list \<Rightarrow> advantage_result" where
  "compute_opo_outcome_advantage rewards msk index =
     (let scores = row_sums rewards; lengths = row_sums msk
      in broadcast_outcome
           (guard_res (length scores \<le> length index) IndexError
              (bind_res (group_stat 0 weighted_mean (group_by (zip index (zip lengths scores))))
                 (\<lambda>d. rescore (\<lambda>k s b. s - b) d index scores))) msk)"

text \<open>The argument \<open>alpha\<close> is overwritten by the inverse share of non-zero scores.\<close>

definition compute_gpg_outcome_advantage ::
  "tensor \<Rightarrow> tensor \<Rightarrow> 'k list \<Rightarrow> real \<Rightarrow> real \<Rightarrow> advantage_result" where
  "compute_gpg_outcome_advantage rewards msk index f_norm alpha_arg =
     (let scores = row_sums rewards;
          nonzero = length (filter (\<lambda>s. s \<noteq> 0) scores);
          alpha = real (length scores) / max 1 (real nonzero)
      in broadcast_outcome
           (outcome_scores 0 mean_of (\<lambda>k s mean. alpha * (s - mean) / f_norm) index scores) msk)"

text \<open>
  \<open>torch.topk(rewards, 2)\<close> gives two positions; among equal rewards the library chooses, so
  that the choice is an argument.
\<close>

definition passk_step ::
  "(real list \<Rightarrow> nat \<times> nat) \<Rightarrow> real \<Rightarrow> bool \<Rightarrow> 'k \<times> (nat \<times> real) list \<Rightarrow> real list \<Rightarrow> real list result" where
  "passk_step top2 epsilon by_std grp advantages =
     (let members = snd grp; rewards = map snd members; (i1, i2) = top2 rewards;
          advantage = rewards ! i1 - rewards ! i2;
          scaled = (if by_std then advantage / (std_of rewards + epsilon) else advantage)
      in guard_res (2 \<le> length rewards) ValueError (Inr (advantages[fst (members ! i1) := scaled])))"

definition compute_grpo_passk_outcome_advantage ::
  "(real list \<Rightarrow> nat \<times> nat) \<Rightarrow> tensor \<Rightarrow> tensor \<Rightarrow> 'k list \<Rightarrow> real \<Rightarrow> bool option \<Rightarrow> advantage_result" where
  "compute_grpo_passk_outcome_advantage top2 rewards msk index epsilon config_norm =
     (let scores = row_sums rewards;
          by_std = (case config_norm of None \<Rightarrow> True | Some b \<Rightarrow> b)
      in broadcast_outcome
           (guard_res (length scores \<le> length index) IndexError
              (fold_res (passk_step top2 epsilon by_std)
                 (group_by (zip index (zip [0..<length scores] scores)))
                 (replicate (length scores) 0))) msk)"

subsection \<open>Rewards to go\<close>

fun reinforce_returns :: "real \<Rightarrow> real list \<Rightarrow> real list \<Rightarrow> real list \<times> real" where
  "reinforce_returns gamma (r # rs) (m # ms) =
     (let (returns, running) = reinforce_returns gamma rs ms;
          running' = r + gamma * running
      in (running' # returns, running' * m))"
| "reinforce_returns gamma _ _ = ([], 0)"

definition compute_reinforce_plus_plus_outcome_advantage ::
  "tensor \<Rightarrow> tensor \<Rightarrow> real option \<Rightarrow> advantage_result" where
  "compute_reinforce_plus_plus_outcome_advantage rewards msk config_gamma =
     (case config_gamma of
        None \<Rightarrow> Inl AssertionError
      | Some gamma \<Rightarrow>
          let returns = map2 (\<lambda>r m. fst (reinforce_returns gamma r m)) rewards msk
          in bind_res (masked_whiten True returns msk) (\<lambda>w. Inr (map2t (*) w msk, returns)))"

definition masked_returns :: "tensor \<Rightarrow> tensor \<Rightarrow> tensor" where
  "masked_returns rewards msk = map suffix_sums (map2t (*) rewards msk)"

definition compute_remax_outcome_advantage :: "tensor \<Rightarrow> real list \<Rightarrow> tensor \<Rightarrow> advantage_result" where
  "compute_remax_outcome_advantage rewards baselines msk =
     (let returns = masked_returns rewards msk
      in Inr (map2t (-) returns (broadcast_rows baselines msk), returns))"

subsection \<open>Decoupled rewards\<close>

text \<open>The component's score is put on the last valid token; the index may wrap around.\<close>

definition place_score :: "nat \<Rightarrow> int \<Rightarrow> real \<Rightarrow> real list result" where
  "place_score width pos score =
     guard_res (- int width \<le> pos \<and> pos < int width) IndexError
       (Inr ((replicate width 0)[nat (if pos < 0 then pos + int width else pos) := score]))"

definition gdpo_component :: "tensor \<Rightarrow> real list list \<Rightarrow> nat \<Rightarrow> real list \<Rightarrow> tensor result" where
  "gdpo_component msk attention prompt_length part =
     traverse (\<lambda>(m, att, s). place_score (length m) (\<lfloor>sum_list (drop prompt_length att)\<rfloor> - 1) s)
       (zip msk (zip attention part))"

record gdpo_config =
  gdpo_reward_keys :: "string list"
  gdpo_reward_weights :: "real list option"

text \<open>With a configuration and batches the listed components are read, otherwise the rewards are one component.\<close>

definition gdpo_score_list ::
  "tensor \<Rightarrow> tensor \<Rightarrow> gdpo_config option \<Rightarrow> (string, real list) dict option \<Rightarrow> (nat \<times> real list list) option \<Rightarrow>
   (tensor list \<times> real list option) result" where
  "gdpo_score_list rewards msk config non_tensor_batch batch =
     (case (config, non_tensor_batch, batch) of
        (Some c, Some ntb, Some (prompt_length, attention)) \<Rightarrow>
          guard_res (gdpo_reward_keys c \<noteq> []) AssertionError
            (bind_res (traverse (\<lambda>key. case dict_get ntb key of
                                   None \<Rightarrow> Inl AssertionError
                                 | Some part \<Rightarrow> gdpo_component msk attention prompt_length part) (gdpo_reward_keys c))
               (\<lambda>ts. Inr (ts, gdpo_reward_weights c)))
      | _ \<Rightarrow> Inr ([rewards], None))"

definition scale_tensor :: "real \<Rightarrow> tensor \<Rightarrow> tensor" where
  "scale_tensor c = map (map (\<lambda>x. c * x))"

fun weighted_advantages :: "(tensor \<Rightarrow> tensor result) \<Rightarrow> real list \<Rightarrow> nat \<Rightarrow> tensor option \<Rightarrow> tensor list \<Rightarrow> tensor option result" where
  "weighted_advantages norm_fn weights i acc [] = Inr acc"
| "weighted_advantages norm_fn weights i acc (t # ts) =
     bind_res (norm_fn t) (\<lambda>a.
     guard_res (i < length weights) IndexError
       (weighted_advantages norm_fn weights (Suc i)
          (Some (case acc of None \<Rightarrow> scale_tensor (weights ! i) a
                 | Some b \<Rightarrow> map2t (+) b (scale_tensor (weights ! i) a))) ts))"

definition compute_gdpo_outcome_advantage ::
  "tensor \<Rightarrow> tensor \<Rightarrow> 'k list \<Rightarrow> real \<Rightarrow> bool \<Rightarrow> gdpo_config option \<Rightarrow> (string, real list) dict option \<Rightarrow>
   (nat \<times> real list list) option \<Rightarrow> advantage_result" where
  "compute_gdpo_outcome_advantage rewards msk index epsilon by_std config non_tensor_batch batch =
     bind_res (gdpo_score_list rewards msk config non_tensor_batch batch) (\<lambda>(score_list, reward_weights).
     let weights = (case reward_weights of None \<Rightarrow> replicate (length score_list) 1 | Some ws \<Rightarrow> ws)
     in bind_res (weighted_advantages
          (\<lambda>t. bind_res (compute_grpo_outcome_advantage t msk index epsilon by_std) (\<lambda>(a, _). Inr a))
          weights 0 None score_list) (\<lambda>acc.
        case acc of
          None \<Rightarrow> Inl TypeError
        | Some a \<Rightarrow> bind_res (masked_whiten True a msk) (\<lambda>w. Inr (map2t (*) w msk, map2t (*) w msk))))"

subsection \<open>Vectorized estimators\<close>

text \<open>Sums of the values whose index is each of the positions up to \<open>n\<close>.\<close>

definition index_add :: "nat \<Rightarrow> int list \<Rightarrow> real list \<Rightarrow> real list" where
  "index_add n g vals = map (\<lambda>k. \<Sum>(j, v)\<leftarrow>zip g vals. if j = int k then v else 0) [0..<n]"

text \<open>Mean, standard deviation with a floor, and size of every group; groups of one, or none, are neutral.\<close>

definition group_mean_std :: "real list \<Rightarrow> int list \<Rightarrow> real \<Rightarrow> (real list \<times> real list \<times> real list) result" where
  "group_mean_std scores gidx eps =
     guard_res (length scores = length gidx) ValueError
       (if gidx = [] \<or> Max (set gidx) = - 1 then Inr ([], [], [])
        else guard_res (0 \<le> Max (set gidx)) RuntimeError (guard_res (\<forall>j\<in>set gidx. 0 \<le> j) IndexError
          (let G = nat (Max (set gidx)) + 1;
               count = index_add G gidx (map (\<lambda>s. 1) scores);
               s1 = index_add G gidx scores;
               s2 = index_add G gidx (map (\<lambda>s. s * s) scores);
               mean = map (\<lambda>k. s1 ! k / max 1 (count ! k)) [0..<G];
               var = map (\<lambda>k. (s2 ! k - s1 ! k * s1 ! k / max 1 (count ! k)) / max 1 (count ! k - 1)) [0..<G];
               std = map (\<lambda>v. sqrt (max v eps)) var
           in Inr (map (\<lambda>k. if count ! k \<le> 1 then 0 else mean ! k) [0..<G],
                   map (\<lambda>k. if count ! k \<le> 1 then 1 else std ! k) [0..<G], count))))"

text \<open>
  The conversion of labels to indices, for the arrays the library makes of them: integers are taken
  as they are; numbers near integers are rounded; any other numbers, and strings that all parse as
  integers, are cast; the rest is numbered in sorted order. \<open>parse_int\<close> is the library's parser.
\<close>

datatype labels = IntLabels "int list" | RealLabels "real list" | StringLabels "string list"

definition unique_inverse :: "string list \<Rightarrow> int list" where
  "unique_inverse xs = map (\<lambda>x. int (length (takeWhile (\<lambda>y. y < x) (sorted_list_of_set (set xs))))) xs"

definition truncate_real :: "real \<Rightarrow> int" where
  "truncate_real x = (if 0 \<le> x then \<lfloor>x\<rfloor> else \<lceil>x\<rceil>)"

definition near_integers :: "real list \<Rightarrow> bool" where
  "near_integers xs \<longleftrightarrow> list_all (\<lambda>x. \<bar>x - real_of_int (round x)\<bar> \<le> 1 / 10 ^ 6) xs"

definition as_torch_index :: "(string \<Rightarrow> int option) \<Rightarrow> labels \<Rightarrow> int list" where
  "as_torch_index parse_int labels =
     (case labels of
        IntLabels is \<Rightarrow> is
      | RealLabels xs \<Rightarrow> if near_integers xs then map round xs else map truncate_real xs
      | StringLabels ss \<Rightarrow>
          if list_all (\<lambda>s. parse_int s \<noteq> None) ss then map (\<lambda>s. the (parse_int s)) ss else unique_inverse ss)"

text \<open>\<open>mean_g[g]\<close> indexes from the end for negative indices.\<close>

definition gather_index :: "real list \<Rightarrow> int list \<Rightarrow> real list result" where
  "gather_index xs g =
     traverse (\<lambda>j. guard_res (- int (length xs) \<le> j \<and> j < int (length xs)) IndexError
                    (Inr (xs ! nat (if j < 0 then j + int (length xs) else j)))) g"

definition compute_grpo_vectorized_outcome_advantage ::
  "(string \<Rightarrow> int option) \<Rightarrow> tensor \<Rightarrow> tensor \<Rightarrow> labels \<Rightarrow> real \<Rightarrow> bool \<Rightarrow> advantage_result" where
  "compute_grpo_vectorized_outcome_advantage parse_int rewards msk index epsilon norm_adv_by_std =
     (let scores = row_sums rewards; g = as_torch_index parse_int index
      in broadcast_outcome
           (bind_res (group_mean_std scores g epsilon) (\<lambda>(mean_g, std_g, _).
            bind_res (gather_index mean_g g) (\<lambda>means.
            bind_res (gather_index std_g g) (\<lambda>stds.
              Inr (if norm_adv_by_std then map2 (\<lambda>d sd. d / (sd + epsilon)) (map2 (-) scores means) stds
                   else map2 (-) scores means))))) msk)"

text \<open>The size and the sum of the group of every response, as \<open>bincount\<close> of the inverse index gives them.\<close>

definition compute_rloo_vectorized_outcome_advantage :: "tensor \<Rightarrow> tensor \<Rightarrow> 'k list \<Rightarrow> advantage_result" where
  "compute_rloo_vectorized_outcome_advantage rewards msk index =
     (let scores = row_sums rewards;
          one = (\<lambda>(k, s). let vs = values_of (zip index scores) k; c = real (length vs)
                          in (c * s - sum_list vs) / max 1 (c - 1) * (if c > 1 then 1 else 0))
      in broadcast_outcome
           (guard_res (length index = length scores) RuntimeError (Inr (map one (zip index scores)))) msk)"

section \<open>Generalized advantage estimation, proved\<close>

text \<open>The tokens a mask keeps; the error of one step; the discounted sum of the errors to come.\<close>

definition keep :: "real list \<Rightarrow> real list \<Rightarrow> real list" where
  "keep ms xs = map snd (filter (\<lambda>(m, x). m \<noteq> 0) (zip ms xs))"

definition td_error :: "real \<Rightarrow> real list \<Rightarrow> real list \<Rightarrow> nat \<Rightarrow> real" where
  "td_error gamma r v t = r ! t + gamma * (if Suc t < length v then v ! Suc t else 0) - v ! t"

definition discounted_errors :: "real \<Rightarrow> real \<Rightarrow> real list \<Rightarrow> real list \<Rightarrow> real list" where
  "discounted_errors gamma lam r v =
     map (\<lambda>t. \<Sum>k<length r - t. (gamma * lam) ^ k * td_error gamma r v (t + k)) [0..<length r]"

lemma keep_simps [simp]:
  "keep [] xs = []" "keep ms [] = []"
  "keep (m # ms) (x # xs) = (if m = 0 then keep ms xs else x # keep ms xs)"
  by (simp_all add: keep_def)

lemma length_keep: "length ms = length xs \<Longrightarrow> length (keep ms xs) = length (filter (\<lambda>m. m \<noteq> 0) ms)"
proof (induction ms arbitrary: xs)
  case (Cons m ms)
  then show ?case by (cases xs) auto
qed simp

lemma keep_map2: "length ms = length xs \<Longrightarrow> length ms = length ys \<Longrightarrow> keep ms (map2 f xs ys) = map2 f (keep ms xs) (keep ms ys)"
proof (induction ms arbitrary: xs ys)
  case (Cons m ms)
  then show ?case by (cases xs; cases ys) auto
qed simp

lemma length_gae_row: "length rs = length ms \<Longrightarrow> length vs = length ms \<Longrightarrow> length (fst (gae_row gamma lam rs vs ms)) = length ms"
proof (induction ms arbitrary: rs vs)
  case (Cons m ms)
  then obtain r rs' v vs' where rv: "rs = r # rs'" "vs = v # vs'" by (cases rs; cases vs) auto
  have "length (fst (gae_row gamma lam rs' vs' ms)) = length ms" using Cons.IH Cons.prems rv by simp
  then show ?case by (simp add: rv Let_def split_beta)
qed simp

lemma gae_row_compress:
  "length rs = length ms \<Longrightarrow> length vs = length ms \<Longrightarrow> \<forall>m\<in>set ms. m = 0 \<or> m = 1 \<Longrightarrow>
   gae_row gamma lam rs vs ms = (as, nv, lg) \<Longrightarrow>
   gae_row gamma lam (keep ms rs) (keep ms vs) (keep ms ms) = (keep ms as, nv, lg)"
proof (induction ms arbitrary: rs vs as nv lg)
  case (Cons m ms)
  obtain r rs' v vs' where rv: "rs = r # rs'" "vs = v # vs'" using Cons.prems(1,2) by (cases rs; cases vs) auto
  obtain as' nv' lg' where rest: "gae_row gamma lam rs' vs' ms = (as', nv', lg')" by (metis prod_cases3)
  have IH: "gae_row gamma lam (keep ms rs') (keep ms vs') (keep ms ms) = (keep ms as', nv', lg')"
    using Cons.IH [OF _ _ _ rest] Cons.prems(1-3) rv by simp
  show ?case using Cons.prems(3,4) IH rest by (auto simp: rv Let_def)
qed simp

lemma discounted_errors_Cons:
  assumes "length vs = length rs"
  shows "discounted_errors gamma lam (r # rs) (v # vs) =
    (r + gamma * (case vs of [] \<Rightarrow> 0 | w # ws \<Rightarrow> w) - v +
     gamma * lam * (case discounted_errors gamma lam rs vs of [] \<Rightarrow> 0 | a # as \<Rightarrow> a)) #
    discounted_errors gamma lam rs vs"
proof -
  have shift: "td_error gamma (r # rs) (v # vs) (Suc t) = td_error gamma rs vs t" for t by (simp add: td_error_def)
  have first: "td_error gamma (r # rs) (v # vs) 0 = r + gamma * (case vs of [] \<Rightarrow> 0 | w # ws \<Rightarrow> w) - v"
    by (cases vs) (simp_all add: td_error_def)
  have hd: "(\<Sum>k<length rs. (gamma * lam) ^ k * td_error gamma rs vs k) =
            (case discounted_errors gamma lam rs vs of [] \<Rightarrow> 0 | a # as \<Rightarrow> a)"
    by (cases rs) (simp_all add: discounted_errors_def upt_conv_Cons del: upt_Suc)
  have "(\<Sum>k<Suc (length rs). (gamma * lam) ^ k * td_error gamma (r # rs) (v # vs) k) =
        td_error gamma (r # rs) (v # vs) 0 +
        gamma * lam * (\<Sum>k<length rs. (gamma * lam) ^ k * td_error gamma rs vs k)"
    by (simp add: sum.lessThan_Suc_shift shift sum_distrib_left mult.assoc del: sum.lessThan_Suc)
  moreover have "map (\<lambda>t. \<Sum>k<length (r # rs) - t. (gamma * lam) ^ k * td_error gamma (r # rs) (v # vs) (t + k)) [1..<length (r # rs)] =
        discounted_errors gamma lam rs vs"
    by (simp add: discounted_errors_def shift map_Suc_upt [symmetric] comp_def del: upt_Suc)
  ultimately show ?thesis
    by (simp add: discounted_errors_def [of gamma lam "r # rs"] upt_conv_Cons first hd del: upt_Suc)
qed

lemma gae_row_full:
  "length rs = length ms \<Longrightarrow> length vs = length ms \<Longrightarrow> \<forall>m\<in>set ms. m = 1 \<Longrightarrow>
   gae_row gamma lam rs vs ms =
     (discounted_errors gamma lam rs vs, (case vs of [] \<Rightarrow> 0 | w # ws \<Rightarrow> w),
      (case discounted_errors gamma lam rs vs of [] \<Rightarrow> 0 | a # as \<Rightarrow> a))"
proof (induction ms arbitrary: rs vs)
  case (Cons m ms)
  obtain r rs' v vs' where rv: "rs = r # rs'" "vs = v # vs'" using Cons.prems(1,2) by (cases rs; cases vs) auto
  have "gae_row gamma lam rs' vs' ms =
     (discounted_errors gamma lam rs' vs', (case vs' of [] \<Rightarrow> 0 | w # ws \<Rightarrow> w),
      (case discounted_errors gamma lam rs' vs' of [] \<Rightarrow> 0 | a # as \<Rightarrow> a))"
    using Cons.IH Cons.prems rv by simp
  moreover have "m = 1" using Cons.prems by simp
  ultimately show ?case
    using discounted_errors_Cons [of vs' rs' gamma lam r v] Cons.prems(1,2) rv by (simp add: Let_def)
qed (simp add: discounted_errors_def)

lemma gae_row_keep:
  assumes "length rs = length ms" "length vs = length ms" "\<forall>m\<in>set ms. m = 0 \<or> m = 1"
  shows "keep ms (fst (gae_row gamma lam rs vs ms)) = discounted_errors gamma lam (keep ms rs) (keep ms vs)"
proof -
  obtain as nv lg where g: "gae_row gamma lam rs vs ms = (as, nv, lg)" by (metis prod_cases3)
  have "\<forall>m\<in>set (keep ms ms). m = 1"
    using assms(3) by (induction ms) (auto split: if_splits)
  then have "fst (gae_row gamma lam (keep ms rs) (keep ms vs) (keep ms ms)) = discounted_errors gamma lam (keep ms rs) (keep ms vs)"
    using assms(1,2) length_keep [of ms rs] length_keep [of ms vs] length_keep [of ms ms] by (subst gae_row_full) auto
  then show ?thesis using gae_row_compress [OF assms g] g by simp
qed

text \<open>
  C13: Generalized advantage estimation never sees the masked tokens: on the tokens the mask keeps,
  the return is the value plus the discounted sum, with factor \<open>gamma * lam\<close>, of the one-step
  errors of the sequence of kept tokens alone; and the advantages are one increasing affine map of
  return minus value, over the whole batch.
\<close>

theorem gae_ignores_masked_tokens:
  assumes gae: "compute_gae_advantage_return rewards values msk gamma lam = Inr (adv, returns)"
    and "same_shape rewards msk" and "same_shape values msk" and "mask_ok msk"
  shows "(\<forall>i<length msk. keep (msk ! i) (returns ! i) =
            map2 (+) (discounted_errors gamma lam (keep (msk ! i) (rewards ! i)) (keep (msk ! i) (values ! i)))
                     (keep (msk ! i) (values ! i))) \<and>
         (\<exists>a b. 0 < a \<and> adv = map (map (\<lambda>x. a * x + b)) (map2t (-) returns values))"
proof -
  define raw where "raw = map (\<lambda>(r, v, m). fst (gae_row gamma lam r v m)) (zip rewards (zip values msk))"
  have len: "length rewards = length msk" "length values = length msk"
    using same_shapeD(1) assms(2,3) by blast+
  have row: "length (rewards ! i) = length (msk ! i)" "length (values ! i) = length (msk ! i)" if "i < length msk" for i
    using same_shapeD(2) assms(2,3) that by blast+
  have raw_nth: "raw ! i = fst (gae_row gamma lam (rewards ! i) (values ! i) (msk ! i))" if "i < length msk" for i
    using that len by (simp add: raw_def)
  have ret: "returns = map2t (+) raw values" and "masked_whiten True raw msk = Inr adv"
    using gae by (auto simp: compute_gae_advantage_return_def Let_def res_simps raw_def)
  then obtain a b where ab: "0 < a" "adv = map (map (\<lambda>x. a * x + b)) raw"
    using whiten_affine [OF _ assms(4)] by blast
  have rowlen: "length (raw ! i) = length (msk ! i)" if "i < length msk" for i
    using raw_nth [OF that] row [OF that] length_gae_row by simp
  have len_raw: "length raw = length msk" using len by (simp add: raw_def)
  have "map2t (-) returns values = raw"
  proof (rule nth_equalityI)
    fix i
    assume "i < length (map2t (-) returns values)"
    then have i: "i < length msk" using len len_raw by (simp add: ret)
    have "map2 (-) (map2 (+) (raw ! i) (values ! i)) (values ! i) = raw ! i"
      by (rule nth_equalityI) (use rowlen [OF i] row [OF i] in auto)
    then show "map2t (-) returns values ! i = raw ! i" using i len len_raw by (simp add: ret)
  qed (use len len_raw in \<open>simp add: ret\<close>)
  moreover have "keep (msk ! i) (returns ! i) =
      map2 (+) (discounted_errors gamma lam (keep (msk ! i) (rewards ! i)) (keep (msk ! i) (values ! i)))
               (keep (msk ! i) (values ! i))" if "i < length msk" for i
  proof -
    have "\<forall>m\<in>set (msk ! i). m = 0 \<or> m = 1" using assms(4) that by (auto simp: mask_ok_def)
    then have "keep (msk ! i) (raw ! i) = discounted_errors gamma lam (keep (msk ! i) (rewards ! i)) (keep (msk ! i) (values ! i))"
      using gae_row_keep row [OF that] raw_nth [OF that] by simp
    moreover have "returns ! i = map2 (+) (raw ! i) (values ! i)" using that len len_raw by (simp add: ret)
    moreover have "keep (msk ! i) (map2 (+) (raw ! i) (values ! i)) = map2 (+) (keep (msk ! i) (raw ! i)) (keep (msk ! i) (values ! i))"
      by (rule keep_map2) (simp_all only: rowlen [OF that] row(2) [OF that])
    ultimately show ?thesis by (simp only:)
  qed
  ultimately show ?thesis using ab by auto
qed

text \<open>A row with an observation token between two tokens of the policy.\<close>

lemma gae_ignores_masked_tokens_witness:
  "\<exists>adv returns. compute_gae_advantage_return [[1, 5, 2]] [[1, 7, 3]] [[1, 0, 1]] 1 (1/2) = Inr (adv, returns) \<and>
     keep [1, 0, 1] (returns ! 0) = [7/2, 2]"
proof -
  have "\<exists>adv returns. compute_gae_advantage_return [[1, 5, 2]] [[1, 7, 3]] [[1, 0, 1]] 1 (1/2) = Inr (adv, returns)"
    by (simp add: compute_gae_advantage_return_def masked_whiten_def masked_var_def total_sum_def row_sums_def Let_def)
  then obtain adv returns where g: "compute_gae_advantage_return [[1, 5, 2]] [[1, 7, 3]] [[1, 0, 1]] 1 (1/2) = Inr (adv, returns)"
    by blast
  from gae_ignores_masked_tokens [OF g] have "keep [1, 0, 1] (returns ! 0) = [7/2, 2]"
    by (simp add: same_shape_def mask_ok_def discounted_errors_def td_error_def upt_rec)
  then show ?thesis using g by blast
qed

section \<open>Outcome estimators, proved\<close>

subsection \<open>Groups\<close>

definition stat_or :: "'v \<Rightarrow> ('x list \<Rightarrow> 'v) \<Rightarrow> 'x list \<Rightarrow> 'v" where
  "stat_or single stat vs = (if length vs = 1 then single else stat vs)"

lemma group_stat_total:
  "group_stat single stat (group_by kvs) = Inr (map (\<lambda>(k, vs). (k, stat_or single stat vs)) (group_by kvs))"
  unfolding group_stat_def
proof (rule traverse_Inr_map)
  fix x
  assume x: "x \<in> set (group_by kvs)"
  obtain k vs where kv: "x = (k, vs)" by force
  then have "vs \<noteq> []" using x by (auto simp: group_by_mem values_of_eq_Nil)
  then have "length vs = 1 \<or> 1 < length vs" by (cases vs; cases "tl vs") auto
  then show "(case x of (k, vs) \<Rightarrow> if length vs = 1 then Inr (k, single)
       else if length vs > 1 then Inr (k, stat vs) else Inl ValueError) =
    Inr (case x of (k, vs) \<Rightarrow> (k, stat_or single stat vs))"
    by (auto simp: kv stat_or_def)
qed

lemma map_of_snd: "map_of (map (\<lambda>(k, v). (k, g v)) d) k = map_option g (map_of d k)"
  by (induction d) auto

lemma outcome_scores_total:
  assumes "length scores \<le> length index"
  shows "outcome_scores single stat f index scores =
    Inr (map (\<lambda>(k, s). f k s (stat_or single stat (values_of (zip index scores) k))) (zip index scores))"
proof -
  let ?d = "map (\<lambda>(k, vs). (k, stat_or single stat vs)) (group_by (zip index scores))"
  have "rescore f ?d index scores =
    Inr (map (\<lambda>(k, s). f k s (stat_or single stat (values_of (zip index scores) k))) (zip index scores))"
    unfolding rescore_def
  proof (rule traverse_Inr_map)
    fix x
    assume x: "x \<in> set (zip index scores)"
    then have "fst x \<in> fst ` set (zip index scores)" by simp
    then show "(case x of (k, s) \<Rightarrow> case dict_get ?d k of None \<Rightarrow> Inl KeyError | Some v \<Rightarrow> Inr (f k s v)) =
      Inr (case x of (k, s) \<Rightarrow> f k s (stat_or single stat (values_of (zip index scores) k)))"
      by (cases x) (simp add: map_of_snd map_of_group_by)
  qed
  then show ?thesis using assms by (simp add: outcome_scores_def group_stat_total)
qed

text \<open>The positions of the responses with the same label.\<close>

definition mates :: "'k list \<Rightarrow> nat \<Rightarrow> nat \<Rightarrow> nat list" where
  "mates index n i = filter (\<lambda>j. index ! j = index ! i) [0..<n]"

lemma values_of_zip:
  assumes "length scores \<le> length index"
  shows "values_of (zip index scores) k = map (\<lambda>j. scores ! j) (filter (\<lambda>j. index ! j = k) [0..<length scores])"
proof -
  have "zip index scores = map (\<lambda>j. (index ! j, scores ! j)) [0..<length scores]"
    by (rule nth_equalityI) (use assms in auto)
  then show ?thesis by (simp add: values_of_def filter_map comp_def)
qed

lemma values_of_mates:
  "length scores \<le> length index \<Longrightarrow>
   values_of (zip index scores) (index ! i) = map (\<lambda>j. scores ! j) (mates index (length scores) i)"
  by (simp add: values_of_zip mates_def)

lemma mates_self: "i < n \<Longrightarrow> i \<in> set (mates index n i)"
  by (simp add: mates_def)

lemma distinct_mates [simp]: "distinct (mates index n i)"
  by (simp add: mates_def)

lemma mates_eq: "index ! j = index ! i \<Longrightarrow> mates index n j = mates index n i"
  by (simp add: mates_def)

lemma sum_mates: "sum_list (map f (mates index n i)) = (\<Sum>j\<in>set (mates index n i). f j)"
  by (simp add: sum_list_distinct_conv_sum_set)

lemma length_mates_pos: "i < n \<Longrightarrow> 0 < length (mates index n i)"
  using mates_self [of i n index] by (cases "mates index n i") auto

lemma mean_of_diff_sum: "xs \<noteq> [] \<Longrightarrow> (\<Sum>x\<leftarrow>xs. x - mean_of xs) = 0"
  by (simp add: mean_of_def sum_list_subtractf sum_list_triv)

subsection \<open>Leave one out\<close>

definition others_mean :: "'k list \<Rightarrow> real list \<Rightarrow> nat \<Rightarrow> real" where
  "others_mean index scores i = mean_of (map (\<lambda>j. scores ! j) (filter (\<lambda>j. j \<noteq> i) (mates index (length scores) i)))"

lemma others_mean_sum:
  assumes "i < length scores"
  shows "others_mean index scores i =
    (sum_list (map (\<lambda>j. scores ! j) (mates index (length scores) i)) - scores ! i) /
    (real (length (mates index (length scores) i)) - 1)"
proof -
  let ?m = "mates index (length scores) i"
  have i: "i \<in> set ?m" by (rule mates_self [OF assms])
  have "sum_list (map (\<lambda>j. scores ! j) (filter (\<lambda>j. j \<noteq> i) ?m)) = (\<Sum>j\<in>set ?m - {i}. scores ! j)"
    by (simp add: sum_list_distinct_conv_sum_set set_diff_eq [symmetric] Diff_eq Collect_conj_eq [symmetric] set_filter Int_def)
  also have "\<dots> = sum_list (map (\<lambda>j. scores ! j) ?m) - scores ! i"
    using i by (simp add: sum_mates sum.remove)
  finally have s: "sum_list (map (\<lambda>j. scores ! j) (filter (\<lambda>j. j \<noteq> i) ?m)) = sum_list (map (\<lambda>j. scores ! j) ?m) - scores ! i" .
  have "length (filter (\<lambda>j. j \<noteq> i) ?m) = card (set ?m - {i})"
    by (subst distinct_card [symmetric]) (simp_all add: set_diff_eq [symmetric] Diff_eq Int_def)
  also have "\<dots> = length ?m - 1" using i by (simp add: distinct_card)
  finally have l: "length (filter (\<lambda>j. j \<noteq> i) ?m) = length ?m - 1" .
  obtain k where "length ?m = Suc k" using length_mates_pos [OF assms, of index] by (cases "length ?m") auto
  then show ?thesis using s l by (simp add: others_mean_def mean_of_def)
qed

text \<open>
  The leave-one-out estimators: with two or more responses of a prompt, the loop and the
  vectorized version both give every response its score minus the mean score of the other
  responses of the prompt. For a prompt with a single response they differ: the loop gives the
  score itself, the vectorized version zero.
\<close>

theorem rloo_leave_one_out:
  assumes "length index = length rewards"
  shows "\<exists>as bs. compute_rloo_outcome_advantage rewards msk index = Inr (broadcast_rows as msk, broadcast_rows as msk) \<and>
           compute_rloo_vectorized_outcome_advantage rewards msk index = Inr (broadcast_rows bs msk, broadcast_rows bs msk) \<and>
           length as = length rewards \<and> length bs = length rewards \<and>
           (\<forall>i<length rewards.
              if length (mates index (length rewards) i) = 1
              then as ! i = row_sums rewards ! i \<and> bs ! i = 0
              else as ! i = row_sums rewards ! i - others_mean index (row_sums rewards) i \<and> bs ! i = as ! i)"
proof -
  let ?s = "row_sums rewards" and ?n = "length rewards"
  let ?vs = "values_of (zip index ?s)"
  let ?f = "\<lambda>k s mean. let n = real (length (dict_get_default (group_by (zip index ?s)) k []))
                         in if n > 1 then s * n / (n - 1) - mean * n / (n - 1) else s"
  let ?g = "\<lambda>(k, s). ?f k s (stat_or 0 mean_of (?vs k))"
  let ?h = "\<lambda>(k, s). let vs = ?vs k; c = real (length vs)
                      in (c * s - sum_list vs) / max 1 (c - 1) * (if c > 1 then 1 else 0)"
  define as where "as = map ?g (zip index ?s)"
  define bs where "bs = map ?h (zip index ?s)"
  have len: "length ?s = ?n" "length index = ?n" using assms by simp_all
  have 1: "compute_rloo_outcome_advantage rewards msk index = Inr (broadcast_rows as msk, broadcast_rows as msk)"
    using outcome_scores_total [of ?s index 0 mean_of ?f] assms
    by (simp add: compute_rloo_outcome_advantage_def Let_def broadcast_outcome_def as_def)
  have 2: "compute_rloo_vectorized_outcome_advantage rewards msk index = Inr (broadcast_rows bs msk, broadcast_rows bs msk)"
    using assms by (simp add: compute_rloo_vectorized_outcome_advantage_def Let_def broadcast_outcome_def bs_def)
  have 3: "if length (mates index ?n i) = 1 then as ! i = ?s ! i \<and> bs ! i = 0
           else as ! i = ?s ! i - others_mean index ?s i \<and> bs ! i = as ! i" if i: "i < ?n" for i
  proof -
    let ?m = "mates index ?n i"
    have vs: "?vs (index ! i) = map (\<lambda>j. ?s ! j) ?m" using values_of_mates [of ?s index i] len by simp
    have "dict_get_default (group_by (zip index ?s)) (index ! i) [] = ?vs (index ! i)"
      using values_of_eq_Nil [of "zip index ?s" "index ! i"] by (auto simp: dict_get_default_def map_of_group_by)
    then have a: "as ! i = (if 1 < length ?m then ?s ! i * real (length ?m) / (real (length ?m) - 1) -
        mean_of (map (\<lambda>j. ?s ! j) ?m) * real (length ?m) / (real (length ?m) - 1) else ?s ! i)"
      using i len by (simp add: as_def vs Let_def stat_or_def)
    have b: "bs ! i = (real (length ?m) * ?s ! i - sum_list (map (\<lambda>j. ?s ! j) ?m)) / max 1 (real (length ?m) - 1) *
        (if 1 < length ?m then 1 else 0)"
      using i len by (simp add: bs_def vs Let_def)
    show ?thesis
    proof (cases "length ?m = 1")
      case True
      then show ?thesis using a b by simp
    next
      case False
      then have n: "1 < length ?m" using length_mates_pos [OF i, of index] by linarith
      have o: "others_mean index ?s i = (sum_list (map (\<lambda>j. ?s ! j) ?m) - ?s ! i) / (real (length ?m) - 1)"
        using others_mean_sum [of i ?s index] i by simp
      have "as ! i = ?s ! i - others_mean index ?s i"
        using n unfolding a o mean_of_def by (simp add: divide_simps) (simp add: algebra_simps)
      moreover have "bs ! i = ?s ! i - others_mean index ?s i"
        using n unfolding b o by (simp add: max_def divide_simps) (simp add: algebra_simps)
      ultimately show ?thesis using False by simp
    qed
  qed
  have 4: "length as = ?n" "length bs = ?n" using len by (simp_all add: as_def bs_def)
  show ?thesis by (rule exI [of _ as], rule exI [of _ bs]) (intro conjI allI impI 1 2 3 4)
qed

lemma rloo_leave_one_out_witness:
  "\<exists>as bs. compute_rloo_outcome_advantage [[1], [3], [5]] [[1], [1], [1]] [0, 0, 1 :: nat] =
       Inr (broadcast_rows as [[1], [1], [1]], broadcast_rows as [[1], [1], [1]]) \<and> as ! 0 = - 2 \<and> as ! 2 = 5 \<and>
     compute_rloo_vectorized_outcome_advantage [[1], [3], [5]] [[1], [1], [1]] [0, 0, 1 :: nat] =
       Inr (broadcast_rows bs [[1], [1], [1]], broadcast_rows bs [[1], [1], [1]]) \<and> bs ! 2 = 0"
proof -
  from rloo_leave_one_out [of "[0, 0, 1 :: nat]" "[[1], [3], [5]]" "[[1], [1], [1]]"]
  obtain as bs where r: "compute_rloo_outcome_advantage [[1], [3], [5]] [[1], [1], [1]] [0, 0, 1 :: nat] =
       Inr (broadcast_rows as [[1], [1], [1]], broadcast_rows as [[1], [1], [1]])"
     "compute_rloo_vectorized_outcome_advantage [[1], [3], [5]] [[1], [1], [1]] [0, 0, 1 :: nat] =
       Inr (broadcast_rows bs [[1], [1], [1]], broadcast_rows bs [[1], [1], [1]])"
    and v: "\<forall>i<3. if length (mates [0, 0, 1 :: nat] 3 i) = 1
              then as ! i = row_sums [[1], [3], [5]] ! i \<and> bs ! i = 0
              else as ! i = row_sums [[1], [3], [5]] ! i - others_mean [0, 0, 1 :: nat] (row_sums [[1], [3], [5]]) i \<and> bs ! i = as ! i"
    by (auto simp: numeral_3_eq_3)
  have "as ! 0 = - 2 \<and> as ! 2 = 5 \<and> bs ! 2 = 0"
    using spec [OF v, of 0] spec [OF v, of 2] by (simp add: others_mean_def mean_of_def row_sums_def mates_def upt_rec)
  then show ?thesis using r by blast
qed

subsection \<open>Group-relative advantages\<close>

definition grpo_scores :: "'k list \<Rightarrow> real \<Rightarrow> bool \<Rightarrow> real list \<Rightarrow> real list" where
  "grpo_scores index epsilon by_std scores =
     map (\<lambda>i. let vs = map (\<lambda>j. scores ! j) (mates index (length scores) i);
                  (mean, std) = stat_or (0, 1) (\<lambda>vs. (mean_of vs, std_of vs)) vs
              in if by_std then (scores ! i - mean) / (std + epsilon) else scores ! i - mean) [0..<length scores]"

lemma grpo_scores_nth:
  "i < length scores \<Longrightarrow> grpo_scores index epsilon by_std scores ! i =
     (let vs = map (\<lambda>j. scores ! j) (mates index (length scores) i);
          st = stat_or (0, 1) (\<lambda>vs. (mean_of vs, std_of vs)) vs
      in if by_std then (scores ! i - fst st) / (snd st + epsilon) else scores ! i - fst st)"
  by (simp add: grpo_scores_def Let_def split_beta)

lemma grpo_total:
  assumes "length rewards \<le> length index"
  shows "compute_grpo_outcome_advantage rewards msk index epsilon by_std =
    Inr (broadcast_rows (grpo_scores index epsilon by_std (row_sums rewards)) msk,
         broadcast_rows (grpo_scores index epsilon by_std (row_sums rewards)) msk)"
proof -
  let ?s = "row_sums rewards"
  let ?f = "\<lambda>k s (mean, std). if by_std then (s - mean) / (std + epsilon) else s - mean"
  let ?g = "\<lambda>(k, s). ?f k s (stat_or (0, 1) (\<lambda>vs. (mean_of vs, std_of vs)) (values_of (zip index ?s) k))"
  have "map ?g (zip index ?s) = grpo_scores index epsilon by_std ?s"
    by (rule nth_equalityI)
      (use assms in \<open>simp_all add: grpo_scores_nth values_of_mates Let_def split_beta, simp add: grpo_scores_def\<close>)
  then show ?thesis
    using outcome_scores_total [of ?s index "(0, 1)" "\<lambda>vs. (mean_of vs, std_of vs)" ?f] assms
    by (simp add: compute_grpo_outcome_advantage_def broadcast_outcome_def)
qed

lemma var_of_nonneg: "0 < length xs \<Longrightarrow> 0 \<le> var_of xs"
  unfolding var_of_def by (intro divide_nonneg_nonneg sum_list_nonneg) (cases xs; auto)+

text \<open>
  Group-relative advantages are a zero-sum game among the responses of a prompt that keeps
  their order: with two or more responses of a prompt their advantages sum to zero, whether scaled
  by the standard deviation or not, and a response with a higher score has no lower advantage.
\<close>

theorem grpo_zero_sum:
  assumes "length rewards \<le> length index" and "0 < epsilon" and "i < length rewards"
    and "length (mates index (length rewards) i) \<noteq> 1"
  shows "\<exists>as. compute_grpo_outcome_advantage rewards msk index epsilon by_std = Inr (broadcast_rows as msk, broadcast_rows as msk) \<and>
           length as = length rewards \<and> (\<Sum>j\<leftarrow>mates index (length rewards) i. as ! j) = 0 \<and>
           (\<forall>j\<in>set (mates index (length rewards) i). \<forall>k\<in>set (mates index (length rewards) i).
              row_sums rewards ! j \<le> row_sums rewards ! k \<longrightarrow> as ! j \<le> as ! k)"
proof -
  let ?s = "row_sums rewards" and ?n = "length rewards"
  let ?m = "mates index ?n i"
  let ?vs = "map (\<lambda>j. ?s ! j) ?m"
  let ?as = "grpo_scores index epsilon by_std ?s"
  define d where "d = (if by_std then std_of ?vs + epsilon else 1)"
  have n1: "1 < length ?m" using length_mates_pos [OF assms(3), of index] assms(4) by linarith
  have "0 \<le> var_of ?vs" by (rule var_of_nonneg) (use length_mates_pos [OF assms(3), of index] in simp)
  then have d: "0 < d" using assms(2) by (simp add: d_def std_of_def add_nonneg_pos)
  have a: "?as ! j = (?s ! j - mean_of ?vs) / d" if j: "j \<in> set ?m" for j
  proof -
    have "mates index ?n j = ?m" and jn: "j < ?n" using j by (auto simp: mates_def)
    then have "?as ! j = (let st = stat_or (0, 1) (\<lambda>vs. (mean_of vs, std_of vs)) ?vs
        in if by_std then (?s ! j - fst st) / (snd st + epsilon) else ?s ! j - fst st)"
      by (simp add: grpo_scores_nth Let_def)
    then show ?thesis using assms(4) by (simp add: stat_or_def d_def)
  qed
  have "(\<Sum>j\<leftarrow>?m. ?as ! j) = (\<Sum>j\<leftarrow>?m. (?s ! j - mean_of ?vs) / d)"
    by (rule arg_cong [of _ _ sum_list], rule map_cong [OF refl]) (rule a)
  also have "\<dots> = (\<Sum>x\<leftarrow>?vs. x - mean_of ?vs) / d"
    by (simp add: divide_inverse sum_list_mult_const comp_def)
  also have "(\<Sum>x\<leftarrow>?vs. x - mean_of ?vs) = 0" by (rule mean_of_diff_sum) (use length_mates_pos [OF assms(3), of index] in simp)
  also have "0 / d = 0" by simp
  finally have zero: "(\<Sum>j\<leftarrow>?m. ?as ! j) = 0" .
  have "\<forall>j\<in>set ?m. \<forall>k\<in>set ?m. ?s ! j \<le> ?s ! k \<longrightarrow> ?as ! j \<le> ?as ! k"
    using d a by (simp add: divide_right_mono)
  moreover have "length ?as = ?n" by (simp add: grpo_scores_def)
  ultimately show ?thesis using zero grpo_total [OF assms(1)] by blast
qed

lemma grpo_zero_sum_witness:
  "\<exists>as. compute_grpo_outcome_advantage [[1], [3], [5]] [[1], [1], [1]] [0, 0, 1 :: nat] 1 True =
      Inr (broadcast_rows as [[1], [1], [1]], broadcast_rows as [[1], [1], [1]]) \<and> as ! 0 + as ! 1 = 0"
proof -
  have m: "mates [0, 0, 1 :: nat] 3 0 = [0, 1]" by (simp add: mates_def upt_rec)
  then show ?thesis
    using grpo_zero_sum [of "[[1], [3], [5]]" "[0, 0, 1 :: nat]" 1 0 "[[1], [1], [1]]" True] by (auto simp: numeral_3_eq_3)
qed

subsection \<open>Labels as indices\<close>

lemma takeWhile_less_sorted:
  fixes l :: "'x::linorder list"
  assumes "sorted l" and "x \<in> set l"
  shows "length (takeWhile (\<lambda>y. y < x) l) < length l \<and> l ! length (takeWhile (\<lambda>y. y < x) l) = x"
proof -
  let ?p = "length (takeWhile (\<lambda>y. y < x) l)"
  obtain q where q: "q < length l" "l ! q = x" using assms(2) by (auto simp: in_set_conv_nth)
  have "?p \<le> q"
  proof (rule ccontr)
    assume "\<not> ?p \<le> q"
    then have qp: "q < ?p" by simp
    then have "takeWhile (\<lambda>y. y < x) l ! q = x" using q by (simp add: takeWhile_nth)
    moreover have "takeWhile (\<lambda>y. y < x) l ! q \<in> set (takeWhile (\<lambda>y. y < x) l)" using qp by (rule nth_mem)
    ultimately show False by (auto dest: set_takeWhileD)
  qed
  then have p: "?p < length l" using q(1) by simp
  then have "\<not> l ! ?p < x" by (rule nth_length_takeWhile)
  moreover have "l ! ?p \<le> x" using sorted_nth_mono [OF assms(1) \<open>?p \<le> q\<close> q(1)] q(2) by simp
  ultimately show ?thesis using p by simp
qed

definition position_of :: "string list \<Rightarrow> string \<Rightarrow> nat" where
  "position_of ids x = length (takeWhile (\<lambda>y. y < x) (sorted_list_of_set (set ids)))"

lemma position_of_inj:
  assumes "x \<in> set ids" and "y \<in> set ids"
  shows "position_of ids x = position_of ids y \<longleftrightarrow> x = y"
proof
  let ?l = "sorted_list_of_set (set ids)"
  assume "position_of ids x = position_of ids y"
  then have "?l ! position_of ids x = ?l ! position_of ids y" by (rule arg_cong)
  moreover have "?l ! position_of ids z = z" if "z \<in> set ids" for z
    using takeWhile_less_sorted [of ?l z] that by (simp add: position_of_def)
  ultimately show "x = y" using assms by metis
qed (rule arg_cong)

lemma unique_inverse_position: "unique_inverse ids = map (\<lambda>x. int (position_of ids x)) ids"
  by (simp add: unique_inverse_def position_of_def)

text \<open>
  When the labels of the prompts are strings not all of which parse as integers, two responses
  get the same group index exactly when they have the same label. For numbers this fails: labels
  that are not near integers are truncated, so that the prompts 1/5 and 7/10 become one group,
  although the documentation promises to number such labels.
\<close>

theorem torch_index_groups:
  assumes "s \<in> set ids" and "parse_int s = None" and "i < length ids" and "j < length ids"
  shows "(as_torch_index parse_int (StringLabels ids) ! i = as_torch_index parse_int (StringLabels ids) ! j \<longleftrightarrow> ids ! i = ids ! j) \<and>
         as_torch_index parse_int (RealLabels [1/5, 7/10]) = [0, 0]"
proof
  have "\<not> list_all (\<lambda>s. parse_int s \<noteq> None) ids" using assms(1,2) by (auto simp: list_all_iff)
  then show "as_torch_index parse_int (StringLabels ids) ! i = as_torch_index parse_int (StringLabels ids) ! j \<longleftrightarrow> ids ! i = ids ! j"
    using assms(3,4) by (simp add: as_torch_index_def unique_inverse_position position_of_inj)
  have "round (1/5 :: real) = 0" by (simp add: round_def floor_unique)
  moreover have "truncate_real (1/5) = 0" "truncate_real (7/10) = 0" by (simp_all add: truncate_real_def floor_unique)
  ultimately show "as_torch_index parse_int (RealLabels [1/5, 7/10]) = [0, 0]"
    by (simp add: as_torch_index_def near_integers_def)
qed

lemma torch_index_groups_witness:
  "\<not> as_torch_index (\<lambda>s. None) (StringLabels [''b'', ''a'', ''b'']) ! 0 = as_torch_index (\<lambda>s. None) (StringLabels [''b'', ''a'', ''b'']) ! 1"
  using torch_index_groups [of "''b''" "[''b'', ''a'', ''b'']" "\<lambda>s. None" 0 1] by simp

subsection \<open>The vectorized statistics\<close>

lemma index_add_nth: "k < n \<Longrightarrow> index_add n g vals ! k = sum_list (values_of (zip g vals) (int k))"
proof -
  have "(\<Sum>(j, v)\<leftarrow>ps. if j = int k then v else 0) = sum_list (values_of ps (int k))" for ps :: "(int \<times> real) list"
    by (induction ps) auto
  then show "k < n \<Longrightarrow> index_add n g vals ! k = sum_list (values_of (zip g vals) (int k))"
    by (simp add: index_add_def)
qed

lemma var_of_moments:
  assumes "xs \<noteq> []"
  shows "var_of xs = ((\<Sum>x\<leftarrow>xs. x * x) - sum_list xs * sum_list xs / real (length xs)) / (real (length xs) - 1)"
proof -
  let ?n = "real (length xs)" and ?m = "mean_of xs"
  have n: "?n \<noteq> 0" using assms by simp
  have "(\<Sum>x\<leftarrow>ys. (x - ?m) ^ 2) = (\<Sum>x\<leftarrow>ys. x * x) - 2 * ?m * sum_list ys + real (length ys) * ?m ^ 2" for ys
    by (induction ys) (auto simp: power2_eq_square algebra_simps)
  then have "(\<Sum>x\<leftarrow>xs. (x - ?m) ^ 2) = (\<Sum>x\<leftarrow>xs. x * x) - 2 * ?m * sum_list xs + ?n * ?m ^ 2" .
  also have "\<dots> = (\<Sum>x\<leftarrow>xs. x * x) - sum_list xs * sum_list xs / ?n"
    using n by (simp add: mean_of_def power2_eq_square field_simps)
  finally show ?thesis by (simp add: var_of_def)
qed

lemma values_of_zip_map: "values_of (zip g (map f vals)) k = map f (values_of (zip g vals) k)"
  by (induction g vals rule: list_induct2') auto

text \<open>What the vectorized statistics hold for the group of a response.\<close>

lemma group_mean_std_nth:
  assumes "length scores = length g" and "\<forall>j\<in>set g. 0 \<le> j" and "g \<noteq> []"
  obtains means stds counts where "group_mean_std scores g eps = Inr (means, stds, counts)"
    and "length means = length stds"
    and "\<And>j. j \<in> set g \<Longrightarrow> j < int (length means)"
    and "\<And>j vs. j \<in> set g \<Longrightarrow> vs = values_of (zip g scores) j \<Longrightarrow>
           (means ! nat j, stds ! nat j) = stat_or (0, 1) (\<lambda>vs. (mean_of vs, sqrt (max (var_of vs) eps))) vs"
proof -
  let ?G = "nat (Max (set g)) + 1"
  let ?count = "index_add ?G g (map (\<lambda>s. 1) scores)" and ?s1 = "index_add ?G g scores"
    and ?s2 = "index_add ?G g (map (\<lambda>s. s * s) scores)"
  let ?means = "map (\<lambda>k. if ?count ! k \<le> 1 then 0 else ?s1 ! k / max 1 (?count ! k)) [0..<?G]"
  let ?var = "\<lambda>k. (?s2 ! k - ?s1 ! k * ?s1 ! k / max 1 (?count ! k)) / max 1 (?count ! k - 1)"
  let ?stds = "map (\<lambda>k. if ?count ! k \<le> 1 then 1 else sqrt (max (?var k) eps)) [0..<?G]"
  have lt: "nat j < ?G" "0 \<le> j" if "j \<in> set g" for j
  proof -
    have "j \<le> Max (set g)" "0 \<le> j" using that assms(2) by auto
    then show "nat j < ?G" "0 \<le> j" by auto
  qed
  have "Max (set g) \<in> set g" using assms(3) by simp
  then have "Max (set g) \<noteq> - 1" using assms(2) by fastforce
  then have "group_mean_std scores g eps = Inr (?means, ?stds, ?count)"
    using assms by (simp add: group_mean_std_def Let_def comp_def del: upt_Suc cong: map_cong)
  moreover have "(?means ! nat j, ?stds ! nat j) = stat_or (0, 1) (\<lambda>vs. (mean_of vs, sqrt (max (var_of vs) eps))) vs"
    if j: "j \<in> set g" and vs: "vs = values_of (zip g scores) j" for j vs
  proof -
    have ne: "vs \<noteq> []"
    proof -
      obtain i where "i < length g" "g ! i = j" using j by (auto simp: in_set_conv_nth)
      then have "(j, scores ! i) \<in> set (zip g scores)" using assms(1) by (auto simp: set_zip)
      then show ?thesis unfolding vs values_of_eq_Nil by force
    qed
    have k: "int (nat j) = j" using lt(2) [OF j] by simp
    have c: "?count ! nat j = real (length vs)"
      using index_add_nth [OF lt(1) [OF j], of g "map (\<lambda>s. 1) scores"] k
      by (simp add: vs values_of_zip_map sum_list_triv)
    have s1: "?s1 ! nat j = sum_list vs" using index_add_nth [OF lt(1) [OF j], of g scores] k by (simp add: vs)
    have s2: "?s2 ! nat j = (\<Sum>x\<leftarrow>vs. x * x)"
      using index_add_nth [OF lt(1) [OF j], of g "map (\<lambda>s. s * s) scores"] k by (simp add: vs values_of_zip_map)
    have mns: "?means ! nat j = (if ?count ! nat j \<le> 1 then 0 else ?s1 ! nat j / max 1 (?count ! nat j))"
      using nth_map [of "nat j" "[0..<?G]"] lt(1) [OF j] by (simp del: upt_Suc)
    have sds: "?stds ! nat j = (if ?count ! nat j \<le> 1 then 1 else sqrt (max (?var (nat j)) eps))"
      using nth_map [of "nat j" "[0..<?G]"] lt(1) [OF j] by (simp del: upt_Suc)
    show ?thesis
    proof (cases "length vs = 1")
      case True
      then show ?thesis unfolding mns sds c by (simp add: stat_or_def)
    next
      case False
      then have n: "2 \<le> length vs" using ne by (cases vs; cases "tl vs") auto
      have "?var (nat j) = var_of vs"
        unfolding c s1 s2 using n var_of_moments [OF ne] by (simp add: max_def)
      then show ?thesis unfolding mns sds c s1 using n False by (simp add: stat_or_def mean_of_def max_def)
    qed
  qed
  moreover have "j < int (length ?means)" if "j \<in> set g" for j
  proof -
    have "length ?means = ?G" by (simp del: upt_Suc)
    then show ?thesis using lt [OF that] by linarith
  qed
  ultimately show thesis using that by (metis (no_types, lifting) length_map)
qed

text \<open>
  C14: The vectorized group-relative estimator equals the loop when the prompts are labelled by
  strings such as unique identifiers, provided that no group has a variance strictly between zero
  and the floor \<open>epsilon\<close>: only such groups are scaled differently.
\<close>

theorem grpo_vectorized_equals_loop:
  assumes "length ids = length rewards" and "s \<in> set ids" and "parse_int s = None" and "0 \<le> epsilon"
    and floor: "\<forall>i<length rewards. let vs = map (\<lambda>j. row_sums rewards ! j) (mates ids (length rewards) i)
                  in epsilon \<le> var_of vs \<or> (\<forall>x\<in>set vs. \<forall>y\<in>set vs. x = y)"
  shows "compute_grpo_vectorized_outcome_advantage parse_int rewards msk (StringLabels ids) epsilon by_std =
         compute_grpo_outcome_advantage rewards msk ids epsilon by_std"
proof -
  let ?s = "row_sums rewards" and ?n = "length rewards"
  define g where "g = map (\<lambda>x. int (position_of ids x)) ids"
  have g: "as_torch_index parse_int (StringLabels ids) = g"
    using assms(2,3) by (auto simp: as_torch_index_def unique_inverse_position g_def list_all_iff)
  have len: "length ?s = length g" "length ?s = length ids" using assms(1) by (simp_all add: g_def)
  have ne: "g \<noteq> []" and nonneg: "\<forall>j\<in>set g. 0 \<le> j" using assms(2) by (auto simp: g_def)
  obtain means stds counts where st: "group_mean_std ?s g epsilon = Inr (means, stds, counts)" "length means = length stds"
    "\<And>j. j \<in> set g \<Longrightarrow> j < int (length means)"
    "\<And>j vs. j \<in> set g \<Longrightarrow> vs = values_of (zip g ?s) j \<Longrightarrow>
       (means ! nat j, stds ! nat j) = stat_or (0, 1) (\<lambda>vs. (mean_of vs, sqrt (max (var_of vs) epsilon))) vs"
    using group_mean_std_nth [OF len(1) nonneg ne] by blast
  have gather: "gather_index xs g = Inr (map (\<lambda>j. xs ! nat j) g)" if "length xs = length means" for xs :: "real list"
    unfolding gather_index_def by (rule traverse_Inr_map) (use nonneg st(3) that in \<open>force simp: guard_res_def\<close>)
  let ?as = "if by_std then map2 (\<lambda>d sd. d / (sd + epsilon)) (map2 (-) ?s (map (\<lambda>j. means ! nat j) g)) (map (\<lambda>j. stds ! nat j) g)
             else map2 (-) ?s (map (\<lambda>j. means ! nat j) g)"
  have vec: "compute_grpo_vectorized_outcome_advantage parse_int rewards msk (StringLabels ids) epsilon by_std =
      Inr (broadcast_rows ?as msk, broadcast_rows ?as msk)"
    using st(1,2) gather [of means] gather [of stds]
    by (simp add: compute_grpo_vectorized_outcome_advantage_def Let_def g broadcast_outcome_def)
  have "?as = grpo_scores ids epsilon by_std ?s"
  proof (rule nth_equalityI)
    fix i
    assume "i < length ?as"
    then have i: "i < ?n" using len by (auto split: if_splits)
    let ?vs = "map (\<lambda>j. ?s ! j) (mates ids ?n i)"
    have "mates g ?n i = mates ids ?n i"
      unfolding mates_def by (rule filter_cong [OF refl]) (use i assms(1) in \<open>auto simp: g_def position_of_inj\<close>)
    then have vs: "?vs = values_of (zip g ?s) (g ! i)" using values_of_mates [of ?s g i] len by simp
    have "g ! i \<in> set g" using i len by simp
    from st(4) [OF this vs] have ms: "(means ! nat (g ! i), stds ! nat (g ! i)) =
        stat_or (0, 1) (\<lambda>vs. (mean_of vs, sqrt (max (var_of vs) epsilon))) ?vs" .
    have in_vs: "?s ! i \<in> set ?vs" using mates_self [OF i, of ids] by auto
    have fl: "epsilon \<le> var_of ?vs \<or> (\<forall>x\<in>set ?vs. \<forall>y\<in>set ?vs. x = y)" using floor i by (simp add: Let_def)
    have const: "?s ! i = mean_of ?vs" if "\<forall>x\<in>set ?vs. \<forall>y\<in>set ?vs. x = y"
    proof -
      have "?vs = replicate (length ?vs) (?s ! i)" using that in_vs by (metis replicate_eqI)
      then have "sum_list ?vs = real (length ?vs) * ?s ! i" by (metis sum_list_replicate)
      moreover have "length ?vs \<noteq> 0" using in_vs by auto
      ultimately show ?thesis by (simp add: mean_of_def)
    qed
    have lhs: "?as ! i = (if by_std then (?s ! i - means ! nat (g ! i)) / (stds ! nat (g ! i) + epsilon)
        else ?s ! i - means ! nat (g ! i))"
      using i len by simp
    have rhs: "grpo_scores ids epsilon by_std ?s ! i =
        (let st = stat_or (0, 1) (\<lambda>vs. (mean_of vs, std_of vs)) ?vs
         in if by_std then (?s ! i - fst st) / (snd st + epsilon) else ?s ! i - fst st)"
      using i by (simp add: grpo_scores_nth Let_def)
    show "?as ! i = grpo_scores ids epsilon by_std ?s ! i"
    proof (cases "length ?vs = 1")
      case True
      then show ?thesis using ms lhs rhs by (simp add: stat_or_def)
    next
      case False
      then have "means ! nat (g ! i) = mean_of ?vs" "stds ! nat (g ! i) = sqrt (max (var_of ?vs) epsilon)"
        using ms by (simp_all add: stat_or_def)
      then show ?thesis using lhs rhs False fl const by (auto simp: stat_or_def std_of_def max_def)
    qed
  qed (use len in \<open>simp add: grpo_scores_def\<close>)
  then show ?thesis using vec grpo_total [of rewards ids] assms(1) by simp
qed

lemma grpo_vectorized_equals_loop_witness:
  "compute_grpo_vectorized_outcome_advantage (\<lambda>s. None) [[1], [3], [5]] [[1], [1], [1]] (StringLabels [''p'', ''p'', ''q'']) (1 / 10 ^ 6) True =
   compute_grpo_outcome_advantage [[1], [3], [5]] [[1], [1], [1]] [''p'', ''p'', ''q''] (1 / 10 ^ 6) True"
proof (rule grpo_vectorized_equals_loop)
  show "''p'' \<in> set [''p'', ''p'', ''q'']" by simp
  show "\<forall>i<length [[1], [3], [5 :: real]]. let vs = map (\<lambda>j. row_sums [[1], [3], [5]] ! j) (mates [''p'', ''p'', ''q''] (length [[1], [3], [5 :: real]]) i)
          in 1 / 10 ^ 6 \<le> var_of vs \<or> (\<forall>x\<in>set vs. \<forall>y\<in>set vs. x = y)"
    by (simp add: mates_def row_sums_def var_of_def mean_of_def Let_def less_Suc_eq all_conj_distrib upt_rec)
qed simp_all

end
