(* ===== verification/PolicyLoss.thy ===== *)
theory PolicyLoss
  imports Tensor
begin

section \<open>Losses of the policy and of the value function\<close>

text \<open>
  Models the loss functions, the aggregation of losses and the penalties of
  \<open>src/verl/trainer/ppo/core_algos.py\<close>. Only values are modelled: detaching a tensor from the
  gradient is the identity. Tensors that are combined have the same shape.
\<close>

subsection \<open>Aggregation\<close>

record batch_info =
  dp_size :: nat
  batch_num_tokens :: "real option"
  global_batch_size :: "real option"
  loss_scale_factor :: "real option"

definition row_width :: "tensor \<Rightarrow> real" where
  "row_width m = (case m of [] \<Rightarrow> 0 | row # _ \<Rightarrow> real (length row))"

definition nonempty_rows :: "tensor \<Rightarrow> real list" where
  "nonempty_rows msk = map (\<lambda>row. if sum_list row > 0 then 1 else 0) msk"

definition global_size :: "batch_info \<Rightarrow> real option \<Rightarrow> real \<Rightarrow> real result" where
  "global_size info given local_size =
     (case given of
        Some n \<Rightarrow> Inr n
      | None \<Rightarrow> guard_res (\<not> dp_size info > 1) ValueError (Inr local_size))"

definition agg_loss :: "tensor \<Rightarrow> tensor \<Rightarrow> string \<Rightarrow> batch_info \<Rightarrow> real result" where
  "agg_loss loss_mat loss_mask mode info =
     (let d = real (dp_size info)
      in if mode = ''token-mean'' then
           bind_res (global_size info (batch_num_tokens info) (total_sum loss_mask)) (\<lambda>n.
             Inr (masked_sum loss_mat loss_mask / n * d))
         else if mode \<in> {''seq-mean-token-sum'', ''seq-mean-token-sum-norm''} then
           (let seq_losses = row_sums (map2t (*) loss_mat loss_mask); seq_mask = nonempty_rows loss_mask
            in bind_res (global_size info (global_batch_size info) (sum_list seq_mask)) (\<lambda>n.
               let loss = masked_sum [seq_losses] [seq_mask] / n * d
               in Inr (if mode = ''seq-mean-token-sum-norm''
                       then loss / (case loss_scale_factor info of None \<Rightarrow> row_width loss_mask | Some f \<Rightarrow> f)
                       else loss)))
         else if mode = ''seq-mean-token-mean'' then
           (let lengths = row_sums loss_mask;
                seq_losses = map2 (\<lambda>s l. s / (l + 1 / 10 ^ 8)) (row_sums (map2t (*) loss_mat loss_mask)) lengths;
                seq_mask = map (\<lambda>l. if l > 0 then 1 else 0) lengths
            in bind_res (global_size info (global_batch_size info) (sum_list seq_mask)) (\<lambda>n.
                 Inr (masked_sum [seq_losses] [seq_mask] / n * d)))
         else Inl ValueError)"

subsection \<open>Configuration and elementwise parts\<close>

record actor_config =
  clip_ratio :: real
  clip_ratio_low :: "real option"
  clip_ratio_high :: "real option"
  clip_ratio_c :: "real option"
  tau_pos :: real
  tau_neg :: real
  clip_cov_ratio :: "real option"
  clip_cov_lb :: "real option"
  clip_cov_ub :: "real option"
  kl_cov_ratio :: "real option"
  ppo_kl_coef :: "real option"
  global_batch_info :: batch_info

definition or_else :: "'v option \<Rightarrow> 'v \<Rightarrow> 'v" where
  "or_else x d = (case x of None \<Rightarrow> d | Some v \<Rightarrow> v)"

definition clip_low :: "actor_config \<Rightarrow> real" where
  "clip_low c = or_else (clip_ratio_low c) (clip_ratio c)"

definition clip_high :: "actor_config \<Rightarrow> real" where
  "clip_high c = or_else (clip_ratio_high c) (clip_ratio c)"

type_synonym loss_result = "(real \<times> (string \<times> real) list) result"

definition map3t :: "(real \<Rightarrow> real \<Rightarrow> real \<Rightarrow> real) \<Rightarrow> tensor \<Rightarrow> tensor \<Rightarrow> tensor \<Rightarrow> tensor" where
  "map3t f a b c = map (\<lambda>(ra, rb, rc). map (\<lambda>(x, y, z). f x y z) (zip ra (zip rb rc))) (zip a (zip b c))"

text \<open>The clamped difference of the log-probabilities, and its exponential.\<close>

definition approx_kl :: "real \<Rightarrow> real \<Rightarrow> real" where
  "approx_kl old_lp lp = clamp (- 20) 20 (lp - old_lp)"

definition policy_ratio :: "real \<Rightarrow> real \<Rightarrow> real" where
  "policy_ratio old_lp lp = exp (approx_kl old_lp lp)"

definition apply_weights :: "tensor option \<Rightarrow> tensor \<Rightarrow> tensor" where
  "apply_weights w losses = (case w of None \<Rightarrow> losses | Some ws \<Rightarrow> map2t (*) losses ws)"

definition flag :: "bool \<Rightarrow> real" where
  "flag b = (if b then 1 else 0)"

definition ppo_metrics :: "real \<Rightarrow> real \<Rightarrow> real \<Rightarrow> (string \<times> real) list" where
  "ppo_metrics clipfrac kl lower =
     [(''actor/pg_clipfrac'', clipfrac), (''actor/ppo_kl'', kl), (''actor/pg_clipfrac_lower'', lower)]"

definition require_config :: "actor_config option \<Rightarrow> (actor_config \<Rightarrow> 'x result) \<Rightarrow> 'x result" where
  "require_config config f = (case config of None \<Rightarrow> Inl AssertionError | Some c \<Rightarrow> f c)"

subsection \<open>Clipped losses\<close>

definition clipped_loss :: "real \<Rightarrow> real \<Rightarrow> real \<Rightarrow> real \<Rightarrow> real" where
  "clipped_loss low high a r = max (- a * r) (- a * clamp (1 - low) (1 + high) r)"

definition dual_clip_loss :: "real \<Rightarrow> real \<Rightarrow> real \<Rightarrow> real \<Rightarrow> real \<Rightarrow> real" where
  "dual_clip_loss low high c a r =
     (let clip1 = clipped_loss low high a r in if a < 0 then min (- a * c) clip1 else clip1)"

definition dual_clip_parts ::
  "tensor \<Rightarrow> tensor \<Rightarrow> tensor \<Rightarrow> tensor \<Rightarrow> real \<Rightarrow> real \<Rightarrow> real \<Rightarrow> tensor \<times> (string \<times> real) list" where
  "dual_clip_parts old_log_prob log_prob advantages msk low high c =
     (let losses = map3t (\<lambda>a o1 n. dual_clip_loss low high c a (policy_ratio o1 n)) advantages old_log_prob log_prob;
          kl = masked_mean (map2t (\<lambda>o1 n. - approx_kl o1 n) old_log_prob log_prob) msk;
          clipfrac = masked_mean (map3t (\<lambda>a o1 n. let r = policy_ratio o1 n
                        in flag (- a * clamp (1 - low) (1 + high) r > - a * r)) advantages old_log_prob log_prob) msk;
          lower = masked_mean (map3t (\<lambda>a o1 n. flag (clipped_loss low high a (policy_ratio o1 n) > - a * c) * flag (a < 0))
                        advantages old_log_prob log_prob) msk
      in (losses, ppo_metrics clipfrac kl lower))"

definition compute_policy_loss_vanilla ::
  "tensor \<Rightarrow> tensor \<Rightarrow> tensor \<Rightarrow> tensor \<Rightarrow> string \<Rightarrow> actor_config option \<Rightarrow> tensor option \<Rightarrow> loss_result" where
  "compute_policy_loss_vanilla old_log_prob log_prob advantages msk mode config weights =
     require_config config (\<lambda>cfg.
       let c = or_else (clip_ratio_c cfg) 3
       in guard_res (c > 1) AssertionError
            (let (losses, metrics) = dual_clip_parts old_log_prob log_prob advantages msk (clip_low cfg) (clip_high cfg) c
             in bind_res (agg_loss (apply_weights weights losses) msk mode (global_batch_info cfg)) (\<lambda>l.
                  Inr (l, metrics))))"

text \<open>The deprecated function takes the clip ranges as arguments; one that is missing fails in the arithmetic.\<close>

definition default_batch_info :: batch_info where
  "default_batch_info = \<lparr>dp_size = 1, batch_num_tokens = None, global_batch_size = None, loss_scale_factor = None\<rparr>"

definition first_given :: "real option \<Rightarrow> real option \<Rightarrow> real result" where
  "first_given x d = (case x of Some v \<Rightarrow> Inr v | None \<Rightarrow> (case d of Some v \<Rightarrow> Inr v | None \<Rightarrow> Inl TypeError))"

definition compute_policy_loss ::
  "tensor \<Rightarrow> tensor \<Rightarrow> tensor \<Rightarrow> tensor \<Rightarrow> real option \<Rightarrow> real option \<Rightarrow> real option \<Rightarrow> real \<Rightarrow> string \<Rightarrow> loss_result" where
  "compute_policy_loss old_log_prob log_prob advantages msk cliprange cliprange_low cliprange_high c mode =
     guard_res (c > 1) AssertionError (
     bind_res (first_given cliprange_low cliprange) (\<lambda>low.
     bind_res (first_given cliprange_high cliprange) (\<lambda>high.
     let (losses, metrics) = dual_clip_parts old_log_prob log_prob advantages msk low high c
     in bind_res (agg_loss losses msk mode default_batch_info) (\<lambda>l. Inr (l, metrics)))))"

definition compute_policy_loss_gspo ::
  "tensor \<Rightarrow> tensor \<Rightarrow> tensor \<Rightarrow> tensor \<Rightarrow> string \<Rightarrow> actor_config option \<Rightarrow> tensor option \<Rightarrow> loss_result" where
  "compute_policy_loss_gspo old_log_prob log_prob advantages msk mode config weights =
     require_config config (\<lambda>cfg.
       let kl = map2t (-) log_prob old_log_prob;
           seq_lengths = map (max 1) (row_sums msk);
           kl_seq = map2 (/) (row_sums (map2t (*) kl msk)) seq_lengths;
           ratios = map2 (\<lambda>row k. map (\<lambda>lp. exp (min 10 (lp - lp + k))) row) log_prob kl_seq;
           losses = map2t (clipped_loss (clip_low cfg) (clip_high cfg)) advantages ratios;
           clipfrac = masked_mean (map2t (\<lambda>a r. flag (- a * clamp (1 - clip_low cfg) (1 + clip_high cfg) r > - a * r))
                        advantages ratios) msk
       in bind_res (agg_loss (apply_weights weights losses) msk ''seq-mean-token-mean'' (global_batch_info cfg)) (\<lambda>l.
            Inr (l, ppo_metrics clipfrac (masked_mean (map (map uminus) kl) msk) 0)))"

definition sigmoid :: "real \<Rightarrow> real" where
  "sigmoid x = 1 / (1 + exp (- x))"

definition sapo_loss :: "actor_config \<Rightarrow> real \<Rightarrow> real \<Rightarrow> real" where
  "sapo_loss cfg a r = (let tau = (if a > 0 then tau_pos cfg else tau_neg cfg) in - (sigmoid (tau * (r - 1)) * (4 / tau)) * a)"

definition compute_policy_loss_sapo ::
  "tensor \<Rightarrow> tensor \<Rightarrow> tensor \<Rightarrow> tensor \<Rightarrow> string \<Rightarrow> actor_config option \<Rightarrow> tensor option \<Rightarrow> loss_result" where
  "compute_policy_loss_sapo old_log_prob log_prob advantages msk mode config weights =
     require_config config (\<lambda>cfg.
       let losses = map3t (\<lambda>a o1 n. sapo_loss cfg a (policy_ratio o1 n)) advantages old_log_prob log_prob
       in bind_res (agg_loss (apply_weights weights losses) msk ''seq-mean-token-mean'' (global_batch_info cfg)) (\<lambda>l.
            Inr (l, ppo_metrics 0 (masked_mean (map2t (\<lambda>o1 n. - approx_kl o1 n) old_log_prob log_prob) msk) 0)))"

definition compute_policy_loss_gpg ::
  "tensor \<Rightarrow> tensor \<Rightarrow> tensor \<Rightarrow> tensor \<Rightarrow> string \<Rightarrow> actor_config option \<Rightarrow> tensor option \<Rightarrow> loss_result" where
  "compute_policy_loss_gpg old_log_prob log_prob advantages msk mode config weights =
     require_config config (\<lambda>cfg.
       bind_res (agg_loss (apply_weights weights (map2t (\<lambda>lp a. - lp * a) log_prob advantages)) msk mode (global_batch_info cfg))
         (\<lambda>l. Inr (l, [])))"

definition compute_policy_loss_cispo ::
  "tensor \<Rightarrow> tensor \<Rightarrow> tensor \<Rightarrow> tensor \<Rightarrow> string \<Rightarrow> actor_config option \<Rightarrow> tensor option \<Rightarrow> loss_result" where
  "compute_policy_loss_cispo old_log_prob log_prob advantages msk mode config weights =
     require_config config (\<lambda>cfg.
       let clipped = (\<lambda>o1 n. clamp (1 - clip_low cfg) (1 + clip_high cfg) (policy_ratio o1 n));
           losses = map3t (\<lambda>a o1 n. - clipped o1 n * a * n) advantages old_log_prob log_prob;
           clipfrac = masked_mean (map2t (\<lambda>o1 n. flag (policy_ratio o1 n \<noteq> clipped o1 n)) old_log_prob log_prob) msk
       in bind_res (agg_loss (apply_weights weights losses) msk mode (global_batch_info cfg)) (\<lambda>l.
            Inr (l, ppo_metrics clipfrac (masked_mean (map2t (\<lambda>o1 n. - approx_kl o1 n) old_log_prob log_prob) msk) 0)))"

subsection \<open>Divergence-masked losses\<close>

text \<open>A token counts while its probability has not moved too far in the direction of its advantage.\<close>

definition dppo_parts ::
  "(real \<Rightarrow> real \<Rightarrow> real \<Rightarrow> bool) \<Rightarrow> tensor \<Rightarrow> tensor \<Rightarrow> tensor \<Rightarrow> tensor \<Rightarrow> string \<Rightarrow> actor_config option \<Rightarrow> tensor option \<Rightarrow>
   loss_result" where
  "dppo_parts valid old_log_prob log_prob advantages msk mode config weights =
     require_config config (\<lambda>cfg.
       let c = or_else (clip_ratio_c cfg) 20;
           losses = map3t (\<lambda>a o1 n. - a * min c (policy_ratio o1 n) * n * flag (valid a o1 n)) advantages old_log_prob log_prob;
           clipfrac = masked_mean (map3t (\<lambda>a o1 n. 1 - flag (valid a o1 n)) advantages old_log_prob log_prob) msk;
           lower = masked_mean (map3t (\<lambda>a o1 n. flag (policy_ratio o1 n > c) * flag (valid a o1 n)) advantages old_log_prob log_prob) msk;
           kl = masked_mean (map2t (\<lambda>o1 n. - approx_kl o1 n) old_log_prob log_prob) msk
       in bind_res (agg_loss (apply_weights weights losses) msk mode (global_batch_info cfg)) (\<lambda>l.
            Inr (l, ppo_metrics clipfrac kl lower)))"

definition tv_valid :: "real \<Rightarrow> real \<Rightarrow> real \<Rightarrow> real \<Rightarrow> real \<Rightarrow> bool" where
  "tv_valid low high a old_lp lp =
     (if a > 0 then exp lp - exp old_lp \<le> high else exp lp - exp old_lp \<ge> - low)"

definition binary_kl :: "real \<Rightarrow> real \<Rightarrow> real" where
  "binary_kl old_lp lp =
     exp old_lp * (old_lp - lp) + (1 - exp old_lp) * ln ((1 - exp old_lp + 1 / 10 ^ 8) / (1 - exp lp + 1 / 10 ^ 8))"

definition kl_valid :: "real \<Rightarrow> real \<Rightarrow> real \<Rightarrow> real \<Rightarrow> real \<Rightarrow> bool" where
  "kl_valid low high a old_lp lp =
     (if a > 0 then binary_kl old_lp lp \<le> high \<or> exp lp \<le> exp old_lp
      else binary_kl old_lp lp \<le> low \<or> exp lp \<ge> exp old_lp)"

definition with_clip_range :: "(real \<Rightarrow> real \<Rightarrow> real \<Rightarrow> real \<Rightarrow> real \<Rightarrow> bool) \<Rightarrow> actor_config option \<Rightarrow> real \<Rightarrow> real \<Rightarrow> real \<Rightarrow> bool" where
  "with_clip_range valid config = (case config of None \<Rightarrow> valid 0 0 | Some c \<Rightarrow> valid (clip_low c) (clip_high c))"

definition compute_policy_loss_dppo_tv ::
  "tensor \<Rightarrow> tensor \<Rightarrow> tensor \<Rightarrow> tensor \<Rightarrow> string \<Rightarrow> actor_config option \<Rightarrow> tensor option \<Rightarrow> loss_result" where
  "compute_policy_loss_dppo_tv old_log_prob log_prob advantages msk mode config weights =
     dppo_parts (with_clip_range tv_valid config) old_log_prob log_prob advantages msk mode config weights"

definition compute_policy_loss_dppo_kl ::
  "tensor \<Rightarrow> tensor \<Rightarrow> tensor \<Rightarrow> tensor \<Rightarrow> string \<Rightarrow> actor_config option \<Rightarrow> tensor option \<Rightarrow> loss_result" where
  "compute_policy_loss_dppo_kl old_log_prob log_prob advantages msk mode config weights =
     dppo_parts (with_clip_range kl_valid config) old_log_prob log_prob advantages msk mode config weights"

subsection \<open>Covariance-based losses\<close>

text \<open>
  \<open>nonzero\<close> lists the positions where a condition holds, row by row. The random permutation and
  the choice of the largest values are functions of the tensor library and are arguments.
\<close>

definition nonzero :: "(nat \<Rightarrow> nat \<Rightarrow> bool) \<Rightarrow> tensor \<Rightarrow> (nat \<times> nat) list" where
  "nonzero p m = concat (map (\<lambda>i. map (Pair i) (filter (p i) [0..<length (m ! i)])) [0..<length m])"

definition where_at :: "(nat \<times> nat) list \<Rightarrow> tensor \<Rightarrow> tensor \<Rightarrow> tensor" where
  "where_at idx new old =
     map (\<lambda>i. map (\<lambda>j. if (i, j) \<in> set idx then new ! i ! j else old ! i ! j) [0..<length (old ! i)]) [0..<length old]"

definition clip_by_origin :: "real \<Rightarrow> real \<Rightarrow> real \<Rightarrow> real \<Rightarrow> real \<Rightarrow> bool" where
  "clip_by_origin low high a r k \<longleftrightarrow> - a * clamp (1 - low) (1 + high) r > - a * r \<and> k > 0"

definition token_cov :: "tensor \<Rightarrow> tensor \<Rightarrow> tensor \<Rightarrow> tensor" where
  "token_cov advantages log_prob msk =
     map2t (\<lambda>a lp. (a - masked_mean advantages msk) * (lp - masked_mean log_prob msk)) advantages log_prob"

definition cov_candidates :: "real \<Rightarrow> real \<Rightarrow> real \<Rightarrow> real \<Rightarrow> tensor \<Rightarrow> tensor \<Rightarrow> tensor \<Rightarrow> tensor \<Rightarrow> (nat \<times> nat) list" where
  "cov_candidates low high lb ub ratio log_prob advantages msk =
     nonzero (\<lambda>i j. let cov = token_cov advantages log_prob msk ! i ! j
                    in \<not> clip_by_origin low high (advantages ! i ! j) (ratio ! i ! j) (msk ! i ! j) \<and>
                       cov < ub \<and> cov > lb \<and> msk ! i ! j > 0) msk"

definition cov_clipped :: "(nat \<Rightarrow> nat list) \<Rightarrow> nat \<Rightarrow> (nat \<times> nat) list \<Rightarrow> (nat \<times> nat) list" where
  "cov_clipped randperm clip_num idx =
     (if length idx > 0 then map (\<lambda>q. idx ! q) (take (min clip_num (length idx)) (randperm (length idx))) else [])"

definition compute_policy_loss_clip_cov ::
  "(nat \<Rightarrow> nat list) \<Rightarrow> tensor \<Rightarrow> tensor \<Rightarrow> tensor \<Rightarrow> tensor \<Rightarrow> string \<Rightarrow> actor_config option \<Rightarrow> tensor option \<Rightarrow>
   loss_result" where
  "compute_policy_loss_clip_cov randperm old_log_prob log_prob advantages msk mode config weights =
     require_config config (\<lambda>cfg.
       let cov_ratio = or_else (clip_cov_ratio cfg) (2 / 10 ^ 4);
           low = clip_low cfg; high = clip_high cfg;
           ub = or_else (clip_cov_ub cfg) 5; lb = or_else (clip_cov_lb cfg) 1
       in guard_res (cov_ratio > 0) AssertionError (
          let ratio = map2t (\<lambda>o1 n. exp (n - o1)) old_log_prob log_prob;
              kl = masked_mean (map2t (\<lambda>o1 n. - (n - o1)) old_log_prob log_prob) msk;
              clip_num = max (nat \<lfloor>cov_ratio * total_sum msk\<rfloor>) 1;
              clipped = cov_clipped randperm clip_num (cov_candidates low high lb ub ratio log_prob advantages msk);
              corr = where_at clipped (map (map (\<lambda>x. 0)) advantages) (map (map (\<lambda>x. 1)) advantages);
              losses = map2t (*) (map2t (clipped_loss low high) advantages ratio) corr
          in bind_res (agg_loss (apply_weights weights losses) msk mode (global_batch_info cfg)) (\<lambda>l.
               Inr (l, [(''actor/pg_clipfrac'', masked_mean (map (map (\<lambda>x. flag (x = 0))) corr) msk),
                        (''actor/ppo_kl'', kl)]))))"

definition list_mean :: "real list \<Rightarrow> real" where
  "list_mean xs = sum_list xs / real (length xs)"

text \<open>The tokens whose loss gets the penalty: as many as the ratio asks for, and at least one.\<close>

definition large_cov :: "(real list \<Rightarrow> nat \<Rightarrow> nat list) \<Rightarrow> real \<Rightarrow> tensor \<Rightarrow> tensor \<Rightarrow> tensor \<Rightarrow> (nat \<times> nat) list result" where
  "large_cov topk cov_ratio log_prob advantages msk =
     (let valid = nonzero (\<lambda>i j. msk ! i ! j > 0) msk;
          adv = map (\<lambda>(i, j). advantages ! i ! j) valid;
          logp = map (\<lambda>(i, j). log_prob ! i ! j) valid
      in if min cov_ratio (real (length adv)) = 0 then Inr []
         else (let cov = map2 (\<lambda>a lp. (a - list_mean adv) * (lp - list_mean logp)) adv logp;
                   k = max 1 (nat \<lfloor>real (length cov) * cov_ratio\<rfloor>)
               in guard_res (k \<le> length cov) RuntimeError (Inr (map (\<lambda>q. valid ! q) (topk cov k)))))"

definition compute_policy_loss_kl_cov ::
  "(real list \<Rightarrow> nat \<Rightarrow> nat list) \<Rightarrow> tensor \<Rightarrow> tensor \<Rightarrow> tensor \<Rightarrow> tensor \<Rightarrow> string \<Rightarrow> actor_config option \<Rightarrow> tensor option \<Rightarrow>
   loss_result" where
  "compute_policy_loss_kl_cov topk old_log_prob log_prob advantages msk mode config weights =
     require_config config (\<lambda>cfg.
       let cov_ratio = or_else (kl_cov_ratio cfg) (2 / 10 ^ 4); kl_coef = or_else (ppo_kl_coef cfg) 1
       in guard_res (cov_ratio > 0) AssertionError (
          let losses1 = map3t (\<lambda>a o1 n. - a * exp (n - o1)) advantages old_log_prob log_prob;
              losses_kl = map3t (\<lambda>a o1 n. - a * exp (n - o1) + kl_coef * \<bar>n - o1\<bar>) advantages old_log_prob log_prob
          in bind_res (large_cov topk cov_ratio log_prob advantages msk) (\<lambda>idx.
             bind_res (agg_loss (apply_weights weights (where_at idx losses_kl losses1)) msk mode (global_batch_info cfg)) (\<lambda>l.
               Inr (l, [(''actor/ppo_kl'', masked_mean (map2t (\<lambda>o1 n. \<bar>n - o1\<bar>) old_log_prob log_prob) msk)])))))"

subsection \<open>Geometric-mean loss and REINFORCE\<close>

definition geo_clipped_kl :: "real \<Rightarrow> real \<Rightarrow> real \<Rightarrow> real \<Rightarrow> real" where
  "geo_clipped_kl low high a k = sgn a * min (sgn a * k) (sgn a * clamp (- low) high k)"

definition row_mean :: "tensor \<Rightarrow> tensor \<Rightarrow> real list" where
  "row_mean v msk = map2 (\<lambda>s l. s / (l + 1 / 10 ^ 8)) (row_sums (map2t (*) v msk)) (row_sums msk)"

definition compute_policy_loss_geo_mean ::
  "tensor \<Rightarrow> tensor \<Rightarrow> tensor \<Rightarrow> tensor \<Rightarrow> actor_config option \<Rightarrow> tensor option \<Rightarrow> loss_result" where
  "compute_policy_loss_geo_mean old_log_prob log_prob advantages msk config weights =
     require_config config (\<lambda>cfg.
       let low = clip_low cfg; high = clip_high cfg;
           kl = map2t (-) log_prob old_log_prob;
           ratio = map exp (row_mean (map2t (geo_clipped_kl low high) advantages kl) msk);
           losses = map2 (\<lambda>a r. - a * r) (row_mean advantages msk) ratio;
           weighted = (case weights of None \<Rightarrow> losses
              | Some ws \<Rightarrow> map2 (*) losses (map exp (row_mean (map (map (\<lambda>w. ln (w + 1 / 10 ^ 10))) ws) msk)));
           clipped = (\<lambda>k. flag (k \<noteq> clamp (- low) high k));
           clipfrac = masked_mean (map2t (\<lambda>a k. clipped k * flag (a > 0)) advantages kl) msk;
           lower = masked_mean (map2t (\<lambda>a k. clipped k * flag (a < 0)) advantages kl) msk
       in Inr (list_mean weighted, ppo_metrics clipfrac (masked_mean (map (map uminus) kl) msk) lower))"

definition compute_policy_loss_reinforce ::
  "tensor \<Rightarrow> tensor \<Rightarrow> tensor \<Rightarrow> tensor \<Rightarrow> string \<Rightarrow> actor_config option \<Rightarrow> tensor option \<Rightarrow> loss_result" where
  "compute_policy_loss_reinforce rollout_log_prob log_prob advantages msk mode config weights =
     require_config config (\<lambda>cfg.
       bind_res (agg_loss (apply_weights weights (map2t (\<lambda>a lp. - a * lp) advantages log_prob)) msk mode (global_batch_info cfg)) (\<lambda>l.
         Inr (l, [(''actor/ppo_kl'', masked_mean (map2t (\<lambda>o1 n. - (n - o1)) rollout_log_prob log_prob) msk)])))"

subsection \<open>Value loss\<close>

definition compute_value_loss :: "tensor \<Rightarrow> tensor \<Rightarrow> tensor \<Rightarrow> tensor \<Rightarrow> real \<Rightarrow> string \<Rightarrow> (real \<times> real) result" where
  "compute_value_loss vpreds returns vals msk cliprange_value mode =
     (let vpredclipped = clip_by_value vpreds (map (map (\<lambda>v. v - cliprange_value)) vals) (map (map (\<lambda>v. v + cliprange_value)) vals);
          losses1 = map2t (\<lambda>v r. (v - r) ^ 2) vpreds returns;
          losses2 = map2t (\<lambda>v r. (v - r) ^ 2) vpredclipped returns
      in bind_res (agg_loss (map2t max losses1 losses2) msk mode default_batch_info) (\<lambda>l.
           Inr (1 / 2 * l, masked_mean (map2t (\<lambda>x y. flag (y > x)) losses1 losses2) msk)))"

subsection \<open>Aggregation over micro-batches and ranks\<close>

text \<open>
  Each mode divides a sum over the tokens or sequences of the batch by a count; the sum is
  additive in the rows.
\<close>

definition agg_modes :: "string set" where
  "agg_modes = {''token-mean'', ''seq-mean-token-sum'', ''seq-mean-token-sum-norm'', ''seq-mean-token-mean''}"

definition agg_numerator :: "string \<Rightarrow> tensor \<Rightarrow> tensor \<Rightarrow> real" where
  "agg_numerator mode l m =
     (if mode = ''token-mean'' then masked_sum l m
      else if mode = ''seq-mean-token-mean''
      then masked_sum [map2 (\<lambda>s n. s / (n + 1 / 10 ^ 8)) (row_sums (map2t (*) l m)) (row_sums m)] [nonempty_rows m]
      else masked_sum [row_sums (map2t (*) l m)] [nonempty_rows m])"

definition agg_count :: "string \<Rightarrow> tensor \<Rightarrow> real" where
  "agg_count mode m = (if mode = ''token-mean'' then total_sum m else sum_list (nonempty_rows m))"

definition agg_scale :: "string \<Rightarrow> real option \<Rightarrow> real" where
  "agg_scale mode f = (if mode = ''seq-mean-token-sum-norm'' then or_else f 1 else 1)"

lemma nonempty_rows_row_sums: "map (\<lambda>l. if l > 0 then 1 else 0) (row_sums m) = nonempty_rows m"
  by (simp add: nonempty_rows_def row_sums_def comp_def)

lemma agg_loss_form:
  assumes "mode \<in> agg_modes"
    and "mode = ''token-mean'' \<Longrightarrow> global_size info (batch_num_tokens info) (agg_count mode m) = Inr n"
    and "mode \<noteq> ''token-mean'' \<Longrightarrow> global_size info (global_batch_size info) (agg_count mode m) = Inr n"
    and "mode = ''seq-mean-token-sum-norm'' \<Longrightarrow> loss_scale_factor info \<noteq> None"
  shows "agg_loss l m mode info =
           Inr (agg_numerator mode l m / n * real (dp_size info) / agg_scale mode (loss_scale_factor info))"
  using assms
  by (auto simp: agg_modes_def agg_loss_def agg_numerator_def agg_count_def agg_scale_def or_else_def Let_def
      nonempty_rows_row_sums)

lemma masked_sum_single: "masked_sum [xs] [ys] = sum_list (map2 masked_product xs ys)"
  by (simp add: masked_sum_def total_sum_def row_sums_def map2t_def)

lemma agg_numerator_append:
  assumes "length l = length m" and "length l' = length m'"
  shows "agg_numerator mode (l @ l') (m @ m') = agg_numerator mode l m + agg_numerator mode l' m'"
  using assms
  by (simp add: agg_numerator_def masked_sum_append masked_sum_single map2t_append row_sums_def nonempty_rows_def)

lemma agg_numerator_concat:
  assumes "\<And>l m. (l, m) \<in> set parts \<Longrightarrow> length l = length m"
  shows "agg_numerator mode (concat (map fst parts)) (concat (map snd parts)) =
           sum_list (map (\<lambda>(l, m). agg_numerator mode l m) parts)"
  using assms
proof (induction parts)
  case Nil
  then show ?case by (simp add: agg_numerator_def masked_sum_single masked_sum_def map2t_def row_sums_def nonempty_rows_def
      total_sum_def)
next
  case (Cons p parts)
  then have eq: "length (concat (map fst parts)) = length (concat (map snd parts))"
    by (auto simp: length_concat intro!: arg_cong [where f = sum_list] split: prod.splits)
  then show ?case using Cons by (cases p) (simp add: agg_numerator_append)
qed

lemma sum_list_scaled: "(\<Sum>(x, y)\<leftarrow>ps. f x y * (k :: real)) = (\<Sum>(x, y)\<leftarrow>ps. f x y) * k"
  by (induction ps) (auto simp: algebra_simps)

definition global_info :: "nat \<Rightarrow> tensor \<Rightarrow> real option \<Rightarrow> batch_info" where
  "global_info d whole_mask factor =
     \<lparr>dp_size = d, batch_num_tokens = Some (total_sum whole_mask),
      global_batch_size = Some (sum_list (nonempty_rows whole_mask)), loss_scale_factor = factor\<rparr>"

definition local_info :: "nat \<Rightarrow> real option \<Rightarrow> batch_info" where
  "local_info d factor =
     \<lparr>dp_size = d, batch_num_tokens = None, global_batch_size = None, loss_scale_factor = factor\<rparr>"

lemma agg_loss_local: "mode \<in> agg_modes \<Longrightarrow> 1 < d \<Longrightarrow> agg_loss l m mode (local_info d f) = Inl ValueError"
  by (auto simp: agg_modes_def agg_loss_def local_info_def global_size_def guard_res_def Let_def)

text \<open>
  C15: The loss does not depend on how a batch is cut up. When the rows of a batch are distributed
  over micro-batches on \<open>d\<close> ranks and every call gets the counts of the whole batch, the sum
  of the losses of all micro-batches, averaged over the ranks, is the loss one call computes for
  the whole batch, in each of the modes. Without the counts of the whole batch the call fails
  on more than one rank. The mode with a fixed norm needs the scale factor, since the width of
  a micro-batch may differ from the width of the batch.
\<close>

theorem agg_loss_independent_of_sharding:
  assumes "mode \<in> agg_modes" and "0 < d"
    and "mode = ''seq-mean-token-sum-norm'' \<Longrightarrow> factor \<noteq> None"
    and "\<And>l m. (l, m) \<in> set parts \<Longrightarrow> length l = length m"
  shows "\<exists>losses w.
    traverse (\<lambda>(l, m). agg_loss l m mode (global_info d (concat (map snd parts)) factor)) parts = Inr losses \<and>
    agg_loss (concat (map fst parts)) (concat (map snd parts)) mode (local_info 1 factor) = Inr w \<and>
    sum_list losses / real d = w \<and>
    (1 < d \<longrightarrow> (\<forall>l m. agg_loss l m mode (local_info d factor) = Inl ValueError))"
proof -
  define whole where "whole = concat (map snd parts)"
  define c where "c = agg_count mode whole * agg_scale mode factor"
  have part: "agg_loss l m mode (global_info d whole factor) = Inr (agg_numerator mode l m * (real d / c))" for l m
    using agg_loss_form [of mode "global_info d whole factor" m "agg_count mode whole" l] assms(1,3)
    by (simp add: global_info_def global_size_def agg_count_def c_def)
  then have losses: "traverse (\<lambda>(l, m). agg_loss l m mode (global_info d whole factor)) parts =
      Inr (map (\<lambda>(l, m). agg_numerator mode l m * (real d / c)) parts)"
    by (induction parts) auto
  have all: "agg_loss (concat (map fst parts)) whole mode (local_info 1 factor) =
      Inr (agg_numerator mode (concat (map fst parts)) whole / c)"
    using agg_loss_form [of mode "local_info 1 factor" whole "agg_count mode whole" "concat (map fst parts)"] assms(1,3)
    by (simp add: local_info_def global_size_def guard_res_def c_def)
  have "agg_numerator mode (concat (map fst parts)) whole = sum_list (map (\<lambda>(l, m). agg_numerator mode l m) parts)"
    unfolding whole_def using assms(4) by (rule agg_numerator_concat)
  then have "sum_list (map (\<lambda>(l, m). agg_numerator mode l m * (real d / c)) parts) =
      agg_numerator mode (concat (map fst parts)) whole * (real d / c)"
    by (simp add: sum_list_scaled del: times_divide_eq_right)
  then have "sum_list (map (\<lambda>(l, m). agg_numerator mode l m * (real d / c)) parts) / real d =
      agg_numerator mode (concat (map fst parts)) whole / c"
    using assms(2) by simp
  then show ?thesis using losses all agg_loss_local [OF assms(1)] unfolding whole_def by blast
qed

theorem agg_loss_independent_of_sharding_witness:
  "\<exists>losses w parts. parts = [([[1, 2]], [[1, 0]]), ([[3, 4], [5, 6]], [[1, 1], [0, 0]])] \<and>
    traverse (\<lambda>(l, m). agg_loss l m ''seq-mean-token-mean'' (global_info 2 (concat (map snd parts)) None)) parts = Inr losses \<and>
    agg_loss (concat (map fst parts)) (concat (map snd parts)) ''seq-mean-token-mean'' (local_info 1 None) = Inr w \<and>
    sum_list losses / 2 = w"
proof -
  define parts :: "(tensor \<times> tensor) list" where "parts = [([[1, 2]], [[1, 0]]), ([[3, 4], [5, 6]], [[1, 1], [0, 0]])]"
  have "\<And>l m. (l, m) \<in> set parts \<Longrightarrow> length l = length m" by (auto simp: parts_def)
  then have "\<exists>losses w.
    traverse (\<lambda>(l, m). agg_loss l m ''seq-mean-token-mean'' (global_info 2 (concat (map snd parts)) None)) parts = Inr losses \<and>
    agg_loss (concat (map fst parts)) (concat (map snd parts)) ''seq-mean-token-mean'' (local_info 1 None) = Inr w \<and>
    sum_list losses / real 2 = w \<and> (1 < (2::nat) \<longrightarrow> (\<forall>l m. agg_loss l m ''seq-mean-token-mean'' (local_info 2 None) = Inl ValueError))"
    by (intro agg_loss_independent_of_sharding) (simp_all add: agg_modes_def)
  then show ?thesis unfolding parts_def by (metis of_nat_numeral)
qed

subsection \<open>Bounds of the clipped loss\<close>

lemma masked_sum_bounds:
  assumes "mask_ok m" and "same_shape v m" and "\<And>row x. row \<in> set v \<Longrightarrow> x \<in> set row \<Longrightarrow> lo \<le> x \<and> x \<le> hi"
  shows "lo * total_sum m \<le> masked_sum v m \<and> masked_sum v m \<le> hi * total_sum m"
proof -
  have row: "lo * sum_list b \<le> sum_list (map2 masked_product a b) \<and> sum_list (map2 masked_product a b) \<le> hi * sum_list b"
    if "length a = length b" "\<forall>x\<in>set b. x = 0 \<or> x = 1" "\<forall>x\<in>set a. lo \<le> x \<and> x \<le> hi" for a b
    using that by (induction a b rule: list_induct2) (auto simp: algebra_simps)
  have "length v = length m" using assms(2) by (rule same_shapeD)
  then show ?thesis using assms
  proof (induction v m rule: list_induct2)
    case (Cons a v b m)
    have "lo * sum_list b \<le> sum_list (map2 masked_product a b) \<and> sum_list (map2 masked_product a b) \<le> hi * sum_list b"
      using Cons.prems by (intro row) (auto simp: same_shape_def mask_ok_def)
    moreover have "lo * total_sum m \<le> masked_sum v m \<and> masked_sum v m \<le> hi * total_sum m"
      using Cons.prems by (intro Cons.IH) (auto simp: same_shape_def mask_ok_def)
    ultimately show ?case
      by (auto simp: masked_sum_def total_sum_def row_sums_def map2t_def algebra_simps)
  qed (simp add: masked_sum_def map2t_def)
qed

lemma policy_ratio_pos [simp]: "0 < policy_ratio o1 n"
  by (simp add: policy_ratio_def)

lemma policy_ratio_same [simp]: "policy_ratio x x = 1"
  by (simp add: policy_ratio_def approx_kl_def clamp_def)

lemma clamp_bounds: "lo \<le> hi \<Longrightarrow> lo \<le> clamp lo hi x \<and> clamp lo hi x \<le> hi"
  by (simp add: clamp_def)

lemma dual_clip_pos:
  assumes "0 \<le> a" and "0 < r" and "0 \<le> low" and "low \<le> 1" and "0 \<le> high"
  shows "- a * (1 + high) \<le> dual_clip_loss low high c a r \<and> dual_clip_loss low high c a r \<le> 0"
proof -
  have k: "0 \<le> clamp (1 - low) (1 + high) r" "clamp (1 - low) (1 + high) r \<le> 1 + high"
    using clamp_bounds [of "1 - low" "1 + high" r] assms by auto
  then have "a * clamp (1 - low) (1 + high) r \<le> a * (1 + high)" "0 \<le> a * clamp (1 - low) (1 + high) r" "0 \<le> a * r"
    using assms by (auto intro: mult_left_mono)
  then show ?thesis using assms(1) by (simp add: dual_clip_loss_def clipped_loss_def le_max_iff_disj)
qed

lemma dual_clip_neg:
  assumes "a < 0" and "0 < r" and "0 < c"
  shows "0 \<le> dual_clip_loss low high c a r \<and> dual_clip_loss low high c a r \<le> - a * c"
proof -
  have "0 \<le> - a * c" "0 \<le> - a * r" using assms by (auto intro: mult_nonpos_nonneg)
  then show ?thesis using assms(1) by (simp add: dual_clip_loss_def clipped_loss_def le_max_iff_disj)
qed

lemma dual_clip_on_policy: "0 \<le> low \<Longrightarrow> 0 \<le> high \<Longrightarrow> 1 < c \<Longrightarrow> dual_clip_loss low high c a 1 = - a"
  using mult_less_cancel_left [of a 1 c] by (simp add: dual_clip_loss_def clipped_loss_def clamp_def min_def Let_def)

lemma dual_clip_bounds:
  assumes "\<bar>a\<bar> \<le> b" and "0 < r" and "0 \<le> low" and "low \<le> 1" and "0 \<le> high" and "1 < c"
  shows "- (b * (1 + high)) \<le> dual_clip_loss low high c a r \<and> dual_clip_loss low high c a r \<le> b * c"
proof (cases "a < 0")
  case True
  have "- a * c \<le> b * c" "0 \<le> b * (1 + high)" using assms mult_right_mono [of "- a" b c] by auto
  then show ?thesis using dual_clip_neg [OF True assms(2), of c low high] assms(6) by linarith
next
  case False
  have "a * (1 + high) \<le> b * (1 + high)" "0 \<le> b * c" using assms by (auto intro: mult_right_mono)
  moreover have "- a * (1 + high) \<le> dual_clip_loss low high c a r \<and> dual_clip_loss low high c a r \<le> 0"
    using assms False by (intro dual_clip_pos) auto
  ultimately show ?thesis by (simp add: algebra_simps)
qed

lemma map3t_elem:
  "row \<in> set (map3t f a b c) \<Longrightarrow> x \<in> set row \<Longrightarrow> \<exists>ra\<in>set a. \<exists>y\<in>set ra. \<exists>z w. x = f y z w"
  by (fastforce simp: map3t_def dest: set_zip_leftD)

lemma map3t_shape: "same_shape a b \<Longrightarrow> same_shape a c \<Longrightarrow> same_shape (map3t f a b c) a"
  unfolding same_shape_def
proof (induction a arbitrary: b c)
  case (Cons r a)
  then obtain rb b' rc c' where "b = rb # b'" "c = rc # c'" by (metis map_eq_Cons_D list.simps(9))
  then show ?case using Cons by (auto simp: map3t_def)
qed (simp add: map3t_def)

lemma zip_self: "zip xs xs = map (\<lambda>x. (x, x)) xs"
  by (induction xs) auto

lemma map3t_same:
  assumes "same_shape a b" and "\<And>y z. f y z z = g y"
  shows "map3t f a b b = map (map g) a"
proof -
  have row: "map (\<lambda>(x, y, z). f x y z) (zip ra (zip rb rb)) = map g ra" if "length ra = length rb" for ra rb
    using that by (induction ra rb rule: list_induct2) (auto simp: assms(2))
  have "length a = length b" using assms(1) by (rule same_shapeD)
  then show ?thesis using assms(1)
    by (induction a b rule: list_induct2) (auto simp: map3t_def same_shape_def row)
qed

lemma masked_sum_uminus: "same_shape v m \<Longrightarrow> masked_sum (map (map uminus) v) m = - masked_sum v m"
proof -
  have row: "length a = length b \<Longrightarrow> sum_list (map2 masked_product (map uminus a) b) = - sum_list (map2 masked_product a b)" for a b
    by (induction a b rule: list_induct2) (auto simp: masked_product_times)
  assume shape: "same_shape v m"
  then have "length v = length m" by (rule same_shapeD)
  then show ?thesis using shape
    by (induction v m rule: list_induct2)
      (auto simp: masked_sum_def total_sum_def row_sums_def map2t_def same_shape_def row)
qed

text \<open>
  The clipped loss is bounded. With the token mean over at least one kept token and
  advantages of size at most \<open>b\<close>, the loss lies between \<open>- b (1 + high)\<close> and \<open>b c\<close>, however far
  the policy has moved: the upper clip range bounds the gain of a good token, the dual clip the
  loss of a bad one. On the policy that generated the batch it is minus the mean advantage and no token is clipped.
  A dual-clip constant of at most one, and a missing configuration, are errors.
\<close>

theorem vanilla_loss_bounded:
  assumes "same_shape advantages old_lp" and "same_shape advantages lp" and "same_shape advantages msk"
    and "mask_ok msk" and "0 < total_sum msk" and "\<forall>row\<in>set advantages. \<forall>a\<in>set row. \<bar>a\<bar> \<le> b"
    and "global_batch_info cfg = default_batch_info"
    and "0 \<le> clip_low cfg" and "clip_low cfg \<le> 1" and "0 \<le> clip_high cfg"
    and "c = or_else (clip_ratio_c cfg) 3"
  shows "if c > 1
    then (\<exists>l metrics. compute_policy_loss_vanilla old_lp lp advantages msk ''token-mean'' (Some cfg) None = Inr (l, metrics) \<and>
      - (b * (1 + clip_high cfg)) \<le> l \<and> l \<le> b * c \<and>
      (lp = old_lp \<longrightarrow> l = - masked_sum advantages msk / total_sum msk \<and> map_of metrics ''actor/pg_clipfrac'' = Some 0)) \<and>
      compute_policy_loss_vanilla old_lp lp advantages msk ''token-mean'' None None = Inl AssertionError
    else compute_policy_loss_vanilla old_lp lp advantages msk ''token-mean'' (Some cfg) None = Inl AssertionError"
proof (cases "c > 1")
  case True
  define losses where "losses = map3t (\<lambda>a o1 n. dual_clip_loss (clip_low cfg) (clip_high cfg) c a (policy_ratio o1 n)) advantages old_lp lp"
  define l where "l = masked_sum losses msk / total_sum msk"
  obtain metrics where parts: "dual_clip_parts old_lp lp advantages msk (clip_low cfg) (clip_high cfg) c = (losses, metrics)"
    by (simp add: dual_clip_parts_def losses_def Let_def)
  have loss: "compute_policy_loss_vanilla old_lp lp advantages msk ''token-mean'' (Some cfg) None = Inr (l, metrics)"
    using True parts assms(7,11)
    by (simp add: compute_policy_loss_vanilla_def require_config_def Let_def agg_loss_def global_size_def
        default_batch_info_def guard_res_def apply_weights_def l_def)
  have shape: "same_shape losses msk"
    using map3t_shape [OF assms(1,2)] assms(3) unfolding losses_def same_shape_def by metis
  have "- (b * (1 + clip_high cfg)) \<le> x \<and> x \<le> b * c" if row: "row \<in> set losses" "x \<in> set row" for row x
  proof -
    obtain ra a o1 n where "ra \<in> set advantages" "a \<in> set ra"
      and x: "x = dual_clip_loss (clip_low cfg) (clip_high cfg) c a (policy_ratio o1 n)"
      using map3t_elem [OF row(1) [unfolded losses_def] row(2)] by blast
    then have "\<bar>a\<bar> \<le> b" using assms(6) by blast
    then show ?thesis unfolding x by (rule dual_clip_bounds [OF _ policy_ratio_pos assms(8-10) True])
  qed
  then have "- (b * (1 + clip_high cfg)) * total_sum msk \<le> masked_sum losses msk \<and> masked_sum losses msk \<le> b * c * total_sum msk"
    by (rule masked_sum_bounds [OF assms(4) shape])
  then have bounds: "- (b * (1 + clip_high cfg)) \<le> l \<and> l \<le> b * c"
    using assms(5) by (simp add: l_def field_simps)
  have "l = - masked_sum advantages msk / total_sum msk \<and> map_of metrics ''actor/pg_clipfrac'' = Some 0" if "lp = old_lp"
  proof -
    have "losses = map (map uminus) advantages"
      using map3t_same [OF assms(1)] True assms(8,10) dual_clip_on_policy unfolding losses_def that by simp
    moreover have "map3t (\<lambda>a o1 n. let r = policy_ratio o1 n
        in flag (- a * clamp (1 - clip_low cfg) (1 + clip_high cfg) r > - a * r)) advantages old_lp old_lp = map (map (\<lambda>a. 0)) advantages"
      using assms(8,10) by (intro map3t_same [OF assms(1)]) (simp add: flag_def clamp_def)
    moreover have "masked_mean (map (map (\<lambda>a. 0)) advantages) msk = 0"
    proof -
      have "0 * total_sum msk \<le> masked_sum (map (map (\<lambda>a. 0)) advantages) msk \<and>
          masked_sum (map (map (\<lambda>a. 0)) advantages) msk \<le> 0 * total_sum msk"
        using assms(3) by (intro masked_sum_bounds [OF assms(4)]) (auto simp: same_shape_def comp_def)
      then show ?thesis by (simp add: masked_mean_def)
    qed
    ultimately show ?thesis
      using parts masked_sum_uminus [OF assms(3)] by (auto simp: l_def dual_clip_parts_def ppo_metrics_def that)
  qed
  then show ?thesis using True loss bounds by (auto simp: compute_policy_loss_vanilla_def require_config_def)
next
  case False
  then show ?thesis using assms(11)
    by (simp add: compute_policy_loss_vanilla_def require_config_def guard_res_def)
qed

definition example_actor :: actor_config where
  "example_actor =
     \<lparr>clip_ratio = 1 / 5, clip_ratio_low = None, clip_ratio_high = Some (7 / 25), clip_ratio_c = None,
      tau_pos = 1, tau_neg = 1, clip_cov_ratio = None, clip_cov_lb = None, clip_cov_ub = None,
      kl_cov_ratio = None, ppo_kl_coef = None, global_batch_info = default_batch_info\<rparr>"

theorem vanilla_loss_bounded_witness:
  "\<exists>l metrics. compute_policy_loss_vanilla [[- 1, - 2]] [[- 3, - 1]] [[1, - 1]] [[1, 1]] ''token-mean'' (Some example_actor) None =
     Inr (l, metrics) \<and> - (32 / 25) \<le> l \<and> l \<le> 3"
proof -
  have "if (3::real) > 1
    then (\<exists>l metrics. compute_policy_loss_vanilla [[- 1, - 2]] [[- 3, - 1]] [[1, - 1]] [[1, 1]] ''token-mean'' (Some example_actor) None =
        Inr (l, metrics) \<and>
      - (1 * (1 + clip_high example_actor)) \<le> l \<and> l \<le> 1 * 3 \<and>
      ([[- 3, - 1]] = [[- 1, - 2 :: real]] \<longrightarrow> l = - masked_sum [[1, - 1]] [[1, 1]] / total_sum [[1, 1]] \<and> map_of metrics ''actor/pg_clipfrac'' = Some 0)) \<and>
      compute_policy_loss_vanilla [[- 1, - 2]] [[- 3, - 1]] [[1, - 1]] [[1, 1]] ''token-mean'' None None = Inl AssertionError
    else compute_policy_loss_vanilla [[- 1, - 2]] [[- 3, - 1]] [[1, - 1]] [[1, 1]] ''token-mean'' (Some example_actor) None = Inl AssertionError"
    by (rule vanilla_loss_bounded)
      (simp_all add: same_shape_def mask_ok_def total_sum_def row_sums_def example_actor_def clip_low_def clip_high_def or_else_def)
  then show ?thesis by (simp add: clip_high_def or_else_def example_actor_def)
qed

end
