(* ===== verification/Penalty.thy ===== *)
theory Penalty
  imports PolicyLoss
begin

section \<open>KL penalties, their controllers and the registries\<close>

text \<open>
  Models the remaining parts of \<open>src/verl/trainer/ppo/core_algos.py\<close> (KL estimators and
  controllers, the registries of estimators and losses, the entropy loss, the importance weights of
  PF-PPO) and \<open>apply_kl_penalty\<close> of \<open>src/verl/trainer/ppo/ray_trainer.py\<close>, which combines
  an estimator with a controller.
\<close>

subsection \<open>Registries\<close>

text \<open>Functions are compared by identity, which the model takes as equality of their names.\<close>

definition register_policy_loss :: "string \<Rightarrow> 'f \<Rightarrow> (string, 'f) dict \<Rightarrow> (string, 'f) dict" where
  "register_policy_loss name f reg = dict_set name f reg"

definition get_policy_loss_fn :: "string \<Rightarrow> (string, 'f) dict \<Rightarrow> 'f result" where
  "get_policy_loss_fn name reg = (case dict_get reg name of None \<Rightarrow> Inl ValueError | Some f \<Rightarrow> Inr f)"

definition register_adv_est :: "string \<Rightarrow> 'f \<Rightarrow> (string, 'f) dict \<Rightarrow> (string, 'f) dict result" where
  "register_adv_est name f reg =
     guard_res (\<not> (name \<in> set (dict_keys reg) \<and> dict_get reg name \<noteq> Some f)) ValueError (Inr (dict_set name f reg))"

definition get_adv_estimator_fn :: "string \<Rightarrow> (string, 'f) dict \<Rightarrow> 'f result" where
  "get_adv_estimator_fn name reg = (case dict_get reg name of None \<Rightarrow> Inl ValueError | Some f \<Rightarrow> Inr f)"

subsection \<open>Estimators of the divergence\<close>

definition compute_rewards :: "tensor \<Rightarrow> tensor \<Rightarrow> tensor \<Rightarrow> real \<Rightarrow> tensor" where
  "compute_rewards token_level_scores old_log_prob ref_log_prob kl_ratio =
     map3t (\<lambda>s o1 r. s - (o1 - r) * kl_ratio) token_level_scores old_log_prob ref_log_prob"

definition low_var_kl :: "real \<Rightarrow> real \<Rightarrow> real" where
  "low_var_kl logprob ref_logprob =
     (let kl = clamp (- 20) 20 (ref_logprob - logprob) in clamp (- 10) 10 (exp kl - kl - 1))"

definition kl_penalty_forward :: "tensor \<Rightarrow> tensor \<Rightarrow> string \<Rightarrow> tensor result" where
  "kl_penalty_forward logprob ref_logprob kind =
     (if kind \<in> {''kl'', ''k1''} then Inr (map2t (-) logprob ref_logprob)
      else if kind = ''abs'' then Inr (map2t (\<lambda>x y. \<bar>x - y\<bar>) logprob ref_logprob)
      else if kind \<in> {''mse'', ''k2''} then Inr (map2t (\<lambda>x y. 1 / 2 * (x - y) ^ 2) logprob ref_logprob)
      else if kind \<in> {''low_var_kl'', ''k3''} then Inr (map2t low_var_kl logprob ref_logprob)
      else Inl NotImplementedError)"

definition ends_with_plus :: "string \<Rightarrow> bool" where
  "ends_with_plus s \<longleftrightarrow> s \<noteq> [] \<and> last s = CHR ''+''"

definition kl_penalty :: "tensor \<Rightarrow> tensor \<Rightarrow> string \<Rightarrow> tensor result" where
  "kl_penalty logprob ref_logprob kind =
     (let base_kind = (if ends_with_plus kind then butlast kind else kind)
      in bind_res (kl_penalty_forward logprob ref_logprob base_kind) (\<lambda>forward_score.
           if \<not> ends_with_plus kind \<or> kind \<in> {''mse'', ''k2''} then Inr forward_score
           else (let backward_score = map2t (\<lambda>x y. 1 / 2 * (x - y) ^ 2) logprob ref_logprob
                 in Inr (map2t (+) (map2t (-) backward_score backward_score) forward_score))))"

subsection \<open>Controllers\<close>

record kl_config =
  kl_type :: string
  kl_coef :: real
  target_kl :: real
  horizon :: real

datatype kl_controller =
    AdaptiveKLController (kl_value: real) (ctl_target: real) (ctl_horizon: real)
  | FixedKLController (kl_value: real)

definition kl_multiplier :: "real \<Rightarrow> real \<Rightarrow> real \<Rightarrow> nat \<Rightarrow> real" where
  "kl_multiplier current_kl tgt hor n_steps =
     1 + clamp (- 1 / 5) (1 / 5) (current_kl / tgt - 1) * real n_steps / hor"

fun update_kl :: "real \<Rightarrow> nat \<Rightarrow> kl_controller \<Rightarrow> kl_controller result" where
  "update_kl current_kl n_steps (AdaptiveKLController v tgt hor) =
     guard_res (tgt \<noteq> 0) ZeroDivisionError
       (Inr (AdaptiveKLController (v * kl_multiplier current_kl tgt hor n_steps) tgt hor))"
| "update_kl current_kl n_steps (FixedKLController v) = Inr (FixedKLController v)"

definition get_kl_controller :: "kl_config \<Rightarrow> kl_controller result" where
  "get_kl_controller cfg =
     (if kl_type cfg = ''fixed'' then Inr (FixedKLController (kl_coef cfg))
      else if kl_type cfg = ''adaptive''
      then guard_res (horizon cfg > 0) AssertionError
             (Inr (AdaptiveKLController (kl_coef cfg) (target_kl cfg) (horizon cfg)))
      else Inl NotImplementedError)"

subsection \<open>The penalty in the reward\<close>

record reward_batch =
  response_mask :: tensor
  token_level_scores :: tensor
  old_log_probs :: tensor
  ref_log_prob :: tensor
  token_level_rewards :: "tensor option"

definition masked_row_mean :: "tensor \<Rightarrow> tensor \<Rightarrow> real list" where
  "masked_row_mean v msk = map2 (\<lambda>s l. s / (l + 1 / 10 ^ 8)) (row_sums (map2t masked_product v msk)) (row_sums msk)"

definition apply_kl_penalty ::
  "string \<Rightarrow> reward_batch \<Rightarrow> kl_controller \<Rightarrow> (reward_batch \<times> kl_controller \<times> (string \<times> real) list) result" where
  "apply_kl_penalty kind data ctl =
     bind_res (kl_penalty (old_log_probs data) (ref_log_prob data) kind) (\<lambda>kld0.
       let kld = map2t (*) kld0 (response_mask data);
           beta = kl_value ctl;
           rewards = map2t (\<lambda>s k. s - beta * k) (token_level_scores data) kld;
           current_kl = list_mean (masked_row_mean kld (response_mask data))
       in bind_res (update_kl current_kl (length (response_mask data)) ctl) (\<lambda>ctl'.
            Inr (data\<lparr>token_level_rewards := Some rewards\<rparr>, ctl',
                 [(''actor/reward_kl_penalty'', current_kl), (''actor/reward_kl_penalty_coeff'', beta)])))"

text \<open>The training loop applies the penalty to one batch after the other, with one controller.\<close>

definition penalize_all :: "string \<Rightarrow> reward_batch list \<Rightarrow> kl_controller \<Rightarrow> kl_controller result" where
  "penalize_all kind batches ctl =
     fold_res (\<lambda>b c. bind_res (apply_kl_penalty kind b c) (\<lambda>(b', c', m). Inr c')) batches ctl"

subsection \<open>Entropy\<close>

definition logsumexp :: "real list \<Rightarrow> real" where
  "logsumexp xs = ln (sum_list (map exp xs))"

definition softmax :: "real list \<Rightarrow> real list" where
  "softmax xs = map (\<lambda>x. exp x / sum_list (map exp xs)) xs"

definition entropy_of :: "real list \<Rightarrow> real" where
  "entropy_of logits = logsumexp logits - sum_list (map2 (*) (softmax logits) logits)"

definition entropy_from_logits :: "real list list \<Rightarrow> real list" where
  "entropy_from_logits logits = map entropy_of logits"

definition entropy_from_logits_with_chunking :: "nat \<Rightarrow> real list list \<Rightarrow> real list result" where
  "entropy_from_logits_with_chunking chunk_size logits =
     guard_res (chunk_size \<noteq> 0) ValueError (Inr (concat (map (map entropy_of) (chunks_of chunk_size logits))))"

definition compute_entropy_loss :: "real list list list \<Rightarrow> tensor \<Rightarrow> string \<Rightarrow> real result" where
  "compute_entropy_loss logits msk mode = agg_loss (map entropy_from_logits logits) msk mode default_batch_info"

subsection \<open>Weights of PF-PPO\<close>

definition pow_abs :: "real \<Rightarrow> real \<Rightarrow> real" where
  "pow_abs x p = (if p = 0 then 1 else \<bar>x\<bar> powr p)"

definition compute_weights :: "real list \<Rightarrow> string \<Rightarrow> real \<Rightarrow> real list result" where
  "compute_weights scores method weight_pow =
     (if method = ''pow'' then Inr (map (\<lambda>s. pow_abs s weight_pow) scores)
      else if method = ''max_min'' then
        guard_res (scores \<noteq> []) RuntimeError
          (Inr (map (\<lambda>s. if s = Max (set scores) \<or> s = Min (set scores) then 1 else 0) scores))
      else if method = ''max_random'' then
        guard_res (scores \<noteq> []) RuntimeError (Inr (map (\<lambda>s. if s = Max (set scores) then 2 / 5 else 1 / 10) scores))
      else Inl ValueError)"

definition pf_ppo_weights :: "tensor \<Rightarrow> string \<Rightarrow> real \<Rightarrow> real list result" where
  "pf_ppo_weights token_scores method weight_pow =
     bind_res (compute_weights (row_sums token_scores) method weight_pow) (\<lambda>ws.
       Inr (map (\<lambda>w. max (1 / 10 ^ 8) (w + 1 / 10 ^ 8)) ws))"

subsection \<open>The estimators\<close>

definition kl_estimate :: "string \<Rightarrow> real \<Rightarrow> real \<Rightarrow> real" where
  "kl_estimate kind x y =
     (if kind = ''abs'' then \<bar>x - y\<bar>
      else if kind \<in> {''mse'', ''k2''} then 1 / 2 * (x - y) ^ 2
      else if kind \<in> {''low_var_kl'', ''k3''} then low_var_kl x y
      else x - y)"

definition nonneg_kinds :: "string set" where
  "nonneg_kinds = {''abs'', ''mse'', ''k2'', ''low_var_kl'', ''k3''}"

definition kl_kinds :: "string set" where
  "kl_kinds = {''kl'', ''k1''} \<union> nonneg_kinds"

lemma forward_estimate: "kind \<in> kl_kinds \<Longrightarrow> kl_penalty_forward x y kind = Inr (map2t (kl_estimate kind) x y)"
  by (auto simp: kl_kinds_def nonneg_kinds_def kl_penalty_forward_def kl_estimate_def [abs_def] cong: if_cong)

lemma forward_unknown: "kind \<notin> kl_kinds \<Longrightarrow> kl_penalty_forward x y kind = Inl NotImplementedError"
  by (simp add: kl_kinds_def nonneg_kinds_def kl_penalty_forward_def)

lemma straight_through: "map2t (+) (map2t (-) (map2t f x y) (map2t f x y)) (map2t g x y) = map2t g x y"
proof -
  have row: "map2 (+) (map2 (-) (map2 f a b) (map2 f a b)) (map2 g a b) = map2 g a b" for a b
    by (rule nth_equalityI) simp_all
  show ?thesis unfolding map2t_def
    by (rule nth_equalityI) (simp_all add: row)
qed

lemma kl_kind_no_plus: "kind \<in> kl_kinds \<Longrightarrow> \<not> ends_with_plus kind"
  by (auto simp: kl_kinds_def nonneg_kinds_def ends_with_plus_def)

lemma kl_penalty_value:
  assumes "base \<in> kl_kinds" and "kind = base \<or> kind = base @ ''+''"
  shows "kl_penalty x y kind = Inr (map2t (kl_estimate base) x y)"
  using assms kl_kind_no_plus [OF assms(1)]
  by (auto simp: kl_penalty_def ends_with_plus_def forward_estimate straight_through Let_def)

lemma kl_penalty_unknown:
  "(if ends_with_plus kind then butlast kind else kind) \<notin> kl_kinds \<Longrightarrow> kl_penalty x y kind = Inl NotImplementedError"
  by (simp add: kl_penalty_def forward_unknown)

lemma low_var_kl_bounds: "0 \<le> low_var_kl x y \<and> low_var_kl x y \<le> 10"
proof -
  define k where "k = clamp (- 20) 20 (y - x)"
  have "0 \<le> exp k - k - 1" using exp_ge_add_one_self [of k] by linarith
  then show ?thesis by (simp add: low_var_kl_def clamp_def [of "- 10"] Let_def flip: k_def)
qed

lemma kl_estimate_nonneg: "base \<in> nonneg_kinds \<Longrightarrow> 0 \<le> kl_estimate base x y"
  using low_var_kl_bounds by (auto simp: kl_estimate_def nonneg_kinds_def)

lemma kl_estimate_same: "base \<in> nonneg_kinds \<Longrightarrow> kl_estimate base x x = 0"
  by (auto simp: kl_estimate_def nonneg_kinds_def low_var_kl_def clamp_def)

subsection \<open>The penalty lowers rewards, the controller keeps its coefficient in range\<close>

lemma update_kl_defined:
  assumes "\<And>v t h. ctl = AdaptiveKLController v t h \<Longrightarrow> t \<noteq> 0"
  shows "\<exists>ctl'. update_kl cur n ctl = Inr ctl'"
  using assms by (cases ctl) (auto simp: guard_res_def)

lemma nth_map2t:
  "same_shape a b \<Longrightarrow> i < length a \<Longrightarrow> j < length (a ! i) \<Longrightarrow> map2t f a b ! i ! j = f (a ! i ! j) (b ! i ! j)"
  using same_shapeD(1) [of a b] same_shapeD(2) [of a b i] by simp

lemma map2t_shape: "same_shape a b \<Longrightarrow> same_shape (map2t f a b) a"
  using same_shapeD(1) [of a b] same_shapeD(2) [of a b] by (auto simp: same_shape_def intro!: nth_equalityI)

lemma same_shape_trans: "same_shape a b \<Longrightarrow> same_shape a c \<Longrightarrow> same_shape b c"
  by (simp add: same_shape_def)

text \<open>
  A penalty in the reward only lowers it. For an estimator that cannot be negative (abs, mse
  or k2, low-variance or k3, with or without the suffix that changes the gradient) and a coefficient of
  at least zero, no token's reward exceeds its score; outside the mask and where the two policies agree
  the reward is the score, and the low-variance estimator takes at most ten times the
  coefficient. Everything else in the batch is kept.
\<close>

theorem kl_penalty_lowers_rewards:
  assumes "base \<in> nonneg_kinds" and "kind = base \<or> kind = base @ ''+''"
    and "same_shape (token_level_scores data) (old_log_probs data)"
    and "same_shape (token_level_scores data) (ref_log_prob data)"
    and "same_shape (token_level_scores data) (response_mask data)"
    and "mask_ok (response_mask data)" and "0 \<le> kl_value ctl"
    and "\<And>v t h. ctl = AdaptiveKLController v t h \<Longrightarrow> t \<noteq> 0"
  shows "\<exists>rewards ctl' metrics.
    apply_kl_penalty kind data ctl = Inr (data\<lparr>token_level_rewards := Some rewards\<rparr>, ctl', metrics) \<and>
    (\<forall>i j. i < length (token_level_scores data) \<longrightarrow> j < length (token_level_scores data ! i) \<longrightarrow>
       rewards ! i ! j \<le> token_level_scores data ! i ! j \<and>
       (response_mask data ! i ! j = 0 \<or> old_log_probs data ! i ! j = ref_log_prob data ! i ! j \<longrightarrow>
          rewards ! i ! j = token_level_scores data ! i ! j) \<and>
       (base \<in> {''low_var_kl'', ''k3''} \<longrightarrow> token_level_scores data ! i ! j - 10 * kl_value ctl \<le> rewards ! i ! j))"
proof -
  let ?s = "token_level_scores data" and ?o = "old_log_probs data" and ?r = "ref_log_prob data" and ?m = "response_mask data"
  define kld where "kld = map2t (*) (map2t (kl_estimate base) ?o ?r) ?m"
  define rewards where "rewards = map2t (\<lambda>s k. s - kl_value ctl * k) ?s kld"
  have shapes: "same_shape ?o ?r" "same_shape (map2t (kl_estimate base) ?o ?r) ?m" "same_shape ?s kld"
    using assms(3-5) map2t_shape unfolding kld_def same_shape_def by metis+
  have tok: "rewards ! i ! j = ?s ! i ! j - kl_value ctl * (kl_estimate base (?o ! i ! j) (?r ! i ! j) * ?m ! i ! j) \<and>
      (?m ! i ! j = 0 \<or> ?m ! i ! j = 1)" if "i < length ?s" "j < length (?s ! i)" for i j
  proof -
    have len: "length ?o = length ?s" "length ?m = length ?s" "length (?o ! i) = length (?s ! i)" "length (?m ! i) = length (?s ! i)"
      using that same_shapeD(1) [OF assms(3)] same_shapeD(2) [OF assms(3)] same_shapeD(1) [OF assms(5)] same_shapeD(2) [OF assms(5)]
      by auto
    have "i < length (map2t (kl_estimate base) ?o ?r)" "j < length (map2t (kl_estimate base) ?o ?r ! i)"
      using that len map2t_shape [OF shapes(1), of "kl_estimate base"] same_shapeD(1) same_shapeD(2) by metis+
    then have "kld ! i ! j = kl_estimate base (?o ! i ! j) (?r ! i ! j) * ?m ! i ! j"
      unfolding kld_def using nth_map2t [OF shapes(2)] nth_map2t [OF shapes(1)] that len by simp
    moreover have "?m ! i ! j = 0 \<or> ?m ! i ! j = 1" using assms(6) that len nth_mem unfolding mask_ok_def by metis
    ultimately show ?thesis unfolding rewards_def using nth_map2t [OF shapes(3)] that by simp
  qed
  have token: "rewards ! i ! j \<le> ?s ! i ! j \<and> (?m ! i ! j = 0 \<or> ?o ! i ! j = ?r ! i ! j \<longrightarrow> rewards ! i ! j = ?s ! i ! j) \<and>
      (base \<in> {''low_var_kl'', ''k3''} \<longrightarrow> ?s ! i ! j - 10 * kl_value ctl \<le> rewards ! i ! j)"
    if "i < length ?s" "j < length (?s ! i)" for i j
  proof -
    let ?k = "kl_estimate base (?o ! i ! j) (?r ! i ! j)"
    have k: "0 \<le> ?k" "?o ! i ! j = ?r ! i ! j \<longrightarrow> ?k = 0" "base \<in> {''low_var_kl'', ''k3''} \<longrightarrow> ?k \<le> 10"
      using kl_estimate_nonneg [OF assms(1)] kl_estimate_same [OF assms(1)] low_var_kl_bounds by (auto simp: kl_estimate_def)
    have "0 \<le> kl_value ctl * ?k" "base \<in> {''low_var_kl'', ''k3''} \<longrightarrow> kl_value ctl * ?k \<le> kl_value ctl * 10"
      using k(1,3) assms(7) by (auto intro: mult_left_mono)
    then show ?thesis using tok [OF that] k(2) assms(7) by auto
  qed
  have "\<exists>ctl'. update_kl (list_mean (masked_row_mean kld ?m)) (length ?m) ctl = Inr ctl'"
    using assms(8) by (rule update_kl_defined)
  then obtain ctl' where "update_kl (list_mean (masked_row_mean kld ?m)) (length ?m) ctl = Inr ctl'" ..
  moreover have "base \<in> kl_kinds" using assms(1) by (simp add: kl_kinds_def)
  ultimately have "\<exists>metrics. apply_kl_penalty kind data ctl = Inr (data\<lparr>token_level_rewards := Some rewards\<rparr>, ctl', metrics)"
    using kl_penalty_value [OF _ assms(2)] by (simp add: apply_kl_penalty_def Let_def kld_def rewards_def)
  then show ?thesis using token by blast
qed

theorem kl_penalty_lowers_rewards_witness:
  "\<exists>rewards ctl' metrics data. data = \<lparr>response_mask = [[1, 0]], token_level_scores = [[0, 1]], old_log_probs = [[- 1, - 2]],
      ref_log_prob = [[- 2, - 2]], token_level_rewards = None\<rparr> \<and>
    apply_kl_penalty ''k3+'' data (FixedKLController (1 / 10)) =
      Inr (data\<lparr>token_level_rewards := Some rewards\<rparr>, ctl', metrics) \<and>
    rewards ! 0 ! 0 \<le> 0 \<and> - 1 \<le> rewards ! 0 ! 0 \<and> rewards ! 0 ! 1 = 1"
proof -
  define data where "data = \<lparr>response_mask = [[1, 0]], token_level_scores = [[0, 1]], old_log_probs = [[- 1, - 2]],
      ref_log_prob = [[- 2, - 2]], token_level_rewards = None\<rparr>"
  obtain rewards ctl' metrics where "apply_kl_penalty ''k3+'' data (FixedKLController (1 / 10)) =
        Inr (data\<lparr>token_level_rewards := Some rewards\<rparr>, ctl', metrics)"
    and r: "\<And>i j. i < length (token_level_scores data) \<longrightarrow> j < length (token_level_scores data ! i) \<longrightarrow>
       rewards ! i ! j \<le> token_level_scores data ! i ! j \<and>
       (response_mask data ! i ! j = 0 \<or> old_log_probs data ! i ! j = ref_log_prob data ! i ! j \<longrightarrow>
          rewards ! i ! j = token_level_scores data ! i ! j) \<and>
       (''k3'' \<in> {''low_var_kl'', ''k3''} \<longrightarrow> token_level_scores data ! i ! j - 10 * kl_value (FixedKLController (1 / 10)) \<le> rewards ! i ! j)"
    using kl_penalty_lowers_rewards [of "''k3''" "''k3+''" data "FixedKLController (1 / 10)"]
    by (auto simp: nonneg_kinds_def same_shape_def mask_ok_def data_def)
  moreover have "rewards ! 0 ! 0 \<le> 0 \<and> - 1 \<le> rewards ! 0 ! 0 \<and> rewards ! 0 ! 1 = 1"
    using r [of 0 0] r [of 0 1] by (simp add: data_def)
  ultimately show ?thesis unfolding data_def by blast
qed

lemma clamp_sign: "0 < (hi :: real) \<Longrightarrow> lo < 0 \<Longrightarrow> 0 < clamp lo hi x \<longleftrightarrow> 0 < x"
  by (auto simp: clamp_def)

lemma kl_multiplier_bounds:
  assumes "0 < h"
  shows "1 - real n / (5 * h) \<le> kl_multiplier cur t h n \<and> kl_multiplier cur t h n \<le> 1 + real n / (5 * h)"
proof -
  define k where "k = clamp (- 1 / 5) (1 / 5) (cur / t - 1)"
  have "- 1 / 5 \<le> k \<and> k \<le> 1 / 5" unfolding k_def by (rule clamp_bounds) simp
  then have "- 1 / 5 * (real n / h) \<le> k * (real n / h) \<and> k * (real n / h) \<le> 1 / 5 * (real n / h)"
    using assms by (intro conjI mult_right_mono) auto
  then show ?thesis unfolding kl_multiplier_def k_def [symmetric] by simp
qed

lemma kl_multiplier_sign: "0 < h \<Longrightarrow> 0 < t \<Longrightarrow> 0 < n \<Longrightarrow> 1 < kl_multiplier cur t h n \<longleftrightarrow> t < cur"
  using clamp_sign [of "1 / 5" "- 1 / 5" "cur / t - 1"]
  by (simp add: kl_multiplier_def zero_less_mult_iff zero_less_divide_iff field_simps)

lemma apply_kl_controller:
  assumes "base \<in> kl_kinds" and "kind = base \<or> kind = base @ ''+''"
  shows "\<exists>cur. bind_res (apply_kl_penalty kind b ctl) (\<lambda>(b', c', m). Inr c') = update_kl cur (length (response_mask b)) ctl"
proof -
  let ?kld = "map2t (*) (map2t (kl_estimate base) (old_log_probs b) (ref_log_prob b)) (response_mask b)"
  have "bind_res (apply_kl_penalty kind b ctl) (\<lambda>(b', c', m). Inr c') =
      update_kl (list_mean (masked_row_mean ?kld (response_mask b))) (length (response_mask b)) ctl"
    by (simp add: apply_kl_penalty_def kl_penalty_value [OF assms] Let_def)
      (cases "update_kl (list_mean (masked_row_mean ?kld (response_mask b))) (length (response_mask b)) ctl"; simp)
  then show ?thesis by blast
qed

text \<open>
  The coefficient of the penalty stays in range. Over any sequence of batches of \<open>n\<close> rows
  the adaptive controller, whose horizon exceeds a fifth of the batch size, keeps its coefficient positive and
  within a factor of \<open>(1 \<plusminus> n / (5 h)) ^ k\<close> of the initial one after \<open>k\<close> batches; one update
  raises it exactly when the divergence exceeds the target. The fixed controller keeps it.
\<close>

theorem kl_coefficient_in_range:
  assumes "base \<in> kl_kinds" and "kind = base \<or> kind = base @ ''+''"
    and "0 < v" and "0 < t" and "0 < h" and "real n < 5 * h" and "0 < n"
    and "\<forall>b\<in>set batches. length (response_mask b) = n"
  shows "(\<exists>w. penalize_all kind batches (AdaptiveKLController v t h) = Inr (AdaptiveKLController w t h) \<and> 0 < w \<and>
      v * (1 - real n / (5 * h)) ^ length batches \<le> w \<and> w \<le> v * (1 + real n / (5 * h)) ^ length batches) \<and>
    (\<forall>cur. \<exists>w. update_kl cur n (AdaptiveKLController v t h) = Inr (AdaptiveKLController w t h) \<and> (v < w \<longleftrightarrow> t < cur)) \<and>
    penalize_all kind batches (FixedKLController v) = Inr (FixedKLController v)"
proof (intro conjI)
  let ?lo = "1 - real n / (5 * h)" and ?hi = "1 + real n / (5 * h)"
  have lo: "0 < ?lo" using assms(5,6) by (simp add: field_simps)
  show "\<exists>w. penalize_all kind batches (AdaptiveKLController v t h) = Inr (AdaptiveKLController w t h) \<and> 0 < w \<and>
      v * ?lo ^ length batches \<le> w \<and> w \<le> v * ?hi ^ length batches"
    using assms(3,8)
  proof (induction batches arbitrary: v)
    case Nil
    then show ?case by (simp add: penalize_all_def)
  next
    case (Cons b batches)
    obtain cur where "bind_res (apply_kl_penalty kind b (AdaptiveKLController v t h)) (\<lambda>(b', c', m). Inr c') =
        update_kl cur (length (response_mask b)) (AdaptiveKLController v t h)"
      using apply_kl_controller [OF assms(1,2)] by blast
    then have step: "penalize_all kind (b # batches) (AdaptiveKLController v t h) =
        penalize_all kind batches (AdaptiveKLController (v * kl_multiplier cur t h n) t h)"
      using Cons.prems(2) assms(4) by (simp add: penalize_all_def guard_res_def)
    have m: "?lo \<le> kl_multiplier cur t h n" "kl_multiplier cur t h n \<le> ?hi" using kl_multiplier_bounds [OF assms(5)] by auto
    then have "0 < v * kl_multiplier cur t h n" using lo Cons.prems(1) by (intro mult_pos_pos) auto
    then obtain w where w: "penalize_all kind batches (AdaptiveKLController (v * kl_multiplier cur t h n) t h) =
        Inr (AdaptiveKLController w t h)" "0 < w" "v * kl_multiplier cur t h n * ?lo ^ length batches \<le> w"
        "w \<le> v * kl_multiplier cur t h n * ?hi ^ length batches"
      using Cons.IH Cons.prems(2) by force
    have "v * ?lo * ?lo ^ length batches \<le> v * kl_multiplier cur t h n * ?lo ^ length batches"
      using m lo Cons.prems(1) by (intro mult_right_mono mult_left_mono) auto
    moreover have "v * kl_multiplier cur t h n * ?hi ^ length batches \<le> v * ?hi * ?hi ^ length batches"
      using m lo Cons.prems(1) by (intro mult_right_mono mult_left_mono) auto
    ultimately show ?case using step w by (auto simp: mult.assoc)
  qed
  show "\<forall>cur. \<exists>w. update_kl cur n (AdaptiveKLController v t h) = Inr (AdaptiveKLController w t h) \<and> (v < w \<longleftrightarrow> t < cur)"
    using kl_multiplier_sign [OF assms(5,4,7)] assms(3,4) by (simp add: guard_res_def mult_less_cancel_left1)
  show "penalize_all kind batches (FixedKLController v) = Inr (FixedKLController v)"
    using apply_kl_controller [OF assms(1,2), of _ "FixedKLController v"]
    by (induction batches) (auto simp: penalize_all_def)
qed

theorem kl_coefficient_in_range_witness:
  "\<exists>w batch. batch = \<lparr>response_mask = [[1]], token_level_scores = [[0]], old_log_probs = [[- 1]],
      ref_log_prob = [[- 2]], token_level_rewards = None\<rparr> \<and>
    penalize_all ''kl'' [batch, batch] (AdaptiveKLController 1 (1 / 2) 1) = Inr (AdaptiveKLController w (1 / 2) 1) \<and>
    16 / 25 \<le> w \<and> w \<le> 36 / 25"
proof -
  define batch where "batch = \<lparr>response_mask = [[1 :: real]], token_level_scores = [[0]], old_log_probs = [[- 1]],
      ref_log_prob = [[- 2]], token_level_rewards = None\<rparr>"
  have "(\<exists>w. penalize_all ''kl'' [batch, batch] (AdaptiveKLController 1 (1 / 2) 1) = Inr (AdaptiveKLController w (1 / 2) 1) \<and> 0 < w \<and>
      1 * (1 - real 1 / (5 * 1)) ^ length [batch, batch] \<le> w \<and> w \<le> 1 * (1 + real 1 / (5 * 1)) ^ length [batch, batch]) \<and>
    (\<forall>cur. \<exists>w. update_kl cur 1 (AdaptiveKLController 1 (1 / 2) 1) = Inr (AdaptiveKLController w (1 / 2) 1) \<and> (1 < w \<longleftrightarrow> 1 / 2 < cur)) \<and>
    penalize_all ''kl'' [batch, batch] (FixedKLController 1) = Inr (FixedKLController 1)"
    by (rule kl_coefficient_in_range [of "''kl''"]) (simp_all add: kl_kinds_def batch_def)
  then show ?thesis unfolding batch_def [symmetric] by (auto simp: power2_eq_square)
qed

end
