(* ===== verification/RolloutCorr.thy ===== *)
theory RolloutCorr
  imports PolicyLoss PyString Protocol
begin

section \<open>Rollout correction\<close>

text \<open>
  Models \<open>src/verl/trainer/ppo/rollout_corr_helper.py\<close>: importance weights and rejection masks
  for the mismatch between the policy that generated a batch and the policy that is trained, with
  their metrics; and the bypass-mode loss of \<open>core_algos.py\<close>, which computes both on the fly.
  The batch is processed by one process; averaging the normalization factor over a process group
  is left out. The training policy is \<open>old_log_prob\<close>, and \<open>log_ratio\<close> is its log-probability less that
  of the rollout.
\<close>

subsection \<open>Thresholds\<close>

text \<open>A threshold of the configuration: None, a Boolean, a number, a string or something else.\<close>

datatype threshold_spec = SpecNone | SpecBool bool | SpecNum real | SpecStr string | SpecOther

definition read_float :: "string \<Rightarrow> real result" where
  "read_float s = (case parse_float s of None \<Rightarrow> Inl ValueError | Some x \<Rightarrow> Inr x)"

definition check_is_bounds :: "real \<Rightarrow> real option \<Rightarrow> (real \<times> real option) result" where
  "check_is_bounds upper lower =
     guard_res (upper > 0) ValueError
       (case lower of
          None \<Rightarrow> Inr (upper, None)
        | Some l \<Rightarrow> guard_res (l > 0) ValueError (guard_res (l \<le> upper) ValueError (Inr (upper, Some l))))"

definition parse_rollout_is_threshold :: "threshold_spec \<Rightarrow> (real \<times> real option) result" where
  "parse_rollout_is_threshold spec =
     (case spec of
        SpecNum x \<Rightarrow> check_is_bounds x None
      | SpecStr s \<Rightarrow>
          (let t = py_strip s
           in guard_res (t \<noteq> []) ValueError
                (if CHR ''_'' \<in> set t
                 then bind_res (read_float (fst (split_first (CHR ''_'') t))) (\<lambda>lower.
                      bind_res (read_float (snd (split_first (CHR ''_'') t))) (\<lambda>upper. check_is_bounds upper (Some lower)))
                 else bind_res (read_float t) (\<lambda>upper. check_is_bounds upper None)))
      | _ \<Rightarrow> Inl TypeError)"

text \<open>A numeric threshold is printed and read back, which gives the number.\<close>

datatype raw_spec = RawNum real | RawStr string

definition raw_float :: "raw_spec \<Rightarrow> real result" where
  "raw_float raw = (case raw of RawNum x \<Rightarrow> Inr x | RawStr s \<Rightarrow> read_float s)"

definition raw_pair :: "raw_spec \<Rightarrow> (string \<times> string) option" where
  "raw_pair raw =
     (case raw of RawStr s \<Rightarrow> if CHR ''_'' \<in> set s then Some (split_first (CHR ''_'') s) else None | _ \<Rightarrow> None)"

definition rs_bounds :: "string \<Rightarrow> raw_spec \<Rightarrow> (real option \<times> real) result" where
  "rs_bounds opt raw =
     (if ends_with ''k1'' opt then
        bind_res
          (case raw_pair raw of
             Some (l, u) \<Rightarrow> bind_res (read_float l) (\<lambda>lower. bind_res (read_float u) (\<lambda>upper. Inr (lower, upper)))
           | None \<Rightarrow> bind_res (raw_float raw) (\<lambda>upper. guard_res (upper \<noteq> 0) ZeroDivisionError (Inr (1 / upper, upper))))
          (\<lambda>(lower, upper). guard_res (\<not> (lower \<le> 0 \<or> upper \<le> 0)) ValueError (Inr (Some lower, upper)))
      else
        guard_res (raw_pair raw = None) ValueError
          (bind_res (raw_float raw) (\<lambda>upper. guard_res (upper > 0) ValueError (Inr (None, upper)))))"

definition raw_specs :: "threshold_spec \<Rightarrow> raw_spec list result" where
  "raw_specs spec =
     (case spec of
        SpecNone \<Rightarrow> Inl ValueError
      | SpecBool b \<Rightarrow> Inr [RawStr (if b then ''True'' else ''False'')]
      | SpecNum x \<Rightarrow> Inr [RawNum x]
      | SpecStr s \<Rightarrow> Inr (map RawStr (comma_list s))
      | SpecOther \<Rightarrow> Inl TypeError)"

definition parse_rollout_rs_thresholds ::
  "string list \<Rightarrow> threshold_spec \<Rightarrow> (string, real option \<times> real) dict result" where
  "parse_rollout_rs_thresholds options spec =
     bind_res (raw_specs spec) (\<lambda>raws.
       guard_res (raws \<noteq> []) ValueError (
       guard_res (length raws \<in> {1, length options}) ValueError (
       let raws' = (if length raws = 1 \<and> length options > 1 then replicate (length options) (hd raws) else raws)
       in fold_res (\<lambda>(opt, raw) d. bind_res (rs_bounds opt raw) (\<lambda>b. Inr (dict_set opt b d))) (zip options raws') [])))"

subsection \<open>Options\<close>

definition supported_rs_options :: "string set" where
  "supported_rs_options =
     {''token_k1'', ''token_k2'', ''token_k3'', ''seq_sum_k1'', ''seq_sum_k2'', ''seq_sum_k3'',
      ''seq_mean_k1'', ''seq_mean_k2'', ''seq_mean_k3'', ''seq_max_k2'', ''seq_max_k3''}"

definition token_level_rs_options :: "string set" where
  "token_level_rs_options = {''token_k1'', ''token_k2'', ''token_k3''}"

definition dedup :: "'v list \<Rightarrow> 'v list" where
  "dedup xs = rev (remdups (rev xs))"

definition normalize_options :: "string \<Rightarrow> string list result" where
  "normalize_options rollout_rs =
     (let modes = comma_list rollout_rs
      in guard_res (modes \<noteq> []) ValueError
           (guard_res (\<forall>opt\<in>set modes. opt \<in> supported_rs_options) ValueError (Inr (dedup modes))))"

subsection \<open>Statistics\<close>

definition safety_bound :: real where
  "safety_bound = 20"

definition safe_log :: "real \<Rightarrow> real" where
  "safe_log x = clamp (- safety_bound) safety_bound x"

definition token_stat :: "string \<Rightarrow> real \<Rightarrow> real" where
  "token_stat opt x =
     (let l = safe_log x
      in if ends_with ''k1'' opt then - l
         else if ends_with ''k2'' opt then 1 / 2 * l ^ 2
         else exp l - 1 - l)"

definition kept_values :: "real list \<Rightarrow> real list \<Rightarrow> real list" where
  "kept_values row mrow = map fst (filter (\<lambda>(x, k). k \<noteq> 0) (zip row mrow))"

definition row_masked_sum :: "real list \<Rightarrow> real list \<Rightarrow> real" where
  "row_masked_sum row mrow = sum_list (map2 masked_product row mrow)"

definition row_masked_mean :: "real list \<Rightarrow> real list \<Rightarrow> real" where
  "row_masked_mean row mrow = row_masked_sum row mrow / (sum_list mrow + 1 / 10 ^ 8)"

definition row_masked_max :: "real list \<Rightarrow> real list \<Rightarrow> real" where
  "row_masked_max row mrow = (let kept = kept_values row mrow in if kept = [] then 0 else Max (set kept))"

definition sequence_stat :: "string \<Rightarrow> real list \<Rightarrow> real list \<Rightarrow> real" where
  "sequence_stat opt row mrow =
     (let stats = map (token_stat opt) row
      in if starts_with ''seq_sum'' opt then row_masked_sum stats mrow
         else if starts_with ''seq_mean'' opt then row_masked_mean stats mrow
         else row_masked_max stats mrow)"

text \<open>The bounds a statistic is held against: logarithms of ratios for k1, an upper bound else.\<close>

definition stat_bounds :: "string \<Rightarrow> real option \<times> real \<Rightarrow> real option \<times> real" where
  "stat_bounds opt b =
     (if ends_with ''k1'' opt then (map_option ln (fst b), ln (snd b)) else (None, snd b))"

definition stat_ok :: "real option \<times> real \<Rightarrow> real \<Rightarrow> bool" where
  "stat_ok b x \<longleftrightarrow> (case fst b of None \<Rightarrow> True | Some l \<Rightarrow> x \<ge> l) \<and> x \<le> snd b"

text \<open>The statistic of every token; a sequence statistic is repeated for each token.\<close>

definition rs_statistic :: "string \<Rightarrow> real list \<Rightarrow> real list \<Rightarrow> real list" where
  "rs_statistic opt row mrow =
     (if opt \<in> token_level_rs_options then map (token_stat opt) row
      else replicate (length mrow) (sequence_stat opt row mrow))"

definition keep_rows :: "string \<Rightarrow> real option \<times> real \<Rightarrow> tensor \<Rightarrow> tensor \<Rightarrow> bool list list" where
  "keep_rows opt b log_ratio msk =
     map2 (\<lambda>row mrow. map (stat_ok (stat_bounds opt b)) (rs_statistic opt row mrow)) log_ratio msk"

subsection \<open>Metrics of the rejection\<close>

type_synonym metric_list = "(string, real) dict"

definition metrics_update :: "metric_list \<Rightarrow> metric_list \<Rightarrow> metric_list" where
  "metrics_update d new = fold (\<lambda>(k, v). dict_set k v) new d"

definition max_of :: "real list \<Rightarrow> real" where
  "max_of xs = Max (set xs)"

definition min_of :: "real list \<Rightarrow> real" where
  "min_of xs = Min (set xs)"

definition fraction :: "(real \<Rightarrow> bool) \<Rightarrow> real list \<Rightarrow> real" where
  "fraction p xs = list_mean (map (\<lambda>x. flag (p x)) xs)"

definition list_std :: "real list \<Rightarrow> real" where
  "list_std xs =
     (if length xs > 1 then sqrt (sum_list (map (\<lambda>x. (x - list_mean xs) ^ 2) xs) / (real (length xs) - 1)) else 0)"

definition mask_any :: "tensor \<Rightarrow> bool" where
  "mask_any msk \<longleftrightarrow> list_ex (list_ex (\<lambda>k. k \<noteq> 0)) msk"

definition kept_tokens :: "tensor \<Rightarrow> tensor \<Rightarrow> real list" where
  "kept_tokens v msk = concat (map2 kept_values v msk)"

definition masked_fraction :: "(real \<Rightarrow> bool) \<Rightarrow> tensor \<Rightarrow> tensor \<Rightarrow> real" where
  "masked_fraction p v msk = masked_mean (map (map (\<lambda>x. flag (p x))) v) msk"

text \<open>The standard deviation of the clamped values, from the mean of their squares.\<close>

definition clamped_std :: "real \<Rightarrow> real \<Rightarrow> tensor \<Rightarrow> tensor \<Rightarrow> real" where
  "clamped_std lo hi v msk =
     (if total_sum msk > 1
      then (let c = map (map (clamp lo hi)) v
            in sqrt (max 0 (masked_mean (map (map (\<lambda>x. x ^ 2)) c) msk - masked_mean c msk ^ 2)))
      else 0)"

definition compute_rs_metrics ::
  "string \<Rightarrow> tensor \<Rightarrow> tensor \<Rightarrow> bool list \<Rightarrow> real list option \<Rightarrow> real \<Rightarrow> real \<Rightarrow> bool \<Rightarrow> metric_list result" where
  "compute_rs_metrics opt stat msk seq_valid per_sequence upper lower apply_lower =
     guard_res (mask_any msk) ValueError (
       let key = (\<lambda>s. ''rollout_rs_'' @ opt @ s);
           seq_level = (per_sequence \<noteq> None);
           seq_values = (case per_sequence of Some vs \<Rightarrow> vs | None \<Rightarrow> map2 row_masked_mean stat msk);
           valid = map fst (filter snd (zip seq_values seq_valid));
           by_seq = (seq_level \<and> valid \<noteq> [])
       in Inr ([(key ''_mean'', masked_mean stat msk),
                (key ''_max'', max_of (if by_seq then valid else kept_tokens stat msk)),
                (key ''_min'', min_of (if by_seq then valid else kept_tokens stat msk)),
                (key ''_fraction_high'', if by_seq then fraction (\<lambda>x. x > upper) valid else masked_fraction (\<lambda>x. x > upper) stat msk),
                (key ''_fraction_low'', if \<not> apply_lower then 0
                   else if by_seq then fraction (\<lambda>x. x < lower) valid else masked_fraction (\<lambda>x. x < lower) stat msk),
                (key ''_std'', clamped_std (if apply_lower then lower else 0) upper stat msk)] @
               (if valid \<noteq> []
                then [(key ''_seq_mean'', list_mean valid), (key ''_seq_std'', list_std valid),
                      (key ''_seq_max'', max_of valid), (key ''_seq_min'', min_of valid),
                      (key ''_seq_max_deviation'', max_of (map abs valid)),
                      (key ''_seq_fraction_high'', fraction (\<lambda>x. x > upper) valid)] @
                     (if apply_lower then [(key ''_seq_fraction_low'', fraction (\<lambda>x. x < lower) valid)] else [])
                else map (\<lambda>s. (key s, 0)) [''_seq_mean'', ''_seq_std'', ''_seq_max'', ''_seq_min'',
                       ''_seq_max_deviation'', ''_seq_fraction_high'', ''_seq_fraction_low''])))"

subsection \<open>The rejection mask\<close>

text \<open>One option: the mask of the tokens it keeps is multiplied to the others, and its metrics are added.\<close>

definition seq_valid_rows :: "tensor \<Rightarrow> bool list" where
  "seq_valid_rows msk = map (\<lambda>mrow. sum_list mrow > 0) msk"

definition indicator_rows :: "bool list list \<Rightarrow> tensor" where
  "indicator_rows = map (map flag)"

definition seq_masked_fraction :: "bool list list \<Rightarrow> tensor \<Rightarrow> real" where
  "seq_masked_fraction keep msk =
     (let valid = map flag (seq_valid_rows msk);
          kept = map2 (\<lambda>krow mrow. flag (\<forall>p\<in>set (zip krow mrow). fst p \<or> snd p = 0)) keep msk
      in if sum_list valid > 0 then sum_list (map2 (\<lambda>k v. (1 - k) * v) kept valid) / sum_list valid else 0)"

definition rs_option_step ::
  "tensor \<Rightarrow> tensor \<Rightarrow> (string, real option \<times> real) dict \<Rightarrow> string \<Rightarrow> tensor \<times> metric_list \<Rightarrow>
   (tensor \<times> metric_list) result" where
  "rs_option_step log_ratio msk thresholds opt acc =
     (case dict_get thresholds opt of
        None \<Rightarrow> Inl KeyError
      | Some b \<Rightarrow>
          (let keep = keep_rows opt b log_ratio msk; sb = stat_bounds opt b;
               stat = map2 (rs_statistic opt) log_ratio msk;
               per_sequence = (if opt \<in> token_level_rs_options then None
                               else Some (map2 (sequence_stat opt) log_ratio msk));
               lower = or_else (fst sb) 0
           in bind_res (compute_rs_metrics opt stat msk (seq_valid_rows msk) per_sequence (snd sb) lower (ends_with ''k1'' opt)) (\<lambda>m.
                Inr (map2t (*) (fst acc) (indicator_rows keep),
                     metrics_update (snd acc)
                       (m @ [(''rollout_rs_'' @ opt @ ''_masked_fraction'',
                                masked_mean (map (map (\<lambda>x. 1 - x)) (indicator_rows keep)) msk),
                             (''rollout_rs_'' @ opt @ ''_seq_masked_fraction'', seq_masked_fraction keep msk)])))))"

definition compute_rollout_rejection_mask ::
  "tensor \<Rightarrow> tensor \<Rightarrow> string option \<Rightarrow> threshold_spec \<Rightarrow> (tensor \<times> metric_list) result" where
  "compute_rollout_rejection_mask log_ratio msk rollout_rs spec =
     (case rollout_rs of
        None \<Rightarrow> Inl ValueError
      | Some rs \<Rightarrow>
          guard_res (spec \<noteq> SpecNone) ValueError
            (if log_ratio = [] then Inr (msk, [])
             else bind_res (normalize_options rs) (\<lambda>options.
                  bind_res (parse_rollout_rs_thresholds options spec) (\<lambda>thresholds.
                  bind_res (fold_res (rs_option_step log_ratio msk thresholds) options (map (map (\<lambda>k. 1)) msk, [])) (\<lambda>(final, metrics).
                    let rejected = map2 (\<lambda>frow mrow. flag (\<exists>p\<in>set (zip frow mrow). \<not> fst p > 1 / 2 \<and> snd p \<noteq> 0)) final msk
                    in Inr (map2t (*) msk final,
                         metrics_update metrics
                           [(''rollout_rs_masked_fraction'', masked_mean (map (map (\<lambda>x. 1 - x)) final) msk),
                            (''rollout_rs_seq_masked_fraction'', list_mean rejected)]))))))"

subsection \<open>Importance weights\<close>

definition raw_is_weights :: "string \<Rightarrow> tensor \<Rightarrow> tensor \<Rightarrow> tensor" where
  "raw_is_weights level log_ratio msk =
     (if level = ''token'' then map2t (\<lambda>l k. exp (safe_log l) * k) log_ratio msk
      else map2 (\<lambda>row mrow. map (\<lambda>k. exp (safe_log (row_masked_sum row mrow)) * k) mrow) log_ratio msk)"

definition truncate_weight :: "real \<Rightarrow> real option \<Rightarrow> real \<Rightarrow> real" where
  "truncate_weight upper lower w =
     (case lower of None \<Rightarrow> min upper w | Some l \<Rightarrow> if l \<le> w \<and> w \<le> upper then w else 0)"

definition compute_is_metrics ::
  "string \<Rightarrow> tensor \<Rightarrow> tensor \<Rightarrow> tensor \<Rightarrow> tensor \<Rightarrow> real \<Rightarrow> real option \<Rightarrow> metric_list result" where
  "compute_is_metrics level weights raw log_ratio msk upper lower_opt =
     guard_res (mask_any msk) ValueError (
       let lower = or_else lower_opt (1 / upper);
           log_sums = map2 row_masked_sum log_ratio msk;
           first = (if level = ''sequence''
             then [(''rollout_is_max'', exp (min safety_bound (max_of log_sums))), (''rollout_is_min'', exp (min_of log_sums)),
                   (''rollout_is_mean'', masked_mean weights msk),
                   (''rollout_is_ratio_fraction_high'', fraction (\<lambda>x. x > ln upper) log_sums),
                   (''rollout_is_ratio_fraction_low'', fraction (\<lambda>x. x < ln lower) log_sums)]
             else [(''rollout_is_mean'', masked_mean weights msk),
                   (''rollout_is_ratio_fraction_high'', masked_fraction (\<lambda>x. x > upper) raw msk),
                   (''rollout_is_ratio_fraction_low'', masked_fraction (\<lambda>x. x < lower) raw msk),
                   (''rollout_is_max'', max_of (kept_tokens weights msk)), (''rollout_is_min'', min_of (kept_tokens weights msk))]);
           for_ess = map (map (clamp 0 upper)) weights;
           normalized = map (map (\<lambda>x. x / (masked_mean for_ess msk + 1 / 10 ^ 8))) for_ess;
           mean_square = masked_mean (map (map (\<lambda>x. x ^ 2)) normalized) msk;
           seq_means = map2 row_masked_mean weights msk
       in guard_res (mean_square \<noteq> 0) ZeroDivisionError
            (Inr (first @
               [(''rollout_is_std'', clamped_std 0 upper weights msk),
                (''rollout_is_eff_sample_size'', 1 / mean_square),
                (''rollout_is_seq_mean'', list_mean seq_means), (''rollout_is_seq_std'', list_std seq_means),
                (''rollout_is_seq_max'', max_of seq_means), (''rollout_is_seq_min'', min_of seq_means),
                (''rollout_is_seq_max_deviation'', max_of (map (\<lambda>x. \<bar>x - 1\<bar>) seq_means)),
                (''rollout_is_seq_fraction_high'', fraction (\<lambda>x. x > upper) seq_means),
                (''rollout_is_seq_fraction_low'', fraction (\<lambda>x. x < lower) seq_means)])))"

definition weights_mean :: "string \<Rightarrow> tensor \<Rightarrow> tensor \<Rightarrow> real" where
  "weights_mean level weights msk =
     (if level = ''token'' then masked_mean weights msk
      else (let seq_mask = map flag (seq_valid_rows msk)
            in sum_list (map2 (*) (map2 row_masked_mean weights msk) seq_mask) / max (sum_list seq_mask) (1 / 10 ^ 8)))"

definition normalize_weights :: "string \<Rightarrow> tensor \<Rightarrow> tensor \<Rightarrow> tensor \<times> real" where
  "normalize_weights level weights msk =
     (let mean = weights_mean level weights msk
      in if mean > 1 / 10 ^ 8 then (map (map (\<lambda>w. w / mean)) weights, mean) else (weights, 1))"

definition compute_rollout_correction_weights ::
  "tensor \<Rightarrow> tensor \<Rightarrow> string \<Rightarrow> threshold_spec \<Rightarrow> bool \<Rightarrow> (tensor \<times> metric_list) result" where
  "compute_rollout_correction_weights log_ratio msk level spec batch_normalize =
     guard_res (level \<in> {''token'', ''sequence''}) ValueError (
     bind_res (parse_rollout_is_threshold spec) (\<lambda>(upper, lower).
       let raw = raw_is_weights level log_ratio msk;
           weights = map (map (truncate_weight upper lower)) raw
       in bind_res (compute_is_metrics level weights raw log_ratio msk upper lower) (\<lambda>metrics.
            let metrics1 = (case lower of None \<Rightarrow> metrics
                  | Some l \<Rightarrow> metrics_update metrics [(''rollout_is_oob_ratio'', masked_fraction (\<lambda>x. x < l \<or> x > upper) raw msk)])
            in if batch_normalize
               then (let (normed, factor) = normalize_weights level weights msk
                     in Inr (normed, metrics_update metrics1 [(''rollout_is_batch_norm_factor'', factor)]))
               else Inr (weights, metrics1))))"

subsection \<open>Off-policy metrics and the whole correction\<close>

definition compute_offpolicy_metrics :: "tensor \<Rightarrow> tensor option \<Rightarrow> tensor \<Rightarrow> metric_list result" where
  "compute_offpolicy_metrics old_log_prob rollout msk =
     guard_res (mask_any msk) AssertionError (
       let training = map2 row_masked_mean old_log_prob msk
       in Inr ([(''training_ppl'', list_mean (map (\<lambda>x. exp (- x)) training)), (''training_log_ppl'', list_mean (map uminus training))] @
            (case rollout of
               None \<Rightarrow> []
             | Some rollout_log_prob \<Rightarrow>
                 (let log_ratio = map2t (-) old_log_prob rollout_log_prob;
                      mean_rollout = map2 row_masked_mean rollout_log_prob msk;
                      diff = map2 (-) mean_rollout training
                  in [(''kl'', masked_mean (map2t (-) rollout_log_prob old_log_prob) msk),
                      (''k3_kl'', masked_mean (map (map (\<lambda>x. exp x - x - 1)) log_ratio) msk),
                      (''rollout_ppl'', list_mean (map (\<lambda>x. exp (- x)) mean_rollout)),
                      (''rollout_log_ppl'', list_mean (map uminus mean_rollout)),
                      (''log_ppl_diff'', list_mean diff), (''log_ppl_abs_diff'', list_mean (map abs diff)),
                      (''log_ppl_diff_max'', max_of diff), (''log_ppl_diff_min'', min_of diff),
                      (''ppl_ratio'', list_mean (map exp diff)),
                      (''chi2_token'', masked_mean (map (map (\<lambda>x. exp (safe_log x) ^ 2)) log_ratio) msk - 1),
                      (''chi2_seq'', list_mean (map (\<lambda>s. exp (2 * safe_log s)) (map2 row_masked_sum log_ratio msk)) - 1)]))))"

definition with_prefix :: "metric_list \<Rightarrow> metric_list" where
  "with_prefix ms = metrics_update [] (map (\<lambda>(k, v). (''rollout_corr/'' @ k, v)) ms)"

definition compute_rollout_corr_metrics_from_logprobs :: "tensor \<Rightarrow> tensor \<Rightarrow> tensor \<Rightarrow> metric_list result" where
  "compute_rollout_corr_metrics_from_logprobs log_prob rollout_log_prob msk =
     bind_res (compute_offpolicy_metrics log_prob (Some rollout_log_prob) msk) (\<lambda>ms. Inr (with_prefix ms))"

record rollout_corr_config =
  loss_type :: string
  rollout_is :: "string option"
  rollout_is_threshold :: threshold_spec
  rollout_is_batch_normalize :: bool
  rollout_rs :: "string option"
  rollout_rs_threshold :: threshold_spec

definition correction_weights :: "rollout_corr_config \<Rightarrow> tensor \<Rightarrow> tensor \<Rightarrow> (tensor \<times> metric_list) option result" where
  "correction_weights cfg log_ratio msk =
     (case rollout_is cfg of
        None \<Rightarrow> Inr None
      | Some level \<Rightarrow>
          if rollout_is_threshold cfg = SpecNone then Inr None
          else bind_res (compute_rollout_correction_weights log_ratio msk level (rollout_is_threshold cfg)
                 (rollout_is_batch_normalize cfg)) (\<lambda>wm. Inr (Some wm)))"

definition correction_mask :: "rollout_corr_config \<Rightarrow> tensor \<Rightarrow> tensor \<Rightarrow> (tensor \<times> metric_list) result" where
  "correction_mask cfg log_ratio msk =
     (case rollout_rs cfg of
        None \<Rightarrow> Inr (msk, [])
      | Some rs \<Rightarrow>
          guard_res (rollout_rs_threshold cfg \<noteq> SpecNone) ValueError
            (compute_rollout_rejection_mask log_ratio msk (Some rs) (rollout_rs_threshold cfg)))"

definition compute_rollout_correction_and_rejection_mask ::
  "rollout_corr_config \<Rightarrow> tensor \<Rightarrow> tensor \<Rightarrow> tensor \<Rightarrow> (tensor option \<times> tensor \<times> metric_list) result" where
  "compute_rollout_correction_and_rejection_mask cfg old_log_prob rollout_log_prob msk =
     guard_res (mask_any msk) ValueError (
     guard_res (same_shape old_log_prob rollout_log_prob) ValueError (
     guard_res (same_shape old_log_prob msk) ValueError (
       let log_ratio = map2t (-) old_log_prob rollout_log_prob
       in bind_res (correction_weights cfg log_ratio msk) (\<lambda>wm.
          bind_res (correction_mask cfg log_ratio msk) (\<lambda>(msk', rs_metrics).
          bind_res (compute_offpolicy_metrics old_log_prob (Some rollout_log_prob) msk) (\<lambda>off_metrics.
            Inr (map_option fst wm, msk',
                 with_prefix (metrics_update (metrics_update (case wm of None \<Rightarrow> [] | Some (w, m) \<Rightarrow> m) rs_metrics) off_metrics))))))))"

type_synonym tensor_columns = "(string, tensor) dict"

definition batch_column :: "string \<Rightarrow> tensor_columns \<Rightarrow> tensor result" where
  "batch_column k cols = (case dict_get cols k of None \<Rightarrow> Inl KeyError | Some v \<Rightarrow> Inr v)"

definition compute_rollout_correction_and_add_to_batch ::
  "rollout_corr_config \<Rightarrow> real list tensor_batch \<Rightarrow> (real list tensor_batch \<times> metric_list) result" where
  "compute_rollout_correction_and_add_to_batch cfg batch =
     bind_res (batch_column ''old_log_probs'' (snd batch)) (\<lambda>old_log_probs.
     bind_res (batch_column ''rollout_log_probs'' (snd batch)) (\<lambda>rollout_log_probs.
     bind_res (batch_column ''response_mask'' (snd batch)) (\<lambda>msk.
     bind_res (compute_rollout_correction_and_rejection_mask cfg old_log_probs rollout_log_probs msk) (\<lambda>(w, msk', metrics).
       let batch' = (fst batch, dict_set ''response_mask'' msk' (snd batch))
       in case w of
            None \<Rightarrow> Inr (batch', metrics)
          | Some ws \<Rightarrow>
              bind_res (tensor_dict (length ws) [(''rollout_is_weights'', ws)]) (\<lambda>td.
              bind_res (union_tensor_dict batch' td) (\<lambda>batch''. Inr (batch'', metrics)))))))"

subsection \<open>Bypass mode\<close>

text \<open>
  In bypass mode the log-probabilities of the rollout are used as the old ones, and the actor's loss
  computes the correction itself.
\<close>

record policy_loss_config =
  loss_mode :: string
  rollout_correction :: "rollout_corr_config option"

definition apply_bypass_mode ::
  "real list tensor_batch \<Rightarrow> rollout_corr_config option \<Rightarrow> policy_loss_config \<Rightarrow>
   (real list tensor_batch \<times> policy_loss_config) result" where
  "apply_bypass_mode batch corr loss_cfg =
     (case dict_get (snd batch) ''rollout_log_probs'' of
        None \<Rightarrow> Inl ValueError
      | Some lp \<Rightarrow>
          Inr ((fst batch, dict_set ''old_log_probs'' lp (snd batch)),
               loss_cfg\<lparr>rollout_correction := corr, loss_mode := ''bypass_mode''\<rparr>))"

definition compute_policy_loss_bypass_mode ::
  "policy_loss_config \<Rightarrow> tensor \<Rightarrow> tensor \<Rightarrow> tensor \<Rightarrow> tensor \<Rightarrow> string \<Rightarrow> actor_config option \<Rightarrow> loss_result" where
  "compute_policy_loss_bypass_mode loss_cfg old_log_prob log_prob advantages msk mode config =
     require_config config (\<lambda>cfg.
       case rollout_correction loss_cfg of
         None \<Rightarrow> Inl ValueError
       | Some corr \<Rightarrow>
           bind_res (compute_rollout_correction_and_rejection_mask corr log_prob old_log_prob msk) (\<lambda>(w, msk', rollout_metrics).
           bind_res
             (if loss_type corr = ''reinforce''
              then compute_policy_loss_reinforce old_log_prob log_prob advantages msk' mode (Some cfg) w
              else if loss_type corr = ''ppo_clip''
              then compute_policy_loss_vanilla old_log_prob log_prob advantages msk' mode (Some cfg) None
              else Inl ValueError)
             (\<lambda>(l, metrics). Inr (l, metrics_update metrics rollout_metrics))))"

subsection \<open>What is rejected\<close>

definition rs_accepts :: "(string, real option \<times> real) dict \<Rightarrow> real list \<Rightarrow> real list \<Rightarrow> nat \<Rightarrow> string \<Rightarrow> bool" where
  "rs_accepts thresholds row mrow j opt \<longleftrightarrow>
     (case dict_get thresholds opt of
        None \<Rightarrow> False
      | Some b \<Rightarrow> stat_ok (stat_bounds opt b)
          (if opt \<in> token_level_rs_options then token_stat opt (row ! j) else sequence_stat opt row mrow))"

lemma length_rs_statistic [simp]: "length row = length mrow \<Longrightarrow> length (rs_statistic opt row mrow) = length mrow"
  by (simp add: rs_statistic_def)

lemma keep_rows_nth:
  assumes "same_shape lr msk" and "i < length msk" and "j < length (msk ! i)" and "dict_get thresholds opt = Some b"
  shows "keep_rows opt b lr msk ! i ! j = rs_accepts thresholds (lr ! i) (msk ! i) j opt"
  using assms same_shapeD(1) [OF assms(1)] same_shapeD(2) [OF assms(1,2)]
  by (simp add: keep_rows_def rs_accepts_def rs_statistic_def)

lemma keep_rows_shape: "same_shape lr msk \<Longrightarrow> same_shape (indicator_rows (keep_rows opt b lr msk)) msk"
  using same_shapeD [of lr msk] by (auto simp: same_shape_def indicator_rows_def keep_rows_def intro!: nth_equalityI)

lemma indicator_nth:
  "same_shape lr msk \<Longrightarrow> i < length msk \<Longrightarrow> j < length (msk ! i) \<Longrightarrow>
   indicator_rows (keep_rows opt b lr msk) ! i ! j = flag (keep_rows opt b lr msk ! i ! j)"
  using same_shapeD [of lr msk] by (simp add: indicator_rows_def keep_rows_def)

lemma map2t_nth:
  "same_shape a m \<Longrightarrow> same_shape b m \<Longrightarrow> i < length m \<Longrightarrow> j < length (m ! i) \<Longrightarrow> map2t f a b ! i ! j = f (a ! i ! j) (b ! i ! j)"
  using same_shapeD [of a m] same_shapeD [of b m] by simp

lemma map2t_same_shape: "same_shape a m \<Longrightarrow> same_shape b m \<Longrightarrow> same_shape (map2t f a b) m"
  using same_shapeD [of a m] same_shapeD [of b m] by (auto simp: same_shape_def intro!: nth_equalityI)

text \<open>The mask after some options is one exactly where each of them accepts.\<close>

lemma rs_fold:
  assumes "fold_res (rs_option_step lr msk thresholds) opts (f, ms) = Inr (f', ms')"
    and "same_shape lr msk" and "same_shape f msk"
  shows "same_shape f' msk \<and> (\<forall>i < length msk. \<forall>j < length (msk ! i).
    f' ! i ! j = f ! i ! j * flag (\<forall>opt\<in>set opts. rs_accepts thresholds (lr ! i) (msk ! i) j opt))"
  using assms
proof (induction opts arbitrary: f ms)
  case Nil
  then show ?case by (simp add: flag_def)
next
  case (Cons opt opts)
  obtain b m where b: "dict_get thresholds opt = Some b"
    and step: "rs_option_step lr msk thresholds opt (f, ms) = Inr (map2t (*) f (indicator_rows (keep_rows opt b lr msk)), m)"
    using Cons.prems(1) by (auto simp: rs_option_step_def Let_def res_simps split: option.splits)
  define g where "g = map2t (*) f (indicator_rows (keep_rows opt b lr msk))"
  have g: "same_shape g msk"
    unfolding g_def by (rule map2t_same_shape [OF Cons.prems(3) keep_rows_shape [OF assms(2)]])
  have "fold_res (rs_option_step lr msk thresholds) opts (g, m) = Inr (f', ms')"
    using Cons.prems(1) step by (simp add: g_def)
  then have IH: "same_shape f' msk \<and> (\<forall>i < length msk. \<forall>j < length (msk ! i).
      f' ! i ! j = g ! i ! j * flag (\<forall>opt\<in>set opts. rs_accepts thresholds (lr ! i) (msk ! i) j opt))"
    using Cons.IH assms(2) g by blast
  moreover have "g ! i ! j = f ! i ! j * flag (rs_accepts thresholds (lr ! i) (msk ! i) j opt)"
    if "i < length msk" "j < length (msk ! i)" for i j
    unfolding g_def map2t_nth [OF Cons.prems(3) keep_rows_shape [OF assms(2)] that]
    by (simp add: indicator_nth [OF assms(2) that] keep_rows_nth [OF assms(2) that b])
  ultimately show ?case by (auto simp: flag_def)
qed

lemma rejection_mask_parts:
  assumes "compute_rollout_rejection_mask lr msk (Some rs) spec = Inr (m', metrics)" and "lr \<noteq> []" and "same_shape lr msk"
  shows "\<exists>opts thresholds. normalize_options rs = Inr opts \<and> parse_rollout_rs_thresholds opts spec = Inr thresholds \<and>
    same_shape m' msk \<and> (\<forall>i < length msk. \<forall>j < length (msk ! i).
      m' ! i ! j = (if \<forall>opt\<in>set opts. rs_accepts thresholds (lr ! i) (msk ! i) j opt then msk ! i ! j else 0))"
proof -
  define ones where "ones = map (map (\<lambda>k. 1 :: real)) msk"
  obtain opts thresholds final ms where parts: "normalize_options rs = Inr opts" "parse_rollout_rs_thresholds opts spec = Inr thresholds"
    and fold: "fold_res (rs_option_step lr msk thresholds) opts (ones, []) = Inr (final, ms)" and m': "m' = map2t (*) msk final"
    using assms(1,2)
    by (auto simp: compute_rollout_rejection_mask_def Let_def res_simps ones_def)
  have ones: "same_shape ones msk" by (simp add: same_shape_def ones_def comp_def)
  note final = rs_fold [OF fold assms(3) ones]
  have self: "same_shape msk msk" by (simp add: same_shape_def)
  have "m' ! i ! j = (if \<forall>opt\<in>set opts. rs_accepts thresholds (lr ! i) (msk ! i) j opt then msk ! i ! j else 0)"
    if "i < length msk" "j < length (msk ! i)" for i j
    using map2t_nth [OF self _ that, of final "(*)"] final that by (simp add: m' ones_def flag_def)
  moreover have "same_shape m' msk" unfolding m' using map2t_same_shape [OF self] final by blast
  ultimately show ?thesis using parts by blast
qed

text \<open>A threshold is found for every option, so that the mask is computed whenever the strings parse.\<close>

lemma fold_bounds_defined:
  assumes "fold_res (\<lambda>(opt, raw) d. bind_res (rs_bounds opt raw) (\<lambda>b. Inr (dict_set opt b d))) (zip opts raws) d = Inr thresholds"
    and "length raws = length opts"
  shows "(\<forall>opt\<in>set opts. dict_get thresholds opt \<noteq> None) \<and> (\<forall>opt. dict_get d opt \<noteq> None \<longrightarrow> dict_get thresholds opt \<noteq> None)"
  using assms(2,1)
proof (induction opts raws arbitrary: d rule: list_induct2')
  case (4 opt opts raw raws)
  then obtain bounds where b: "rs_bounds opt raw = Inr bounds"
    and rest: "fold_res (\<lambda>(opt, raw) d. bind_res (rs_bounds opt raw) (\<lambda>b. Inr (dict_set opt b d))) (zip opts raws)
        (dict_set opt bounds d) = Inr thresholds"
    by (auto simp: res_simps)
  then show ?case using "4.IH" [OF _ rest] "4.prems"(1) by (auto simp: update_conv')
qed auto

lemma parse_defined:
  assumes "parse_rollout_rs_thresholds opts spec = Inr thresholds" and "opt \<in> set opts"
  shows "dict_get thresholds opt \<noteq> None"
proof -
  obtain raws where raws: "length raws \<in> {1, length opts}" "raws \<noteq> []"
    and fold: "fold_res (\<lambda>(opt, raw) d. bind_res (rs_bounds opt raw) (\<lambda>b. Inr (dict_set opt b d)))
      (zip opts (if length raws = 1 \<and> length opts > 1 then replicate (length opts) (hd raws) else raws)) [] = Inr thresholds"
    using assms(1) by (auto simp: parse_rollout_rs_thresholds_def Let_def res_simps)
  have "length (if length raws = 1 \<and> length opts > 1 then replicate (length opts) (hd raws) else raws) = length opts"
    using raws assms(2) by (cases opts) auto
  then show ?thesis using fold_bounds_defined [OF fold] assms(2) by blast
qed

lemma rs_metrics_defined: "mask_any msk \<Longrightarrow> \<exists>m. compute_rs_metrics opt stat msk valid per upper lower al = Inr m"
  by (simp add: compute_rs_metrics_def Let_def guard_res_def)

lemma rs_step_defined:
  assumes "mask_any msk" and "dict_get thresholds opt \<noteq> None"
  shows "\<exists>acc'. rs_option_step lr msk thresholds opt acc = Inr acc'"
proof -
  obtain b where b: "dict_get thresholds opt = Some b" using assms(2) by blast
  obtain m where "compute_rs_metrics opt (map2 (rs_statistic opt) lr msk) msk (seq_valid_rows msk)
      (if opt \<in> token_level_rs_options then None else Some (map2 (sequence_stat opt) lr msk))
      (snd (stat_bounds opt b)) (or_else (fst (stat_bounds opt b)) 0) (ends_with ''k1'' opt) = Inr m"
    using rs_metrics_defined [OF assms(1)] by blast
  then show ?thesis by (simp add: rs_option_step_def b Let_def)
qed

lemma rs_fold_defined:
  assumes "mask_any msk" and "\<forall>opt\<in>set opts. dict_get thresholds opt \<noteq> None"
  shows "\<exists>f ms. fold_res (rs_option_step lr msk thresholds) opts acc = Inr (f, ms)"
  using assms(2)
proof (induction opts arbitrary: acc)
  case (Cons opt opts)
  obtain acc' where "rs_option_step lr msk thresholds opt acc = Inr acc'"
    using rs_step_defined [OF assms(1)] Cons.prems by (metis list.set_intros(1))
  then show ?case using Cons.IH [of acc'] Cons.prems by simp
qed (cases acc, simp)

lemma rejection_mask_defined:
  assumes "normalize_options rs = Inr opts" and "parse_rollout_rs_thresholds opts spec = Inr thresholds" and "mask_any msk"
  shows "\<exists>m' metrics. compute_rollout_rejection_mask lr msk (Some rs) spec = Inr (m', metrics)"
proof -
  have spec: "spec \<noteq> SpecNone" using assms(2) by (auto simp: parse_rollout_rs_thresholds_def raw_specs_def)
  obtain f ms where "fold_res (rs_option_step lr msk thresholds) opts (map (map (\<lambda>k. 1)) msk, []) = Inr (f, ms)"
    using rs_fold_defined [OF assms(3)] parse_defined [OF assms(2)] by blast
  then show ?thesis using spec assms(1,2) by (simp add: compute_rollout_rejection_mask_def guard_res_def Let_def)
qed

text \<open>
  C16: The rejection mask keeps exactly the tokens that every option accepts. Whenever the options and
  their thresholds parse and some token is valid, the mask is computed; a token that is kept has its old mask, a
  rejected one zero; each option is held against its own bounds, whatever the order and the repetitions
  in which the options are listed. When only sequence options are given, a response is kept or
  rejected as a whole.
\<close>

theorem rejection_mask_keeps_accepted:
  assumes "normalize_options rs = Inr opts" and "parse_rollout_rs_thresholds opts spec = Inr thresholds"
    and "mask_any msk" and "same_shape lr msk"
  shows "\<exists>m' metrics. compute_rollout_rejection_mask lr msk (Some rs) spec = Inr (m', metrics) \<and>
    set opts = set (comma_list rs) \<and> distinct opts \<and> same_shape m' msk \<and>
    (\<forall>i < length msk.
      (\<forall>j < length (msk ! i).
        m' ! i ! j = (if \<forall>opt\<in>set opts. rs_accepts thresholds (lr ! i) (msk ! i) j opt then msk ! i ! j else 0)) \<and>
      (set opts \<inter> token_level_rs_options = {} \<longrightarrow> m' ! i = msk ! i \<or> m' ! i = map (\<lambda>k. 0) (msk ! i)))"
proof -
  obtain m' metrics where comp: "compute_rollout_rejection_mask lr msk (Some rs) spec = Inr (m', metrics)"
    using rejection_mask_defined [OF assms(1-3)] by blast
  have "lr \<noteq> []" using assms(3) same_shapeD(1) [OF assms(4)] by (auto simp: mask_any_def)
  then have shape: "same_shape m' msk"
    and tok: "\<And>i j. i < length msk \<Longrightarrow> j < length (msk ! i) \<Longrightarrow>
      m' ! i ! j = (if \<forall>opt\<in>set opts. rs_accepts thresholds (lr ! i) (msk ! i) j opt then msk ! i ! j else 0)"
    using rejection_mask_parts [OF comp _ assms(4)] assms(1,2) by auto
  have opts: "set opts = set (comma_list rs)" "distinct opts"
    using assms(1) by (auto simp: normalize_options_def Let_def guard_res_def dedup_def split: if_splits)
  have whole: "m' ! i = msk ! i \<or> m' ! i = map (\<lambda>k. 0) (msk ! i)"
    if i: "i < length msk" and seq: "set opts \<inter> token_level_rs_options = {}" for i
  proof -
    have acc: "rs_accepts thresholds (lr ! i) (msk ! i) j opt = rs_accepts thresholds (lr ! i) (msk ! i) 0 opt" if "opt \<in> set opts" for j opt
      using seq that by (auto simp: rs_accepts_def split: option.splits)
    define ok where "ok \<longleftrightarrow> (\<forall>opt\<in>set opts. rs_accepts thresholds (lr ! i) (msk ! i) 0 opt)"
    have "m' ! i = map (\<lambda>k. if ok then k else 0) (msk ! i)"
    proof (rule nth_equalityI)
      show "length (m' ! i) = length (map (\<lambda>k. if ok then k else 0) (msk ! i))" using same_shapeD(2) [OF shape i] by simp
      fix j
      assume "j < length (m' ! i)"
      then have j: "j < length (msk ! i)" using same_shapeD(2) [OF shape i] by simp
      have "(\<forall>opt\<in>set opts. rs_accepts thresholds (lr ! i) (msk ! i) j opt) \<longleftrightarrow> ok" using acc unfolding ok_def by blast
      then show "m' ! i ! j = map (\<lambda>k. if ok then k else 0) (msk ! i) ! j" unfolding tok [OF i j] using j by simp
    qed
    then show ?thesis by (cases ok) simp_all
  qed
  show ?thesis
    by (intro exI [of _ m'] exI [of _ metrics] conjI allI impI)
      (fact comp opts shape | rule tok, assumption, assumption | rule whole, assumption, assumption)+
qed

theorem rejection_mask_keeps_accepted_witness:
  "\<exists>m' metrics. compute_rollout_rejection_mask [[0, 0], [3, 3]] [[1, 1], [1, 0]] (Some ''seq_sum_k1, seq_sum_k1'') (SpecStr ''0.5_2.0'') =
      Inr (m', metrics) \<and> (m' ! 1 = [1, 0] \<or> m' ! 1 = [0, 0])"
proof -
  have "normalize_options ''seq_sum_k1, seq_sum_k1'' = Inr [''seq_sum_k1'']" by code_simp
  moreover have "parse_rollout_rs_thresholds [''seq_sum_k1''] (SpecStr ''0.5_2.0'') = Inr [(''seq_sum_k1'', (Some (1 / 2), 2))]"
    by code_simp
  ultimately obtain m' metrics where "compute_rollout_rejection_mask [[0, 0], [3, 3]] [[1, 1], [1, 0]]
        (Some ''seq_sum_k1, seq_sum_k1'') (SpecStr ''0.5_2.0'') = Inr (m', metrics)"
    and rows: "\<forall>i < length [[1, 1], [1, 0 :: real]]. {''seq_sum_k1''} \<inter> token_level_rs_options = {} \<longrightarrow>
        m' ! i = [[1, 1], [1, 0]] ! i \<or> m' ! i = map (\<lambda>k. 0) ([[1, 1], [1, 0 :: real]] ! i)"
    using rejection_mask_keeps_accepted [of "''seq_sum_k1, seq_sum_k1''" "[''seq_sum_k1'']" "SpecStr ''0.5_2.0''" _
        "[[1, 1], [1, 0]]" "[[0, 0], [3, 3]]"]
    by (auto simp: mask_any_def same_shape_def)
  moreover have "m' ! 1 = [1, 0] \<or> m' ! 1 = [0, 0]"
    using rows [rule_format, of 1] by (simp add: token_level_rs_options_def)
  ultimately show ?thesis by blast
qed

text \<open>One option with a numeric threshold or with a pair of bounds.\<close>

lemma comma_list_single: "CHR '','' \<notin> set s \<Longrightarrow> comma_list s = (if py_strip s = [] then [] else [py_strip s])"
  by (simp add: comma_list_def split_on_plain)

lemma token_k1_option: "normalize_options ''token_k1'' = Inr [''token_k1'']"
proof -
  have "comma_list ''token_k1'' = [''token_k1'']" by code_simp
  then show ?thesis by (simp add: normalize_options_def supported_rs_options_def guard_res_def dedup_def)
qed

lemma token_k1_accepts:
  assumes "0 < l" and "0 < u" and "\<bar>row ! j\<bar> \<le> 20"
  shows "rs_accepts [(''token_k1'', (Some l, u))] row mrow j ''token_k1'' \<longleftrightarrow> 1 / u \<le> exp (row ! j) \<and> exp (row ! j) \<le> 1 / l"
proof -
  have "safe_log (row ! j) = row ! j" using assms(3) by (simp add: safe_log_def safety_bound_def clamp_def)
  moreover have "ends_with ''k1'' ''token_k1''" by code_simp
  ultimately have "rs_accepts [(''token_k1'', (Some l, u))] row mrow j ''token_k1'' \<longleftrightarrow> ln l \<le> - (row ! j) \<and> - (row ! j) \<le> ln u"
    by (simp add: rs_accepts_def token_level_rs_options_def token_stat_def stat_bounds_def stat_ok_def)
  moreover have "ln l \<le> - (row ! j) \<longleftrightarrow> exp (row ! j) \<le> 1 / l"
    using assms(1) by (metis exp_le_cancel_iff exp_ln exp_minus inverse_eq_divide le_minus_iff ln_div ln_one
      diff_0 minus_le_iff ln_inverse)
  moreover have "- (row ! j) \<le> ln u \<longleftrightarrow> 1 / u \<le> exp (row ! j)"
    using assms(2) by (metis exp_le_cancel_iff exp_ln exp_minus inverse_eq_divide minus_le_iff)
  ultimately show ?thesis by blast
qed

text \<open>
  The bounds of token_k1 apply to the inverse of the ratio. The documentation calls the pair
  lower and upper bounds of the ratio of training to rollout probabilities; a token is kept
  exactly when that ratio lies between one over the upper and one over the lower bound. A single number below one,
  whose reciprocal becomes the lower bound, therefore rejects every token.
\<close>

theorem ratio_bounds_are_inverted:
  assumes "parse_rollout_rs_thresholds [''token_k1''] spec = Inr [(''token_k1'', (Some l, u))]" and "0 < l" and "0 < u"
    and "mask_any msk" and "same_shape lr msk" and "\<forall>row\<in>set lr. \<forall>x\<in>set row. \<bar>x\<bar> \<le> 20"
  shows "\<exists>m' metrics. compute_rollout_rejection_mask lr msk (Some ''token_k1'') spec = Inr (m', metrics) \<and>
    (\<forall>i < length msk. \<forall>j < length (msk ! i).
      m' ! i ! j = (if 1 / u \<le> exp (lr ! i ! j) \<and> exp (lr ! i ! j) \<le> 1 / l then msk ! i ! j else 0)) \<and>
    (spec = SpecNum u \<longrightarrow> u < 1 \<longrightarrow> (\<forall>i < length msk. \<forall>j < length (msk ! i). m' ! i ! j = 0))"
proof -
  obtain m' metrics where comp: "compute_rollout_rejection_mask lr msk (Some ''token_k1'') spec = Inr (m', metrics)"
    using rejection_mask_defined [OF token_k1_option assms(1,4)] by blast
  have "lr \<noteq> []" using assms(4) same_shapeD(1) [OF assms(5)] by (auto simp: mask_any_def)
  then have tok: "m' ! i ! j = (if rs_accepts [(''token_k1'', (Some l, u))] (lr ! i) (msk ! i) j ''token_k1'' then msk ! i ! j else 0)"
    if "i < length msk" "j < length (msk ! i)" for i j
    using rejection_mask_parts [OF comp _ assms(5)] that by (auto simp: token_k1_option assms(1))
  have ratio: "m' ! i ! j = (if 1 / u \<le> exp (lr ! i ! j) \<and> exp (lr ! i ! j) \<le> 1 / l then msk ! i ! j else 0)"
    if ij: "i < length msk" "j < length (msk ! i)" for i j
  proof -
    have "\<bar>lr ! i ! j\<bar> \<le> 20" using assms(6) ij same_shapeD(1) [OF assms(5)] same_shapeD(2) [OF assms(5) ij(1)] nth_mem by metis
    then show ?thesis using tok [OF ij] token_k1_accepts [OF assms(2,3)] by simp
  qed
  moreover have "1 / l < 1 / u" if "spec = SpecNum u" "u < 1"
  proof -
    have l: "l = 1 / u" using assms(1) that(1)
      by (auto simp: parse_rollout_rs_thresholds_def raw_specs_def rs_bounds_def raw_pair_def raw_float_def res_simps
          ends_with_def guard_res_def split: if_splits)
    moreover have "u * u < 1 * 1" using that(2) assms(3) by (intro mult_strict_mono) auto
    ultimately show ?thesis using assms(3) by (simp add: l less_divide_eq)
  qed
  ultimately show ?thesis using comp by (intro exI [of _ m'] exI [of _ metrics]) force
qed

theorem ratio_bounds_are_inverted_witness:
  "\<exists>m' metrics. compute_rollout_rejection_mask [[ln 3, 0]] [[1, 1]] (Some ''token_k1'') (SpecStr ''0.5_4'') = Inr (m', metrics) \<and>
    m' ! 0 ! 0 = 0 \<and> m' ! 0 ! 1 = 1"
proof -
  define lr msk :: tensor where "lr = [[ln 3, 0]]" and "msk = [[1, 1]]"
  have "parse_rollout_rs_thresholds [''token_k1''] (SpecStr ''0.5_4'') = Inr [(''token_k1'', (Some (1 / 2), 4))]" by code_simp
  moreover have "\<bar>ln 3 :: real\<bar> \<le> 20" using ln_le_minus_one [of "3 :: real"] by simp
  ultimately obtain m' metrics where comp: "compute_rollout_rejection_mask lr msk (Some ''token_k1'') (SpecStr ''0.5_4'') = Inr (m', metrics)"
    and tok: "\<forall>i < length msk. \<forall>j < length (msk ! i).
      m' ! i ! j = (if 1 / 4 \<le> exp (lr ! i ! j) \<and> exp (lr ! i ! j) \<le> 1 / (1 / 2) then msk ! i ! j else 0)"
    using ratio_bounds_are_inverted [of "SpecStr ''0.5_4''" "1 / 2" 4 msk lr]
    by (auto simp: mask_any_def same_shape_def lr_def msk_def)
  have "m' ! 0 ! 0 = 0 \<and> m' ! 0 ! 1 = 1"
    using tok [rule_format, of 0 0] tok [rule_format, of 0 1] by (simp add: lr_def msk_def)
  then show ?thesis using comp unfolding lr_def msk_def by blast
qed

subsection \<open>The weights\<close>

definition applied_weights :: "string \<Rightarrow> real \<Rightarrow> real option \<Rightarrow> tensor \<Rightarrow> tensor \<Rightarrow> tensor" where
  "applied_weights level upper lower log_ratio msk = map (map (truncate_weight upper lower)) (raw_is_weights level log_ratio msk)"

lemma parse_is_bounds:
  assumes "parse_rollout_is_threshold spec = Inr (upper, lower)"
  shows "0 < upper \<and> (\<forall>l. lower = Some l \<longrightarrow> 0 < l \<and> l \<le> upper)"
proof -
  have "check_is_bounds u l = Inr (upper, lower) \<Longrightarrow> 0 < upper \<and> (\<forall>l. lower = Some l \<longrightarrow> 0 < l \<and> l \<le> upper)" for u l
    by (auto simp: check_is_bounds_def guard_res_def split: option.splits if_splits)
  then show ?thesis using assms
    by (auto simp: parse_rollout_is_threshold_def Let_def res_simps split: threshold_spec.splits if_splits)
qed

lemma raw_is_weights_shape:
  assumes "same_shape lr msk"
  shows "same_shape (raw_is_weights level lr msk) msk"
proof (cases "level = ''token''")
  case True
  have "same_shape msk msk" by (simp add: same_shape_def)
  then show ?thesis using True map2t_same_shape [OF assms, of msk] by (simp add: raw_is_weights_def)
next
  case False
  then show ?thesis using same_shapeD(1) [OF assms]
    by (auto simp: raw_is_weights_def same_shape_def intro!: nth_equalityI)
qed

lemma raw_is_weights_nth:
  assumes "same_shape lr msk" and "i < length msk" and "j < length (msk ! i)"
  shows "\<exists>x. raw_is_weights level lr msk ! i ! j = exp x * msk ! i ! j"
proof (cases "level = ''token''")
  case True
  have "same_shape msk msk" by (simp add: same_shape_def)
  then show ?thesis using True map2t_nth [OF assms(1) _ assms(2,3), of msk] by (auto simp: raw_is_weights_def)
next
  case False
  then show ?thesis using same_shapeD(1) [OF assms(1)] assms(2,3) by (auto simp: raw_is_weights_def)
qed

lemma map_map_shape: "same_shape a m \<Longrightarrow> same_shape (map (map f) a) m"
  by (simp add: same_shape_def comp_def)

lemma map_map_nth: "same_shape a m \<Longrightarrow> i < length m \<Longrightarrow> j < length (m ! i) \<Longrightarrow> map (map f) a ! i ! j = f (a ! i ! j)"
  using same_shapeD [of a m] by simp

lemma applied_weight_bounds:
  assumes "parse_rollout_is_threshold spec = Inr (upper, lower)" and "mask_ok msk" and "same_shape lr msk"
    and "i < length msk" and "j < length (msk ! i)"
  shows "0 \<le> applied_weights level upper lower lr msk ! i ! j \<and> applied_weights level upper lower lr msk ! i ! j \<le> upper \<and>
    (msk ! i ! j = 0 \<longrightarrow> applied_weights level upper lower lr msk ! i ! j = 0) \<and>
    (\<forall>l. lower = Some l \<longrightarrow> applied_weights level upper lower lr msk ! i ! j = 0 \<or> l \<le> applied_weights level upper lower lr msk ! i ! j) \<and>
    (lower = None \<and> msk ! i ! j \<noteq> 0 \<longrightarrow> 0 < applied_weights level upper lower lr msk ! i ! j)"
proof -
  obtain x where x: "raw_is_weights level lr msk ! i ! j = exp x * msk ! i ! j"
    using raw_is_weights_nth [OF assms(3-5)] by blast
  have m: "msk ! i ! j = 0 \<or> msk ! i ! j = 1" using assms(2,4,5) nth_mem unfolding mask_ok_def by metis
  have "applied_weights level upper lower lr msk ! i ! j = truncate_weight upper lower (exp x * msk ! i ! j)"
    unfolding applied_weights_def map_map_nth [OF raw_is_weights_shape [OF assms(3)] assms(4,5)] x ..
  then show ?thesis using parse_is_bounds [OF assms(1)] m
    by (cases lower) (auto simp: truncate_weight_def)
qed

lemma applied_weights_shape: "same_shape lr msk \<Longrightarrow> same_shape (applied_weights level upper lower lr msk) msk"
  unfolding applied_weights_def by (intro map_map_shape raw_is_weights_shape)

text \<open>A masked sum of squares is zero only when every kept value is.\<close>

lemma masked_square_zero:
  assumes "mask_ok m" and "same_shape v m"
  shows "masked_sum (map (map (\<lambda>x. x ^ 2)) v) m = 0 \<longleftrightarrow> (\<forall>i < length m. \<forall>j < length (m ! i). m ! i ! j = 0 \<or> v ! i ! j = 0)"
proof -
  let ?f = "\<lambda>a b. map2 masked_product (map (\<lambda>x. x ^ 2) a) b"
  have nonneg: "\<forall>x\<in>set (?f a b). 0 \<le> x" if "\<forall>k\<in>set b. k = 0 \<or> k = 1" for a b :: "real list"
  proof
    fix x
    assume "x \<in> set (?f a b)"
    then obtain y k where "x = masked_product (y ^ 2) k" "k \<in> set b" by (auto simp: zip_map1 elim!: in_set_zipE)
    then show "0 \<le> x" using that by (auto simp: masked_product_times)
  qed
  have row: "sum_list (?f a b) = 0 \<longleftrightarrow> (\<forall>j < length b. b ! j = 0 \<or> a ! j = 0)"
    if "length a = length b" "\<forall>k\<in>set b. k = 0 \<or> k = 1" for a b
  proof -
    have "sum_list (?f a b) = 0 \<longleftrightarrow> (\<forall>x\<in>set (?f a b). x = 0)"
      using nonneg [OF that(2)] by (intro sum_list_nonneg_eq_0_iff) blast
    also have "\<dots> \<longleftrightarrow> (\<forall>j < length b. b ! j = 0 \<or> a ! j = 0)"
      using that(1) by (auto simp: set_conv_nth masked_product_times)
    finally show ?thesis .
  qed
  have len: "length v = length m" using assms(2) by (rule same_shapeD)
  have mrow: "\<forall>k\<in>set (m ! i). k = 0 \<or> k = 1" if "i < length m" for i
    using assms(1) nth_mem [OF that] unfolding mask_ok_def by blast
  have "masked_sum (map (map (\<lambda>x. x ^ 2)) v) m = sum_list (map2 (\<lambda>a b. sum_list (?f a b)) v m)"
    unfolding masked_sum_def total_sum_def row_sums_def map2t_def using len
    by (induction v m rule: list_induct2) simp_all
  also have "\<dots> = 0 \<longleftrightarrow> (\<forall>x\<in>set (map2 (\<lambda>a b. sum_list (?f a b)) v m). x = 0)"
    using len mrow nonneg by (intro sum_list_nonneg_eq_0_iff) (force simp: set_conv_nth intro!: sum_list_nonneg)
  also have "\<dots> \<longleftrightarrow> (\<forall>i < length m. sum_list (?f (v ! i) (m ! i)) = 0)"
    using len by (auto simp: set_conv_nth)
  also have "\<dots> \<longleftrightarrow> (\<forall>i < length m. \<forall>j < length (m ! i). m ! i ! j = 0 \<or> v ! i ! j = 0)"
    using row same_shapeD(2) [OF assms(2)] mrow by auto
  finally show ?thesis .
qed

lemma kept_token: "mask_any m \<Longrightarrow> \<exists>i < length m. \<exists>j < length (m ! i). m ! i ! j \<noteq> 0"
  unfolding mask_any_def list_ex_iff by (metis in_set_conv_nth)

lemma clamp_applied:
  assumes "parse_rollout_is_threshold spec = Inr (upper, lower)" and "mask_ok msk" and "same_shape lr msk"
  shows "map (map (clamp 0 upper)) (applied_weights level upper lower lr msk) = applied_weights level upper lower lr msk"
proof (rule nth_equalityI)
  let ?w = "applied_weights level upper lower lr msk"
  note shape = applied_weights_shape [OF assms(3), of level upper lower]
  show "length (map (map (clamp 0 upper)) ?w) = length ?w" by simp
  fix i
  assume "i < length (map (map (clamp 0 upper)) ?w)"
  then have i: "i < length msk" using same_shapeD(1) [OF shape] by simp
  show "map (map (clamp 0 upper)) ?w ! i = ?w ! i"
  proof (rule nth_equalityI)
    show "length (map (map (clamp 0 upper)) ?w ! i) = length (?w ! i)" using i same_shapeD(1) [OF shape] by simp
    fix j
    assume "j < length (map (map (clamp 0 upper)) ?w ! i)"
    then have j: "j < length (msk ! i)" using i same_shapeD(1) [OF shape] same_shapeD(2) [OF shape i] by simp
    show "map (map (clamp 0 upper)) ?w ! i ! j = ?w ! i ! j"
      unfolding map_map_nth [OF shape i j] using applied_weight_bounds [OF assms i j, of level] by (simp add: clamp_def)
  qed
qed

lemma masked_mean_weights_nonneg:
  assumes "parse_rollout_is_threshold spec = Inr (upper, lower)" and "mask_ok msk" and "same_shape lr msk"
  shows "0 \<le> masked_mean (applied_weights level upper lower lr msk) msk"
proof (rule masked_mean_nonneg [OF assms(2)], intro ballI)
  fix row x
  assume "row \<in> set (applied_weights level upper lower lr msk)" and "x \<in> set row"
  then obtain i j where "i < length msk" "j < length (msk ! i)" "x = applied_weights level upper lower lr msk ! i ! j"
    using same_shapeD [OF applied_weights_shape [OF assms(3), of level upper lower]] by (metis in_set_conv_nth)
  then show "0 \<le> x" using applied_weight_bounds [OF assms, of i j level] by simp
qed

lemma is_metrics_defined:
  assumes "parse_rollout_is_threshold spec = Inr (upper, lower)" and "mask_ok msk" and "same_shape lr msk" and "mask_any msk"
  shows "if \<exists>i < length msk. \<exists>j < length (msk ! i). applied_weights level upper lower lr msk ! i ! j \<noteq> 0
    then \<exists>m. compute_is_metrics level (applied_weights level upper lower lr msk) raw lr msk upper lower = Inr m
    else compute_is_metrics level (applied_weights level upper lower lr msk) raw lr msk upper lower = Inl ZeroDivisionError"
proof -
  let ?w = "applied_weights level upper lower lr msk"
  define c where "c = masked_mean ?w msk + 1 / 10 ^ 8"
  have c: "0 < c" using masked_mean_weights_nonneg [OF assms(1-3), of level] by (simp add: c_def add_nonneg_pos)
  note shape = applied_weights_shape [OF assms(3), of level upper lower]
  have scaled: "same_shape (map (map (\<lambda>x. x / c)) ?w) msk" using shape by (rule map_map_shape)
  have "masked_mean (map (map (\<lambda>x. x ^ 2)) (map (map (\<lambda>x. x / c)) ?w)) msk = 0 \<longleftrightarrow>
      masked_sum (map (map (\<lambda>x. x ^ 2)) (map (map (\<lambda>x. x / c)) ?w)) msk = 0"
    using mask_sum_nonneg [OF assms(2)] by (simp add: masked_mean_def add_nonneg_eq_0_iff)
  also have "\<dots> \<longleftrightarrow> (\<forall>i < length msk. \<forall>j < length (msk ! i). msk ! i ! j = 0 \<or> ?w ! i ! j = 0)"
    unfolding masked_square_zero [OF assms(2) scaled]
  proof (intro all_cong)
    fix i j
    assume "i < length msk" "j < length (msk ! i)"
    then show "(msk ! i ! j = 0 \<or> map (map (\<lambda>x. x / c)) ?w ! i ! j = 0) \<longleftrightarrow> (msk ! i ! j = 0 \<or> ?w ! i ! j = 0)"
      using map_map_nth [OF shape, of i j "\<lambda>x. x / c"] c by (simp del: nth_map)
  qed
  also have "\<dots> \<longleftrightarrow> \<not> (\<exists>i < length msk. \<exists>j < length (msk ! i). ?w ! i ! j \<noteq> 0)"
    using applied_weight_bounds [OF assms(1-3), of _ _ level] by blast
  finally have zero: "masked_mean (map (map (\<lambda>x. x ^ 2)) (map (map (\<lambda>x. x / c)) ?w)) msk = 0 \<longleftrightarrow>
      \<not> (\<exists>i < length msk. \<exists>j < length (msk ! i). ?w ! i ! j \<noteq> 0)" .
  show ?thesis
    unfolding compute_is_metrics_def Let_def clamp_applied [OF assms(1-3)] c_def [symmetric] zero
    using assms(4) by (auto simp: guard_res_def)
qed

lemma masked_mean_divide: "masked_mean (map (map (\<lambda>w. w / c)) v) m = masked_mean v m / c"
proof -
  have row: "sum_list (map2 masked_product (map (\<lambda>w. w / c) a) b) = sum_list (map2 masked_product a b) / c" for a b
    by (induction a b rule: list_induct2') (auto simp: masked_product_times add_divide_distrib)
  have "masked_sum (map (map (\<lambda>w. w / c)) v) m = masked_sum v m / c"
    unfolding masked_sum_def total_sum_def row_sums_def map2t_def
    by (induction v m rule: list_induct2') (auto simp: row add_divide_distrib)
  then show ?thesis by (simp add: masked_mean_def)
qed

text \<open>
  C17: Importance weights are truncated, or the call fails when none is left. A weight is at most the
  upper threshold, zero on padding, and with a pair of thresholds zero or at least the lower one; with
  batch normalization the token weights have mean one. When the pair of thresholds zeroes
  every token of the batch, the effective sample size is one over zero and the call raises
  ZeroDivisionError instead of returning zero weights; with a single threshold that cannot happen.
\<close>

theorem weights_truncated_or_failure:
  assumes "parse_rollout_is_threshold spec = Inr (upper, lower)" and "level \<in> {''token'', ''sequence''}"
    and "mask_ok msk" and "same_shape lr msk" and "mask_any msk"
  shows "if \<exists>i < length msk. \<exists>j < length (msk ! i). applied_weights level upper lower lr msk ! i ! j \<noteq> 0
    then \<exists>w metrics. compute_rollout_correction_weights lr msk level spec False = Inr (w, metrics) \<and>
      (\<forall>i < length msk. \<forall>j < length (msk ! i). 0 \<le> w ! i ! j \<and> w ! i ! j \<le> upper \<and> (msk ! i ! j = 0 \<longrightarrow> w ! i ! j = 0) \<and>
         (\<forall>l. lower = Some l \<longrightarrow> w ! i ! j = 0 \<or> l \<le> w ! i ! j)) \<and>
      (\<exists>w' metrics'. compute_rollout_correction_weights lr msk level spec True = Inr (w', metrics') \<and>
         (level = ''token'' \<and> masked_mean w msk > 1 / 10 ^ 8 \<longrightarrow> masked_mean w' msk = 1))
    else compute_rollout_correction_weights lr msk level spec False = Inl ZeroDivisionError \<and> lower \<noteq> None"
proof -
  let ?w = "applied_weights level upper lower lr msk" and ?raw = "raw_is_weights level lr msk"
  have call: "compute_rollout_correction_weights lr msk level spec normed =
      bind_res (compute_is_metrics level ?w ?raw lr msk upper lower) (\<lambda>metrics.
        let metrics1 = (case lower of None \<Rightarrow> metrics
              | Some l \<Rightarrow> metrics_update metrics [(''rollout_is_oob_ratio'', masked_fraction (\<lambda>x. x < l \<or> x > upper) ?raw msk)])
        in if normed
           then (let (n, factor) = normalize_weights level ?w msk
                 in Inr (n, metrics_update metrics1 [(''rollout_is_batch_norm_factor'', factor)]))
           else Inr (?w, metrics1))" for normed
    using assms(1,2)
    by (cases normed) (auto simp: compute_rollout_correction_weights_def applied_weights_def Let_def guard_res_def)
  note metrics = is_metrics_defined [OF assms(1,3,4,5), of level ?raw]
  show ?thesis
  proof (cases "\<exists>i < length msk. \<exists>j < length (msk ! i). ?w ! i ! j \<noteq> 0")
    case True
    then obtain m where m: "compute_is_metrics level ?w ?raw lr msk upper lower = Inr m" using metrics by auto
    have "fst (normalize_weights level ?w msk) = map (map (\<lambda>w. w / masked_mean ?w msk)) ?w"
      if "level = ''token''" "masked_mean ?w msk > 1 / 10 ^ 8"
      using that by (simp add: normalize_weights_def weights_mean_def Let_def)
    then have "level = ''token'' \<and> masked_mean ?w msk > 1 / 10 ^ 8 \<longrightarrow> masked_mean (fst (normalize_weights level ?w msk)) msk = 1"
      by (auto simp: masked_mean_divide)
    moreover obtain ms' where "compute_rollout_correction_weights lr msk level spec True = Inr (fst (normalize_weights level ?w msk), ms')"
      by (simp add: call m Let_def split_beta)
    ultimately have normed: "\<exists>w' metrics'. compute_rollout_correction_weights lr msk level spec True = Inr (w', metrics') \<and>
         (level = ''token'' \<and> masked_mean ?w msk > 1 / 10 ^ 8 \<longrightarrow> masked_mean w' msk = 1)"
      by blast
    have bounds: "\<forall>i < length msk. \<forall>j < length (msk ! i). 0 \<le> ?w ! i ! j \<and> ?w ! i ! j \<le> upper \<and> (msk ! i ! j = 0 \<longrightarrow> ?w ! i ! j = 0) \<and>
         (\<forall>l. lower = Some l \<longrightarrow> ?w ! i ! j = 0 \<or> l \<le> ?w ! i ! j)"
      using applied_weight_bounds [OF assms(1,3,4), of _ _ level] by blast
    obtain ms where plain: "compute_rollout_correction_weights lr msk level spec False = Inr (?w, ms)"
      by (simp add: call m Let_def)
    show ?thesis unfolding if_P [OF True]
      by (rule exI [of _ ?w], rule exI [of _ ms]) (rule conjI [OF plain conjI [OF bounds normed]])
  next
    case False
    obtain i j where ij: "i < length msk" "j < length (msk ! i)" and kept: "msk ! i ! j \<noteq> 0" using kept_token [OF assms(5)] by blast
    have "?w ! i ! j = 0" using False ij by blast
    then have "lower \<noteq> None" using kept applied_weight_bounds [OF assms(1,3,4) ij, of level] by (metis less_irrefl)
    then show ?thesis using metrics unfolding if_not_P [OF False] by (simp add: call)
  qed
qed

theorem weights_truncated_or_failure_witness:
  "\<exists>lr msk. lr = [[ln 3]] \<and> msk = [[1]] \<and>
    compute_rollout_correction_weights lr msk ''token'' (SpecStr ''0.5_2.0'') False = Inl ZeroDivisionError"
proof -
  define lr msk :: tensor where "lr = [[ln 3]]" and "msk = [[1]]"
  have "- 20 \<le> (ln 3 :: real)" by (rule order_trans [of _ 0]) simp_all
  moreover have "(ln 3 :: real) \<le> 20" using ln_le_minus_one [of "3 :: real"] by simp
  ultimately have safe: "safe_log (ln 3) = ln 3" by (simp add: safe_log_def safety_bound_def clamp_def max_absorb2 min_absorb2)
  have weights: "applied_weights ''token'' 2 (Some (1 / 2)) lr msk = [[0]]"
    by (simp add: applied_weights_def raw_is_weights_def map2t_def lr_def msk_def safe truncate_weight_def)
  have "parse_rollout_is_threshold (SpecStr ''0.5_2.0'') = Inr (2, Some (1 / 2))" by code_simp
  then have "if \<exists>i < length msk. \<exists>j < length (msk ! i). applied_weights ''token'' 2 (Some (1 / 2)) lr msk ! i ! j \<noteq> 0
    then \<exists>w metrics. compute_rollout_correction_weights lr msk ''token'' (SpecStr ''0.5_2.0'') False = Inr (w, metrics) \<and>
      (\<forall>i < length msk. \<forall>j < length (msk ! i). 0 \<le> w ! i ! j \<and> w ! i ! j \<le> 2 \<and> (msk ! i ! j = 0 \<longrightarrow> w ! i ! j = 0) \<and>
         (\<forall>l. Some (1 / 2) = Some l \<longrightarrow> w ! i ! j = 0 \<or> l \<le> w ! i ! j)) \<and>
      (\<exists>w' metrics'. compute_rollout_correction_weights lr msk ''token'' (SpecStr ''0.5_2.0'') True = Inr (w', metrics') \<and>
         (''token'' = ''token'' \<and> masked_mean w msk > 1 / 10 ^ 8 \<longrightarrow> masked_mean w' msk = 1))
    else compute_rollout_correction_weights lr msk ''token'' (SpecStr ''0.5_2.0'') False = Inl ZeroDivisionError \<and> Some (1 / 2 :: real) \<noteq> None"
    by (rule weights_truncated_or_failure) (simp_all add: mask_ok_def same_shape_def mask_any_def lr_def msk_def)
  moreover have "\<not> (\<exists>i < length msk. \<exists>j < length (msk ! i). applied_weights ''token'' 2 (Some (1 / 2)) lr msk ! i ! j \<noteq> 0)"
    unfolding weights by (auto simp: msk_def less_Suc_eq)
  ultimately have "compute_rollout_correction_weights lr msk ''token'' (SpecStr ''0.5_2.0'') False = Inl ZeroDivisionError"
    by (simp only: if_False simp_thms)
  then show ?thesis unfolding lr_def msk_def by blast
qed

end
