(* ===== verification/Rounding.thy ===== *)
theory Rounding
  imports Prelude
begin

section \<open>Rounding to single precision\<close>

text \<open>
  Numbers of single precision as reals: the nearest number with a given count of significant bits, ties to even. Exponents are not
  bounded, so nothing overflows or underflows. The standard deviation computed with such numbers is the instance at which the
  properties of the trainer's filter are shown to hold, and at which they fail for other rewards.
\<close>

subsection \<open>Rounding\<close>

definition half_even :: "real \<Rightarrow> int" where
  "half_even y = (let d = \<lfloor>y\<rfloor>; r = y - of_int d in if r < 1 / 2 \<or> r = 1 / 2 \<and> even d then d else d + 1)"

definition round_bits :: "nat \<Rightarrow> real \<Rightarrow> real" where
  "round_bits p x =
     (if x = 0 then 0
      else (let e = \<lfloor>log 2 \<bar>x\<bar>\<rfloor> - int p + 1 in of_int (half_even (x / 2 powi e)) * 2 powi e))"

lemma half_even_int [simp]: "half_even (of_int k) = k"
  by (simp add: half_even_def Let_def)

lemma half_even_mono_one: "1 \<le> y \<Longrightarrow> 1 \<le> half_even y"
  by (auto simp: half_even_def Let_def le_floor_iff)

lemma half_even_minus_one: "y \<le> - 1 \<Longrightarrow> half_even y \<le> - 1"
proof -
  assume y: "y \<le> - 1"
  then have "\<lfloor>y\<rfloor> \<le> - 1" by linarith
  moreover have "\<lfloor>y\<rfloor> = - 1 \<Longrightarrow> y = - 1" using y by linarith
  ultimately show ?thesis by (cases "\<lfloor>y\<rfloor> = - 1") (auto simp: half_even_def Let_def)
qed

lemma round_bits_zero [simp]: "round_bits p 0 = 0"
  by (simp add: round_bits_def)

lemma floor_log_two: "0 < x \<Longrightarrow> \<lfloor>log 2 x\<rfloor> = k \<longleftrightarrow> 2 powi k \<le> x \<and> x < 2 powi (k + 1)"
proof -
  assume "0 < x"
  have powi: "(2 :: real) powr of_int i = 2 powi i" for i by (simp add: powr_real_of_int')
  show ?thesis using floor_log_eq_powr_iff [OF \<open>0 < x\<close>, of 2 k] powi [of k] powi [of "k + 1"] by simp
qed

text \<open>The scaled number has as many bits before the point as the format.\<close>

lemma round_bits_scaled:
  assumes "x \<noteq> 0" and "0 < p"
  obtains e where "round_bits p x = of_int (half_even (x / 2 powi e)) * 2 powi e" and "2 ^ (p - 1) \<le> \<bar>x / 2 powi e\<bar>" and "\<bar>x / 2 powi e\<bar> < 2 ^ p"
proof -
  define k where "k = \<lfloor>log 2 \<bar>x\<bar>\<rfloor>"
  define e where "e = k - int p + 1"
  have k: "2 powi k \<le> \<bar>x\<bar>" "\<bar>x\<bar> < 2 powi (k + 1)"
    using floor_log_two [of "\<bar>x\<bar>" k] assms(1) by (simp_all add: k_def)
  have abs: "\<bar>x / 2 powi e\<bar> = \<bar>x\<bar> / 2 powi e" by simp
  have "2 powi k = (2 :: real) ^ (p - 1) * 2 powi e"
    using assms(2) by (simp add: e_def power_int_def [of _ "int (p - 1)"] flip: power_int_add power_int_of_nat)
  moreover have "2 powi (k + 1) = (2 :: real) ^ p * 2 powi e"
    by (simp add: e_def flip: power_int_add power_int_of_nat)
  ultimately have "2 ^ (p - 1) \<le> \<bar>x / 2 powi e\<bar>" "\<bar>x / 2 powi e\<bar> < 2 ^ p"
    using k by (simp_all add: abs field_simps)
  moreover have "round_bits p x = of_int (half_even (x / 2 powi e)) * 2 powi e"
    using assms(1) by (simp add: round_bits_def Let_def e_def k_def)
  ultimately show ?thesis using that by blast
qed

lemma round_bits_pos: "0 < x \<Longrightarrow> 0 < p \<Longrightarrow> 0 < round_bits p x"
proof -
  assume x: "0 < x" "0 < p"
  obtain e where e: "round_bits p x = of_int (half_even (x / 2 powi e)) * 2 powi e" "2 ^ (p - 1) \<le> \<bar>x / 2 powi e\<bar>"
    using round_bits_scaled [of x p] x by blast
  have "(1 :: real) \<le> 2 ^ (p - 1)" by simp
  moreover have "0 < x / 2 powi e" using x(1) by simp
  ultimately have "1 \<le> x / 2 powi e" using e(2) by linarith
  then have "1 \<le> half_even (x / 2 powi e)" by (rule half_even_mono_one)
  then show ?thesis using e(1) by simp
qed

lemma round_bits_neg: "x < 0 \<Longrightarrow> 0 < p \<Longrightarrow> round_bits p x < 0"
proof -
  assume x: "x < 0" "0 < p"
  obtain e where e: "round_bits p x = of_int (half_even (x / 2 powi e)) * 2 powi e" "2 ^ (p - 1) \<le> \<bar>x / 2 powi e\<bar>"
    using round_bits_scaled [of x p] x by blast
  have "(1 :: real) \<le> 2 ^ (p - 1)" by simp
  moreover have "x / 2 powi e < 0" using x(1) by (simp add: divide_less_0_iff)
  ultimately have "x / 2 powi e \<le> - 1" using e(2) by linarith
  then have "half_even (x / 2 powi e) \<le> - 1" by (rule half_even_minus_one)
  then show ?thesis using e(1) by (simp add: mult_less_0_iff)
qed

lemma round_bits_nonneg: "0 \<le> x \<Longrightarrow> 0 < p \<Longrightarrow> 0 \<le> round_bits p x"
  using round_bits_pos [of x p] by (cases "x = 0") auto

lemma round_bits_nonzero: "0 < p \<Longrightarrow> round_bits p x = 0 \<longleftrightarrow> x = 0"
  using round_bits_pos [of x p] round_bits_neg [of x p] by (cases "x = 0"; cases "0 < x") auto

text \<open>Numbers that the format holds are not changed.\<close>

lemma round_bits_exact:
  assumes "\<bar>m\<bar> < 2 ^ p" and "0 < p"
  shows "round_bits p (of_int m * 2 powi j) = of_int m * 2 powi j"
proof (cases "m = 0")
  case False
  let ?x = "of_int m * 2 powi j :: real"
  obtain e where e: "round_bits p ?x = of_int (half_even (?x / 2 powi e)) * 2 powi e" "2 ^ (p - 1) \<le> \<bar>?x / 2 powi e\<bar>"
    using round_bits_scaled [of ?x p] False assms(2) by auto
  have scaled: "?x / 2 powi e = of_int m * 2 powi (j - e)" by (simp add: power_int_diff)
  have "e \<le> j"
  proof (rule ccontr)
    assume "\<not> e \<le> j"
    then have "(2 :: real) powi (j - e) \<le> 2 powi (- 1)" by (intro power_int_increasing) auto
    then have "\<bar>of_int m :: real\<bar> * 2 powi (j - e) \<le> \<bar>of_int m\<bar> * 2 powi (- 1)" by (intro mult_left_mono) auto
    then have "\<bar>?x / 2 powi e\<bar> \<le> \<bar>of_int m\<bar> / 2" by (simp add: scaled abs_mult power_int_minus)
    also have "\<bar>of_int m :: real\<bar> < 2 ^ p" using assms(1) by (metis of_int_abs of_int_less_iff of_int_numeral of_int_power)
    finally show False using e(2) assms(2) by (cases p) auto
  qed
  then have "2 powi (j - e) = (of_int (2 ^ nat (j - e)) :: real)" by (simp add: power_int_def)
  then have "?x / 2 powi e = of_int (m * 2 ^ nat (j - e))" by (simp add: scaled)
  then show ?thesis using e(1) by (metis half_even_int nonzero_eq_divide_eq power_int_not_zero zero_neq_numeral)
qed simp

text \<open>A number scaled to the bits of the format is rounded to the nearest integer.\<close>

lemma round_bits_normal:
  assumes "2 ^ (p - 1) \<le> y" and "y < 2 ^ p" and "0 < p"
  shows "round_bits p (y * 2 powi j) = of_int (half_even y) * 2 powi j"
proof -
  have pos: "0 < y" using assms(1) by (rule less_le_trans [rotated]) simp
  have "\<lfloor>log 2 (y * 2 powi j)\<rfloor> = int (p - 1) + j"
  proof -
    have "2 powi (int (p - 1) + j) \<le> y * 2 powi j" using assms(1) by (simp add: power_int_add)
    moreover have "y * 2 powi j < 2 powi (int (p - 1) + j + 1)"
      using assms(2,3) by (simp add: power_int_add of_nat_diff flip: power_Suc)
    ultimately show ?thesis using pos
      by (subst floor_log_two) simp_all
  qed
  then have "round_bits p (y * 2 powi j) = of_int (half_even (y * 2 powi j / 2 powi j)) * 2 powi j"
    using pos assms(3) by (simp add: round_bits_def Let_def of_nat_diff)
  then show ?thesis by simp
qed

subsection \<open>The standard deviation\<close>

text \<open>Sums are formed in the order of the list and rounded after each addition, as every other operation is.\<close>

definition sum_rounded :: "nat \<Rightarrow> real list \<Rightarrow> real" where
  "sum_rounded p xs = foldl (\<lambda>s x. round_bits p (s + x)) 0 xs"

definition mean_rounded :: "nat \<Rightarrow> real list \<Rightarrow> real" where
  "mean_rounded p xs = round_bits p (sum_rounded p xs / real (length xs))"

definition std_rounded :: "nat \<Rightarrow> real list \<Rightarrow> real" where
  "std_rounded p xs =
     (let m = mean_rounded p xs
      in round_bits p (sqrt (mean_rounded p (map (\<lambda>x. round_bits p ((round_bits p (x - m)) ^ 2)) xs))))"

definition single_std :: "real list \<Rightarrow> real" where
  "single_std = std_rounded 24"

text \<open>On lists of the given length and values, a standard deviation is positive exactly if two values differ.\<close>

definition exact_std :: "(real list \<Rightarrow> real) \<Rightarrow> nat \<Rightarrow> real set \<Rightarrow> bool" where
  "exact_std std n V \<longleftrightarrow>
     (\<forall>xs. length xs = n \<and> set xs \<subseteq> V \<longrightarrow> (0 < std xs \<longleftrightarrow> (\<exists>x\<in>set xs. \<exists>y\<in>set xs. x \<noteq> y)))"

lemma exact_std_iff:
  "exact_std std n V \<Longrightarrow> length xs = n \<Longrightarrow> set xs \<subseteq> V \<Longrightarrow> 0 < std xs \<longleftrightarrow> (\<exists>x\<in>set xs. \<exists>y\<in>set xs. x \<noteq> y)"
  by (auto simp: exact_std_def)

lemma sum_rounded_pos:
  assumes "\<forall>x\<in>set xs. 0 \<le> x" and "\<exists>x\<in>set xs. 0 < x" and "0 < p"
  shows "0 < sum_rounded p xs"
proof -
  have "0 < foldl (\<lambda>s x. round_bits p (s + x)) s xs" if "0 \<le> s" "0 < s \<or> (\<exists>x\<in>set xs. 0 < x)" for s
    using that assms(1)
  proof (induction xs arbitrary: s)
    case (Cons x xs)
    have "0 < round_bits p (s + x) \<or> (\<exists>x\<in>set xs. 0 < x)"
      using Cons.prems round_bits_pos [OF _ assms(3), of "s + x"] by (cases "0 < s + x") auto
    then show ?case using Cons.prems by (auto intro!: Cons.IH round_bits_nonneg assms(3))
  qed simp
  then show ?thesis using assms(2) by (simp add: sum_rounded_def)
qed

lemma mean_rounded_pos: "\<forall>x\<in>set xs. 0 \<le> x \<Longrightarrow> \<exists>x\<in>set xs. 0 < x \<Longrightarrow> 0 < p \<Longrightarrow> 0 < mean_rounded p xs"
  using sum_rounded_pos [of xs p] by (auto simp: mean_rounded_def intro!: round_bits_pos divide_pos_pos)

text \<open>Values that differ give a positive deviation; so do equal values with a rounded mean that is another number.\<close>

lemma std_rounded_pos:
  assumes "\<exists>x\<in>set xs. x \<noteq> mean_rounded p xs" and "0 < p"
  shows "0 < std_rounded p xs"
proof -
  let ?dev = "\<lambda>x. round_bits p ((round_bits p (x - mean_rounded p xs)) ^ 2)"
  obtain x where x: "x \<in> set xs" "x \<noteq> mean_rounded p xs" using assms(1) by blast
  then have "0 < ?dev x" using assms(2) by (auto simp: round_bits_nonzero intro!: round_bits_pos)
  then have "0 < mean_rounded p (map ?dev xs)" using x(1) assms(2) by (intro mean_rounded_pos) (auto intro!: round_bits_nonneg)
  then show ?thesis using assms(2) by (simp add: std_rounded_def Let_def round_bits_pos)
qed

lemma std_rounded_zero: "\<forall>x\<in>set xs. x = mean_rounded p xs \<Longrightarrow> std_rounded p xs = 0"
proof -
  assume "\<forall>x\<in>set xs. x = mean_rounded p xs"
  then have "map (\<lambda>x. round_bits p ((round_bits p (x - mean_rounded p xs)) ^ 2)) xs = replicate (length xs) 0"
    by (intro replicate_eqI) auto
  moreover have "foldl (\<lambda>s x. round_bits p (s + x)) 0 (replicate n 0) = 0" for n by (induction n) auto
  ultimately show ?thesis by (simp add: std_rounded_def mean_rounded_def sum_rounded_def Let_def)
qed

text \<open>Sums of a short number with itself are exact.\<close>

lemma mean_of_copies:
  assumes "0 < n" and "\<bar>m\<bar> * int n < 2 ^ p" and "0 < p"
  shows "mean_rounded p (replicate n (of_int m * 2 powi j)) = of_int m * 2 powi j"
proof -
  let ?c = "of_int m * 2 powi j :: real"
  have sums: "foldl (\<lambda>s x. round_bits p (s + x)) (of_int (m * int i) * 2 powi j) (replicate k ?c) = of_int (m * int (i + k)) * 2 powi j"
    if "i + k \<le> n" for i k
    using that
  proof (induction k arbitrary: i)
    case (Suc k)
    have "\<bar>m * int (Suc i)\<bar> \<le> \<bar>m\<bar> * int n" using Suc.prems by (auto simp: abs_mult intro!: mult_left_mono)
    then have "\<bar>m * int (Suc i)\<bar> < 2 ^ p" using assms(2) by linarith
    then have "round_bits p (of_int (m * int i) * 2 powi j + ?c) = of_int (m * int (Suc i)) * 2 powi j"
      using round_bits_exact [OF _ assms(3), of "m * int (Suc i)" j] by (simp add: algebra_simps)
    then show ?case using Suc.IH [of "Suc i"] Suc.prems by simp
  qed simp
  have "\<bar>m\<bar> \<le> \<bar>m\<bar> * int n" using assms(1) by (cases n) (auto simp: algebra_simps)
  then have "\<bar>m\<bar> < 2 ^ p" using assms(2) by linarith
  moreover have "sum_rounded p (replicate n ?c) = real n * ?c"
    using sums [of 0 n] by (simp add: sum_rounded_def)
  ultimately show ?thesis using round_bits_exact [of m p j] assms(1,3) by (simp add: mean_rounded_def)
qed

text \<open>Wrong, penalised and full rewards with the default penalty.\<close>

lemma single_std_exact:
  assumes "0 < n" and "n < 2 ^ 24"
  shows "exact_std single_std n {0, 1 / 2, 1}"
  unfolding exact_std_def
proof (intro allI impI)
  fix xs :: "real list"
  assume xs: "length xs = n \<and> set xs \<subseteq> {0, 1 / 2, 1}"
  show "0 < single_std xs \<longleftrightarrow> (\<exists>x\<in>set xs. \<exists>y\<in>set xs. x \<noteq> y)"
  proof
    assume "\<exists>x\<in>set xs. \<exists>y\<in>set xs. x \<noteq> y"
    then have "\<exists>x\<in>set xs. x \<noteq> mean_rounded 24 xs" by metis
    then show "0 < single_std xs" by (simp add: single_std_def std_rounded_pos)
  next
    assume pos: "0 < single_std xs"
    show "\<exists>x\<in>set xs. \<exists>y\<in>set xs. x \<noteq> y"
    proof (rule ccontr)
      assume "\<not> (\<exists>x\<in>set xs. \<exists>y\<in>set xs. x \<noteq> y)"
      moreover obtain c where c: "c \<in> set xs" using xs assms(1) by (cases xs) auto
      ultimately have copies: "xs = replicate n c" using xs by (metis replicate_length_same)
      have "c = of_int 0 * 2 powi 0 \<or> c = of_int 1 * 2 powi (- 1) \<or> c = of_int 1 * 2 powi 0"
        using xs c by (auto simp: power_int_minus)
      then obtain m j where "c = of_int m * 2 powi j" "\<bar>m\<bar> \<le> 1" by (metis abs_0 abs_1 order_refl zero_le_one)
      then have "mean_rounded 24 xs = c"
        using mean_of_copies [OF assms(1), of m 24 j] assms(2) copies mult_right_mono [of "\<bar>m\<bar>" 1 "int n"] by auto
      then show False using pos copies std_rounded_zero [of xs 24] by (auto simp: single_std_def)
    qed
  qed
qed

text \<open>Nine tenths in single precision, and the mean of three of them.\<close>

definition nine_tenths :: real where
  "nine_tenths = 15099494 / 2 ^ 24"

lemma nine_tenths_deviates: "0 < single_std [nine_tenths, nine_tenths, nine_tenths]"
proof -
  note powers = power_int_def power_divide nine_tenths_def
  have half: "half_even (45298482 / 4) = 11324620" "half_even (45298480 / 3) = 15099493"
    by (simp_all add: half_even_def Let_def)
  have one: "round_bits 24 (7549747 / 8388608) = 7549747 / 8388608"
    using round_bits_exact [of 15099494 24 "- 24"] by (simp add: powers)
  have two: "round_bits 24 (7549747 / 4194304) = 7549747 / 4194304"
    using round_bits_exact [of 15099494 24 "- 23"] by (simp add: powers)
  have three: "round_bits 24 (22649241 / 8388608) = 2831155 / 1048576"
    using round_bits_normal [of 24 "45298482 / 4" "- 22"] half by (simp add: powers)
  have mean: "round_bits 24 (2831155 / 3145728) = 15099493 / 16777216"
    using round_bits_normal [of 24 "45298480 / 3" "- 24"] half by (simp add: powers)
  have "mean_rounded 24 [nine_tenths, nine_tenths, nine_tenths] = 15099493 / 16777216"
    by (simp add: one two three mean mean_rounded_def sum_rounded_def nine_tenths_def)
  then have "nine_tenths \<noteq> mean_rounded 24 [nine_tenths, nine_tenths, nine_tenths]"
    by (subst nine_tenths_def) simp
  then show ?thesis using std_rounded_pos [of "[nine_tenths, nine_tenths, nine_tenths]" 24] by (simp add: single_std_def)
qed

end
