(* ===== verification/DapoTrainer.thy ===== *)
theory DapoTrainer
  imports MicroBatch PyText Rounding
begin

section \<open>The DAPO trainer\<close>

text \<open>
  Models \<open>src/src/dapo_ray_trainer.py\<close>: the training loop with dynamic sampling, which generates
  batches until enough prompts have responses of different quality; the schedule of updates,
  checkpoints and validations; the clean-up of old checkpoints and of trajectory logs; and the
  validation metrics. A batch is the list of its rows (trajectories); what the generation returns is an
  argument, one list of rows per generated batch. The computations on a finished batch
  are those of the other theories. The standard deviation of the filter is numpy's and an argument, since its rounding decides what is
  kept; the validation metrics are exact reals.
\<close>

subsection \<open>Filtering groups\<close>

text \<open>A row: the prompt it answers, its total reward and total score, and its other columns of numbers.\<close>

record 'x trajectory =
  uid :: string
  final_reward :: real
  seq_score :: real
  columns :: "(string, real) dict"
  content :: 'x

definition add_metric :: "string \<Rightarrow> 'x trajectory \<Rightarrow> 'x trajectory" where
  "add_metric name r =
     (if name = ''seq_final_reward'' then r\<lparr>columns := dict_set name (final_reward r) (columns r)\<rparr>
      else if name \<in> {''seq_reward'', ''acc''} then r\<lparr>columns := dict_set name (seq_score r) (columns r)\<rparr>
      else r)"

definition metric_val :: "string \<Rightarrow> 'x trajectory \<Rightarrow> real result" where
  "metric_val name r = (case dict_get (columns r) name of None \<Rightarrow> Inl KeyError | Some v \<Rightarrow> Inr v)"

definition prompt_metric_vals :: "string \<Rightarrow> 'x trajectory list \<Rightarrow> (string, real list) dict result" where
  "prompt_metric_vals name rows =
     bind_res (traverse (metric_val name) rows) (\<lambda>vals. Inr (group_by (zip (map uid rows) vals)))"

definition np_mean :: "real list \<Rightarrow> real" where
  "np_mean xs = sum_list xs / real (length xs)"

definition kept_prompt_uids :: "(real list \<Rightarrow> real) \<Rightarrow> (string, real list) dict \<Rightarrow> string list" where
  "kept_prompt_uids np_std groups = map fst (filter (\<lambda>(u, vals). np_std vals > 0 \<or> length vals = 1) groups)"

text \<open>How many prompts have only zeros and how many only ones.\<close>

definition degenerate_groups :: "(string, real list) dict \<Rightarrow> nat \<times> nat" where
  "degenerate_groups groups =
     (length (filter (\<lambda>(u, vals). \<forall>v\<in>set vals. v = 0) groups), length (filter (\<lambda>(u, vals). \<forall>v\<in>set vals. v = 1) groups))"

subsection \<open>Collecting a training batch\<close>

text \<open>The configuration, and the function that numpy provides.\<close>

record dapo_config =
  filter_enable :: bool
  filter_metric :: string
  max_num_gen_batches :: int
  train_batch_size :: nat
  rollout_n :: nat
  total_training_steps :: nat
  critic_warmup :: nat
  save_freq :: int
  test_freq :: int
  np_std :: "real list \<Rightarrow> real"

record 'x collector =
  acc_batch :: "'x trajectory list option"
  num_prompt_in_batch :: nat
  num_gen_batches :: nat

definition fresh_collector :: "'x collector" where
  "fresh_collector = \<lparr>acc_batch = None, num_prompt_in_batch = 0, num_gen_batches = 0\<rparr>"

text \<open>
  One generated batch: a batch to train on, or none when more prompts are needed, with the new
  state of the collection and the numbers of degenerate groups.
\<close>

definition collect_step ::
  "dapo_config \<Rightarrow> 'x trajectory list \<Rightarrow> 'x collector \<Rightarrow> ('x trajectory list option \<times> 'x collector \<times> nat \<times> nat) result" where
  "collect_step cfg new_rows st =
     (let num_gen = num_gen_batches st + 1;
          rows = map (add_metric (filter_metric cfg)) new_rows
      in bind_res (prompt_metric_vals (filter_metric cfg) rows) (\<lambda>groups.
         if \<not> filter_enable cfg
         then Inr (Some rows, st\<lparr>acc_batch := Some rows, num_gen_batches := num_gen\<rparr>, degenerate_groups groups)
         else (let kept = kept_prompt_uids (np_std cfg) groups;
                   num_prompt = num_prompt_in_batch st + length kept;
                   kept_rows = filter (\<lambda>r. uid r \<in> set kept) rows;
                   batch = (case acc_batch st of None \<Rightarrow> kept_rows | Some b \<Rightarrow> b @ kept_rows);
                   st' = \<lparr>acc_batch = Some batch, num_prompt_in_batch = num_prompt, num_gen_batches = num_gen\<rparr>
               in if num_prompt < train_batch_size cfg
                  then guard_res (max_num_gen_batches cfg \<le> 0 \<or> int num_gen < max_num_gen_batches cfg) ValueError
                         (Inr (None, st', degenerate_groups groups))
                  else (let aligned = take (train_batch_size cfg * rollout_n cfg) batch
                        in Inr (Some aligned, st'\<lparr>acc_batch := Some aligned\<rparr>, degenerate_groups groups)))))"

subsection \<open>The training loop\<close>

datatype 'x event =
    Trained nat "'x trajectory list"
  | ActorUpdated nat
  | Saved nat
  | Validated nat
  | Logged nat nat

record 'x trainer =
  global_steps :: nat
  gen_steps :: nat
  collector :: "'x collector"
  events :: "'x event list"

definition every :: "int \<Rightarrow> nat \<Rightarrow> bool \<Rightarrow> bool" where
  "every freq step forced \<longleftrightarrow> freq > 0 \<and> (forced \<or> int step mod freq = 0)"

text \<open>The steps on a full batch; \<open>esi\<close> tells whether the machine is about to be reclaimed.\<close>

definition step_events :: "dapo_config \<Rightarrow> (nat \<Rightarrow> bool) \<Rightarrow> nat \<Rightarrow> 'x trajectory list \<Rightarrow> nat \<Rightarrow> 'x event list" where
  "step_events cfg esi step batch num_gen =
     (let is_last_step = (step \<ge> total_training_steps cfg)
      in [Trained step batch] @
         (if critic_warmup cfg \<le> step
          then [ActorUpdated step] @ (if every (save_freq cfg) step (is_last_step \<or> esi step) then [Saved step] else [])
          else []) @
         (if every (test_freq cfg) step is_last_step then [Validated step] else []) @
         [Logged step num_gen])"

text \<open>The loop over the generated batches; the Boolean tells that the last step was reached.\<close>

fun gen_loop ::
  "dapo_config \<Rightarrow> (nat \<Rightarrow> bool) \<Rightarrow> 'x trajectory list list \<Rightarrow> 'x trainer \<Rightarrow> ('x trainer \<times> bool) result" where
  "gen_loop cfg esi [] t = Inr (t, False)"
| "gen_loop cfg esi (rows # gens) t =
     bind_res (collect_step cfg rows (collector t)) (\<lambda>(batch, st, degenerate).
       case batch of
         None \<Rightarrow> gen_loop cfg esi gens (t\<lparr>collector := st, gen_steps := gen_steps t + 1\<rparr>)
       | Some b \<Rightarrow>
           let t' = t\<lparr>collector := fresh_collector,
                      events := events t @ step_events cfg esi (global_steps t) b (num_gen_batches st)\<rparr>
           in if global_steps t \<ge> total_training_steps cfg then Inr (t', True)
              else gen_loop cfg esi gens (t'\<lparr>global_steps := global_steps t + 1, gen_steps := gen_steps t + 1\<rparr>))"

text \<open>
  The epochs: \<open>epoch_batches e\<close> are the batches generated in epoch \<open>e\<close>. The first epoch is computed from
  the step that is about to run. When the data is used up, a checkpoint of the current step is
  written unless its directory exists; \<open>on_disk\<close> are the steps with a directory at the start.
\<close>

definition fit ::
  "dapo_config \<Rightarrow> (nat \<Rightarrow> bool) \<Rightarrow> nat set \<Rightarrow> nat \<Rightarrow> nat \<Rightarrow> (nat \<Rightarrow> 'x trajectory list list) \<Rightarrow> nat \<Rightarrow> 'x trainer result" where
  "fit cfg esi on_disk batches_per_epoch total_epochs epoch_batches resumed_step =
     guard_res (batches_per_epoch \<noteq> 0) ZeroDivisionError (
     let t = \<lparr>global_steps = resumed_step + 1, gen_steps = 1, collector = fresh_collector, events = []\<rparr>;
         current_epoch = (resumed_step + 1) div batches_per_epoch
     in bind_res (gen_loop cfg esi (concat (map epoch_batches [current_epoch..<total_epochs])) t) (\<lambda>(t', finished).
          if finished \<or> global_steps t' \<in> on_disk \<or> Saved (global_steps t') \<in> set (events t') then Inr t'
          else Inr (t'\<lparr>events := events t' @ [Saved (global_steps t')]\<rparr>)))"

subsection \<open>Balancing a batch over the ranks\<close>

text \<open>
  \<open>_balance_batch\<close> of \<open>src/verl/trainer/ppo/ray_trainer.py\<close>: the order in which the
  rows are dealt to the ranks; with prefix grouping the responses of a prompt stay together.
\<close>

definition light_at_ends :: "'r list \<Rightarrow> 'r list" where
  "light_at_ends xs = evens xs @ rev (odds xs)"

definition balance_partitions :: "int list \<Rightarrow> string list option \<Rightarrow> nat \<Rightarrow> nat list list result" where
  "balance_partitions lens prefix_uids dp_size =
     (case prefix_uids of
        Some uids \<Rightarrow>
          guard_res (dp_size \<noteq> 0) ZeroDivisionError
            (guard_res (card (set uids) mod dp_size = 0) ValueError
              (get_group_balanced_partitions lens (map Some uids) dp_size))
      | None \<Rightarrow>
          (let workloads = calculate_workload lens
           in bind_res (get_seqlen_balanced_partitions workloads dp_size True) (\<lambda>parts.
                Inr (map (\<lambda>p. light_at_ends (sort_key (\<lambda>x. (workloads ! x, x)) p)) parts))))"

definition balance_batch :: "int list \<Rightarrow> string list option \<Rightarrow> nat \<Rightarrow> 'r list \<Rightarrow> 'r list result" where
  "balance_batch lens prefix_uids dp_size rows =
     bind_res (balance_partitions lens prefix_uids dp_size) (\<lambda>parts. select_rows rows (concat parts))"

subsection \<open>Validation metrics\<close>

definition pass_at_k :: "nat \<Rightarrow> nat \<Rightarrow> nat \<Rightarrow> real" where
  "pass_at_k n c k = (if int n - int c < int k then 1 else 1 - real ((n - c) choose k) / real (n choose k))"

function powers_of_two :: "nat \<Rightarrow> nat \<Rightarrow> nat list" where
  "powers_of_two k n = (if k = 0 \<or> n < k then [] else k # powers_of_two (2 * k) n)"
  by pat_completeness auto
termination by (relation "measure (\<lambda>(k, n). n + 1 - k)") auto

declare powers_of_two.simps [simp del]

definition correct_count :: "real list \<Rightarrow> nat" where
  "correct_count scores = length (filter (\<lambda>s. s > 0) scores)"

definition question_acc :: "real list \<Rightarrow> real" where
  "question_acc scores = real (correct_count scores) / real (length scores)"

definition mean_or_zero :: "real list \<Rightarrow> real" where
  "mean_or_zero xs = (if xs = [] then 0 else np_mean xs)"

text \<open>The metrics of one data source; the samples of a question are listed under its prompt.\<close>

record source_metrics =
  pass_k :: "(nat \<times> real) list"
  mean_acc :: real
  acc_var_within :: real
  acc_var_across :: real
  length_mean :: real

definition source_metrics_of :: "(string, real list) dict \<Rightarrow> (string, real list) dict \<Rightarrow> source_metrics" where
  "source_metrics_of prompt2scores prompt2lengths =
     (let score_lists = map snd prompt2scores;
          n = (case score_lists of [] \<Rightarrow> 1 | v # _ \<Rightarrow> length v);
          accs = map question_acc score_lists
      in \<lparr>pass_k = map (\<lambda>k. (k, mean_or_zero (map (\<lambda>s. pass_at_k (length s) (correct_count s) k)
                          (filter (\<lambda>s. k \<le> length s) score_lists)))) (powers_of_two 1 n),
          mean_acc = mean_or_zero accs,
          acc_var_within = mean_or_zero (map (\<lambda>p. p * (1 - p)) accs),
          acc_var_across = (if length accs > 1 then np_mean (map (\<lambda>p. (p - np_mean accs) ^ 2) accs) else 0),
          length_mean = mean_or_zero (concat (map snd prompt2lengths))\<rparr>)"

definition validation_metrics :: "(string \<times> string) list \<Rightarrow> real list \<Rightarrow> real list \<Rightarrow> (string, source_metrics) dict" where
  "validation_metrics source_prompts scores lengths =
     map (\<lambda>(ds, pairs). (ds, source_metrics_of (group_by (map (\<lambda>(p, s, l). (p, s)) pairs)) (group_by (map (\<lambda>(p, s, l). (p, l)) pairs))))
       (group_by (map (\<lambda>((ds, p), s, l). (ds, (p, s, l))) (zip source_prompts (zip scores lengths))))"

subsection \<open>Old checkpoints\<close>

text \<open>
  The directory of a role in an old checkpoint: whether it has the sub-directory for converted weights,
  the files there, and its other entries. Merging is the model merger's; it writes some files and
  reports success or raises. A removal may fail.
\<close>

record role_dir =
  has_hf_dir :: bool
  hf_files :: "string list"
  entries :: "string list"

definition visible :: "string \<Rightarrow> bool" where
  "visible f \<longleftrightarrow> (case f of [] \<Rightarrow> False | c # _ \<Rightarrow> c \<noteq> CHR ''.'')"

definition glob_between :: "string \<Rightarrow> string \<Rightarrow> string \<Rightarrow> bool" where
  "glob_between pre post f \<longleftrightarrow> starts_with pre f \<and> ends_with post f \<and> length pre + length post \<le> length f"

definition hf_weights_exist :: "role_dir \<Rightarrow> bool" where
  "hf_weights_exist d \<longleftrightarrow>
     has_hf_dir d \<and> list_ex (\<lambda>f. visible f \<and> (ends_with ''.safetensors'' f \<or> glob_between ''pytorch_model'' ''.bin'' f)) (hf_files d)"

definition has_shards :: "role_dir \<Rightarrow> bool" where
  "has_shards d \<longleftrightarrow> list_ex (glob_between ''model_world_size_'' ''.pt'') (entries d)"

definition ensure_hf_then_prune_shards ::
  "(role_dir \<Rightarrow> string list \<times> bool) \<Rightarrow> (string \<Rightarrow> bool) \<Rightarrow> role_dir \<Rightarrow> role_dir" where
  "ensure_hf_then_prune_shards merge removal_fails d =
     (if \<not> has_hf_dir d then d
      else (let (d1, go_on) =
              (if hf_weights_exist d then (d, True)
               else if \<not> (''fsdp_config.json'' \<in> set (entries d) \<and> has_shards d) then (d, False)
               else (let (written, ok) = merge d in (d\<lparr>hf_files := hf_files d @ written\<rparr>, ok)))
            in if \<not> go_on then d1
               else if \<not> hf_weights_exist d1 then d1
               else d1\<lparr>entries := filter removal_fails (entries d1)\<rparr>))"

subsection \<open>Trajectory logs\<close>

text \<open>The log files that survive a restart: those of the steps up to the resumed one.\<close>

definition log_survives :: "nat \<Rightarrow> string \<Rightarrow> bool" where
  "log_survives resumed_from_step f =
     (if \<not> glob_between ''step_'' ''.jsonl'' f then True
      else case py_int (py_replace ''.jsonl'' [] (py_replace ''step_'' [] f)) of
             None \<Rightarrow> True
           | Some n \<Rightarrow> n \<le> int resumed_from_step)"

definition init_trajectory_logs :: "nat \<Rightarrow> string list \<Rightarrow> string list" where
  "init_trajectory_logs resumed_from_step files =
     (if resumed_from_step = 0 then [] else filter (log_survives resumed_from_step) files)"

subsection \<open>Groups that vary\<close>

definition mval :: "string \<Rightarrow> 'x trajectory \<Rightarrow> real" where
  "mval name r = (case dict_get (columns r) name of None \<Rightarrow> 0 | Some v \<Rightarrow> v)"

definition varied :: "string \<Rightarrow> 'x trajectory list \<Rightarrow> bool" where
  "varied name g \<longleftrightarrow> length g = 1 \<or> (\<exists>r\<in>set g. \<exists>r'\<in>set g. mval name r \<noteq> mval name r')"

definition prompt_group :: "nat \<Rightarrow> 'x trajectory list \<Rightarrow> bool" where
  "prompt_group n g \<longleftrightarrow> length g = n \<and> (\<exists>u. \<forall>r\<in>set g. uid r = u)"

definition prompt_groups :: "nat \<Rightarrow> 'x trajectory list list \<Rightarrow> bool" where
  "prompt_groups n gs \<longleftrightarrow> 0 < n \<and> (\<forall>g\<in>set gs. prompt_group n g) \<and> distinct (map (\<lambda>g. uid (hd g)) gs)"

text \<open>What the filter keeps.\<close>

definition kept_group :: "dapo_config \<Rightarrow> 'x trajectory list \<Rightarrow> bool" where
  "kept_group cfg g \<longleftrightarrow> length g = 1 \<or> 0 < np_std cfg (map (mval (filter_metric cfg)) g)"

lemma kept_group_varied:
  assumes "exact_std (np_std cfg) n V" and "kept_group cfg g" and "length g = n" and "\<forall>r\<in>set g. mval (filter_metric cfg) r \<in> V"
  shows "varied (filter_metric cfg) g"
proof (cases "length g = 1")
  case False
  then have "0 < np_std cfg (map (mval (filter_metric cfg)) g)" using assms(2) by (simp add: kept_group_def)
  moreover have "length (map (mval (filter_metric cfg)) g) = n" "set (map (mval (filter_metric cfg)) g) \<subseteq> V" using assms(3,4) by auto
  ultimately have "\<exists>x\<in>set (map (mval (filter_metric cfg)) g). \<exists>y\<in>set (map (mval (filter_metric cfg)) g). x \<noteq> y"
    using assms(1) unfolding exact_std_def by metis
  then show ?thesis by (auto simp: varied_def)
qed (simp add: varied_def)

lemma traverse_metric: "traverse (metric_val name) rows = Inr vals \<Longrightarrow> vals = map (mval name) rows"
  by (induction rows arbitrary: vals) (auto simp: res_simps metric_val_def mval_def split: option.splits)

lemma groups_mem:
  assumes "prompt_metric_vals name rows = Inr groups"
  shows "dict_ok groups \<and> ((u, vs) \<in> set groups \<longleftrightarrow> u \<in> uid ` set rows \<and> vs = map (mval name) (filter (\<lambda>r. uid r = u) rows))"
proof -
  have groups: "groups = group_by (zip (map uid rows) (map (mval name) rows))"
    using assms traverse_metric by (auto simp: prompt_metric_vals_def res_simps)
  have "values_of (zip (map uid rows) (map (mval name) rows)) u = map (mval name) (filter (\<lambda>r. uid r = u) rows)"
    by (induction rows) auto
  moreover have "fst ` set (zip (map uid rows) (map (mval name) rows)) = uid ` set rows"
    by (force simp: set_zip in_set_conv_nth)
  ultimately show ?thesis unfolding groups by (simp add: group_by_mem)
qed

lemma filter_group:
  assumes "prompt_groups n gs" and "g \<in> set gs"
  shows "filter (\<lambda>r. uid r = uid (hd g)) (concat gs) = g"
proof -
  have one: "filter (\<lambda>r. uid r = uid (hd g)) h = (if h = g then g else [])"
    if "h \<in> set gs" for h
  proof -
    have "prompt_group n h" and n: "0 < n" using assms(1) that by (auto simp: prompt_groups_def)
    then obtain u where u: "\<forall>r\<in>set h. uid r = u" and "h \<noteq> []"
      unfolding prompt_group_def by fastforce
    then have hd: "uid (hd h) = u" by simp
    have "uid (hd h) = uid (hd g) \<longleftrightarrow> h = g"
      using assms that by (auto simp: prompt_groups_def distinct_map inj_on_def)
    then show ?thesis using u hd by (auto simp: filter_empty_conv)
  qed
  have "concat (map (filter (\<lambda>r. uid r = uid (hd g))) gs) = concat (map (\<lambda>h. if h = g then g else []) gs)"
    using one by (intro arg_cong [where f = concat] map_cong) auto
  also have "\<dots> = g"
  proof -
    have "distinct gs" using assms(1) by (simp add: prompt_groups_def distinct_map)
    then show ?thesis using assms(2) by (induction gs) (auto simp: concat_eq_Nil_conv split: if_splits)
  qed
  finally show ?thesis by (simp add: filter_concat)
qed

lemma kept_uid_iff:
  assumes "prompt_metric_vals (filter_metric cfg) (concat gs) = Inr groups" and "prompt_groups n gs" and "g \<in> set gs"
  shows "uid (hd g) \<in> set (kept_prompt_uids (np_std cfg) groups) \<longleftrightarrow> kept_group cfg g"
proof -
  have g: "g \<noteq> []" using assms(2,3) by (auto simp: prompt_groups_def prompt_group_def)
  then have mem: "uid (hd g) \<in> uid ` set (concat gs)" using assms(3) hd_in_set by (metis UN_I image_eqI set_concat)
  have "uid (hd g) \<in> set (kept_prompt_uids (np_std cfg) groups) \<longleftrightarrow>
      (\<exists>vs. (uid (hd g), vs) \<in> set groups \<and> (np_std cfg vs > 0 \<or> length vs = 1))"
    by (force simp: kept_prompt_uids_def)
  also have "\<dots> \<longleftrightarrow> np_std cfg (map (mval (filter_metric cfg)) g) > 0 \<or> length g = 1"
    using groups_mem [OF assms(1), of "uid (hd g)"] mem filter_group [OF assms(2,3)] by auto
  also have "\<dots> \<longleftrightarrow> kept_group cfg g"
    by (auto simp: kept_group_def)
  finally show ?thesis .
qed

lemma kept_rows_eq:
  assumes "prompt_metric_vals (filter_metric cfg) (concat gs) = Inr groups" and "prompt_groups n gs"
  shows "filter (\<lambda>r. uid r \<in> set (kept_prompt_uids (np_std cfg) groups)) (concat gs) = concat (filter (kept_group cfg) gs)"
proof -
  have "filter (\<lambda>r. uid r \<in> set (kept_prompt_uids (np_std cfg) groups)) g = (if kept_group cfg g then g else [])" if "g \<in> set gs" for g
  proof -
    have "prompt_group n g" "0 < n" using assms(2) that by (auto simp: prompt_groups_def)
    then have "\<forall>r\<in>set g. uid r = uid (hd g)" unfolding prompt_group_def by (metis hd_in_set length_pos_if_in_set list.size(3) not_less_zero)
    then show ?thesis using kept_uid_iff [OF assms that] by (auto simp: filter_empty_conv)
  qed
  then have "filter (\<lambda>r. uid r \<in> set (kept_prompt_uids (np_std cfg) groups)) (concat gs) = concat (map (\<lambda>g. if kept_group cfg g then g else []) gs)"
    unfolding filter_concat by (intro arg_cong [where f = concat] map_cong) auto
  also have "\<dots> = concat (filter (kept_group cfg) gs)" by (induction gs) auto
  finally show ?thesis .
qed

lemma length_kept:
  assumes "prompt_metric_vals (filter_metric cfg) (concat gs) = Inr groups" and "prompt_groups n gs"
  shows "length (kept_prompt_uids (np_std cfg) groups) = length (filter (kept_group cfg) gs)"
proof -
  have "distinct (kept_prompt_uids (np_std cfg) groups)"
    using groups_mem [OF assms(1)] by (auto simp: kept_prompt_uids_def dict_ok_def intro: distinct_map_filter)
  moreover have "set (kept_prompt_uids (np_std cfg) groups) = (\<lambda>g. uid (hd g)) ` set (filter (kept_group cfg) gs)"
  proof (intro set_eqI iffI)
    fix u
    assume u: "u \<in> set (kept_prompt_uids (np_std cfg) groups)"
    then have "u \<in> uid ` set (concat gs)" using groups_mem [OF assms(1), of u] by (auto simp: kept_prompt_uids_def)
    then obtain g r where g: "g \<in> set gs" "r \<in> set g" "u = uid r" by auto
    then have "u = uid (hd g)" using assms(2) unfolding prompt_groups_def prompt_group_def by (metis hd_in_set empty_iff list.set(1))
    then show "u \<in> (\<lambda>g. uid (hd g)) ` set (filter (kept_group cfg) gs)" using u kept_uid_iff [OF assms g(1)] g(1) by auto
  qed (use kept_uid_iff [OF assms] in auto)
  moreover have "distinct (map (\<lambda>g. uid (hd g)) (filter (kept_group cfg) gs))"
    using assms(2) by (simp add: prompt_groups_def distinct_map_filter)
  ultimately show ?thesis by (metis distinct_card length_map set_map)
qed

subsection \<open>The batch that is trained on\<close>

text \<open>The metrics of all rows are among given values.\<close>

definition full_batch :: "dapo_config \<Rightarrow> real set \<Rightarrow> 'x trajectory list \<Rightarrow> bool" where
  "full_batch cfg V b \<longleftrightarrow>
     (\<exists>gs. b = concat gs \<and> length gs = train_batch_size cfg \<and>
        (\<forall>g\<in>set gs. prompt_group (rollout_n cfg) g \<and> kept_group cfg g \<and> (\<forall>r\<in>set g. mval (filter_metric cfg) r \<in> V)))"

definition collector_ok :: "dapo_config \<Rightarrow> real set \<Rightarrow> 'x collector \<Rightarrow> bool" where
  "collector_ok cfg V st \<longleftrightarrow>
     (\<exists>gs. (case acc_batch st of None \<Rightarrow> gs = [] | Some b \<Rightarrow> b = concat gs) \<and> num_prompt_in_batch st = length gs \<and>
        (\<forall>g\<in>set gs. prompt_group (rollout_n cfg) g \<and> kept_group cfg g \<and> (\<forall>r\<in>set g. mval (filter_metric cfg) r \<in> V))) \<and>
     (max_num_gen_batches cfg > 0 \<longrightarrow> int (num_gen_batches st) < max_num_gen_batches cfg)"

definition generated_groups :: "dapo_config \<Rightarrow> real set \<Rightarrow> 'x trajectory list \<Rightarrow> bool" where
  "generated_groups cfg V rows \<longleftrightarrow>
     (\<exists>gs. rows = concat gs \<and> prompt_groups (rollout_n cfg) gs) \<and>
     (\<forall>r\<in>set rows. mval (filter_metric cfg) (add_metric (filter_metric cfg) r) \<in> V)"

lemma uid_add_metric [simp]: "uid (add_metric name r) = uid r"
  by (simp add: add_metric_def)

lemma prompt_groups_add_metric: "prompt_groups n gs \<Longrightarrow> prompt_groups n (map (map (add_metric name)) gs)"
proof -
  assume gs: "prompt_groups n gs"
  then have "\<forall>g\<in>set gs. g \<noteq> []" by (auto simp: prompt_groups_def prompt_group_def)
  then have eq: "map (\<lambda>g. uid (hd (map (add_metric name) g))) gs = map (\<lambda>g. uid (hd g)) gs"
    by (intro map_cong) (auto simp: hd_map)
  show ?thesis using gs by (auto simp: prompt_groups_def prompt_group_def comp_def eq)
qed

lemma take_concat_groups:
  assumes "\<forall>g\<in>set gs. length g = n"
  shows "take (k * n) (concat gs) = concat (take k gs)"
  using assms
proof (induction gs arbitrary: k)
  case (Cons g gs)
  then show ?case by (cases k) auto
qed simp

lemma collect_step_ok:
  assumes "collect_step cfg rows st = Inr (batch, st', stats)" and "filter_enable cfg" and "generated_groups cfg V rows"
    and "collector_ok cfg V st"
  shows "case batch of
      None \<Rightarrow> collector_ok cfg V st'
    | Some b \<Rightarrow> full_batch cfg V b \<and> (max_num_gen_batches cfg > 0 \<longrightarrow> int (num_gen_batches st') \<le> max_num_gen_batches cfg)"
proof -
  let ?name = "filter_metric cfg" and ?n = "rollout_n cfg"
  obtain gs0 where gs0: "rows = concat gs0" "prompt_groups ?n gs0" using assms(3) by (auto simp: generated_groups_def)
  define gs where "gs = map (map (add_metric ?name)) gs0"
  have gs: "map (add_metric ?name) rows = concat gs" "prompt_groups ?n gs"
    using gs0 prompt_groups_add_metric by (simp_all add: gs_def map_concat)
  have vals: "\<forall>r\<in>set (concat gs). mval ?name r \<in> V" using assms(3) by (auto simp: generated_groups_def simp flip: gs(1))
  obtain acc where acc: "case acc_batch st of None \<Rightarrow> acc = [] | Some b \<Rightarrow> b = concat acc" "num_prompt_in_batch st = length acc"
    "\<forall>g\<in>set acc. prompt_group ?n g \<and> kept_group cfg g \<and> (\<forall>r\<in>set g. mval ?name r \<in> V)"
    and gen: "max_num_gen_batches cfg > 0 \<longrightarrow> int (num_gen_batches st) < max_num_gen_batches cfg"
    using assms(4) by (auto simp: collector_ok_def)
  obtain groups where groups: "prompt_metric_vals ?name (concat gs) = Inr groups"
    using assms(1) by (auto simp: collect_step_def gs Let_def res_simps)
  define all where "all = acc @ filter (kept_group cfg) gs"
  have batch: "(case acc_batch st of None \<Rightarrow> filter (\<lambda>r. uid r \<in> set (kept_prompt_uids (np_std cfg) groups)) (concat gs)
      | Some b \<Rightarrow> b @ filter (\<lambda>r. uid r \<in> set (kept_prompt_uids (np_std cfg) groups)) (concat gs)) = concat all"
    unfolding kept_rows_eq [OF groups gs(2)] using acc(1) by (cases "acc_batch st") (simp_all add: all_def)
  have num: "num_prompt_in_batch st + length (kept_prompt_uids (np_std cfg) groups) = length all"
    using length_kept [OF groups gs(2)] acc(2) by (simp add: all_def)
  have good: "\<forall>g\<in>set all. prompt_group ?n g \<and> kept_group cfg g \<and> (\<forall>r\<in>set g. mval ?name r \<in> V)"
    using acc(3) gs(2) vals by (auto simp: all_def prompt_groups_def)
  define st1 where "st1 = \<lparr>acc_batch = Some (concat all), num_prompt_in_batch = length all, num_gen_batches = num_gen_batches st + 1\<rparr>"
  have step: "collect_step cfg rows st =
      (if length all < train_batch_size cfg
       then guard_res (max_num_gen_batches cfg \<le> 0 \<or> int (num_gen_batches st + 1) < max_num_gen_batches cfg) ValueError
              (Inr (None, st1, degenerate_groups groups))
       else (let aligned = take (train_batch_size cfg * ?n) (concat all)
             in Inr (Some aligned, st1\<lparr>acc_batch := Some aligned\<rparr>, degenerate_groups groups)))"
    using assms(2) by (simp add: collect_step_def gs(1) groups batch num st1_def Let_def)
  show ?thesis
  proof (cases "length all < train_batch_size cfg")
    case True
    then have "batch = None" "st' = st1" "max_num_gen_batches cfg \<le> 0 \<or> int (num_gen_batches st + 1) < max_num_gen_batches cfg"
      using assms(1) step by (auto simp: guard_res_def split: if_splits)
    then show ?thesis using good by (auto simp: collector_ok_def st1_def)
  next
    case False
    then have b: "batch = Some (take (train_batch_size cfg * ?n) (concat all))" "num_gen_batches st' = num_gen_batches st + 1"
      using assms(1) step by (auto simp: st1_def Let_def)
    have "take (train_batch_size cfg * ?n) (concat all) = concat (take (train_batch_size cfg) all)"
      using good by (intro take_concat_groups) (simp add: prompt_group_def)
    moreover have "\<forall>g\<in>set (take (train_batch_size cfg) all). prompt_group ?n g \<and> kept_group cfg g \<and> (\<forall>r\<in>set g. mval ?name r \<in> V)"
      using good by (meson in_set_takeD)
    ultimately have "full_batch cfg V (take (train_batch_size cfg * ?n) (concat all))"
      using False unfolding full_batch_def by (intro exI [of _ "take (train_batch_size cfg) all"]) simp
    then show ?thesis using b gen by auto
  qed
qed

text \<open>A batch that carries a signal: whole groups whose responses differ.\<close>

definition signal_batch :: "dapo_config \<Rightarrow> 'x trajectory list \<Rightarrow> bool" where
  "signal_batch cfg b \<longleftrightarrow>
     (\<exists>gs. b = concat gs \<and> length gs = train_batch_size cfg \<and>
        (\<forall>g\<in>set gs. prompt_group (rollout_n cfg) g \<and> varied (filter_metric cfg) g))"

lemma full_batch_signal: "full_batch cfg V b \<Longrightarrow> exact_std (np_std cfg) (rollout_n cfg) V \<Longrightarrow> signal_batch cfg b"
proof -
  assume std: "exact_std (np_std cfg) (rollout_n cfg) V"
  assume "full_batch cfg V b"
  then obtain gs where "b = concat gs" "length gs = train_batch_size cfg"
    "\<forall>g\<in>set gs. prompt_group (rollout_n cfg) g \<and> kept_group cfg g \<and> (\<forall>r\<in>set g. mval (filter_metric cfg) r \<in> V)"
    by (auto simp: full_batch_def)
  then show ?thesis unfolding signal_batch_def
    by (intro exI [of _ gs]) (auto simp: prompt_group_def intro: kept_group_varied [OF std])
qed

text \<open>
  C18: With dynamic sampling every training step sees exactly the configured number of prompts, each with all of its
  responses, and each kept by the filter: it has a single response, or numpy's standard deviation of its metrics is positive. If that
  deviation is positive exactly for values that differ, for groups of this size and the metrics of the run, then every prompt trained on has
  responses of different metric. In single precision this is so for the rewards zero, one half and one; it is not so in general:
  three equal rewards of nine tenths are kept. A step uses at most
  \<open>max_num_gen_batches\<close> generated batches when that limit is positive.
\<close>

theorem dynamic_sampling_batches:
  assumes "gen_loop cfg esi gens \<lparr>global_steps = s0, gen_steps = g0, collector = fresh_collector, events = []\<rparr> = Inr (t', finished)"
    and "filter_enable cfg" and "\<forall>rows\<in>set gens. generated_groups cfg V rows"
  shows "(\<forall>s b. Trained s b \<in> set (events t') \<longrightarrow>
      full_batch cfg V b \<and> length b = train_batch_size cfg * rollout_n cfg \<and>
      (exact_std (np_std cfg) (rollout_n cfg) V \<longrightarrow> signal_batch cfg b)) \<and>
    (\<forall>s k. Logged s k \<in> set (events t') \<longrightarrow> max_num_gen_batches cfg > 0 \<longrightarrow> int k \<le> max_num_gen_batches cfg) \<and>
    (\<forall>n. 0 < n \<and> n < 2 ^ 24 \<longrightarrow> exact_std single_std n {0, 1 / 2, 1}) \<and>
    kept_prompt_uids single_std [(u, [nine_tenths, nine_tenths, nine_tenths])] = [u]"
proof -
  define ok where "ok e \<longleftrightarrow> (case e of Trained s b \<Rightarrow> full_batch cfg V b
      | Logged s k \<Rightarrow> max_num_gen_batches cfg > 0 \<longrightarrow> int k \<le> max_num_gen_batches cfg | _ \<Rightarrow> True)" for e :: "'a event"
  have "list_all ok (events t')" if "gen_loop cfg esi gens t = Inr (t', finished)" "\<forall>rows\<in>set gens. generated_groups cfg V rows"
    "collector_ok cfg V (collector t)" "list_all ok (events t)" for t
    using that
  proof (induction gens arbitrary: t)
    case (Cons rows gens)
    obtain batch st stats where step: "collect_step cfg rows (collector t) = Inr (batch, st, stats)"
      using Cons.prems(1) by (auto simp: res_simps)
    note next_ok = collect_step_ok [OF step assms(2) _ Cons.prems(3)]
    show ?case
    proof (cases batch)
      case None
      then show ?thesis
        using Cons.IH [of "t\<lparr>collector := st, gen_steps := gen_steps t + 1\<rparr>"] Cons.prems step next_ok by simp
    next
      case (Some b)
      have "list_all ok (step_events cfg esi (global_steps t) b (num_gen_batches st))"
        using next_ok Cons.prems(2) Some by (auto simp: step_events_def ok_def Let_def)
      moreover have "collector_ok cfg V (fresh_collector :: 'a collector)"
        by (auto simp: collector_ok_def fresh_collector_def)
      ultimately show ?thesis using Cons.prems step Some
        by (cases "global_steps t \<ge> total_training_steps cfg") (auto simp: Let_def intro!: Cons.IH)
    qed
  qed simp
  from this [OF assms(1,3)] have all: "list_all ok (events t')"
    by (auto simp: collector_ok_def fresh_collector_def)
  have "length b = train_batch_size cfg * rollout_n cfg" if b: "full_batch cfg V b" for b :: "'a trajectory list"
  proof -
    obtain gs where "b = concat gs" "length gs = train_batch_size cfg" "\<forall>g\<in>set gs. length g = rollout_n cfg"
      using b by (auto simp: full_batch_def prompt_group_def)
    then show ?thesis by (simp add: length_concat cong: map_cong) (simp add: map_replicate_const sum_list_replicate)
  qed
  moreover have "full_batch cfg V b" if "Trained s b \<in> set (events t')" for s b
    using all that unfolding list_all_iff ok_def by force
  moreover from this have "signal_batch cfg b" if "Trained s b \<in> set (events t')" "exact_std (np_std cfg) (rollout_n cfg) V" for s b
    using that full_batch_signal by blast
  moreover have "max_num_gen_batches cfg > 0 \<longrightarrow> int k \<le> max_num_gen_batches cfg" if "Logged s k \<in> set (events t')" for s k
    using all that unfolding list_all_iff ok_def by force
  ultimately show ?thesis using single_std_exact nine_tenths_deviates by (auto simp: kept_prompt_uids_def)
qed

definition example_row :: "string \<Rightarrow> real \<Rightarrow> nat trajectory" where
  "example_row u v = \<lparr>uid = u, final_reward = v, seq_score = v, columns = [], content = 0\<rparr>"

definition example_dapo :: dapo_config where
  "example_dapo =
     \<lparr>filter_enable = True, filter_metric = ''acc'', max_num_gen_batches = 2, train_batch_size = 1, rollout_n = 2,
      total_training_steps = 1, critic_warmup = 0, save_freq = 1, test_freq = 1, np_std = single_std\<rparr>"

lemma example_step:
  "collect_step example_dapo [example_row ''a'' 1, example_row ''a'' 1, example_row ''b'' 0, example_row ''b'' 1] fresh_collector =
     Inr (Some (map (add_metric ''acc'') [example_row ''b'' 0, example_row ''b'' 1]),
          \<lparr>acc_batch = Some (map (add_metric ''acc'') [example_row ''b'' 0, example_row ''b'' 1]),
           num_prompt_in_batch = 1, num_gen_batches = 1\<rparr>, (0, 1))"
proof -
  have std: "\<not> 0 < single_std [1, 1]" and std': "0 < single_std [0, 1]"
    using exact_std_iff [OF single_std_exact [of 2], of "[1, 1]"] exact_std_iff [OF single_std_exact [of 2], of "[0, 1]"] by auto
  show ?thesis
    by (simp add: collect_step_def example_dapo_def example_row_def fresh_collector_def add_metric_def
        prompt_metric_vals_def metric_val_def group_by_def dict_append_def kept_prompt_uids_def degenerate_groups_def std std' Let_def)
qed

theorem dynamic_sampling_batches_witness:
  "\<exists>t' b. gen_loop example_dapo (\<lambda>s. False)
      [[example_row ''a'' 1, example_row ''a'' 1, example_row ''b'' 0, example_row ''b'' 1]]
      \<lparr>global_steps = 1, gen_steps = 1, collector = fresh_collector, events = []\<rparr> = Inr (t', True) \<and>
    Trained 1 b \<in> set (events t') \<and> signal_batch example_dapo b \<and> length b = 2"
proof -
  let ?rows = "[example_row ''a'' 1, example_row ''a'' 1, example_row ''b'' 0, example_row ''b'' 1]"
  let ?b = "map (add_metric ''acc'') [example_row ''b'' 0, example_row ''b'' 1]"
  obtain t' where run: "gen_loop example_dapo (\<lambda>s. False) [?rows]
      \<lparr>global_steps = 1, gen_steps = 1, collector = fresh_collector, events = []\<rparr> = Inr (t', True)"
    and trained: "Trained 1 ?b \<in> set (events t')"
    using example_step by (simp add: example_dapo_def step_events_def Let_def)
  have "\<exists>gs. ?rows = concat gs \<and> prompt_groups (rollout_n example_dapo) gs"
    by (rule exI [of _ "[[example_row ''a'' 1, example_row ''a'' 1], [example_row ''b'' 0, example_row ''b'' 1]]"])
      (simp add: prompt_groups_def prompt_group_def example_row_def example_dapo_def)
  then have "generated_groups example_dapo {0, 1 / 2, 1} ?rows"
    by (simp add: generated_groups_def mval_def add_metric_def example_row_def example_dapo_def)
  then have "signal_batch example_dapo ?b \<and> length ?b = 2"
    using dynamic_sampling_batches [OF run] trained single_std_exact [of 2] by (simp add: example_dapo_def)
  then show ?thesis using run trained by blast
qed

subsection \<open>The steps of a run\<close>

fun trained_steps :: "'x event list \<Rightarrow> nat list" where
  "trained_steps [] = []"
| "trained_steps (Trained s b # es) = s # trained_steps es"
| "trained_steps (e # es) = trained_steps es"

lemma trained_steps_append [simp]: "trained_steps (es @ es') = trained_steps es @ trained_steps es'"
  by (induction es rule: trained_steps.induct) auto

lemma trained_step_events [simp]: "trained_steps (step_events cfg esi s b k) = [s]"
  by (simp add: step_events_def Let_def)

lemma saved_step_events: "Saved s' \<in> set (step_events cfg esi s b k) \<Longrightarrow> s' = s"
  by (auto simp: step_events_def Let_def split: if_splits)

definition metric_defined :: "dapo_config \<Rightarrow> 'x trajectory list \<Rightarrow> bool" where
  "metric_defined cfg rows \<longleftrightarrow>
     (\<exists>groups. prompt_metric_vals (filter_metric cfg) (map (add_metric (filter_metric cfg)) rows) = Inr groups)"

lemma gen_loop_unfiltered:
  assumes "\<not> filter_enable cfg" and "\<forall>rows\<in>set gens. metric_defined cfg rows"
    and "global_steps t + length gens \<le> total_training_steps cfg + 1"
  shows "\<exists>t'. gen_loop cfg esi gens t =
      Inr (t', gens \<noteq> [] \<and> global_steps t + length gens = total_training_steps cfg + 1) \<and>
    trained_steps (events t') = trained_steps (events t) @ [global_steps t..<global_steps t + length gens] \<and>
    (global_steps t + length gens \<le> total_training_steps cfg \<longrightarrow> global_steps t' = global_steps t + length gens) \<and>
    (\<forall>s. Saved s \<in> set (events t') \<longrightarrow> Saved s \<in> set (events t) \<or> s < global_steps t + length gens)"
  using assms(2,3)
proof (induction gens arbitrary: t)
  case (Cons rows gens)
  have "\<exists>b st stats. collect_step cfg rows (collector t) = Inr (Some b, st, stats)"
    using Cons.prems(1) assms(1) by (auto simp: metric_defined_def collect_step_def Let_def)
  then obtain b st stats where step: "collect_step cfg rows (collector t) = Inr (Some b, st, stats)" by blast
  define t1 where "t1 = t\<lparr>collector := fresh_collector,
      events := events t @ step_events cfg esi (global_steps t) b (num_gen_batches st)\<rparr>"
  show ?case
  proof (cases "global_steps t \<ge> total_training_steps cfg")
    case True
    moreover have "global_steps t + Suc (length gens) \<le> total_training_steps cfg + 1" using Cons.prems(2) by simp
    ultimately have "length gens = 0" "global_steps t = total_training_steps cfg" by linarith+
    then have "gens = []" "global_steps t = total_training_steps cfg" by simp_all
    then show ?thesis using step by (auto simp: Let_def dest: saved_step_events)
  next
    case False
    define t2 where "t2 = t1\<lparr>global_steps := global_steps t + 1, gen_steps := gen_steps t + 1\<rparr>"
    have t2: "global_steps t2 = global_steps t + 1" "events t2 = events t @ step_events cfg esi (global_steps t) b (num_gen_batches st)"
      by (simp_all add: t2_def t1_def)
    have "gen_loop cfg esi (rows # gens) t = gen_loop cfg esi gens t2"
      using step False by (simp add: Let_def t2_def t1_def)
    moreover obtain t' where t': "gen_loop cfg esi gens t2 =
        Inr (t', gens \<noteq> [] \<and> global_steps t2 + length gens = total_training_steps cfg + 1)"
      "trained_steps (events t') = trained_steps (events t2) @ [global_steps t2..<global_steps t2 + length gens]"
      "global_steps t2 + length gens \<le> total_training_steps cfg \<longrightarrow> global_steps t' = global_steps t2 + length gens"
      "\<forall>s. Saved s \<in> set (events t') \<longrightarrow> Saved s \<in> set (events t2) \<or> s < global_steps t2 + length gens"
      using Cons.IH [of t2] Cons.prems by (auto simp: t2(1))
    moreover have "[global_steps t..<global_steps t + length (rows # gens)] = global_steps t # [global_steps t + 1..<global_steps t + 1 + length gens]"
      by (simp add: upt_rec)
    moreover have "(gens \<noteq> [] \<and> global_steps t + 1 + length gens = total_training_steps cfg + 1) \<longleftrightarrow>
        global_steps t + length (rows # gens) = total_training_steps cfg + 1"
      using False by (cases gens) auto
    ultimately show ?thesis by (force simp: t2 dest: saved_step_events)
  qed
qed simp

text \<open>
  C19: A fresh run without dynamic sampling trains the steps from one to the number of batches times the
  number of epochs, each once and in order, when an epoch has at least two batches. When an epoch has
  a single batch, the first epoch is skipped, because the epoch to start with is computed after
  the step counter has been raised: the last step is never trained, and a checkpoint
  is nevertheless written under its number.
\<close>

theorem fresh_run_steps:
  assumes "\<not> filter_enable cfg" and "0 < batches" and "0 < epochs" and "total_training_steps cfg = batches * epochs"
    and "\<And>e. length (epoch_batches e) = batches"
    and "\<And>e rows. rows \<in> set (epoch_batches e) \<Longrightarrow> metric_defined cfg rows"
  shows "\<exists>t'. fit cfg esi {} batches epochs epoch_batches 0 = Inr t' \<and>
    trained_steps (events t') = (if batches = 1 then [1..<epochs] else [1..<batches * epochs + 1]) \<and>
    (batches = 1 \<longrightarrow> Saved epochs \<in> set (events t') \<and> epochs \<notin> set (trained_steps (events t')))"
proof -
  define t where "t = \<lparr>global_steps = 0 + 1, gen_steps = 1, collector = fresh_collector, events = [] :: 'a event list\<rparr>"
  define gens where "gens = concat (map epoch_batches [(0 + 1) div batches..<epochs])"
  have len: "length gens = (epochs - 1 div batches) * batches"
    unfolding gens_def using assms(5) length_concat_const [of "map epoch_batches [(0 + 1) div batches..<epochs]" batches] by auto
  have ok: "\<forall>rows\<in>set gens. metric_defined cfg rows" using assms(6) by (auto simp: gens_def)
  have bound: "global_steps t + length gens \<le> total_training_steps cfg + 1"
    by (simp add: t_def len assms(4) mult.commute diff_mult_distrib2)
  obtain t' where run: "gen_loop cfg esi gens t = Inr (t', gens \<noteq> [] \<and> global_steps t + length gens = total_training_steps cfg + 1)"
    and steps: "trained_steps (events t') = [1..<1 + length gens]"
    and last: "1 + length gens \<le> total_training_steps cfg \<longrightarrow> global_steps t' = 1 + length gens"
    and saved: "\<forall>s. Saved s \<in> set (events t') \<longrightarrow> s < 1 + length gens"
    using gen_loop_unfiltered [OF assms(1) ok bound, of esi] by (auto simp: t_def)
  have fit: "fit cfg esi {} batches epochs epoch_batches 0 =
      bind_res (gen_loop cfg esi gens t) (\<lambda>(t', finished).
        if finished \<or> Saved (global_steps t') \<in> set (events t') then Inr t'
        else Inr (t'\<lparr>events := events t' @ [Saved (global_steps t')]\<rparr>))"
    using assms(2) by (simp add: fit_def guard_res_def gens_def t_def Let_def)
  show ?thesis
  proof (cases "batches = 1")
    case True
    then have g: "length gens = epochs - 1" "global_steps t' = epochs" "1 + length gens = epochs"
      using len last assms(3,4) by auto
    then have "Saved (global_steps t') \<notin> set (events t')" using saved by auto
    moreover have "\<not> global_steps t + length gens = total_training_steps cfg + 1" using g True assms(3,4) by (simp add: t_def)
    ultimately have "fit cfg esi {} batches epochs epoch_batches 0 = Inr (t'\<lparr>events := events t' @ [Saved epochs]\<rparr>)"
      using run g by (simp add: fit)
    then show ?thesis using steps g True by (simp del: upt_Suc)
  next
    case False
    then have "1 div batches = 0" using assms(2) by simp
    then have "length gens = batches * epochs" by (simp add: len mult.commute)
    moreover have "0 < batches * epochs" using assms(2,3) by simp
    ultimately have "fit cfg esi {} batches epochs epoch_batches 0 = Inr t'"
      using run assms(4) by (auto simp: fit t_def)
    then show ?thesis using steps False \<open>length gens = batches * epochs\<close> by (simp del: upt_Suc)
  qed
qed

theorem fresh_run_steps_witness:
  "\<exists>t' cfg. fit cfg (\<lambda>s. False) {} 1 1 (\<lambda>e. [[example_row ''a'' 1]]) 0 = Inr t' \<and>
    trained_steps (events t') = [] \<and> Saved 1 \<in> set (events t')"
proof -
  let ?cfg = "example_dapo\<lparr>filter_enable := False\<rparr>"
  have "metric_defined ?cfg [example_row ''a'' 1]"
    by (simp add: metric_defined_def prompt_metric_vals_def metric_val_def add_metric_def example_dapo_def example_row_def)
  then have "\<exists>t'. fit ?cfg (\<lambda>s. False) {} 1 1 (\<lambda>e. [[example_row ''a'' 1]]) 0 = Inr t' \<and>
    trained_steps (events t') = (if (1::nat) = 1 then [1..<1] else [1..<1 * 1 + 1]) \<and>
    ((1::nat) = 1 \<longrightarrow> Saved 1 \<in> set (events t') \<and> 1 \<notin> set (trained_steps (events t')))"
    by (intro fresh_run_steps) (auto simp: example_dapo_def)
  then show ?thesis by auto
qed

subsection \<open>Pass at k\<close>

lemma subsets_avoiding:
  "{S. S \<subseteq> {..<n} \<and> card S = k \<and> S \<inter> {..<c} = {}} = {S. S \<subseteq> {c..<n} \<and> card S = k}" for n c :: nat
proof -
  have "S \<subseteq> {..<n} \<and> S \<inter> {..<c} = {} \<longleftrightarrow> S \<subseteq> {c..<n}" for S :: "nat set"
    by (auto simp: subset_iff disjoint_iff not_less)
  then show ?thesis by blast
qed

text \<open>
  The validation metric pass@k is the probability that a sample of \<open>k\<close> of the \<open>n\<close> responses
  contains a correct one: the number of subsets of size \<open>k\<close> that meet the \<open>c\<close> correct responses over
  the number of all subsets of that size, in both branches of the code.
\<close>

theorem pass_at_k_counts_subsets:
  assumes "c \<le> n" and "k \<le> n"
  shows "pass_at_k n c k =
    real (card {S. S \<subseteq> {..<n} \<and> card S = k \<and> S \<inter> {..<c} \<noteq> {}}) / real (card {S. S \<subseteq> {..<n} \<and> card S = k})"
proof -
  let ?all = "{S. S \<subseteq> {..<n} \<and> card S = k}" and ?hit = "{S. S \<subseteq> {..<n} \<and> card S = k \<and> S \<inter> {..<c} \<noteq> {}}"
  let ?miss = "{S. S \<subseteq> {..<n} \<and> card S = k \<and> S \<inter> {..<c} = {}}"
  have all: "card ?all = n choose k" using n_subsets [of "{..<n}" k] by simp
  have miss: "card ?miss = (n - c) choose k"
    unfolding subsets_avoiding using n_subsets [of "{c..<n}" k] by simp
  have "finite ?all" by (rule finite_subset [of _ "Pow {..<n}"]) auto
  moreover have "?hit = ?all - ?miss" "?miss \<subseteq> ?all" by auto
  ultimately have hit: "card ?hit = (n choose k) - ((n - c) choose k)" and le: "(n - c) choose k \<le> n choose k"
    using card_Diff_subset [of ?miss ?all] card_mono [of ?all ?miss] finite_subset [of ?miss ?all] all miss by auto
  have pos: "0 < n choose k" using assms(2) by simp
  show ?thesis
  proof (cases "int n - int c < int k")
    case True
    then have zero: "(n - c) choose k = 0" using assms(1) by (intro binomial_eq_0) linarith
    show ?thesis using True hit pos unfolding all by (simp add: pass_at_k_def zero)
  next
    case False
    have "real ((n choose k) - ((n - c) choose k)) = real (n choose k) - real ((n - c) choose k)"
      using le by (simp add: of_nat_diff)
    then show ?thesis using False pos unfolding all hit by (simp add: pass_at_k_def diff_divide_distrib)
  qed
qed

theorem pass_at_k_counts_subsets_witness:
  "pass_at_k 4 1 2 = real (card {S. S \<subseteq> {..<4 :: nat} \<and> card S = 2 \<and> S \<inter> {..<1} \<noteq> {}}) / real (card {S. S \<subseteq> {..<4 :: nat} \<and> card S = 2}) \<and>
   pass_at_k 4 1 2 = 1 / 2"
proof
  show "pass_at_k 4 1 2 = real (card {S. S \<subseteq> {..<4 :: nat} \<and> card S = 2 \<and> S \<inter> {..<1} \<noteq> {}}) / real (card {S. S \<subseteq> {..<4 :: nat} \<and> card S = 2})"
    by (rule pass_at_k_counts_subsets) simp_all
  show "pass_at_k 4 1 2 = 1 / 2" by (simp add: pass_at_k_def eval_nat_numeral)
qed

subsection \<open>The weights in old checkpoints\<close>

lemma prune_needs_weights:
  "entries (ensure_hf_then_prune_shards merge fails d) = entries d \<or> hf_weights_exist (ensure_hf_then_prune_shards merge fails d)"
  by (auto simp: ensure_hf_then_prune_shards_def hf_weights_exist_def Let_def split: prod.splits)

text \<open>
  C20: Shards are deleted only beside a file of converted weights, but that file may be partial. One
  clean-up never deletes an entry unless a weight file is present; when the merge fails after it
  has written one weight file, that clean-up keeps the shards, and the clean-up of the next checkpoint takes
  the partial file for the converted weights and deletes every shard that can be deleted.
\<close>

theorem interrupted_merge_loses_shards:
  assumes "has_hf_dir d" and "\<not> hf_weights_exist d" and "''fsdp_config.json'' \<in> set (entries d)" and "has_shards d"
    and "merge d = (written, False)" and "f \<in> set written" and "visible f" and "ends_with ''.safetensors'' f"
  shows "(\<forall>e. entries (ensure_hf_then_prune_shards merge fails e) = entries e \<or>
             hf_weights_exist (ensure_hf_then_prune_shards merge fails e)) \<and>
    entries (ensure_hf_then_prune_shards merge fails d) = entries d \<and>
    entries (ensure_hf_then_prune_shards merge fails (ensure_hf_then_prune_shards merge fails d)) = filter fails (entries d)"
proof -
  have first: "ensure_hf_then_prune_shards merge fails d = d\<lparr>hf_files := hf_files d @ written\<rparr>"
    using assms(1-5) by (simp add: ensure_hf_then_prune_shards_def)
  moreover have "hf_weights_exist (d\<lparr>hf_files := hf_files d @ written\<rparr>)"
    using assms(1,6-8) by (auto simp: hf_weights_exist_def list_ex_iff)
  ultimately show ?thesis using assms(1) prune_needs_weights
    by (auto simp: ensure_hf_then_prune_shards_def [of merge fails "d\<lparr>hf_files := hf_files d @ written\<rparr>"])
qed

theorem interrupted_merge_loses_shards_witness:
  "\<exists>d merge. entries d = [''model_world_size_2_rank_0.pt'', ''model_world_size_2_rank_1.pt'', ''fsdp_config.json''] \<and>
    entries (ensure_hf_then_prune_shards merge (\<lambda>f. False) (ensure_hf_then_prune_shards merge (\<lambda>f. False) d)) = []"
proof -
  define d where "d = \<lparr>has_hf_dir = True, hf_files = [''config.json''],
    entries = [''model_world_size_2_rank_0.pt'', ''model_world_size_2_rank_1.pt'', ''fsdp_config.json'']\<rparr>"
  define merge where "merge = (\<lambda>d :: role_dir. ([''model-00001-of-00002.safetensors''], False))"
  have "\<not> hf_weights_exist d" "has_shards d" "visible ''model-00001-of-00002.safetensors''"
    "ends_with ''.safetensors'' ''model-00001-of-00002.safetensors''"
    unfolding d_def by code_simp+
  then have "entries (ensure_hf_then_prune_shards merge (\<lambda>f. False) (ensure_hf_then_prune_shards merge (\<lambda>f. False) d)) = []"
    using interrupted_merge_loses_shards [of d merge "[''model-00001-of-00002.safetensors'']" _ "\<lambda>f. False"]
    by (simp add: d_def merge_def)
  then show ?thesis by (intro exI [of _ d] exI [of _ merge]) (simp add: d_def)
qed

subsection \<open>The rows of each rank\<close>

lemma mset_light_at_ends [simp]: "mset (light_at_ends xs) = mset xs"
  using mset_evens_odds [of xs] by (simp add: light_at_ends_def)

lemma part_sum_mset: "mset p = mset q \<Longrightarrow> part_sum lens p = part_sum lens q"
  unfolding part_sum_def by (metis mset_map sum_mset_sum_list)

text \<open>
  Balancing deals every row to one rank and evens the work. When the number of rows is a
  multiple of the number of ranks, the reordered batch is a permutation of the batch whose consecutive parts
  of equal size, the rows the dispatch gives to the ranks, differ in their work by at most the
  difference between the most and the least expensive row.
\<close>

theorem balance_batch_evens_work:
  assumes "\<forall>l\<in>set lens. 0 \<le> l \<and> l < 2 ^ 24" and "length rows = length lens" and "lens \<noteq> []"
    and "0 < dp_size" and "dp_size dvd length lens"
  shows "\<exists>parts. balance_batch lens None dp_size rows = Inr (concat (map (map (\<lambda>i. rows ! i)) parts)) \<and>
    length parts = dp_size \<and> (\<forall>p\<in>set parts. length p * dp_size = length rows) \<and>
    mset (concat parts) = mset [0..<length rows] \<and>
    mset (concat (map (map (\<lambda>i. rows ! i)) parts)) = mset rows \<and>
    (\<forall>p\<in>set parts. \<forall>q\<in>set parts. part_sum (calculate_workload lens) p - part_sum (calculate_workload lens) q \<le>
       Max (set (calculate_workload lens)) - Min (set (calculate_workload lens)))"
proof -
  define w where "w = calculate_workload lens"
  define order where "order p = light_at_ends (sort_key (\<lambda>x. (w ! x, x)) p)" for p
  have len: "length w = length lens" by (simp add: w_def calculate_workload_def)
  have "\<forall>x\<in>set w. 0 \<le> x" using workloads_nonneg [OF assms(1)] by (simp add: w_def)
  moreover have "dp_size \<le> length w" using assms(3,5) by (simp add: len dvd_imp_le)
  ultimately obtain ps where ps: "get_seqlen_balanced_partitions w dp_size True = Inr ps" "is_partition w dp_size True ps" "balanced w True ps"
    using assms(4,5) len by (elim balanced_partitions_spec [of w dp_size True, rotated 2]) auto
  have order: "mset (order p) = mset p" for p by (simp add: order_def)
  then have order_length: "length (order p) = length p" for p by (metis size_mset)
  have cover: "mset (concat (map order ps)) = mset [0..<length rows]"
  proof -
    have "mset (concat (map order ps)) = mset (concat ps)" by (induction ps) (auto simp: order)
    then show ?thesis using ps(2) assms(2) len by (simp add: is_partition_def)
  qed
  then have "list_all (\<lambda>i. i < length rows) (concat (map order ps))"
    by (metis atLeastLessThan_iff list_all_iff mset_eq_setD set_upt)
  then have batch: "balance_batch lens None dp_size rows = Inr (concat (map (map (\<lambda>i. rows ! i)) (map order ps)))"
    using ps(1) by (simp add: balance_batch_def balance_partitions_def select_rows_def guard_res_def map_concat comp_def flip: w_def order_def)
  have perm: "mset (concat (map (map (\<lambda>i. rows ! i)) (map order ps))) = mset rows"
  proof -
    have "concat (map (map (\<lambda>i. rows ! i)) (map order ps)) = map (\<lambda>i. rows ! i) (concat (map order ps))"
      by (simp add: map_concat)
    then have "mset (concat (map (map (\<lambda>i. rows ! i)) (map order ps))) = image_mset (\<lambda>i. rows ! i) (mset [0..<length rows])"
      using cover by (metis mset_map)
    then show ?thesis by (metis map_nth mset_map)
  qed
  have sizes: "length (map order ps) = dp_size" "\<forall>p\<in>set (map order ps). length p * dp_size = length rows"
    using ps(2) by (auto simp: is_partition_def order_length assms(2) len)
  have gap: "\<forall>p\<in>set (map order ps). \<forall>q\<in>set (map order ps). part_sum w p - part_sum w q \<le> Max (set w) - Min (set w)"
    using ps(3) part_sum_mset [OF order] by (auto simp: balanced_def gap_def)
  show ?thesis unfolding w_def [symmetric]
    by (rule exI [of _ "map order ps"]) (intro conjI batch sizes cover perm gap)
qed

theorem balance_batch_evens_work_witness:
  "\<exists>parts. balance_batch [1, 5, 2, 4] None 2 [''a'', ''b'', ''c'', ''d''] =
      Inr (concat (map (map (\<lambda>i. [''a'', ''b'', ''c'', ''d''] ! i)) parts)) \<and> length parts = 2"
  using balance_batch_evens_work [of "[1, 5, 2, 4]" "[''a'', ''b'', ''c'', ''d'']" 2] by auto

end
