(* ===== verification/Grading.thy ===== *)
theory Grading
  imports Prelude PyText
begin

section \<open>Grading of answers\<close>

text \<open>
  Models \<open>src/src/custom_think_rm.py\<close>: the format check of a response, the extraction of the boxed answer,
  the two normalisations, and the comparison with the ground truth. Texts are over one-byte characters.
  Two libraries are arguments: \<open>latex_to_text\<close> is the conversion of pylatexenc (none when it raises), followed
  by the replacement of its four symbols that need more than one byte; \<open>simplifies_to_zero\<close> tells
  that sympy parses an expression and simplifies it to zero (false when it raises).
\<close>

subsection \<open>Enclosing text command\<close>

definition without_newline_at_end :: "string \<Rightarrow> string" where
  "without_newline_at_end s = (if s \<noteq> [] \<and> last s = CHR 0x0A then butlast s else s)"

definition enclosed_text :: "string \<Rightarrow> string option" where
  "enclosed_text s =
     (let body = without_newline_at_end s; inner = butlast (drop 6 body)
      in if starts_with (tex ''text{'') body \<and> 8 \<le> length body \<and> last body = CHR ''}'' \<and> CHR 0x0A \<notin> set inner
         then Some inner else None)"

subsection \<open>The normalisation of the MATH benchmark\<close>

definition brace :: "string \<Rightarrow> string" where
  "brace s = ''{'' @ s @ ''}''"

text \<open>The parts after each \<open>\frac\<close>; none stands for the early return of the text as it was.\<close>

fun fix_fracs_parts :: "string list \<Rightarrow> string \<Rightarrow> string option result" where
  "fix_fracs_parts [] new = Inr (Some new)"
| "fix_fracs_parts (p # ps) new =
     (case p of
        [] \<Rightarrow> Inl IndexError
      | a # q \<Rightarrow>
          if a = CHR ''{'' then fix_fracs_parts ps (new @ tex ''frac'' @ p)
          else (case q of
                  [] \<Rightarrow> Inr None
                | b # post \<Rightarrow>
                    fix_fracs_parts ps (new @ tex ''frac'' @ brace [a] @ (if b \<noteq> CHR ''{'' then brace [b] else [b]) @ post)))"

definition fix_fracs :: "string \<Rightarrow> string result" where
  "fix_fracs s =
     (let parts = py_split (tex ''frac'') s
      in bind_res (fix_fracs_parts (tl parts) (hd parts)) (\<lambda>r. Inr (case r of None \<Rightarrow> s | Some new \<Rightarrow> new)))"

definition fix_a_slash_b :: "string \<Rightarrow> string" where
  "fix_a_slash_b s =
     (case py_split ''/'' s of
        [x, y] \<Rightarrow>
          (case (py_int x, py_int y) of
             (Some a, Some b) \<Rightarrow>
               if s = show_int a @ ''/'' @ show_int b then tex ''frac'' @ brace (show_int a) @ brace (show_int b) else s
           | _ \<Rightarrow> s)
      | _ \<Rightarrow> s)"

definition remove_right_units :: "string \<Rightarrow> string result" where
  "remove_right_units s =
     (if contains (tex ''text{ '') s
      then (let splits = py_split (tex ''text{ '') s in guard_res (length splits = 2) AssertionError (Inr (hd splits)))
      else Inr s)"

fun fix_sqrt_parts :: "string list \<Rightarrow> string \<Rightarrow> string result" where
  "fix_sqrt_parts [] new = Inr new"
| "fix_sqrt_parts (p # ps) new =
     (case p of
        [] \<Rightarrow> Inl IndexError
      | a # q \<Rightarrow>
          if a \<noteq> CHR ''{'' then fix_sqrt_parts ps (new @ tex ''sqrt'' @ brace [a] @ q)
          else fix_sqrt_parts ps (new @ tex ''sqrt'' @ p))"

definition fix_sqrt :: "string \<Rightarrow> string result" where
  "fix_sqrt s =
     (if \<not> contains (tex ''sqrt'') s then Inr s
      else (let splits = py_split (tex ''sqrt'') s in fix_sqrt_parts (tl splits) (hd splits)))"

text \<open>The replacements before the units are cut, and those after it.\<close>

definition first_pairs :: "(string \<times> string) list" where
  "first_pairs =
     [([CHR 0x0A], ''''), (tex ''!'', ''''), (tex (tex ''''), tex ''''), (''tfrac'', ''frac''), (''dfrac'', ''frac''),
      (tex ''left'', ''''), (tex ''right'', ''''), (''^{'' @ tex ''circ}'', ''''), (''^'' @ tex ''circ'', ''''), (tex ''$'', '''')]"

definition first_replacements :: "string \<Rightarrow> string" where
  "first_replacements s = fold (\<lambda>(p, r). py_replace p r) first_pairs s"

definition second_pairs :: "(string \<times> string) list" where
  "second_pairs =
     [(tex ''%'', ''''), (tex ''%'', ''''), ('' .'', '' 0.''), (''{.'', ''{0.'')]"

definition second_replacements :: "string \<Rightarrow> string" where
  "second_replacements s = fold (\<lambda>(p, r). py_replace p r) second_pairs s"

definition drop_short_lhs :: "string \<Rightarrow> string" where
  "drop_short_lhs s =
     (case py_split ''='' s of [l, r] \<Rightarrow> if length l \<le> 2 then r else s | _ \<Rightarrow> s)"

definition strip_string :: "string \<Rightarrow> string result" where
  "strip_string s =
     bind_res (remove_right_units (first_replacements s)) (\<lambda>s1.
       let s2 = second_replacements s1
       in if s2 = [] then Inr s2
          else (let s3 = drop_short_lhs (if hd s2 = CHR ''.'' then ''0'' @ s2 else s2)
                in bind_res (fix_sqrt s3) (\<lambda>s4.
                   bind_res (fix_fracs (py_replace '' '' '''' s4)) (\<lambda>s5.
                     Inr (fix_a_slash_b (if s5 = ''0.5'' then tex ''frac{1}{2}'' else s5))))))"

definition mathd_normalize_answer :: "string option \<Rightarrow> string option" where
  "mathd_normalize_answer answer =
     map_option (\<lambda>a0. let s = py_strip a0;
                            s' = (case enclosed_text s of None \<Rightarrow> s | Some t \<Rightarrow> py_strip t)
                        in case strip_string s' of Inl _ \<Rightarrow> s' | Inr r \<Rightarrow> r) answer"

subsection \<open>Numerals\<close>

text \<open>One pass of the substitution that removes a comma between a digit and a group of three, and its repetition.\<close>

definition grouped_comma :: "string \<Rightarrow> (string \<times> nat) option" where
  "grouped_comma s =
     (case s of
        a # k # x # y # z # rest \<Rightarrow>
          if is_digit a \<and> k = CHR '','' \<and> is_digit x \<and> is_digit y \<and> is_digit z
          then (if rest = [] \<or> rest = [CHR 0x0A] then Some ([a, x, y, z], 5)
                else if \<not> is_digit (hd rest) then Some ([a, x, y, z, hd rest], 6)
                else None)
          else None
      | _ \<Rightarrow> None)"

lemma grouped_comma_length: "grouped_comma s = Some (r, k) \<Longrightarrow> length r < k \<and> k \<le> length s"
  by (auto simp: grouped_comma_def neq_Nil_conv split: list.splits if_splits)

function strip_commas :: "string \<Rightarrow> string" where
  "strip_commas s = (let t = re_sub grouped_comma s in if t = s then s else strip_commas t)"
  by pat_completeness auto
termination
  by (relation "measure length") (auto intro: re_sub_shrinks [OF grouped_comma_length])

declare strip_commas.simps [simp del]

definition is_int_float :: "py_float \<Rightarrow> bool" where
  "is_int_float x =
     (case x of
        Finite neg m e \<Rightarrow>
          e \<ge> 0 \<or>
          (let d = 2 ^ nat (- e); (tm, te) = nearest_double 1 (10 ^ 7)
           in \<bar>m - round_double m e * d\<bar> * 2 ^ nat (- te) \<le> tm * d)
      | _ \<Rightarrow> False)"

definition signed :: "bool \<Rightarrow> int \<Rightarrow> int" where
  "signed neg n = (if neg then - n else n)"

text \<open>\<open>round\<close> and \<open>int\<close> of a finite float.\<close>

definition rounded :: "py_float \<Rightarrow> int" where
  "rounded x = (case x of Finite neg m e \<Rightarrow> signed neg (round_double m e) | _ \<Rightarrow> 0)"

definition truncated :: "py_float \<Rightarrow> int" where
  "truncated x = (case x of Finite neg m e \<Rightarrow> signed neg (trunc_double m e) | _ \<Rightarrow> 0)"

definition str_is_int :: "string \<Rightarrow> bool" where
  "str_is_int s = (case py_float_of (strip_commas s) of None \<Rightarrow> False | Some x \<Rightarrow> is_int_float x)"

text \<open>Used on texts for which \<open>str_is_int\<close> holds.\<close>

definition str_to_int :: "string \<Rightarrow> int" where
  "str_to_int s = (case py_float_of (py_replace '','' '''' s) of None \<Rightarrow> 0 | Some x \<Rightarrow> truncated x)"

text \<open>The regular expression of fractions: a digit sequence, any character, a slash, a positive denominator, any character.\<close>

definition frac_denominator :: "string \<Rightarrow> bool" where
  "frac_denominator t =
     (let u = dropWhile (\<lambda>c. c = CHR ''0'') t; w = dropWhile is_digit u
      in u \<noteq> [] \<and> is_digit (hd u) \<and>
         (w = [] \<or> w = [CHR 0x0A] \<or> (hd w \<noteq> CHR 0x0A \<and> (tl w = [] \<or> tl w = [CHR 0x0A]))))"

definition is_frac :: "string \<Rightarrow> bool" where
  "is_frac s =
     (let s1 = (if starts_with ''-'' s then tl s else s); r = dropWhile is_digit s1
      in s1 \<noteq> [] \<and> is_digit (hd s1) \<and>
         ((r \<noteq> [] \<and> hd r = CHR ''/'' \<and> frac_denominator (tl r)) \<or>
          (2 \<le> length r \<and> hd r \<noteq> CHR 0x0A \<and> r ! 1 = CHR ''/'' \<and> frac_denominator (drop 2 r))))"

subsection \<open>Fractions of the typesetting language\<close>

text \<open>The place of the brace that brings the depth to zero.\<close>

fun close_at :: "int \<Rightarrow> string \<Rightarrow> nat option" where
  "close_at d [] = None"
| "close_at d (c # cs) =
     (if c = CHR ''{'' then map_option Suc (close_at (d + 1) cs)
      else if c = CHR ''}'' then (if d - 1 = 0 then Some 0 else map_option Suc (close_at (d - 1) cs))
      else map_option Suc (close_at d cs))"

definition brace_group :: "string \<Rightarrow> (string \<times> string) option" where
  "brace_group s =
     (let t = dropWhile (\<lambda>c. c = CHR '' '') s
      in if t = [] \<or> hd t \<noteq> CHR ''{'' then None
         else map_option (\<lambda>j. (take (j - 1) (tl t), drop (j + 1) t)) (close_at 0 t))"

definition frac_step :: "string \<Rightarrow> string option" where
  "frac_step s =
     (case find_first (tex ''frac'') s of
        None \<Rightarrow> None
      | Some i \<Rightarrow>
          (case brace_group (drop (i + 5) s) of
             None \<Rightarrow> None
           | Some (numerator, r) \<Rightarrow>
               map_option (\<lambda>(denominator, r'). take i s @ ''('' @ numerator @ '')/('' @ denominator @ '')'' @ r') (brace_group r)))"

lemma close_at_bounds: "close_at d s = Some j \<Longrightarrow> j < length s"
  by (induction d s arbitrary: j rule: close_at.induct) (auto split: if_splits)

lemma close_at_open: "close_at 0 (CHR ''{'' # s) = Some j \<Longrightarrow> 1 \<le> j"
  by auto

lemma brace_group_length:
  assumes "brace_group s = Some (x, r)"
  shows "length x + length r + 2 \<le> length s"
proof -
  define t where "t = dropWhile (\<lambda>c. c = CHR '' '') s"
  obtain u j where t: "t = CHR ''{'' # u" and j: "close_at 0 t = Some j" "x = take (j - 1) u" "r = drop (j + 1) t"
    using assms by (auto simp: brace_group_def t_def [symmetric] Let_def neq_Nil_conv split: if_splits)
  have "length t \<le> length s" by (simp add: t_def length_dropWhile_le)
  moreover have "1 \<le> j" "j < length t" using j(1) close_at_open [of u j] close_at_bounds [of 0 t j] t by auto
  ultimately show ?thesis using j t by auto
qed

lemma find_first_bounds: "find_first p s = Some i \<Longrightarrow> p \<noteq> [] \<Longrightarrow> i + length p \<le> length s"
  by (induction p s arbitrary: i rule: find_first.induct)
     (auto simp: starts_with_def dest!: arg_cong [of "take _ _" _ length] split: if_splits)

lemma frac_step_length: "frac_step s = Some t \<Longrightarrow> length t < length s"
  using find_first_bounds [of "tex ''frac''" s]
  by (fastforce simp: frac_step_def dest: brace_group_length split: option.splits)

function convert_frac :: "string \<Rightarrow> string" where
  "convert_frac s = (case frac_step s of None \<Rightarrow> s | Some t \<Rightarrow> convert_frac t)"
  by pat_completeness auto
termination
  by (relation "measure length") (auto intro: frac_step_length)

declare convert_frac.simps [simp del]

definition parse_latex :: "(string \<Rightarrow> string option) \<Rightarrow> string \<Rightarrow> string option" where
  "parse_latex latex_to_text s =
     map_option (\<lambda>t. py_strip (py_replace [CHR 0xD7] ''*'' (py_replace [CHR 0xB7] ''*'' t)))
       (latex_to_text (convert_frac (py_replace (tex ''dfrac'') (tex ''frac'') (py_replace (tex ''tfrac'') (tex ''frac'') s))))"

subsection \<open>The normalisation before the symbolic comparison\<close>

text \<open>The substitutions: a unit with its plural and power, degrees, thousands separators, spaces after minus, mixed numbers.\<close>

definition drop_spaces :: "string \<Rightarrow> string" where
  "drop_spaces s = dropWhile (\<lambda>c. c = CHR '' '') s"

definition unit_match :: "string \<Rightarrow> string \<Rightarrow> (string \<times> nat) option" where
  "unit_match u s =
     (if starts_with u s
      then (let r0 = drop (length u) s;
                r1 = (if starts_with ''es'' r0 then drop 2 r0 else r0);
                r2 = (if starts_with ''s'' r1 then tl r1 else r1);
                r3 = drop_spaces r2;
                r4 = (if starts_with ''^'' r3 \<and> tl r3 \<noteq> [] \<and> is_digit (hd (tl r3)) then dropWhile is_digit (tl r3) else r3)
            in Some ([], length s - length r4))
      else None)"

definition degree_match :: "string \<Rightarrow> (string \<times> nat) option" where
  "degree_match s =
     (if starts_with ''^'' s \<and> starts_with (tex ''circ'') (drop_spaces (tl s))
      then Some ([], length s - length (drop_spaces (tl s)) + 5) else None)"

definition separator_match :: "string \<Rightarrow> (string \<times> nat) option" where
  "separator_match s =
     (if starts_with ('','' @ tex ''!'') s then Some ([], length s - length (drop_spaces (drop 3 s))) else None)"

definition minus_match :: "string \<Rightarrow> (string \<times> nat) option" where
  "minus_match s = (if starts_with ''-'' s then Some (''-'', length s - length (drop_spaces (tl s))) else None)"

definition mixed_number_match :: "string \<Rightarrow> (string \<times> nat) option" where
  "mixed_number_match s =
     (let r = drop_spaces (tl s)
      in if is_digit (hd s) \<and> starts_with '' '' (tl s) \<and> r \<noteq> [] \<and> is_digit (hd r)
         then Some ([hd s, CHR ''+'', hd r], length s - length r + 1) else None)"

definition units :: "string list" where
  "units = [''degree'', ''cm'', ''centimeter'', ''meter'', ''mile'', ''second'', ''minute'', ''hour'', ''day'', ''week'',
            ''month'', ''year'', ''foot'', ''feet'', ''inch'', ''yard'']"

definition word_pairs :: "(string \<times> string) list" where
  "word_pairs =
     [(tex ''%'', ''%''), (tex ''$'', ''$''), (''$'', ''''), (''%'', ''''), ('' or '', '' , ''), ('' and '', '' , ''),
      (''million'', ''*10^6''), (''billion'', ''*10^9''), (''trillion'', ''*10^12'')]"

definition remove_words :: "string \<Rightarrow> string" where
  "remove_words s = fold (\<lambda>(p, r). py_replace p r) word_pairs s"

definition canonical_float :: "string \<Rightarrow> string" where
  "canonical_float s =
     (case py_float_of s of None \<Rightarrow> s | Some x \<Rightarrow> if is_int_float x then show_int (rounded x) else s)"

definition unbraced :: "string \<Rightarrow> string" where
  "unbraced s = (if s \<noteq> [] \<and> hd s = CHR ''{'' \<and> last s = CHR ''}'' then butlast (tl s) else s)"

definition normalize_expr :: "(string \<Rightarrow> string option) \<Rightarrow> string \<Rightarrow> string" where
  "normalize_expr latex_to_text expr =
     (let e0 = (case enclosed_text expr of None \<Rightarrow> expr | Some t \<Rightarrow> t);
          e1 = fold (\<lambda>u. re_sub (unit_match u)) units (remove_words e0);
          e2 = unbraced (re_sub degree_match e1);
          e3 = canonical_float (re_sub separator_match e2);
          e4 = (if CHR 0x5C \<in> set e3 then (case parse_latex latex_to_text e3 of None \<Rightarrow> e3 | Some t \<Rightarrow> t) else e3);
          e5 = re_sub mixed_number_match (re_sub minus_match e4);
          e6 = py_lower (py_replace ''}'' '''' (py_replace ''{'' '''' (py_replace '' '' '''' e5)))
      in if str_is_int e6 then show_int (str_to_int e6) else e6)"

subsection \<open>Symbolic comparison\<close>

definition count_unknown_letters_in_expr :: "string \<Rightarrow> nat" where
  "count_unknown_letters_in_expr s = card (set (filter is_alpha (py_replace ''frac'' '''' (py_replace ''sqrt'' '''' s))))"

definition bad_power :: "string \<Rightarrow> bool" where
  "bad_power s \<longleftrightarrow> starts_with ''^'' s \<and>
     (let t = tl s; ds = takeWhile is_digit t
      in 2 \<le> length ds \<or> (1 \<le> length ds \<and> starts_with ''^'' (dropWhile is_digit t)))"

definition should_allow_eval :: "string \<Rightarrow> bool" where
  "should_allow_eval s \<longleftrightarrow>
     \<not> 2 < count_unknown_letters_in_expr s \<and> \<not> contains ''^{'' s \<and> \<not> contains ''^('' s \<and> \<not> search bad_power s"

definition are_equal_under_sympy :: "(string \<Rightarrow> bool) \<Rightarrow> string \<Rightarrow> string \<Rightarrow> bool" where
  "are_equal_under_sympy simplifies_to_zero truth given =
     (let e = ''('' @ truth @ '')-('' @ given @ '')''
      in should_allow_eval e \<and> simplifies_to_zero (py_replace ''^'' ''**'' e))"

definition split_tuple :: "string \<Rightarrow> string list" where
  "split_tuple s0 =
     (let s = strip_commas s0; tuple_char = (\<lambda>c. c \<in> set ''()[]'')
      in if s = [] then []
         else if 2 < length s \<and> tuple_char (hd s) \<and> tuple_char (last s) \<and> \<not> list_ex tuple_char (butlast (tl s))
         then map py_strip (split_on (CHR '','') (butlast (tl s)))
         else [s])"

definition grade_element :: "(string \<Rightarrow> bool) \<Rightarrow> string \<Rightarrow> string \<Rightarrow> bool" where
  "grade_element simplifies_to_zero truth given =
     (if is_frac truth \<and> is_frac given then truth = given
      else if str_is_int truth \<noteq> str_is_int given then False
      else are_equal_under_sympy simplifies_to_zero truth given)"

text \<open>With no pair of elements the variable for the result would be read before it is set.\<close>

definition grade_elements :: "(string \<Rightarrow> bool) \<Rightarrow> (string \<times> string) list \<Rightarrow> bool result" where
  "grade_elements simplifies_to_zero pairs =
     guard_res (pairs \<noteq> []) NameError (Inr (list_all (\<lambda>(t, g). grade_element simplifies_to_zero t g) pairs))"

definition grade_answer_sympy ::
  "(string \<Rightarrow> string option) \<Rightarrow> (string \<Rightarrow> bool) \<Rightarrow> string option \<Rightarrow> string option \<Rightarrow> bool result" where
  "grade_answer_sympy latex_to_text simplifies_to_zero given_answer ground_truth =
     (let norm_expr = map_option (normalize_expr latex_to_text)
      in case norm_expr ground_truth of
           None \<Rightarrow> Inr False
         | Some t \<Rightarrow>
             if norm_expr ground_truth = norm_expr given_answer then Inr True
             else (case norm_expr given_answer of
                     None \<Rightarrow> Inl TypeError
                   | Some g \<Rightarrow>
                       if g = [] then Inr False
                       else (let ts = split_tuple t; gs = split_tuple g
                             in if 1 < length ts \<and> (hd t \<noteq> hd g \<or> last t \<noteq> last g) then Inr False
                                else if length ts \<noteq> length gs then Inr False
                                else grade_elements simplifies_to_zero (zip ts gs))))"

definition grade_answer_mathd :: "string option \<Rightarrow> string option \<Rightarrow> bool" where
  "grade_answer_mathd given_answer ground_truth \<longleftrightarrow> mathd_normalize_answer ground_truth = mathd_normalize_answer given_answer"

subsection \<open>The boxed answer\<close>

definition last_boxed_only_string :: "string \<Rightarrow> string option" where
  "last_boxed_only_string s =
     (case (case find_last (tex ''boxed'') s of Some i \<Rightarrow> Some i | None \<Rightarrow> find_last (tex ''fbox'') s) of
        None \<Rightarrow> None
      | Some i \<Rightarrow> map_option (\<lambda>j. take (j + 1) (drop i s)) (close_at 0 (drop i s)))"

definition remove_boxed :: "string option \<Rightarrow> string option" where
  "remove_boxed so =
     (case so of
        None \<Rightarrow> None
      | Some s \<Rightarrow> if starts_with (tex ''boxed{'') s \<and> last s = CHR ''}'' then Some (butlast (drop 7 s)) else None)"

definition extract_boxed_answer :: "string \<Rightarrow> string option" where
  "extract_boxed_answer solution = remove_boxed (last_boxed_only_string solution)"

definition extract_answer :: "string \<Rightarrow> string option" where
  "extract_answer passage = (if contains (tex ''boxed'') passage then extract_boxed_answer passage else None)"

subsection \<open>The reward of an answer\<close>

text \<open>A ground truth is a text, a number with its printed form, something else, or a list of these.\<close>

datatype label =
    Text string
  | Number string
  | Other

datatype ground_truth =
    Single label
  | Several "label list"

definition rule_base_reward ::
  "(string \<Rightarrow> string option) \<Rightarrow> (string \<Rightarrow> bool) \<Rightarrow> string option \<Rightarrow> label \<Rightarrow> nat result" where
  "rule_base_reward latex_to_text simplifies_to_zero model_answer lbl =
     (if model_answer = None \<or> lbl = Text [] \<or> lbl = Other then Inr 0
      else (let truth = (case lbl of Text t \<Rightarrow> t | Number t \<Rightarrow> t | Other \<Rightarrow> []);
                processed = (if contains (tex ''boxed'') truth then extract_answer truth else Some truth)
            in if processed = None then Inr 0
               else if grade_answer_mathd model_answer processed then Inr 1
               else bind_res (grade_answer_sympy latex_to_text simplifies_to_zero model_answer processed) (\<lambda>ok. Inr (if ok then 1 else 0))))"

fun first_reward :: "(label \<Rightarrow> nat result) \<Rightarrow> label list \<Rightarrow> nat \<Rightarrow> nat result" where
  "first_reward reward [] acc = Inr acc"
| "first_reward reward (t # ts) acc = bind_res (reward t) (\<lambda>a. if a = 1 then Inr 1 else first_reward reward ts a)"

record verdict =
  v_score :: nat
  v_pred :: string

definition verify_think_rm ::
  "(string \<Rightarrow> string option) \<Rightarrow> (string \<Rightarrow> bool) \<Rightarrow> string \<Rightarrow> ground_truth \<Rightarrow> verdict result" where
  "verify_think_rm latex_to_text simplifies_to_zero solution_str truth =
     (if 1 < py_count ''<think>'' solution_str
      then Inr \<lparr>v_score = 0, v_pred = ''ERROR: Multiple <think>''\<rparr>
      else if py_count ''<think>'' solution_str = 1 \<and> \<not> starts_with ''<think>'' (py_strip solution_str)
      then Inr \<lparr>v_score = 0, v_pred = ''ERROR: <think> not at beginning''\<rparr>
      else if py_count ''</think>'' solution_str \<noteq> 1
      then Inr \<lparr>v_score = 0, v_pred = ''ERROR: Num of </think> == '' @ show_int (int (py_count ''</think>'' solution_str))\<rparr>
      else (let pred = extract_answer (last (py_split ''</think>'' solution_str));
                reward = rule_base_reward latex_to_text simplifies_to_zero pred
            in bind_res (case truth of Several ts \<Rightarrow> first_reward reward ts 0 | Single t \<Rightarrow> reward t) (\<lambda>acc.
                 Inr \<lparr>v_score = acc, v_pred = (case pred of None \<Rightarrow> ''ERROR: Answer Extraction Failed'' | Some p \<Rightarrow> p)\<rparr>)))"

subsection \<open>Integers\<close>

lemma unit_match_absent: "c \<in> set u \<Longrightarrow> c \<notin> set s \<Longrightarrow> re_sub (unit_match u) s = s"
  by (rule re_sub_same) (auto simp: unit_match_def dest: starts_with_subset)

lemma fold_units_same:
  assumes "\<forall>u\<in>set us. \<exists>c\<in>set u. c \<notin> set s"
  shows "fold (\<lambda>u. re_sub (unit_match u)) us s = s"
  using assms by (induction us) (auto simp: unit_match_absent)

lemma fold_replace_same:
  assumes "\<forall>(p, r)\<in>set prs. \<exists>c\<in>set p. c \<notin> set s"
  shows "fold (\<lambda>(p, r). py_replace p r) prs s = s"
  using assms by (induction prs) (auto simp: py_replace_absent)

text \<open>Patterns with a character that is no digit.\<close>

lemma pattern_absent: "all_digits s \<Longrightarrow> \<exists>c\<in>set p. \<not> is_digit c \<Longrightarrow> \<exists>c\<in>set p. c \<notin> set s"
  by (auto simp: all_digits_def)

lemma replacement_patterns:
  "\<forall>u\<in>set units. \<exists>c\<in>set u. \<not> is_digit c"
  "\<forall>(p, r)\<in>set first_pairs. \<exists>c\<in>set p. \<not> is_digit c"
  "\<forall>(p, r)\<in>set second_pairs. \<exists>c\<in>set p. \<not> is_digit c"
  "\<forall>(p, r)\<in>set word_pairs. \<exists>c\<in>set p. \<not> is_digit c"
  by (code_simp)+

lemma re_sub_digits: "all_digits s \<Longrightarrow> (\<And>t. t \<noteq> [] \<Longrightarrow> all_digits t \<Longrightarrow> m t = None) \<Longrightarrow> re_sub m s = s"
  by (rule re_sub_same) (auto simp: all_digits_def)

lemma starts_with_digits: "all_digits s \<Longrightarrow> \<not> is_digit c \<Longrightarrow> \<not> starts_with (c # p) s"
  by (cases s) (auto simp: all_digits_def)

lemma matches_digits:
  assumes "all_digits s"
  shows "re_sub degree_match s = s" "re_sub separator_match s = s" "re_sub minus_match s = s" "re_sub mixed_number_match s = s"
proof -
  show "re_sub degree_match s = s" "re_sub separator_match s = s" "re_sub minus_match s = s"
    by (rule re_sub_digits [OF assms]; simp add: degree_match_def separator_match_def minus_match_def starts_with_digits nondigits)+
  show "re_sub mixed_number_match s = s"
  proof (rule re_sub_digits [OF assms])
    fix t :: string assume "all_digits t"
    then have "all_digits (tl t)" by (cases t) (auto simp: all_digits_def)
    then show "mixed_number_match t = None" by (simp add: mixed_number_match_def Let_def starts_with_digits nondigits)
  qed
qed

lemma grouped_comma_absent: "CHR '','' \<notin> set s \<Longrightarrow> sub_from grouped_comma 0 s = s"
proof -
  assume no: "CHR '','' \<notin> set s"
  show "sub_from grouped_comma 0 s = s"
  proof (rule sub_from_same)
    fix t :: string assume "set t \<subseteq> set s"
    then show "grouped_comma t = None" using no by (auto simp: grouped_comma_def split: list.splits)
  qed
qed

lemma strip_commas_absent: "CHR '','' \<notin> set s \<Longrightarrow> strip_commas s = s"
  by (subst strip_commas.simps) (simp add: Let_def re_sub_def grouped_comma_absent)

lemma strip_commas_pass: "strip_commas s = strip_commas (sub_from grouped_comma 0 s)"
  by (cases "re_sub grouped_comma s = s") (simp add: re_sub_def, subst strip_commas.simps, simp add: Let_def re_sub_def)

lemma parts_of_digits:
  assumes "all_digits s"
  shows "remove_words s = s" "first_replacements s = s" "second_replacements s = s"
    "fold (\<lambda>u. re_sub (unit_match u)) units s = s" "unbraced s = s" "enclosed_text s = None" "strip_commas s = s"
    "py_lower s = s" "\<not> is_frac s" "py_strip s = s"
proof -
  have no: "c \<notin> set s" if "\<not> is_digit c" for c using that assms by (auto simp: all_digits_def)
  have absent: "\<exists>c\<in>set p. c \<notin> set s" if "\<exists>c\<in>set p. \<not> is_digit c" for p using that no by blast
  show "remove_words s = s" unfolding remove_words_def
    by (rule fold_replace_same) (use replacement_patterns(4) absent in fast)
  show "first_replacements s = s" unfolding first_replacements_def
    by (rule fold_replace_same) (use replacement_patterns(2) absent in fast)
  show "second_replacements s = s" unfolding second_replacements_def
    by (rule fold_replace_same) (use replacement_patterns(3) absent in fast)
  show "fold (\<lambda>u. re_sub (unit_match u)) units s = s"
    by (rule fold_units_same) (use replacement_patterns(1) absent in fast)
  show "unbraced s = s" using no [OF nondigits(9)] by (cases s) (auto simp: unbraced_def)
  have "all_digits (without_newline_at_end s)"
    using assms by (auto simp: without_newline_at_end_def all_digits_def dest: in_set_butlastD)
  then show "enclosed_text s = None" by (simp add: enclosed_text_def Let_def starts_with_digits nondigits)
  show "strip_commas s = s" by (rule strip_commas_absent [OF no [OF nondigits(2)]])
  show "py_lower s = s" using assms by (auto simp: py_lower_def all_digits_def digit_properties intro: map_idI)
  have dw: "dropWhile is_digit s = []" using assms by (simp add: all_digits_def dropWhile_eq_Nil_conv)
  have "\<not> starts_with ''-'' s" using starts_with_digits [OF assms nondigits(4)] .
  then have "dropWhile is_digit s \<noteq> []" if "is_frac s"
    using that by (auto simp: is_frac_def Let_def simp del: dropWhile_eq_Nil_conv split: if_splits)
  then show "\<not> is_frac s" using dw by blast
  show "py_strip s = s" using assms by (intro py_strip_plain) (auto simp: all_digits_def digit_properties)
qed

lemma integer_float:
  assumes "0 \<le> n" and "n < 2 ^ 53"
  obtains x where "py_float_of (show_digits n) = Some x" "is_int_float x" "rounded x = n" "truncated x = n"
proof -
  obtain e where e: "py_float_of (show_digits n) = Some (Finite False (n * 2 ^ nat (- e)) e)" "e \<le> 0" "- 53 \<le> e"
    using py_float_of_integer [OF assms] by blast
  have pos: "0 \<le> fst (nearest_double 1 (10 ^ 7))" by code_simp
  have rd: "round_double (n * 2 ^ nat (- e)) e = n" using e(2) by (auto simp: round_double_def)
  have td: "trunc_double (n * 2 ^ nat (- e)) e = n" using e(2) by (auto simp: trunc_double_def)
  have "is_int_float (Finite False (n * 2 ^ nat (- e)) e)"
    using pos by (cases "nearest_double 1 (10 ^ 7)") (simp add: is_int_float_def Let_def rd)
  then show ?thesis using that e(1) rd td by (simp add: rounded_def truncated_def signed_def)
qed

lemma integer_normalize:
  assumes "0 \<le> n" and "n < 2 ^ 53"
  shows "normalize_expr latex_to_text (show_digits n) = show_digits n" "str_is_int (show_digits n)"
proof -
  have ds: "all_digits (show_digits n)" using show_digits_facts assms(1) by blast
  note parts = parts_of_digits [OF ds] matches_digits [OF ds]
  obtain x where x: "py_float_of (show_digits n) = Some x" "is_int_float x" "rounded x = n" "truncated x = n"
    using integer_float [OF assms] by blast
  have "py_replace [c] r (show_digits n) = show_digits n" if "\<not> is_digit c" for c r
    using py_replace_absent [of c "[c]"] all_digits_absent [OF ds that] by simp
  note gone = this [OF nondigits(1)] this [OF nondigits(2)] this [OF nondigits(9)] this [OF nondigits(10)]
  have "CHR 0x5C \<notin> set (show_digits n)" using all_digits_absent [OF ds nondigits(7)] .
  moreover have "show_int n = show_digits n" using assms(1) by (simp add: show_int_def)
  ultimately show "normalize_expr latex_to_text (show_digits n) = show_digits n" "str_is_int (show_digits n)"
    using x by (simp_all add: normalize_expr_def str_is_int_def str_to_int_def canonical_float_def Let_def parts gone)
qed

lemma strip_string_digits:
  assumes "all_digits s" and "s \<noteq> []"
  shows "strip_string s = Inr s"
proof -
  have no: "c \<notin> set s" if "\<not> is_digit c" for c using that assms by (auto simp: all_digits_def)
  note abs = no [OF nondigits(7)] no [OF nondigits(6)] no [OF nondigits(1)] no [OF nondigits(5)] no [OF nondigits(3)]
  have "hd s \<noteq> CHR ''.''" "s \<noteq> ''0.5''" using abs(5) assms(2) by (cases s; auto)+
  moreover have "remove_right_units s = Inr s" "fix_sqrt s = Inr s" "fix_fracs s = Inr s"
    using abs(1) contains_absent [of "CHR 0x5C" _ s] py_split_absent [of "CHR 0x5C" _ s]
    by (simp_all add: remove_right_units_def fix_sqrt_def fix_fracs_def)
  moreover have "drop_short_lhs s = s" "fix_a_slash_b s = s" "py_replace '' '' [] s = s"
    using abs py_split_absent [of _ _ s] py_replace_absent [of _ _ s] by (simp_all add: drop_short_lhs_def fix_a_slash_b_def)
  ultimately show ?thesis using assms(2) by (simp add: strip_string_def Let_def parts_of_digits [OF assms(1)])
qed

lemma mathd_digits: "all_digits s \<Longrightarrow> s \<noteq> [] \<Longrightarrow> mathd_normalize_answer (Some s) = Some s"
  by (simp add: mathd_normalize_answer_def Let_def parts_of_digits strip_string_digits)

lemma are_equal_digits:
  assumes "all_digits s" and "all_digits t"
  shows "are_equal_under_sympy zero s t \<longleftrightarrow> zero (''('' @ s @ '')-('' @ t @ '')'')"
proof -
  let ?e = "''('' @ s @ '')-('' @ t @ '')''"
  have no: "c \<notin> set ?e" if "\<not> is_digit c" "c \<notin> set ''()-''" for c
    using that assms by (auto simp: all_digits_def)
  have hat: "CHR ''^'' \<notin> set ?e" by (rule no) (auto simp: nondigits)
  have letters: "\<forall>c\<in>set ''()-''. \<not> is_alpha c" "is_alpha (CHR ''s'')" "is_alpha (CHR ''f'')" by code_simp+
  have plain: "\<not> is_alpha c" if "c \<in> set ?e" for c
    using that assms letters(1) digit_properties(4) by (auto simp: all_digits_def)
  have "CHR ''s'' \<notin> set ?e" "CHR ''f'' \<notin> set ?e" using plain letters by blast+
  then have "py_replace ''frac'' [] (py_replace ''sqrt'' [] ?e) = ?e"
    using py_replace_absent [of "CHR ''s''" "''sqrt''" ?e] py_replace_absent [of "CHR ''f''" "''frac''" ?e] by simp
  moreover have "filter is_alpha ?e = []" using plain by (simp only: filter_empty_conv) blast
  ultimately have "count_unknown_letters_in_expr ?e = 0" by (simp add: count_unknown_letters_in_expr_def)
  moreover have "\<not> contains ''^{'' ?e" "\<not> contains ''^('' ?e" using hat by (auto dest!: contains_set)
  moreover have "\<not> search bad_power ?e"
    by (rule search_absent [OF _ hat]) (auto simp: bad_power_def dest!: starts_with_subset)
  moreover have "py_replace ''^'' ''**'' ?e = ?e" using hat by (intro py_replace_absent) auto
  ultimately show ?thesis by (simp add: are_equal_under_sympy_def should_allow_eval_def Let_def)
qed

lemma split_tuple_digits: "all_digits s \<Longrightarrow> s \<noteq> [] \<Longrightarrow> split_tuple s = [s]"
proof -
  assume s: "all_digits s" "s \<noteq> []"
  then have "is_digit (hd s)" by (simp add: all_digits_def)
  then have "hd s \<notin> set ''()[]''" using nondigits by auto
  then show ?thesis using s by (simp add: split_tuple_def parts_of_digits(7) Let_def)
qed

text \<open>The printed integers: what sympy is asked about two of them.\<close>

definition difference_text :: "int \<Rightarrow> int \<Rightarrow> string" where
  "difference_text m n = ''('' @ show_digits m @ '')-('' @ show_digits n @ '')''"

lemma grade_integers:
  assumes "0 \<le> m" "m < 2 ^ 53" "0 \<le> n" "n < 2 ^ 53"
  shows "rule_base_reward latex_to_text zero (Some (show_digits m)) (Text (show_digits n)) =
    Inr (if m = n \<or> zero (difference_text n m) then 1 else 0)"
proof -
  have ds: "all_digits (show_digits m)" "show_digits m \<noteq> []" "all_digits (show_digits n)" "show_digits n \<noteq> []"
    using show_digits_facts assms by auto
  have plain: "\<not> contains (tex ''boxed'') (show_digits n)"
    using all_digits_absent [OF ds(3) nondigits(7)] contains_absent [of "CHR 0x5C"] by simp
  note norms = integer_normalize [OF assms(1,2)] integer_normalize [OF assms(3,4)]
  have "grade_element zero (show_digits n) (show_digits m) = zero (difference_text n m)"
    using ds are_equal_digits [OF ds(3,1)]
    by (simp add: grade_element_def parts_of_digits(9) norms difference_text_def)
  then have "grade_answer_sympy latex_to_text zero (Some (show_digits m)) (Some (show_digits n)) =
    Inr (m = n \<or> zero (difference_text n m))"
    using show_digits_inject [of n m] assms ds
    by (auto simp: grade_answer_sympy_def norms split_tuple_digits grade_elements_def Let_def)
  moreover have "grade_answer_mathd (Some (show_digits m)) (Some (show_digits n)) \<longleftrightarrow> m = n"
    using show_digits_inject [of n m] assms ds by (auto simp: grade_answer_mathd_def mathd_digits)
  ultimately show ?thesis using ds plain by (simp add: rule_base_reward_def Let_def)
qed

lemma large_integers_collide:
  "normalize_expr latex_to_text ''9007199254740993'' = ''9007199254740992''"
  "normalize_expr latex_to_text ''9007199254740992'' = ''9007199254740992''"
  by code_simp+

text \<open>
  C22: Whole numbers are graded exactly below two to the power 53, where sympy tells integers apart: an answer gets the
  reward when it is the number of the ground truth, and only then. Beyond this bound numerals are
  read as floats, and an answer that is off by one is accepted.
\<close>

theorem integer_answers_graded_exactly:
  assumes "\<forall>m n. 0 \<le> m \<longrightarrow> 0 \<le> n \<longrightarrow> simplifies_to_zero (difference_text m n) = (m = n)"
  shows "(\<forall>m n. 0 \<le> m \<and> m < 2 ^ 53 \<and> 0 \<le> n \<and> n < 2 ^ 53 \<longrightarrow>
      rule_base_reward latex_to_text simplifies_to_zero (Some (show_digits m)) (Text (show_digits n)) = Inr (if m = n then 1 else 0)) \<and>
    rule_base_reward latex_to_text simplifies_to_zero (Some ''9007199254740993'') (Text ''9007199254740992'') = Inr 1"
proof -
  have "grade_answer_sympy latex_to_text simplifies_to_zero (Some ''9007199254740993'') (Some ''9007199254740992'') = Inr True"
    by (simp add: grade_answer_sympy_def large_integers_collide)
  moreover have "\<not> contains (tex ''boxed'') ''9007199254740992''" by code_simp
  ultimately have "rule_base_reward latex_to_text simplifies_to_zero (Some ''9007199254740993'') (Text ''9007199254740992'') = Inr 1"
    by (simp add: rule_base_reward_def Let_def)
  then show ?thesis using assms by (auto simp: grade_integers)
qed

text \<open>A checker that compares the two numerals.\<close>

definition numerals_agree :: "string \<Rightarrow> bool" where
  "numerals_agree e \<longleftrightarrow> dropWhile is_digit (tl e) = '')-('' @ takeWhile is_digit (tl e) @ '')''"

lemma numerals_agree_difference: "0 \<le> m \<Longrightarrow> 0 \<le> n \<Longrightarrow> numerals_agree (difference_text m n) = (m = n)"
proof -
  assume mn: "0 \<le> m" "0 \<le> n"
  have ds: "\<forall>c\<in>set (show_digits m). is_digit c" using show_digits_facts mn by (auto simp: all_digits_def)
  then show ?thesis using show_digits_inject [OF mn(2,1)]
    by (auto simp: numerals_agree_def difference_text_def dropWhile_append takeWhile_append nondigits)
qed

lemma integer_answers_graded_exactly_witness:
  "rule_base_reward Some numerals_agree (Some (show_digits 42)) (Text (show_digits 41)) = Inr 0 \<and>
   rule_base_reward Some numerals_agree (Some (show_digits 42)) (Text (show_digits 42)) = Inr 1"
  using integer_answers_graded_exactly [of numerals_agree Some] numerals_agree_difference by auto

subsection \<open>Thousands separators\<close>

fun comma_join :: "string list \<Rightarrow> string" where
  "comma_join [] = []"
| "comma_join [g] = g"
| "comma_join (g # gs) = g @ '','' @ comma_join gs"

definition digit_groups :: "string list \<Rightarrow> bool" where
  "digit_groups gs \<longleftrightarrow> gs \<noteq> [] \<and> hd gs \<noteq> [] \<and> (\<forall>g\<in>set gs. all_digits g) \<and> (\<forall>g\<in>set (tl gs). length g = 3)"

lemma grouped_comma_second: "hd (tl s) \<noteq> CHR '','' \<Longrightarrow> grouped_comma s = None"
  by (auto simp: grouped_comma_def split: list.splits)

lemma grouped_comma_first: "\<not> is_digit c \<Longrightarrow> grouped_comma (c # s) = None"
  by (auto simp: grouped_comma_def split: list.splits)

text \<open>A pass copies digits up to the last one before something else.\<close>

lemma sub_digits:
  "all_digits a \<Longrightarrow> is_digit x \<Longrightarrow> sub_from grouped_comma 0 (a @ x # s) = a @ sub_from grouped_comma 0 (x # s)"
proof (induction a)
  case (Cons c a)
  then have "is_digit (hd (a @ [x]))" by (cases a) (auto simp: all_digits_def)
  then have "hd (a @ x # s) \<noteq> CHR '',''" using nondigits(2) by (cases a) auto
  then show ?case using Cons grouped_comma_second [of "c # a @ x # s"] by (auto simp: all_digits_def)
qed simp

lemma triple: "length g = 3 \<Longrightarrow> \<exists>x y z. g = [x, y, z]"
  by (auto simp: numeral_3_eq_3 length_Suc_conv)

lemma sub_group_last:
  assumes "all_digits a" "a \<noteq> []" "all_digits g" "length g = 3"
  shows "sub_from grouped_comma 0 (a @ '','' @ g) = a @ g"
proof -
  obtain b x where a: "a = b @ [x]" using assms(2) by (metis rev_exhaust)
  obtain p q r where g: "g = [p, q, r]" using triple [OF assms(4)] by blast
  show ?thesis using assms sub_digits [of b x "'','' @ g"] by (simp add: a g all_digits_def grouped_comma_def)
qed

lemma sub_group_more:
  assumes "all_digits a" "a \<noteq> []" "all_digits g" "length g = 3"
  shows "sub_from grouped_comma 0 (a @ '','' @ g @ CHR '','' # s) = a @ g @ CHR '','' # sub_from grouped_comma 0 s"
proof -
  obtain b x where a: "a = b @ [x]" using assms(2) by (metis rev_exhaust)
  obtain p q r where g: "g = [p, q, r]" using triple [OF assms(4)] by blast
  show ?thesis using assms sub_digits [of b x "'','' @ g @ CHR '','' # s"] nondigits(2)
    by (simp add: a g all_digits_def grouped_comma_def)
qed

lemma sub_keeps_digits:
  assumes "all_digits d" "d \<noteq> []"
  shows "\<exists>t. sub_from grouped_comma 0 (d @ s) = d @ t"
proof -
  obtain b x where d: "d = b @ [x]" using assms(2) by (metis rev_exhaust)
  have "\<exists>t. sub_from grouped_comma 0 (x # s) = x # t"
    by (auto simp: grouped_comma_def split: list.splits option.splits)
  then show ?thesis using assms sub_digits [of b x s] by (auto simp: d all_digits_def)
qed

text \<open>A comma before a run of more than three digits stays.\<close>

definition stuck :: "string \<Rightarrow> bool" where
  "stuck s \<longleftrightarrow> (\<exists>a d t. s = a @ CHR '','' # d @ t \<and> all_digits a \<and> a \<noteq> [] \<and> all_digits d \<and> length d = 6)"

lemma stuck_comma: "stuck s \<Longrightarrow> CHR '','' \<in> set s"
  by (auto simp: stuck_def)

lemma stuck_pass:
  assumes "stuck s"
  shows "stuck (re_sub grouped_comma s)"
proof -
  obtain a d t where s: "s = a @ CHR '','' # d @ t" "all_digits a" "a \<noteq> []" "all_digits d" "length d = 6"
    using assms by (auto simp: stuck_def)
  obtain b x where a: "a = b @ [x]" using s(3) by (metis rev_exhaust)
  obtain p q r u v w where d: "d = [p, q, r, u, v, w]" using s(5) by (auto simp: numeral_eq_Suc length_Suc_conv)
  obtain t' where t': "sub_from grouped_comma 0 (d @ t) = d @ t'" using sub_keeps_digits [of d t] s by auto
  have "grouped_comma (x # CHR '','' # d @ t) = None" using s by (simp add: d all_digits_def grouped_comma_def)
  then have "sub_from grouped_comma 0 s = a @ CHR '','' # d @ t'"
    using s t' sub_digits [of b x "CHR '','' # d @ t"] by (simp add: a all_digits_def grouped_comma_first nondigits)
  then show ?thesis using s by (auto simp: re_sub_def stuck_def)
qed

lemma stuck_strip: "stuck s \<Longrightarrow> CHR '','' \<in> set (strip_commas s)"
proof (induction s rule: strip_commas.induct)
  case (1 s)
  then show ?case using stuck_pass [of s] stuck_comma [of s]
    by (subst strip_commas.simps) (auto simp: Let_def)
qed

lemma strip_groups:
  assumes "digit_groups (g # gs)"
  shows "strip_commas (comma_join (g # gs)) = concat (g # gs) \<longleftrightarrow> length gs \<le> 2"
proof -
  have g: "all_digits g" "g \<noteq> []" and gs: "\<forall>h\<in>set gs. all_digits h \<and> length h = 3"
    using assms by (auto simp: digit_groups_def)
  have nocomma: "CHR '','' \<notin> set h" if "h = g \<or> h \<in> set gs" for h using g gs that all_digits_absent nondigits(2) by blast
  note pass = strip_commas_pass [of "comma_join (g # gs)"]
  consider "gs = []" | h where "gs = [h]" | h i where "gs = [h, i]" | h i j more where "gs = h # i # j # more"
    by (metis list.exhaust)
  then show ?thesis
  proof cases
    case 1
    then show ?thesis using nocomma [of g] by (simp add: strip_commas_absent)
  next
    case (2 h)
    then show ?thesis using pass sub_group_last [of g h] g gs nocomma by (simp add: strip_commas_absent)
  next
    case (3 h i)
    have "strip_commas (comma_join (g # gs)) = strip_commas ((g @ h) @ '','' @ i)"
      using pass sub_group_more [of g h i] g gs nocomma by (simp add: 3 grouped_comma_absent)
    also have "\<dots> = strip_commas (g @ h @ i)"
      using strip_commas_pass [of "(g @ h) @ '','' @ i"] sub_group_last [of "g @ h" i] g gs by (simp add: 3 all_digits_def ball_Un)
    finally show ?thesis using nocomma by (simp add: 3 strip_commas_absent)
  next
    case (4 h i j more)
    then have "i \<noteq> []" using gs by auto
    then have "\<exists>t. sub_from grouped_comma 0 (comma_join (i # j # more)) = (i @ j) @ t"
      using sub_group_last [of i j] sub_group_more [of i j] gs by (cases more) (auto simp: 4)
    then obtain t where "sub_from grouped_comma 0 (comma_join (g # gs)) = (g @ h) @ CHR '','' # (i @ j) @ t"
      using sub_group_more [of g h] g gs by (auto simp: 4)
    moreover have "stuck \<dots>"
      unfolding stuck_def
      by (intro exI conjI, rule refl) (use g gs in \<open>auto simp: 4 all_digits_def\<close>)
    ultimately have "CHR '','' \<in> set (strip_commas (comma_join (g # gs)))" using pass stuck_strip by metis
    moreover have "CHR '','' \<notin> set (concat (g # gs))" using nocomma by auto
    ultimately show ?thesis by (auto simp: 4)
  qed
qed

text \<open>
  C23: Separators of thousands are removed from numerals of up to nine digits, but with three or more
  separators some always stay: a correct answer of 1,234,567,890 gets no reward, whatever sympy says.
\<close>

theorem separators_up_to_nine_digits:
  assumes "digit_groups (g # gs)"
  shows "(strip_commas (comma_join (g # gs)) = concat (g # gs) \<longleftrightarrow> length gs \<le> 2) \<and>
    rule_base_reward latex_to_text simplifies_to_zero (Some ''1,234,567'') (Text ''1234567'') = Inr 1 \<and>
    rule_base_reward latex_to_text simplifies_to_zero (Some ''1,234,567,890'') (Text ''1234567890'') = Inr 0"
proof (intro conjI)
  show "strip_commas (comma_join (g # gs)) = concat (g # gs) \<longleftrightarrow> length gs \<le> 2"
    using assms by (rule strip_groups)
  show "rule_base_reward latex_to_text simplifies_to_zero (Some ''1,234,567'') (Text ''1234567'') = Inr 1"
    by code_simp
  show "rule_base_reward latex_to_text simplifies_to_zero (Some ''1,234,567,890'') (Text ''1234567890'') = Inr 0"
    by code_simp
qed

lemma separators_up_to_nine_digits_witness:
  "strip_commas ''12,345,678'' = ''12345678'' \<and> strip_commas ''1,234,567,890'' \<noteq> ''1234567890''"
proof -
  have "digit_groups [''12'', ''345'', ''678'']" "digit_groups [''1'', ''234'', ''567'', ''890'']" by code_simp+
  from this [THEN separators_up_to_nine_digits] show ?thesis by simp
qed

subsection \<open>Balanced texts\<close>

fun depth_ok :: "int \<Rightarrow> string \<Rightarrow> bool" where
  "depth_ok k [] \<longleftrightarrow> k = 0"
| "depth_ok k (c # cs) \<longleftrightarrow>
     (if c = CHR ''{'' then depth_ok (k + 1) cs else if c = CHR ''}'' then 1 \<le> k \<and> depth_ok (k - 1) cs else depth_ok k cs)"

lemma close_at_balanced:
  "depth_ok k s \<Longrightarrow> 1 \<le> d \<Longrightarrow> 0 \<le> k \<Longrightarrow> close_at (d + k) (s @ t) = map_option (\<lambda>j. length s + j) (close_at d t)"
proof (induction k s rule: depth_ok.induct)
  case (1 k)
  then show ?case by (cases "close_at d t") auto
next
  case (2 k c cs)
  then show ?case by (auto simp: option.map_comp comp_def algebra_simps)
qed

lemma close_at_group: "depth_ok 0 s \<Longrightarrow> close_at 0 (CHR ''{'' # s @ CHR ''}'' # t) = Some (length s + 1)"
  using close_at_balanced [of 0 s 1 "CHR ''}'' # t"] by simp

lemma brace_group_balanced: "depth_ok 0 s \<Longrightarrow> brace_group (CHR ''{'' # s @ CHR ''}'' # t) = Some (s, t)"
  by (simp add: brace_group_def Let_def close_at_group del: close_at.simps)

lemma depth_ok_append: "depth_ok k s \<Longrightarrow> depth_ok l t \<Longrightarrow> 0 \<le> l \<Longrightarrow> depth_ok (k + l) (s @ t)"
  by (induction k s rule: depth_ok.induct) (auto split: if_splits simp: algebra_simps)

lemma depth_ok_group: "depth_ok 0 s \<Longrightarrow> depth_ok 0 t \<Longrightarrow> depth_ok 0 (CHR ''{'' # s @ CHR ''}'' # t)"
  using depth_ok_append [of 0 s 1 "CHR ''}'' # t"] by simp

lemma depth_ok_plain: "CHR ''{'' \<notin> set s \<Longrightarrow> CHR ''}'' \<notin> set s \<Longrightarrow> depth_ok 0 s"
  by (induction s) auto

subsection \<open>The boxed answer is found\<close>

lemma find_last_None: "p \<noteq> [] \<Longrightarrow> find_last p s = None \<longleftrightarrow> \<not> contains p s"
  by (induction p s rule: find_last.induct) (auto split: option.splits)

lemma find_last_append: "find_last p t = Some i \<Longrightarrow> find_last p (s @ t) = Some (length s + i)"
  by (induction s) auto

lemma find_last_Some: "find_last p s = Some i \<Longrightarrow> starts_with p (drop i s)"
  by (induction p s arbitrary: i rule: find_last.induct) (auto split: option.splits if_splits)

lemma contains_here: "starts_with p s \<Longrightarrow> contains p s"
  by (cases s) auto

lemma contains_append: "contains p (s @ p @ t)"
  by (induction s) (auto intro: contains_here)

text \<open>
  C21: The last boxed answer is found, whatever stands before it and however braces nest inside it, as long as
  they are balanced. A response without the boxed command has no answer, even when it uses the framed
  box for which the extraction makes a provision.
\<close>

theorem boxed_answer_extracted:
  assumes "depth_ok 0 body" and "\<not> contains (tex ''boxed'') (body @ CHR ''}'' # suffix)" and "\<not> contains (tex ''boxed'') s"
  shows "extract_answer (prefix @ tex ''boxed{'' @ body @ CHR ''}'' # suffix) = Some body \<and> extract_boxed_answer s = None"
proof -
  let ?box = "tex ''boxed{'' @ body @ CHR ''}'' # suffix"
  have "find_last (tex ''boxed'') (body @ CHR ''}'' # suffix) = None" using assms(2) by (simp add: find_last_None)
  then have "find_last (tex ''boxed'') ?box = Some 0" by simp
  then have "find_last (tex ''boxed'') (prefix @ ?box) = Some (length prefix)" using find_last_append by fastforce
  moreover have "close_at 0 ?box = Some (length body + 7)"
    using close_at_group [OF assms(1), of suffix] by (simp del: close_at.simps(1)) 
  moreover have "contains (tex ''boxed'') (prefix @ ?box)" using contains_append [of "tex ''boxed''" prefix] by simp
  ultimately have "extract_answer (prefix @ ?box) = Some body"
    by (simp add: extract_answer_def extract_boxed_answer_def last_boxed_only_string_def remove_boxed_def)
  moreover have "extract_boxed_answer s = None"
  proof -
    have "\<not> starts_with (tex ''boxed{'') (take (j + 1) (drop i s))" if "find_last (tex ''fbox'') s = Some i" for i j
      using find_last_Some [OF that] by (cases "drop i s"; cases "tl (drop i s)"; cases j) auto
    then show ?thesis using assms(3) find_last_None [of "tex ''boxed''" s]
      by (auto simp: extract_boxed_answer_def last_boxed_only_string_def remove_boxed_def split: option.splits)
  qed
  ultimately show ?thesis by blast
qed

lemma boxed_answer_extracted_witness:
  "extract_answer (''first '' @ tex ''boxed{1}, then '' @ tex ''boxed{'' @ (tex ''frac{1}{2}'') @ CHR ''}'' # ''.'') = Some (tex ''frac{1}{2}'') \<and>
   extract_boxed_answer (tex ''fbox{5}'') = None"
proof -
  have "depth_ok 0 (tex ''frac{1}{2}'')" "\<not> contains (tex ''boxed'') (tex ''frac{1}{2}'' @ CHR ''}'' # ''.'')"
    "\<not> contains (tex ''boxed'') (tex ''fbox{5}'')" by code_simp+
  from boxed_answer_extracted [OF this, of "''first '' @ tex ''boxed{1}, then ''"] show ?thesis by simp
qed

subsection \<open>Fractions are converted\<close>

text \<open>Formulas with nested fractions, as they are typeset and as the conversion should write them.\<close>

datatype formula =
    Plain string
  | Fraction "formula list" "formula list"

fun typeset :: "formula \<Rightarrow> string" where
  "typeset (Plain s) = s"
| "typeset (Fraction n d) = tex ''frac{'' @ concat (map typeset n) @ ''}{'' @ concat (map typeset d) @ ''}''"

fun quotient_form :: "formula \<Rightarrow> string" where
  "quotient_form (Plain s) = s"
| "quotient_form (Fraction n d) = ''('' @ concat (map quotient_form n) @ '')/('' @ concat (map quotient_form d) @ '')''"

fun plain_ok :: "formula \<Rightarrow> bool" where
  "plain_ok (Plain s) \<longleftrightarrow> (\<forall>c\<in>set s. c \<noteq> CHR 0x5C \<and> c \<noteq> CHR ''{'' \<and> c \<noteq> CHR ''}'')"
| "plain_ok (Fraction n d) \<longleftrightarrow> list_all plain_ok n \<and> list_all plain_ok d"

fun fractions :: "formula \<Rightarrow> nat" where
  "fractions (Plain s) = 0"
| "fractions (Fraction n d) = sum_list (map fractions n) + sum_list (map fractions d) + 1"

lemma depth_ok_concat: "(\<And>x. x \<in> set xs \<Longrightarrow> depth_ok 0 (f x)) \<Longrightarrow> depth_ok 0 (concat (map f xs))"
proof (induction xs)
  case (Cons x xs)
  then show ?case using depth_ok_append [of 0 "f x" 0] by simp
qed simp

lemma depth_ok_typeset: "plain_ok x \<Longrightarrow> depth_ok 0 (typeset x)"
proof (induction x rule: typeset.induct)
  case (1 s)
  then show ?case by (auto intro: depth_ok_plain)
next
  case (2 n d)
  then have "depth_ok 0 (concat (map typeset n))" "depth_ok 0 (concat (map typeset d))"
    by (auto intro!: depth_ok_concat simp: list_all_iff)
  then show ?case using depth_ok_group [of "concat (map typeset n)" "CHR ''{'' # concat (map typeset d) @ ''}''"]
      depth_ok_group [of "concat (map typeset d)" "[]"] by simp
qed

lemma find_first_skip: "c \<notin> set s \<Longrightarrow> find_first (c # p) (s @ c # p @ t) = Some (length s)"
  by (induction s) auto

lemma find_first_none: "c \<notin> set s \<Longrightarrow> find_first (c # p) s = None"
  by (induction s) auto

lemma frac_step_typeset:
  assumes "CHR 0x5C \<notin> set s" and "list_all plain_ok n" and "list_all plain_ok d"
  shows "frac_step (s @ typeset (Fraction n d) @ t) =
    Some (s @ ''('' @ concat (map typeset n) @ '')/('' @ concat (map typeset d) @ '')'' @ t)"
proof -
  let ?n = "concat (map typeset n)" and ?d = "concat (map typeset d)"
  have ok: "depth_ok 0 ?n" "depth_ok 0 ?d"
    using assms by (auto intro!: depth_ok_concat depth_ok_typeset simp: list_all_iff)
  have "find_first (tex ''frac'') (s @ typeset (Fraction n d) @ t) = Some (length s)"
    using find_first_skip [OF assms(1), of "''frac''"] by simp
  then show ?thesis
    using brace_group_balanced [OF ok(1), of "CHR ''{'' # ?d @ CHR ''}'' # t"] brace_group_balanced [OF ok(2), of t]
    by (simp add: frac_step_def)
qed

lemma convert_frac_typeset:
  assumes "CHR 0x5C \<notin> set s" and "list_all plain_ok xs" and "sum_list (map fractions xs) \<le> m"
  shows "convert_frac (s @ concat (map typeset xs)) = s @ concat (map quotient_form xs)"
  using assms
proof (induction m arbitrary: s xs)
  case 0
  then show ?case
  proof (induction xs arbitrary: s)
    case Nil
    then show ?case by (subst convert_frac.simps) (simp add: frac_step_def find_first_none)
  next
    case (Cons x xs)
    then show ?case using Cons.IH [of "s @ typeset x"] by (cases x) auto
  qed
next
  case outer: (Suc m)
  from outer.prems show ?case
  proof (induction xs arbitrary: s)
    case Nil
    then show ?case by (subst convert_frac.simps) (simp add: frac_step_def find_first_none)
  next
    case (Cons x xs)
    show ?case
    proof (cases x)
      case (Plain p)
      then show ?thesis using Cons.IH [of "s @ p"] Cons.prems by auto
    next
      case (Fraction n d)
      let ?ys = "n @ Plain '')/('' # d @ Plain '')'' # xs"
      have "convert_frac (s @ concat (map typeset (x # xs))) = convert_frac ((s @ ''('') @ concat (map typeset ?ys))"
        using frac_step_typeset [of s n d "concat (map typeset xs)"] Cons.prems Fraction
        by (subst convert_frac.simps) simp
      also have "\<dots> = (s @ ''('') @ concat (map quotient_form ?ys)"
        by (rule outer.IH) (use Cons.prems Fraction in auto)
      finally show ?thesis by (simp add: Fraction)
    qed
  qed
qed

text \<open>
  Nested fractions of the typesetting language are turned into quotients, each numerator and denominator in
  parentheses, so that no fraction command is left for the next parser, and the conversion ends.
\<close>

theorem fractions_become_quotients:
  assumes "list_all plain_ok xs"
  shows "convert_frac (concat (map typeset xs)) = concat (map quotient_form xs)"
  using convert_frac_typeset [of "[]" xs "sum_list (map fractions xs)"] assms by simp

lemma fractions_become_quotients_witness:
  "convert_frac (typeset (Fraction [Plain ''1''] [Plain ''x+'', Fraction [Plain ''2''] [Plain ''3'']])) = ''(1)/(x+(2)/(3))''"
proof -
  have "list_all plain_ok [Fraction [Plain ''1''] [Plain ''x+'', Fraction [Plain ''2''] [Plain ''3'']]]" by code_simp
  from fractions_become_quotients [OF this] show ?thesis by simp
qed

subsection \<open>The verdict\<close>

text \<open>The text a ground truth is compared through, and the answers it accepts.\<close>

definition label_text :: "label \<Rightarrow> string option" where
  "label_text l =
     (case l of
        Text t \<Rightarrow> if t = [] then None else if contains (tex ''boxed'') t then extract_answer t else Some t
      | Number t \<Rightarrow> if contains (tex ''boxed'') t then extract_answer t else Some t
      | Other \<Rightarrow> None)"

definition accepted :: "(string \<Rightarrow> string option) \<Rightarrow> (string \<Rightarrow> bool) \<Rightarrow> string \<Rightarrow> label \<Rightarrow> bool" where
  "accepted latex_to_text simplifies_to_zero answer l \<longleftrightarrow>
     (\<exists>t. label_text l = Some t \<and> (grade_answer_mathd (Some answer) (Some t) \<or>
        grade_answer_sympy latex_to_text simplifies_to_zero (Some answer) (Some t) = Inr True))"

definition labels :: "ground_truth \<Rightarrow> label list" where
  "labels g = (case g of Single l \<Rightarrow> [l] | Several ls \<Rightarrow> ls)"

lemma strip_commas_nonempty: "s \<noteq> [] \<Longrightarrow> strip_commas s \<noteq> []"
proof (induction s rule: strip_commas.induct)
  case (1 s)
  then have "re_sub grouped_comma s \<noteq> []"
    by (cases s) (auto simp: re_sub_def grouped_comma_def split: option.splits list.splits)
  then show ?case using 1 by (subst strip_commas.simps) (auto simp: Let_def)
qed

lemma split_on_nonempty: "split_on c s \<noteq> []"
  by (induction s) (auto split: list.splits)

lemma split_tuple_nonempty: "s \<noteq> [] \<Longrightarrow> split_tuple s \<noteq> []"
  by (simp add: split_tuple_def Let_def strip_commas_nonempty split_on_nonempty)

lemma grade_answer_sympy_total: "\<exists>b. grade_answer_sympy latex_to_text zero (Some a) (Some t) = Inr b"
  using split_tuple_nonempty [of "normalize_expr latex_to_text a"]
  by (auto simp: grade_answer_sympy_def Let_def grade_elements_def zip_eq_Nil_iff guard_res_def)

lemma rule_base_reward_label:
  "rule_base_reward latex_to_text zero (Some a) l =
    (case label_text l of
       None \<Rightarrow> Inr 0
     | Some t \<Rightarrow> if grade_answer_mathd (Some a) (Some t) then Inr 1
         else bind_res (grade_answer_sympy latex_to_text zero (Some a) (Some t)) (\<lambda>ok. Inr (if ok then 1 else 0)))"
  by (cases l) (auto simp: rule_base_reward_def label_text_def Let_def split: option.splits)

lemma rule_base_reward_spec:
  "rule_base_reward latex_to_text zero (Some a) l = Inr (if accepted latex_to_text zero a l then 1 else 0)"
proof (cases "label_text l")
  case (Some t)
  obtain b where "grade_answer_sympy latex_to_text zero (Some a) (Some t) = Inr b"
    using grade_answer_sympy_total by metis
  then show ?thesis by (simp add: rule_base_reward_label accepted_def Some)
qed (simp add: rule_base_reward_label accepted_def)

lemma first_reward_spec:
  "(\<And>l. reward l = Inr (if ok l then 1 else 0)) \<Longrightarrow> first_reward reward ls 0 = Inr (if list_ex ok ls then 1 else 0)"
  by (induction ls) auto

text \<open>
  Grading never raises, and the score is one exactly when the response has the required format (at most one
  opening tag, at its start, and one closing tag) and the boxed answer after the closing tag is accepted for one of the
  ground truths; otherwise the score is zero.
\<close>

theorem verdict_of_response:
  "\<exists>v. verify_think_rm latex_to_text simplifies_to_zero solution truth = Inr v \<and> (v_score v = 0 \<or> v_score v = 1) \<and>
     (v_score v = 1 \<longleftrightarrow>
        (py_count ''<think>'' solution = 0 \<or> py_count ''<think>'' solution = 1 \<and> starts_with ''<think>'' (py_strip solution)) \<and>
        py_count ''</think>'' solution = 1 \<and>
        (\<exists>a l. extract_answer (last (py_split ''</think>'' solution)) = Some a \<and> l \<in> set (labels truth) \<and>
           accepted latex_to_text simplifies_to_zero a l))"
proof -
  let ?pred = "extract_answer (last (py_split ''</think>'' solution))"
  have "(case truth of Several ts \<Rightarrow> first_reward (rule_base_reward latex_to_text simplifies_to_zero ?pred) ts 0
      | Single t \<Rightarrow> rule_base_reward latex_to_text simplifies_to_zero ?pred t) =
    Inr (if \<exists>a l. ?pred = Some a \<and> l \<in> set (labels truth) \<and> accepted latex_to_text simplifies_to_zero a l then 1 else 0)"
  proof (cases ?pred)
    case None
    have "rule_base_reward latex_to_text simplifies_to_zero None l = Inr 0" for l by (simp add: rule_base_reward_def)
    then show ?thesis using None first_reward_spec [of _ "\<lambda>l. False"] by (simp add: labels_def list_ex_iff split: ground_truth.splits)
  next
    case (Some a)
    have "first_reward (rule_base_reward latex_to_text simplifies_to_zero (Some a)) ls 0 =
        Inr (if list_ex (accepted latex_to_text simplifies_to_zero a) ls then 1 else 0)" for ls
      by (rule first_reward_spec) (rule rule_base_reward_spec)
    then show ?thesis using Some
      by (auto simp: labels_def rule_base_reward_spec list_ex_iff split: ground_truth.splits)
  qed
  then show ?thesis unfolding verify_think_rm_def Let_def by auto
qed

end
