(* ===== verification/Config.thy ===== *)
theory Config
  imports Prelude PyText
begin

section \<open>Configuration\<close>

text \<open>
  Models \<open>src/verl/base_config.py\<close> (configuration objects whose fields are frozen unless listed as
  mutable), the checks of the actor, critic, optimizer, engine and rollout configurations under
  \<open>src/verl/workers/config\<close>, \<open>validate_config\<close> of \<open>src/verl/utils/config.py\<close>, the roles of
  \<open>src/verl/trainer/ppo/utils.py\<close>, and the assignment of roles to resource pools by the task runners of
  \<open>src/verl/trainer/main_ppo.py\<close> and \<open>src/src/main_dapo.py\<close>. Of the many fields of a configuration those the
  checks read are modelled. Fields of the omegaconf type that are missing hold the text of three question marks.
\<close>

subsection \<open>Configuration objects\<close>

text \<open>The attributes of the instance, what attribute access finds on its class, and the fields of the dataclass.\<close>

record 'v config_object =
  mutable_fields :: "string list"
  attributes :: "(string, 'v) dict"
  class_attributes :: "(string, 'v) dict"
  field_names :: "string list"

definition set_attribute :: "string \<Rightarrow> 'v \<Rightarrow> 'v config_object \<Rightarrow> 'v config_object result" where
  "set_attribute name v cfg =
     guard_res (\<not> (name \<in> set (dict_keys (attributes cfg)) \<and> name \<notin> set (mutable_fields cfg))) AttributeError
       (Inr (cfg\<lparr>attributes := dict_set name v (attributes cfg)\<rparr>))"

definition get_attribute :: "'v config_object \<Rightarrow> string \<Rightarrow> 'v result" where
  "get_attribute cfg name =
     (case dict_get (attributes cfg) name of
        Some v \<Rightarrow> Inr v
      | None \<Rightarrow> (case dict_get (class_attributes cfg) name of Some v \<Rightarrow> Inr v | None \<Rightarrow> Inl AttributeError))"

definition config_get :: "'v config_object \<Rightarrow> string \<Rightarrow> 'v \<Rightarrow> 'v" where
  "config_get cfg key v = (case get_attribute cfg key of Inr w \<Rightarrow> w | Inl _ \<Rightarrow> v)"

definition config_item :: "'v config_object \<Rightarrow> string \<Rightarrow> 'v result" where
  "config_item cfg key = get_attribute cfg key"

definition config_iter :: "'v config_object \<Rightarrow> string list" where
  "config_iter cfg = field_names cfg"

definition config_len :: "'v config_object \<Rightarrow> nat" where
  "config_len cfg = length (field_names cfg)"

text \<open>The operator \<open>in\<close>, inherited from \<open>Mapping\<close>: it looks the item up and turns only a \<open>KeyError\<close> into false.\<close>

definition config_contains :: "string \<Rightarrow> 'v config_object \<Rightarrow> bool result" where
  "config_contains key cfg =
     (case config_item cfg key of Inr _ \<Rightarrow> Inr True | Inl KeyError \<Rightarrow> Inr False | Inl e \<Rightarrow> Inl e)"

definition config_items :: "'v config_object \<Rightarrow> (string \<times> 'v) list result" where
  "config_items cfg = traverse (\<lambda>k. bind_res (config_item cfg k) (\<lambda>v. Inr (k, v))) (config_iter cfg)"

definition update_dict_with_config :: "(string, 'v) dict \<Rightarrow> 'v config_object \<Rightarrow> (string, 'v) dict" where
  "update_dict_with_config d cfg =
     map (\<lambda>(k, v). (k, case get_attribute cfg k of Inr w \<Rightarrow> w | Inl _ \<Rightarrow> v)) d"

subsection \<open>Actor and critic\<close>

definition missing :: string where
  "missing = ''???''"

record batch_sizes =
  use_dynamic_bsz :: bool
  ppo_mini_batch_size :: int
  ppo_micro_batch_size :: "int option"
  ppo_micro_batch_size_per_gpu :: "int option"

record megatron_sizes =
  tensor_model_parallel_size :: int
  pipeline_model_parallel_size :: int
  context_parallel_size :: int

text \<open>
  An actor: its backend class decides the checks; \<open>sequence_parallel\<close> is the Ulysses size, one for
  classes without it; the number of responses may be missing.
\<close>

record actor_settings = batch_sizes +
  strategy :: string
  rollout_repeat :: "int option"
  loss_agg_mode :: string
  fsdp_class :: bool
  sequence_parallel :: int
  use_kl_loss :: bool
  megatron :: megatron_sizes

definition valid_loss_agg_modes :: "string list" where
  "valid_loss_agg_modes = [''token-mean'', ''seq-mean-token-sum'', ''seq-mean-token-mean'', ''seq-mean-token-sum-norm'']"

definition actor_post_init :: "actor_settings \<Rightarrow> unit result" where
  "actor_post_init a =
     guard_res (strategy a \<noteq> missing) AssertionError (
     guard_res (rollout_repeat a \<noteq> None) AssertionError (
     bind_res
       (if use_dynamic_bsz a then Inr ()
        else if ppo_micro_batch_size a \<noteq> None \<and> ppo_micro_batch_size_per_gpu a \<noteq> None then Inl ValueError
        else guard_res (\<not> (ppo_micro_batch_size a = None \<and> ppo_micro_batch_size_per_gpu a = None)) AssertionError (Inr ()))
       (\<lambda>_. guard_res (loss_agg_mode a \<in> set valid_loss_agg_modes) ValueError (Inr ()))))"

text \<open>Remainder of Python, which raises for zero.\<close>

definition py_mod :: "int \<Rightarrow> int \<Rightarrow> int result" where
  "py_mod x y = guard_res (y \<noteq> 0) ZeroDivisionError (Inr (x mod y))"

definition py_floordiv :: "int \<Rightarrow> int \<Rightarrow> int result" where
  "py_floordiv x y = guard_res (y \<noteq> 0) ZeroDivisionError (Inr (x div y))"

definition divisible_or :: "py_error \<Rightarrow> int \<Rightarrow> int \<Rightarrow> unit result" where
  "divisible_or e x y = bind_res (py_mod x y) (\<lambda>r. guard_res (r = 0) e (Inr ()))"

text \<open>\<open>model_config\<close> is none when it is empty, and else its setting \<open>use_remove_padding\<close>.\<close>

definition actor_validate :: "actor_settings \<Rightarrow> int \<Rightarrow> int \<Rightarrow> bool option \<Rightarrow> unit result" where
  "actor_validate a n_gpus train_batch_size model_config =
     bind_res
       (if use_dynamic_bsz a then Inr ()
        else guard_res (\<not> train_batch_size < ppo_mini_batch_size a) ValueError
          (case ppo_micro_batch_size a of
             None \<Rightarrow> Inr ()
           | Some micro \<Rightarrow>
               bind_res (divisible_or ValueError (ppo_mini_batch_size a) micro) (\<lambda>_.
                 guard_res (\<not> micro * sequence_parallel a < n_gpus) ValueError (Inr ()))))
       (\<lambda>_. guard_res (\<not> (fsdp_class a \<and> strategy a \<in> {''fsdp'', ''fsdp2''} \<and> sequence_parallel a > 1 \<and> model_config = Some False))
              ValueError (Inr ()))"

record critic_settings = batch_sizes +
  critic_strategy :: string
  critic_fsdp_class :: bool
  critic_sequence_parallel :: int
  critic_remove_padding :: "bool option"

definition check_mutually_exclusive :: "int option \<Rightarrow> int option \<Rightarrow> unit result" where
  "check_mutually_exclusive mbs mbs_per_gpu =
     guard_res (\<not> (mbs = None \<and> mbs_per_gpu = None)) ValueError (
     guard_res (\<not> (mbs \<noteq> None \<and> mbs_per_gpu \<noteq> None)) ValueError (Inr ()))"

text \<open>\<open>critic_remove_padding\<close> is none when the critic has no model configuration.\<close>

definition critic_post_init :: "critic_settings \<Rightarrow> unit result" where
  "critic_post_init c =
     guard_res (critic_strategy c \<noteq> missing) AssertionError (
     bind_res
       (if use_dynamic_bsz c then Inr ()
        else bind_res (check_mutually_exclusive (ppo_micro_batch_size c) (ppo_micro_batch_size_per_gpu c)) (\<lambda>_.
               case ppo_micro_batch_size c of
                 None \<Rightarrow> Inr ()
               | Some micro \<Rightarrow> divisible_or ValueError (ppo_mini_batch_size c) micro))
       (\<lambda>_. if critic_fsdp_class c \<and> critic_strategy c \<in> {''fsdp'', ''fsdp2''} \<and> critic_sequence_parallel c > 1
             then (case critic_remove_padding c of None \<Rightarrow> Inl AttributeError | Some b \<Rightarrow> guard_res b ValueError (Inr ()))
             else Inr ()))"

definition critic_validate :: "critic_settings \<Rightarrow> int \<Rightarrow> int \<Rightarrow> unit result" where
  "critic_validate c n_gpus train_batch_size =
     (if use_dynamic_bsz c then Inr ()
      else guard_res (\<not> train_batch_size < ppo_mini_batch_size c) ValueError
        (case ppo_micro_batch_size c of
           None \<Rightarrow> Inr ()
         | Some micro \<Rightarrow> guard_res (\<not> (critic_fsdp_class c \<and> micro * critic_sequence_parallel c < n_gpus)) ValueError (Inr ())))"

subsection \<open>Optimizer, engine and rollout\<close>

record optimizer_config =
  lr_missing :: bool
  clip_grad :: real
  grad_clip :: "real option"

definition optimizer_post_init :: "optimizer_config \<Rightarrow> optimizer_config result" where
  "optimizer_post_init opt =
     guard_res (\<not> lr_missing opt) AssertionError
       (Inr (case grad_clip opt of None \<Rightarrow> opt | Some g \<Rightarrow> opt\<lparr>clip_grad := g\<rparr>))"

record fsdp_optimizer_config = optimizer_config +
  warmup_style :: "string option"
  lr_scheduler_type :: string

definition fsdp_optimizer_post_init :: "fsdp_optimizer_config \<Rightarrow> fsdp_optimizer_config result" where
  "fsdp_optimizer_post_init opt =
     bind_res (case warmup_style opt of
                 None \<Rightarrow> Inr opt
               | Some w \<Rightarrow> guard_res (w \<in> {''constant'', ''cosine''}) AssertionError (Inr (opt\<lparr>lr_scheduler_type := w\<rparr>)))
       (\<lambda>opt1. guard_res (lr_scheduler_type opt1 \<in> {''constant'', ''cosine''}) AssertionError (
          guard_res (\<not> lr_missing opt1) AssertionError
            (Inr (case grad_clip opt1 of None \<Rightarrow> opt1 | Some g \<Rightarrow> opt1\<lparr>clip_grad := g\<rparr>))))"

record mcore_engine =
  mcore_strategy :: string
  mcore_dtype :: string
  mcore_tensor_parallel :: int
  mcore_sequence_parallel :: bool

definition mcore_engine_post_init :: "mcore_engine \<Rightarrow> mcore_engine result" where
  "mcore_engine_post_init e =
     guard_res (mcore_strategy e = ''megatron'') AssertionError (
     guard_res (mcore_dtype e \<in> {''bfloat16'', ''float16''}) AssertionError
       (Inr (if mcore_tensor_parallel e = 1 then e\<lparr>mcore_sequence_parallel := False\<rparr> else e)))"

record fsdp_engine =
  engine_strategy :: string
  engine_sequence_parallel :: int

definition fsdp_engine_post_init :: "fsdp_engine \<Rightarrow> unit result" where
  "fsdp_engine_post_init e = guard_res (engine_strategy e \<in> {''fsdp'', ''fsdp2''}) AssertionError (Inr ())"

text \<open>The engine of an actor with the FSDP class, which shares the object of the setting \<open>fsdp_config\<close>.\<close>

definition fsdp_actor_engine :: "actor_settings \<Rightarrow> fsdp_engine \<Rightarrow> fsdp_engine" where
  "fsdp_actor_engine a e =
     (let e1 = e\<lparr>engine_strategy := strategy a\<rparr>
      in if sequence_parallel a > 1 then e1\<lparr>engine_sequence_parallel := sequence_parallel a\<rparr> else e1)"

record rollout_config =
  rollout_name :: string
  rollout_mode :: string
  rollout_tensor_parallel :: int
  rollout_data_parallel :: int
  rollout_pipeline_parallel :: int
  expert_parallel :: "int option"
  moe_tensor_parallel :: "int option"
  disaggregation_enabled :: bool

text \<open>A size of one is forgotten for the third backend, so that it derives the size itself.\<close>

definition forget_one :: "int option \<Rightarrow> int option" where
  "forget_one s = (if s = Some 1 then None else s)"

definition rollout_post_init :: "rollout_config \<Rightarrow> rollout_config result" where
  "rollout_post_init r =
     (let trt = (rollout_name r = ''trtllm'')
      in guard_res (rollout_mode r \<noteq> ''sync'') ValueError (
         bind_res
           (if trt then Inr ()
            else case expert_parallel r of
                   None \<Rightarrow> Inl TypeError
                 | Some ep \<Rightarrow> guard_res (ep > 1 \<longrightarrow> ep = rollout_tensor_parallel r * rollout_data_parallel r) AssertionError (Inr ()))
           (\<lambda>_. bind_res
             (case moe_tensor_parallel r of
                None \<Rightarrow> Inr ()
              | Some m \<Rightarrow> guard_res (m > 1 \<longrightarrow> trt) AssertionError (Inr ()))
             (\<lambda>_. let r1 = (if trt then r\<lparr>expert_parallel := forget_one (expert_parallel r),
                                         moe_tensor_parallel := forget_one (moe_tensor_parallel r)\<rparr> else r)
               in bind_res
                 (case (trt, expert_parallel r1, moe_tensor_parallel r1) of
                    (True, Some ep, Some m) \<Rightarrow> guard_res (m * ep = rollout_tensor_parallel r1) AssertionError (Inr ())
                  | _ \<Rightarrow> Inr ())
                 (\<lambda>_. guard_res (\<not> (rollout_pipeline_parallel r1 > 1 \<and> rollout_name r1 \<in> {''vllm'', ''sglang'', ''trtllm''}))
                        NotImplementedError
                   (guard_res (\<not> (disaggregation_enabled r1 \<and> rollout_name r1 \<noteq> ''sglang'')) ValueError (Inr r1)))))))"

subsection \<open>Validation of a run\<close>

record run_config =
  n_gpus_per_node :: int
  nnodes :: int
  train_batch_size :: int
  rollout_n :: int
  actor :: actor_settings
  critic :: critic_settings
  model_remove_padding :: "bool option"
  ref_micro :: "int option"
  ref_micro_per_gpu :: "int option"
  rollout_micro :: "int option"
  rollout_micro_per_gpu :: "int option"
  val_do_sample :: bool
  temperature :: real
  lora_block_rank :: int
  lora_merge :: bool
  lora_rank :: int
  lora_adapter :: bool
  rollout_backend :: string
  use_kl_in_reward :: bool
  critic_enable :: "bool option"
  adv_is_gae :: bool

text \<open>The ranks vLLM allows are its own; \<open>allowed\<close> holds them.\<close>

fun first_at_least :: "int \<Rightarrow> int list \<Rightarrow> int option" where
  "first_at_least x [] = None"
| "first_at_least x (r # rs) = (if x \<le> r then Some r else first_at_least x rs)"

definition get_vllm_max_lora_rank :: "int list \<Rightarrow> int \<Rightarrow> int option result" where
  "get_vllm_max_lora_rank allowed rank =
     guard_res (rank > 0) AssertionError (
     guard_res (allowed \<noteq> []) IndexError (
     guard_res (\<not> rank > last (sort allowed)) ValueError (Inr (first_at_least rank (sort allowed)))))"

definition effective_lora_rank :: "run_config \<Rightarrow> int" where
  "effective_lora_rank c = (if lora_block_rank c \<le> 0 then lora_rank c else lora_block_rank c)"

definition total_gpus :: "run_config \<Rightarrow> int" where
  "total_gpus c = n_gpus_per_node c * nnodes c"

definition minimal_batch_size :: "run_config \<Rightarrow> int result" where
  "minimal_batch_size c =
     (let a = actor c; m = megatron a; n = total_gpus c
      in if strategy a = ''megatron''
         then (let parallel = tensor_model_parallel_size m * pipeline_model_parallel_size m * context_parallel_size m
               in bind_res (divisible_or AssertionError n parallel) (\<lambda>_.
                  bind_res (py_floordiv n parallel) (\<lambda>dp.
                    case ppo_micro_batch_size_per_gpu a of None \<Rightarrow> Inl TypeError | Some micro \<Rightarrow> Inr (dp * micro))))
         else Inr n)"

definition validate_config :: "int list \<Rightarrow> run_config \<Rightarrow> bool \<Rightarrow> bool \<Rightarrow> unit result" where
  "validate_config allowed c use_reference_policy use_critic =
     (let a = actor c; n = total_gpus c; static = \<not> use_dynamic_bsz a in
      bind_res
        (if static
         then bind_res (minimal_batch_size c) (\<lambda>minimal. divisible_or AssertionError (train_batch_size c * rollout_n c) minimal)
         else Inr ()) (\<lambda>_.
      bind_res (actor_post_init a) (\<lambda>_.
      bind_res (actor_validate a n (train_batch_size c) (model_remove_padding c)) (\<lambda>_.
      bind_res (if static \<and> use_reference_policy then check_mutually_exclusive (ref_micro c) (ref_micro_per_gpu c) else Inr ()) (\<lambda>_.
      bind_res (if static then check_mutually_exclusive (rollout_micro c) (rollout_micro_per_gpu c) else Inr ()) (\<lambda>_.
      bind_res
        (if use_critic
         then bind_res (critic_post_init (critic c)) (\<lambda>_. critic_validate (critic c) n (train_batch_size c)) else Inr ()) (\<lambda>_.
      guard_res (val_do_sample c \<longrightarrow> temperature c > 0) AssertionError (
      let rank = (if lora_merge c then 0 else effective_lora_rank c)
      in if rank > 0 \<and> rollout_backend c = ''vllm''
         then bind_res (get_vllm_max_lora_rank allowed rank) (\<lambda>_. Inr ()) else Inr ()))))))))"

subsection \<open>Roles and resource pools\<close>

datatype role = Actor | Rollout | ActorRollout | Critic | RefPolicy | RewardModel | ActorRolloutRef | Env | TeacherModel

definition role_string :: "role \<Rightarrow> string" where
  "role_string r =
     (case r of
        Actor \<Rightarrow> ''actor'' | Rollout \<Rightarrow> ''rollout'' | ActorRollout \<Rightarrow> ''actor_rollout'' | Critic \<Rightarrow> ''critic''
      | RefPolicy \<Rightarrow> ''ref'' | RewardModel \<Rightarrow> ''rm'' | ActorRolloutRef \<Rightarrow> ''actor_rollout_ref'' | Env \<Rightarrow> ''env''
      | TeacherModel \<Rightarrow> ''teacher'')"

definition named_roles :: "(string, role) dict" where
  "named_roles = map (\<lambda>r. (role_string r, r)) [Actor, Rollout, ActorRollout, Critic, RefPolicy, RewardModel, ActorRolloutRef]"

definition role_from_string :: "string \<Rightarrow> role result" where
  "role_from_string name =
     (case dict_get named_roles (py_lower name) of None \<Rightarrow> Inl ValueError | Some r \<Rightarrow> Inr r)"

definition need_reference_policy :: "run_config \<Rightarrow> bool" where
  "need_reference_policy c \<longleftrightarrow> use_kl_in_reward c \<or> use_kl_loss (actor c)"

definition need_critic :: "run_config \<Rightarrow> bool" where
  "need_critic c = (case critic_enable c of Some b \<Rightarrow> b | None \<Rightarrow> adv_is_gae c)"

text \<open>The reward model and the distillation teacher, and whether they have GPUs of their own.\<close>

record pool_config =
  trainer_gpus_per_node :: int
  trainer_nnodes :: int
  rm_enable :: bool
  rm_own_pool :: bool
  rm_gpus_per_node :: int
  rm_nnodes :: int
  distillation :: bool
  teacher_gpus_per_node :: int
  teacher_nnodes :: int

type_synonym role_mapping = "(role, string) dict"

definition add_actor_rollout_worker :: "run_config \<Rightarrow> role_mapping \<Rightarrow> role_mapping" where
  "add_actor_rollout_worker c m =
     (let ref_in_actor = effective_lora_rank c > 0 \<or> lora_adapter c
      in dict_set (if need_reference_policy c \<and> \<not> ref_in_actor then ActorRolloutRef else ActorRollout) ''global_pool'' m)"

definition add_critic_worker :: "role_mapping \<Rightarrow> role_mapping" where
  "add_critic_worker m = dict_set Critic ''global_pool'' m"

definition add_reward_model_resource_pool :: "pool_config \<Rightarrow> role_mapping \<Rightarrow> role_mapping" where
  "add_reward_model_resource_pool p m =
     (if rm_enable p then dict_set RewardModel (if rm_own_pool p then ''reward_pool'' else ''global_pool'') m else m)"

definition add_teacher_model_resource_pool :: "pool_config \<Rightarrow> role_mapping \<Rightarrow> role_mapping" where
  "add_teacher_model_resource_pool p m = (if distillation p then dict_set TeacherModel ''teacher_pool'' m else m)"

type_synonym pool_spec = "(string, int list) dict"

text \<open>A list times a negative number is empty in Python, like \<open>nat\<close> of it.\<close>

definition init_resource_pools :: "pool_config \<Rightarrow> pool_spec result" where
  "init_resource_pools p =
     (let s = [(''global_pool'', replicate (nat (trainer_nnodes p)) (trainer_gpus_per_node p))]
      in bind_res
        (if rm_own_pool p
         then guard_res (rm_gpus_per_node p > 0) ValueError (guard_res (rm_nnodes p > 0) ValueError
                (Inr (dict_set ''reward_pool'' (replicate (nat (rm_nnodes p)) (rm_gpus_per_node p)) s)))
         else Inr s) (\<lambda>s1.
        if distillation p
        then guard_res (teacher_gpus_per_node p > 0) ValueError (guard_res (teacher_nnodes p > 0) ValueError
               (Inr (dict_set ''teacher_pool'' (replicate (nat (teacher_nnodes p)) (teacher_gpus_per_node p)) s1)))
        else Inr s1))"

text \<open>The two task runners: the one of the recipe leaves the teacher out.\<close>

definition ppo_runner_setup :: "run_config \<Rightarrow> pool_config \<Rightarrow> (role_mapping \<times> pool_spec) result" where
  "ppo_runner_setup c p =
     (let m = add_teacher_model_resource_pool p (add_reward_model_resource_pool p (add_critic_worker (add_actor_rollout_worker c [])))
      in bind_res (init_resource_pools p) (\<lambda>s. Inr (m, s)))"

definition dapo_runner_setup :: "run_config \<Rightarrow> pool_config \<Rightarrow> (role_mapping \<times> pool_spec) result" where
  "dapo_runner_setup c p =
     (let m = add_reward_model_resource_pool p (add_critic_worker (add_actor_rollout_worker c []))
      in bind_res (init_resource_pools p) (\<lambda>s. Inr (m, s)))"

text \<open>The resource pool manager: creating the pools needs the GPUs of the cluster; then each role has its pool.\<close>

definition required_gpus :: "pool_spec \<Rightarrow> int" where
  "required_gpus s = sum_list (concat (map snd s))"

definition create_resource_pool :: "int list \<Rightarrow> pool_spec \<Rightarrow> pool_spec result" where
  "create_resource_pool available s = guard_res (\<not> sum_list available < required_gpus s) ValueError (Inr s)"

definition get_resource_pool :: "role_mapping \<Rightarrow> pool_spec \<Rightarrow> role \<Rightarrow> int list result" where
  "get_resource_pool m s r =
     (case dict_get m r of None \<Rightarrow> Inl KeyError
      | Some name \<Rightarrow> (case dict_get s name of None \<Rightarrow> Inl KeyError | Some sizes \<Rightarrow> Inr sizes))"

text \<open>
  The pools \<open>init_workers\<close> of the trainer asks for, in its order, and its check that the reference policy has
  a worker group. \<open>workers\<close> are the roles with a worker class: the actor's and the critic's.
\<close>

definition init_worker_pools ::
  "run_config \<Rightarrow> pool_config \<Rightarrow> int list \<Rightarrow> role_mapping \<Rightarrow> pool_spec \<Rightarrow> (role \<times> int list) list result" where
  "init_worker_pools c p available m s =
     (let workers = filter (\<lambda>r. r \<in> {ActorRolloutRef, ActorRollout, Critic}) (dict_keys m);
          actor_role = (if ActorRolloutRef \<in> set workers then ActorRolloutRef else ActorRollout);
          ref_in_actor = effective_lora_rank c > 0 \<or> lora_adapter c;
          pool = (\<lambda>r. bind_res (get_resource_pool m s r) (\<lambda>sizes. Inr (r, sizes)))
      in bind_res (create_resource_pool available s) (\<lambda>_.
         bind_res (pool actor_role) (\<lambda>actor_pool.
         bind_res (if need_critic c then traverse pool [Critic] else Inr []) (\<lambda>critic_pools.
         guard_res (need_reference_policy c \<and> \<not> ref_in_actor \<longrightarrow> actor_role = ActorRolloutRef) AssertionError (
         bind_res (traverse pool ((if rm_enable p then [RewardModel] else []) @ (if distillation p then [TeacherModel] else []))) (\<lambda>others.
           Inr (actor_pool # critic_pools @ others)))))))"

subsection \<open>Frozen fields\<close>

text \<open>A sequence of assignments, of which the refused ones have no effect.\<close>

definition assign_all :: "(string \<times> 'v) list \<Rightarrow> 'v config_object \<Rightarrow> 'v config_object" where
  "assign_all ops cfg = fold (\<lambda>(n, v) c. case set_attribute n v c of Inl _ \<Rightarrow> c | Inr c' \<Rightarrow> c') ops cfg"

lemma assign_fields [simp]:
  "mutable_fields (assign_all ops cfg) = mutable_fields cfg" "class_attributes (assign_all ops cfg) = class_attributes cfg"
  "field_names (assign_all ops cfg) = field_names cfg"
  unfolding assign_all_def
  by (induction ops arbitrary: cfg) (auto simp: set_attribute_def guard_res_def)

lemma dict_get_None: "dict_get d k = None \<longleftrightarrow> k \<notin> set (dict_keys d)"
  by (force simp: dict_keys_def map_of_eq_None_iff)

lemma assign_snoc:
  "dict_get (attributes (assign_all (ops @ [(n, v)]) cfg)) name =
    (if n = name \<and> (dict_get (attributes (assign_all ops cfg)) name = None \<or> name \<in> set (mutable_fields cfg)) then Some v
     else dict_get (attributes (assign_all ops cfg)) name)"
proof -
  have "mutable_fields (assign_all ops cfg) = mutable_fields cfg" by simp
  then show ?thesis
    by (auto simp: assign_all_def set_attribute_def guard_res_def dict_get_None)
qed

text \<open>
  A field that has a value keeps it, however many assignments are tried, unless the class lists it as mutable;
  a mutable field has the value written last, and a new name the value written first. The operator \<open>in\<close>
  raises for a name that is no attribute instead of being false.
\<close>

theorem frozen_fields_keep_values:
  shows "dict_get (attributes (assign_all ops cfg)) name =
      (if name \<in> set (mutable_fields cfg) then (case map_of (rev ops) name of Some v \<Rightarrow> Some v | None \<Rightarrow> dict_get (attributes cfg) name)
       else (case dict_get (attributes cfg) name of Some v \<Rightarrow> Some v | None \<Rightarrow> map_of ops name)) \<and>
    (config_contains key cfg = Inr True \<and> get_attribute cfg key = Inr (config_get cfg key w) \<or>
     config_contains key cfg = Inl AttributeError \<and> config_get cfg key w = w)"
proof
  show "dict_get (attributes (assign_all ops cfg)) name =
      (if name \<in> set (mutable_fields cfg) then (case map_of (rev ops) name of Some v \<Rightarrow> Some v | None \<Rightarrow> dict_get (attributes cfg) name)
       else (case dict_get (attributes cfg) name of Some v \<Rightarrow> Some v | None \<Rightarrow> map_of ops name))"
  proof (induction ops rule: rev_induct)
    case Nil
    then show ?case by (simp add: assign_all_def split: option.splits)
  next
    case (snoc op ops)
    obtain n v where "op = (n, v)" by (cases op)
    then show ?case by (auto simp: assign_snoc snoc.IH map_add_def split: option.splits)
  qed
  show "config_contains key cfg = Inr True \<and> get_attribute cfg key = Inr (config_get cfg key w) \<or>
     config_contains key cfg = Inl AttributeError \<and> config_get cfg key w = w"
    by (auto simp: config_contains_def config_item_def config_get_def get_attribute_def split: option.splits)
qed

subsection \<open>Every role has its pool\<close>

lemmas setup_defs = add_actor_rollout_worker_def add_critic_worker_def add_reward_model_resource_pool_def
  add_teacher_model_resource_pool_def init_resource_pools_def Let_def

lemma pool_sizes:
  assumes "init_resource_pools p = Inr s"
  shows "dict_get s ''global_pool'' = Some (replicate (nat (trainer_nnodes p)) (trainer_gpus_per_node p))"
    "rm_own_pool p \<Longrightarrow> dict_get s ''reward_pool'' = Some (replicate (nat (rm_nnodes p)) (rm_gpus_per_node p))"
    "distillation p \<Longrightarrow> dict_get s ''teacher_pool'' = Some (replicate (nat (teacher_nnodes p)) (teacher_gpus_per_node p))"
  using assms by (auto simp: init_resource_pools_def Let_def res_simps split: if_splits)

definition pool_of :: "pool_config \<Rightarrow> role \<Rightarrow> int list" where
  "pool_of p r =
     (if r = RewardModel \<and> rm_own_pool p then replicate (nat (rm_nnodes p)) (rm_gpus_per_node p)
      else if r = TeacherModel then replicate (nat (teacher_nnodes p)) (teacher_gpus_per_node p)
      else replicate (nat (trainer_nnodes p)) (trainer_gpus_per_node p))"

definition used_roles :: "run_config \<Rightarrow> pool_config \<Rightarrow> role list" where
  "used_roles c p =
     (if need_reference_policy c \<and> \<not> (effective_lora_rank c > 0 \<or> lora_adapter c) then ActorRolloutRef else ActorRollout) #
     (if need_critic c then [Critic] else []) @ (if rm_enable p then [RewardModel] else []) @ (if distillation p then [TeacherModel] else [])"

lemma mapping_lookup:
  "dict_get (add_reward_model_resource_pool p (add_critic_worker (add_actor_rollout_worker c []))) r =
    (if r = hd (used_roles c p) \<or> r = Critic then Some ''global_pool''
     else if r = RewardModel \<and> rm_enable p then Some (if rm_own_pool p then ''reward_pool'' else ''global_pool'') else None)"
  by (simp add: setup_defs used_roles_def)

text \<open>
  C24: With the task runner of the framework every role the trainer uses gets its pool, and starting the workers
  fails only when the cluster has too few GPUs. The task runner of the recipe differs in one point: it gives
  the distillation teacher a pool but never maps the role to it, so that with distillation the start fails.
\<close>

theorem every_role_has_its_pool:
  assumes "init_resource_pools p = Inr s" and "required_gpus s \<le> sum_list available"
  shows "\<exists>m m'. ppo_runner_setup c p = Inr (m, s) \<and> dapo_runner_setup c p = Inr (m', s) \<and>
    init_worker_pools c p available m s = Inr (map (\<lambda>r. (r, pool_of p r)) (used_roles c p)) \<and>
    init_worker_pools c p available m' s =
      (if distillation p then Inl KeyError else Inr (map (\<lambda>r. (r, pool_of p r)) (used_roles c p)))"
proof -
  define m' where "m' = add_reward_model_resource_pool p (add_critic_worker (add_actor_rollout_worker c []))"
  define m where "m = add_teacher_model_resource_pool p m'"
  have setups: "ppo_runner_setup c p = Inr (m, s)" "dapo_runner_setup c p = Inr (m', s)"
    using assms(1) by (simp_all add: ppo_runner_setup_def dapo_runner_setup_def m_def m'_def Let_def)
  note sizes = pool_sizes [OF assms(1)]
  have look': "dict_get m' r =
      (if r = hd (used_roles c p) \<or> r = Critic then Some ''global_pool''
       else if r = RewardModel \<and> rm_enable p then Some (if rm_own_pool p then ''reward_pool'' else ''global_pool'') else None)" for r
    unfolding m'_def by (rule mapping_lookup)
  have look: "dict_get m r = (if r = TeacherModel \<and> distillation p then Some ''teacher_pool'' else dict_get m' r)" for r
    by (simp add: m_def add_teacher_model_resource_pool_def)
  have workers: "ActorRolloutRef \<in> set (dict_keys m') \<longleftrightarrow> hd (used_roles c p) = ActorRolloutRef"
    "ActorRolloutRef \<in> set (dict_keys m) \<longleftrightarrow> hd (used_roles c p) = ActorRolloutRef"
    using look' [of ActorRolloutRef] look [of ActorRolloutRef] dict_get_None [of m' ActorRolloutRef] dict_get_None [of m ActorRolloutRef]
    by (auto split: if_splits)
  have enough: "create_resource_pool available s = Inr s" using assms(2) by (simp add: create_resource_pool_def)
  have "init_worker_pools c p available m s = Inr (map (\<lambda>r. (r, pool_of p r)) (used_roles c p))"
    unfolding init_worker_pools_def Let_def
    by (simp add: enough workers get_resource_pool_def look look' sizes pool_of_def used_roles_def)
  moreover have "init_worker_pools c p available m' s =
      (if distillation p then Inl KeyError else Inr (map (\<lambda>r. (r, pool_of p r)) (used_roles c p)))"
    unfolding init_worker_pools_def Let_def
    by (simp add: enough workers get_resource_pool_def look' sizes pool_of_def used_roles_def)
  ultimately show ?thesis using setups by blast
qed

text \<open>A run on one node with eight GPUs that passes the validation.\<close>

definition example_actor :: actor_settings where
  "example_actor = \<lparr>use_dynamic_bsz = False, ppo_mini_batch_size = 16, ppo_micro_batch_size = None,
     ppo_micro_batch_size_per_gpu = Some 2, strategy = ''fsdp'', rollout_repeat = Some 4, loss_agg_mode = ''token-mean'',
     fsdp_class = True, sequence_parallel = 1, use_kl_loss = True,
     megatron = \<lparr>tensor_model_parallel_size = 1, pipeline_model_parallel_size = 1, context_parallel_size = 1\<rparr>\<rparr>"

definition example_critic :: critic_settings where
  "example_critic = \<lparr>use_dynamic_bsz = False, ppo_mini_batch_size = 16, ppo_micro_batch_size = None,
     ppo_micro_batch_size_per_gpu = Some 2, critic_strategy = ''fsdp'', critic_fsdp_class = True,
     critic_sequence_parallel = 1, critic_remove_padding = None\<rparr>"

definition example_run :: run_config where
  "example_run = \<lparr>n_gpus_per_node = 8, nnodes = 1, train_batch_size = 32, rollout_n = 4, actor = example_actor,
     critic = example_critic, model_remove_padding = None, ref_micro = None, ref_micro_per_gpu = Some 2, rollout_micro = None,
     rollout_micro_per_gpu = Some 2, val_do_sample = False, temperature = 1, lora_block_rank = 0, lora_merge = False, lora_rank = 0,
     lora_adapter = False, rollout_backend = ''vllm'', use_kl_in_reward = False, critic_enable = None, adv_is_gae = True\<rparr>"

definition example_pools :: pool_config where
  "example_pools = \<lparr>trainer_gpus_per_node = 8, trainer_nnodes = 1, rm_enable = True, rm_own_pool = True, rm_gpus_per_node = 2,
     rm_nnodes = 1, distillation = True, teacher_gpus_per_node = 4, teacher_nnodes = 1\<rparr>"

lemma example_validated: "validate_config [8, 16] example_run True True = Inr ()"
  by code_simp

lemma every_role_has_its_pool_witness:
  "\<exists>m m' s. ppo_runner_setup example_run example_pools = Inr (m, s) \<and> dapo_runner_setup example_run example_pools = Inr (m', s) \<and>
     init_worker_pools example_run example_pools [16] m s =
       Inr [(ActorRolloutRef, [8]), (Critic, [8]), (RewardModel, [2]), (TeacherModel, [4])] \<and>
     init_worker_pools example_run example_pools [16] m' s = Inl KeyError"
proof -
  have pools: "init_resource_pools example_pools = Inr [(''global_pool'', [8]), (''reward_pool'', [2]), (''teacher_pool'', [4])]"
    and enough: "required_gpus [(''global_pool'', [8]), (''reward_pool'', [2]), (''teacher_pool'', [4])] \<le> sum_list [16]"
    and used: "map (\<lambda>r. (r, pool_of example_pools r)) (used_roles example_run example_pools) =
      [(ActorRolloutRef, [8]), (Critic, [8]), (RewardModel, [2]), (TeacherModel, [4])]"
    and dist: "distillation example_pools"
    by code_simp+
  show ?thesis using every_role_has_its_pool [OF pools enough, of example_run] used dist by auto
qed

end
