(* ===== verification/TrainStep.thy ===== *)
theory TrainStep
  imports MicroBatch Config
begin

section \<open>Training steps of a worker\<close>

text \<open>
  Models the training worker (\<open>src/verl/workers/engine_workers.py\<close>), the engine's batch functions
  (\<open>src/verl/workers/engine/base.py\<close>, \<open>engine/utils.py\<close> and the loop over micro-batches of
  \<open>engine/fsdp/transformer_impl.py\<close>), the iterator over mini-batches of
  \<open>src/verl/utils/tensordict_utils.py\<close>, the update requests of the trainer
  (\<open>src/verl/trainer/ppo/ray_trainer.py\<close>), and the metrics they collect
  (\<open>src/verl/utils/metric/utils.py\<close>, \<open>append_to_dict\<close> of \<open>src/verl/utils/py_functional.py\<close>).
  A batch is the list of its rows. The order in which the data loader of PyTorch visits the rows of an
  epoch is an argument, and so are the forward pass of a row and the effect of the optimizer, of which the events are recorded.
\<close>

subsection \<open>Mini-batches\<close>

definition make_iterator :: "(nat \<Rightarrow> nat list) \<Rightarrow> int \<Rightarrow> nat \<Rightarrow> 'r list \<Rightarrow> 'r list list result" where
  "make_iterator order mini_batch_size epochs rows =
     bind_res (divisible_or AssertionError (int (length rows)) mini_batch_size) (\<lambda>_.
     guard_res (0 < mini_batch_size) ValueError
       (Inr (concat (map (\<lambda>e. map (map (\<lambda>i. rows ! i)) (chunks_of (nat mini_batch_size) (order e))) [0..<epochs]))))"

record update_request =
  mini_batch_size :: "int option"
  num_mini_batch :: "int option"
  epochs :: nat

definition mini_batch_size_per_gpu :: "update_request \<Rightarrow> int \<Rightarrow> int \<Rightarrow> int result" where
  "mini_batch_size_per_gpu req dp_size batch_size_per_dp =
     guard_res (\<not> (mini_batch_size req = None \<and> num_mini_batch req = None)) AssertionError
       (case mini_batch_size req of
          Some m \<Rightarrow> bind_res (divisible_or AssertionError m dp_size) (\<lambda>_. py_floordiv m dp_size)
        | None \<Rightarrow>
            (case num_mini_batch req of
               Some k \<Rightarrow> bind_res (divisible_or AssertionError batch_size_per_dp k) (\<lambda>_. py_floordiv batch_size_per_dp k)
             | None \<Rightarrow> Inl AssertionError))"

text \<open>The mini-batches of a call with the flag that tells the last one to step the learning rate.\<close>

definition train_mini_batch :: "int \<Rightarrow> (nat \<Rightarrow> nat list) \<Rightarrow> update_request \<Rightarrow> 'r list \<Rightarrow> ('r list \<times> bool) list result" where
  "train_mini_batch dp_size order req rows =
     bind_res (mini_batch_size_per_gpu req dp_size (int (length rows))) (\<lambda>mini.
     bind_res (make_iterator order mini (epochs req) rows) (\<lambda>batches.
     bind_res (py_floordiv (int (length rows)) mini) (\<lambda>per_epoch.
       let total_num_iterations = per_epoch * int (epochs req)
       in Inr (map (\<lambda>(idx, b). (b, int idx = total_num_iterations - 1)) (zip [0..<length batches] batches)))))"

text \<open>The requests of the trainer: the size of a mini-batch counts prompts, a row is a response.\<close>

definition update_actor_request :: "run_config \<Rightarrow> nat \<Rightarrow> update_request" where
  "update_actor_request c ppo_epochs =
     \<lparr>mini_batch_size = Some (ppo_mini_batch_size (actor c) * rollout_n c), num_mini_batch = None, epochs = ppo_epochs\<rparr>"

definition update_critic_request :: "run_config \<Rightarrow> nat \<Rightarrow> update_request" where
  "update_critic_request c ppo_epochs =
     \<lparr>mini_batch_size = Some (ppo_mini_batch_size (critic c) * rollout_n c), num_mini_batch = None, epochs = ppo_epochs\<rparr>"

text \<open>
  The size of the data-parallel group of the FSDP engine, when the sequence-parallel size is set on the actor. A size set
  only on the configuration of the engine, which the code uses when that of the actor is one, is not modelled.
\<close>

definition fsdp_data_parallel_size :: "run_config \<Rightarrow> int" where
  "fsdp_data_parallel_size c = total_gpus c div sequence_parallel (actor c)"

subsection \<open>Micro-batches\<close>

record micro_options =
  dynamic_bsz :: bool
  rearrange :: rearrange_opts
  micro_batch_size_per_gpu :: int

text \<open>The indices of the micro-batches of a batch of \<open>n\<close> rows; \<open>input\<close> tells the lengths of the rows.\<close>

definition prepare_micro_batches :: "micro_options \<Rightarrow> (int \<Rightarrow> int) option \<Rightarrow> seq_input \<Rightarrow> nat \<Rightarrow> nat list list result" where
  "prepare_micro_batches opts all_reduce_max input n =
     (if dynamic_bsz opts then micro_batch_indices input (rearrange opts) all_reduce_max
      else (let m = int (force_group_size (rearrange opts)) * micro_batch_size_per_gpu opts
            in bind_res (divisible_or AssertionError (int n) m) (\<lambda>_.
               bind_res (py_floordiv (int n) m) (\<lambda>chunks.
               guard_res (chunks \<noteq> 0) ZeroDivisionError (
               guard_res (chunks > 0) RuntimeError (
                 Inr (chunks_of (nat m) [0..<n])))))))"

definition forward_outputs :: "('r \<Rightarrow> 'o) \<Rightarrow> 'r list \<Rightarrow> nat list list \<Rightarrow> 'o list" where
  "forward_outputs f rows idx = concat (map (\<lambda>p. map f (map (\<lambda>i. rows ! i) p)) idx)"

definition postprocess_outputs :: "micro_options \<Rightarrow> 'o list \<Rightarrow> nat list list \<Rightarrow> 'o list result" where
  "postprocess_outputs opts outs idx = (if dynamic_bsz opts then restore_dynamic_batch outs idx else Inr outs)"

definition infer_batch ::
  "micro_options \<Rightarrow> (int \<Rightarrow> int) option \<Rightarrow> ('r list \<Rightarrow> seq_input) \<Rightarrow> ('r \<Rightarrow> 'o) \<Rightarrow> 'r list \<Rightarrow> 'o list result" where
  "infer_batch opts ar input_of f rows =
     bind_res (prepare_micro_batches opts ar (input_of rows) (length rows)) (\<lambda>idx.
       postprocess_outputs opts (forward_outputs f rows idx) idx)"

text \<open>The calls on the engine; its optimizer step skips the update of the weights when the norm of the gradient is not finite.\<close>

datatype 'r engine_event =
    ZeroGrad
  | Backward "'r list"
  | OptimizerStep
  | SchedulerStep

definition train_batch ::
  "micro_options \<Rightarrow> (int \<Rightarrow> int) option \<Rightarrow> ('r list \<Rightarrow> seq_input) \<Rightarrow> 'r list \<Rightarrow> bool \<Rightarrow> 'r engine_event list result" where
  "train_batch opts ar input_of rows update_lr_scheduler =
     bind_res (prepare_micro_batches opts ar (input_of rows) (length rows)) (\<lambda>idx.
       Inr (ZeroGrad # map (\<lambda>p. Backward (map (\<lambda>i. rows ! i) p)) idx @ [OptimizerStep] @
            (if update_lr_scheduler then [SchedulerStep] else [])))"

text \<open>A whole call on one rank.\<close>

definition update_events ::
  "micro_options \<Rightarrow> (int \<Rightarrow> int) option \<Rightarrow> ('r list \<Rightarrow> seq_input) \<Rightarrow> int \<Rightarrow> (nat \<Rightarrow> nat list) \<Rightarrow> update_request \<Rightarrow> 'r list \<Rightarrow>
   'r engine_event list result" where
  "update_events opts ar input_of dp_size order req rows =
     bind_res (train_mini_batch dp_size order req rows) (\<lambda>batches.
     bind_res (traverse (\<lambda>(b, last_one). train_batch opts ar input_of b last_one) batches) (\<lambda>evs. Inr (concat evs)))"

subsection \<open>Metrics\<close>

datatype aggregation = Mean | Sum | Minimum | Maximum

record metric_object =
  aggregation_type :: aggregation
  m_values :: "real list"

text \<open>A scalar, a list, and a metric as values; the constructor passes its value to \<open>append\<close>.\<close>

datatype metric_value =
    Num real
  | Met metric_object
  | Nums "real list"

definition extend_metric :: "metric_object \<Rightarrow> metric_object \<Rightarrow> metric_object result" where
  "extend_metric m other =
     guard_res (aggregation_type other = aggregation_type m) ValueError (Inr (m\<lparr>m_values := m_values m @ m_values other\<rparr>))"

definition append_metric :: "metric_object \<Rightarrow> metric_value \<Rightarrow> metric_object result" where
  "append_metric m v =
     (case v of
        Met other \<Rightarrow> extend_metric m other
      | Num x \<Rightarrow> Inr (m\<lparr>m_values := m_values m @ [x]\<rparr>)
      | Nums xs \<Rightarrow> Inl ValueError)"

definition init_list :: "metric_object \<Rightarrow> metric_object" where
  "init_list m = \<lparr>aggregation_type = aggregation_type m, m_values = []\<rparr>"

definition new_metric :: "aggregation \<Rightarrow> metric_value option \<Rightarrow> metric_object result" where
  "new_metric agg v =
     (let m = \<lparr>aggregation_type = agg, m_values = []\<rparr>
      in case v of None \<Rightarrow> Inr m | Some w \<Rightarrow> append_metric m w)"

text \<open>The aggregate of no values: numpy's mean is not a number (none), its sum zero, its extrema raise.\<close>

definition mean_list :: "real list \<Rightarrow> real" where
  "mean_list xs = sum_list xs / real (length xs)"

definition aggregate_values :: "real list \<Rightarrow> aggregation \<Rightarrow> real option result" where
  "aggregate_values xs agg =
     (case agg of
        Mean \<Rightarrow> Inr (if xs = [] then None else Some (mean_list xs))
      | Sum \<Rightarrow> Inr (Some (sum_list xs))
      | Minimum \<Rightarrow> guard_res (xs \<noteq> []) ValueError (Inr (Some (Min (set xs))))
      | Maximum \<Rightarrow> guard_res (xs \<noteq> []) ValueError (Inr (Some (Max (set xs)))))"

definition aggregate :: "metric_object \<Rightarrow> real option result" where
  "aggregate m = aggregate_values (m_values m) (aggregation_type m)"

text \<open>The mean over the ranks of the values of each accumulation step.\<close>

definition mean_over_ranks :: "real list list \<Rightarrow> real list" where
  "mean_over_ranks vals = map (\<lambda>j. mean_list (map (\<lambda>xs. xs ! j) vals)) [0..<length (hd vals)]"

definition aggregate_dp :: "metric_object list \<Rightarrow> real option result" where
  "aggregate_dp ms =
     guard_res (ms \<noteq> []) ValueError (
       let vals = map m_values ms; agg = aggregation_type (hd ms)
       in guard_res (list_all (\<lambda>xs. length xs = length (hd vals)) vals) ValueError (
            if agg = Sum \<or> agg = Mean then aggregate_values (mean_over_ranks vals) agg
            else aggregate_values (concat vals) agg))"

text \<open>\<open>append_to_dict\<close>: the values of a dictionary are lists or metrics; new values may be lists too.\<close>

datatype item = Number real | Metric_object metric_object

datatype entry =
    Items "item list"
  | Accumulator metric_object

datatype new_entry =
    One item
  | Many "item list"

definition value_of_item :: "item \<Rightarrow> metric_value" where
  "value_of_item i = (case i of Number x \<Rightarrow> Num x | Metric_object m \<Rightarrow> Met m)"

definition append_entry :: "new_entry \<Rightarrow> entry \<Rightarrow> entry result" where
  "append_entry v e =
     (case (e, v) of
        (Items xs, One i) \<Rightarrow> Inr (Items (xs @ [i]))
      | (Items xs, Many is) \<Rightarrow> Inr (Items (xs @ is))
      | (Accumulator m, One i) \<Rightarrow> bind_res (append_metric m (value_of_item i)) (\<lambda>m'. Inr (Accumulator m'))
      | (Accumulator m, Many is) \<Rightarrow>
          bind_res (fold_res (\<lambda>i m. append_metric m (value_of_item i)) is m) (\<lambda>m'. Inr (Accumulator m')))"

definition fresh_entry :: "new_entry \<Rightarrow> entry" where
  "fresh_entry v = (case v of One (Metric_object m) \<Rightarrow> Accumulator (init_list m) | _ \<Rightarrow> Items [])"

definition append_one :: "string \<Rightarrow> string \<times> new_entry \<Rightarrow> (string, entry) dict \<Rightarrow> (string, entry) dict result" where
  "append_one prefix kv d =
     (let (key, v) = kv;
          new_key = (if starts_with prefix key then key else prefix @ key);
          e = (case dict_get d new_key of Some e \<Rightarrow> e | None \<Rightarrow> fresh_entry v)
      in bind_res (append_entry v e) (\<lambda>e'. Inr (dict_set new_key e' d)))"

definition append_to_dict :: "(string, entry) dict \<Rightarrow> (string \<times> new_entry) list \<Rightarrow> string \<Rightarrow> (string, entry) dict result" where
  "append_to_dict d new_data prefix = fold_res (append_one prefix) new_data d"

text \<open>\<open>reduce_metrics\<close>: the name decides; the average of objects raises.\<close>

definition numbers_of :: "item list \<Rightarrow> real list result" where
  "numbers_of is = traverse (\<lambda>i. case i of Number x \<Rightarrow> Inr x | Metric_object m \<Rightarrow> Inl TypeError) is"

definition reduce_entry :: "string \<Rightarrow> entry \<Rightarrow> real option result" where
  "reduce_entry key e =
     (case e of
        Accumulator m \<Rightarrow> aggregate m
      | Items is \<Rightarrow> bind_res (numbers_of is) (\<lambda>xs.
          aggregate_values xs (if contains ''max'' key then Maximum else if contains ''min'' key then Minimum else Mean)))"

definition reduce_metrics :: "(string, entry) dict \<Rightarrow> (string, real option) dict result" where
  "reduce_metrics d = traverse (\<lambda>(k, e). bind_res (reduce_entry k e) (\<lambda>v. Inr (k, v))) d"

subsection \<open>The outputs of an inference\<close>

lemma divisible_or_Inr [simp]: "divisible_or e x y = Inr u \<longleftrightarrow> y \<noteq> 0 \<and> x mod y = 0"
  by (auto simp: divisible_or_def py_mod_def guard_res_def bind_res_def)

lemma py_floordiv_Inr [simp]: "py_floordiv x y = Inr z \<longleftrightarrow> y \<noteq> 0 \<and> z = x div y"
  by (auto simp: py_floordiv_def guard_res_def)

text \<open>
  C26: Inference returns the outputs in the order of the batch, however the rows are spread over micro-batches: with
  a fixed size of micro-batches, and with dynamic sizes, where the rows are rearranged by length and their
  outputs put back. The bounds exclude wrap-around of the 64-bit workloads.
\<close>

theorem inference_keeps_order:
  assumes "infer_batch opts ar input_of f rows = Inr outs"
    and "length (seq_len_effective (input_of rows)) = length rows"
    and "\<forall>l\<in>set (seq_len_effective (input_of rows)). 0 \<le> l \<and> l < 2 ^ 24" and "force_group_size (rearrange opts) < 2 ^ 14"
  shows "outs = map f rows"
proof -
  obtain idx where idx: "prepare_micro_batches opts ar (input_of rows) (length rows) = Inr idx"
    and outs: "postprocess_outputs opts (forward_outputs f rows idx) idx = Inr outs"
    using assms(1) by (auto simp: infer_batch_def res_simps)
  have bounds: "lens_bounded (seq_len_effective (input_of rows)) (force_group_size (rearrange opts))"
    using assms(3,4) by (simp add: lens_bounded_def)
  have flat: "forward_outputs f rows idx = map (\<lambda>i. map f rows ! i) (concat idx)" if "set (concat idx) \<subseteq> {..<length rows}"
  proof -
    have "forward_outputs f rows idx = map (\<lambda>i. f (rows ! i)) (concat idx)"
      by (simp add: forward_outputs_def map_concat comp_def)
    also have "\<dots> = map (\<lambda>i. map f rows ! i) (concat idx)" using that by (intro map_cong) (auto simp: subset_eq)
    finally show ?thesis .
  qed
  show ?thesis
  proof (cases "dynamic_bsz opts")
    case True
    then have "mset (concat idx) = mset [0..<length rows]"
      using idx micro_batch_indices_Inr [OF _ bounds] assms(2) by (simp add: prepare_micro_batches_def)
    moreover have "set (concat idx) \<subseteq> {..<length rows}"
      using mset_upt_set(1) [OF calculation] by (simp only: lessThan_atLeast0)
    ultimately show ?thesis
      using outs True flat restore_select [of idx "map f rows"] by (simp add: postprocess_outputs_def)
  next
    case False
    let ?m = "int (force_group_size (rearrange opts)) * micro_batch_size_per_gpu opts"
    have m: "?m \<noteq> 0" "int (length rows) div ?m > 0" "idx = chunks_of (nat ?m) [0..<length rows]"
      using idx False by (auto simp: prepare_micro_batches_def Let_def res_simps)
    then have "0 < ?m" by (metis linorder_neqE_linordered_idom of_nat_0_le_iff div_nonneg_neg_le0 not_less)
    then have "concat idx = [0..<length rows]" by (simp add: m(3) concat_chunks_of)
    moreover from this have "set (concat idx) \<subseteq> {..<length rows}" by (simp only: atLeast_upt order_refl)
    ultimately have "forward_outputs f rows idx = map (\<lambda>i. map f rows ! i) [0..<length (map f rows)]" using flat by simp
    then show ?thesis using outs False by (simp only: postprocess_outputs_def map_nth if_False) simp
  qed
qed

definition sample_micro :: micro_options where
  "sample_micro = \<lparr>dynamic_bsz = True, rearrange = sample_opts, micro_batch_size_per_gpu = 1\<rparr>"

lemma inference_keeps_order_witness:
  "infer_batch sample_micro None (\<lambda>rows. sample_input) (\<lambda>x. x * 2) [1, 2, 3, 4 :: int] = Inr [2, 4, 6, 8]"
proof -
  have *: "infer_batch sample_micro None (\<lambda>rows. sample_input) (\<lambda>x. x * 2) [1, 2, 3, 4 :: int] = Inr [1 * 2, 4, 6, 8]"
    by (simp add: infer_batch_def prepare_micro_batches_def sample_micro_def sample_indices postprocess_outputs_def
        forward_outputs_def restore_dynamic_batch_def) code_simp
  show ?thesis
    using * inference_keeps_order [OF *] by (simp add: sample_micro_def)
qed

subsection \<open>The schedule of an update\<close>

lemma chunks_count: "0 < m \<Longrightarrow> m dvd length xs \<Longrightarrow> length (chunks_of m xs) = length xs div m"
proof -
  assume "0 < m" "m dvd length xs"
  then have "map length (chunks_of m xs) = replicate (length xs div m) m" by (intro chunks_of_exact) auto
  then show ?thesis by (metis length_map length_replicate)
qed

lemma int_pred_iff: "int i = int N - 1 \<longleftrightarrow> i + 1 = N"
  by linarith

lemma tagged_batches:
  "map fst (map (\<lambda>(i, b). (b, P i)) (zip [0..<length bs] bs)) = bs"
  "map snd (map (\<lambda>(i, b). (b, P i)) (zip [0..<length bs] bs)) = map P [0..<length bs]"
  by (auto intro: nth_equalityI)

lemma train_mini_batch_form:
  assumes "train_mini_batch dp_size order req rows = Inr batches"
    and "\<And>e. mset (order e) = mset [0..<length rows]"
  obtains mini where "mini_batch_size_per_gpu req dp_size (int (length rows)) = Inr (int mini)" and "0 < mini" and "mini dvd length rows"
    and "map fst batches = concat (map (\<lambda>e. map (map (\<lambda>i. rows ! i)) (chunks_of mini (order e))) [0..<epochs req])"
    and "length batches = length rows div mini * epochs req"
    and "map snd batches = map (\<lambda>i. i + 1 = length batches) [0..<length batches]"
proof -
  obtain m where m: "mini_batch_size_per_gpu req dp_size (int (length rows)) = Inr m" "m \<noteq> 0" "int (length rows) mod m = 0" "0 < m"
    and batches: "batches = (let bs = concat (map (\<lambda>e. map (map (\<lambda>i. rows ! i)) (chunks_of (nat m) (order e))) [0..<epochs req])
        in map (\<lambda>(idx, b). (b, int idx = int (length rows) div m * int (epochs req) - 1)) (zip [0..<length bs] bs))"
    using assms(1) by (auto simp: train_mini_batch_def make_iterator_def Let_def res_simps)
  define mini where "mini = nat m"
  have mini: "m = int mini" "0 < mini" using m(4) by (simp_all add: mini_def)
  define bs where "bs = concat (map (\<lambda>e. map (map (\<lambda>i. rows ! i)) (chunks_of mini (order e))) [0..<epochs req])"
  have dv: "mini dvd length rows" using m(3) mini by (metis of_nat_mod of_nat_eq_0_iff mod_0_imp_dvd)
  have len: "length (order e) = length rows" for e using assms(2) [of e] by (metis diff_zero length_upt size_mset)
  have "length (map (map (\<lambda>i. rows ! i)) (chunks_of mini (order e))) = length rows div mini" for e
    using chunks_count [of mini "order e"] mini(2) dv by (simp add: len)
  then have "length bs = length [0..<epochs req] * (length rows div mini)"
    unfolding bs_def by (subst length_concat_const [of _ "length rows div mini"]) auto
  then have lens_bs: "length bs = length rows div mini * epochs req" by simp
  define N where "N = length rows div mini * epochs req"
  have "int (length rows) div m * int (epochs req) = int N" using mini by (simp add: N_def of_nat_div)
  then have "batches = map (\<lambda>(idx, b). (b, int idx = int N - 1)) (zip [0..<length bs] bs)"
    using batches by (simp add: bs_def mini_def Let_def)
  then have form: "batches = map (\<lambda>(idx, b). (b, idx + 1 = N)) (zip [0..<length bs] bs)"
    by (simp only: int_pred_iff)
  have "map fst batches = bs" "length batches = length bs" "map snd batches = map (\<lambda>i. i + 1 = N) [0..<length bs]"
    unfolding form by (rule tagged_batches, simp, rule tagged_batches)
  then show ?thesis using that [of mini] m(1) mini dv lens_bs by (simp add: bs_def N_def)
qed

text \<open>What the events of a training step count.\<close>

fun backward_rows :: "'r engine_event \<Rightarrow> 'r multiset" where
  "backward_rows (Backward b) = mset b"
| "backward_rows _ = {#}"

definition rows_seen :: "'r engine_event list \<Rightarrow> 'r multiset" where
  "rows_seen evs = sum_list (map backward_rows evs)"

lemma rows_seen_append [simp]: "rows_seen (xs @ ys) = rows_seen xs + rows_seen ys"
  by (simp add: rows_seen_def)

definition sized :: "('r \<Rightarrow> int) \<Rightarrow> micro_options \<Rightarrow> 'r list \<Rightarrow> bool" where
  "sized len opts rows \<longleftrightarrow> lens_bounded (map len rows) (force_group_size (rearrange opts))"

lemma sized_subset: "sized len opts rows \<Longrightarrow> set b \<subseteq> set rows \<Longrightarrow> sized len opts b"
  by (auto simp: sized_def lens_bounded_def)

lemma micro_batches_cover:
  assumes "prepare_micro_batches opts ar input n = Inr idx" and "length (seq_len_effective input) = n"
    and "lens_bounded (seq_len_effective input) (force_group_size (rearrange opts))"
  shows "mset (concat idx) = mset [0..<n]"
proof (cases "dynamic_bsz opts")
  case True
  then show ?thesis using assms micro_batch_indices_Inr by (auto simp: prepare_micro_batches_def)
next
  case False
  let ?m = "int (force_group_size (rearrange opts)) * micro_batch_size_per_gpu opts"
  have m: "?m \<noteq> 0" "int n div ?m > 0" "idx = chunks_of (nat ?m) [0..<n]"
    using assms(1) False by (auto simp: prepare_micro_batches_def Let_def res_simps)
  then have "0 < ?m" by (metis linorder_neqE_linordered_idom of_nat_0_le_iff div_nonneg_neg_le0 not_less)
  then show ?thesis by (simp add: m(3) concat_chunks_of)
qed

lemma rows_of_micro_batches:
  assumes "mset (concat idx) = mset [0..<length b]"
  shows "rows_seen (map (\<lambda>p. Backward (map (\<lambda>i. b ! i) p)) idx) = mset b"
proof -
  have "rows_seen (map (\<lambda>p. Backward (map (\<lambda>i. b ! i) p)) idx) = mset (map (\<lambda>i. b ! i) (concat idx))"
    by (induction idx) (simp_all add: rows_seen_def)
  also have "\<dots> = image_mset (\<lambda>i. b ! i) (mset [0..<length b])" by (simp only: mset_map assms)
  also have "\<dots> = mset b" by (simp only: mset_map [symmetric] map_nth)
  finally show ?thesis .
qed

lemma count_list_map_Backward: "(\<And>b. e \<noteq> Backward b) \<Longrightarrow> count_list (map (\<lambda>p. Backward (g p)) xs) e = 0"
  by (induction xs) auto

lemma train_batch_events:
  assumes "train_batch opts ar input_of b step_lr = Inr evs" and "seq_len_effective (input_of b) = map len b" and "sized len opts b"
  shows "rows_seen evs = mset b \<and> count_list evs ZeroGrad = 1 \<and> count_list evs OptimizerStep = 1 \<and>
         count_list evs SchedulerStep = of_bool step_lr \<and> last evs = (if step_lr then SchedulerStep else OptimizerStep)"
proof -
  obtain idx where idx: "prepare_micro_batches opts ar (input_of b) (length b) = Inr idx"
    and evs: "evs = ZeroGrad # map (\<lambda>p. Backward (map (\<lambda>i. b ! i) p)) idx @ [OptimizerStep] @ (if step_lr then [SchedulerStep] else [])"
    using assms(1) by (auto simp: train_batch_def res_simps)
  have "mset (concat idx) = mset [0..<length b]" using micro_batches_cover [OF idx] assms(2,3) by (simp add: sized_def)
  then have "rows_seen evs = mset b" using rows_of_micro_batches [of idx b] by (auto simp: evs rows_seen_def)
  moreover have "count_list evs ZeroGrad = 1" "count_list evs OptimizerStep = 1" "count_list evs SchedulerStep = of_bool step_lr"
    by (simp_all add: evs count_list_map_Backward)
  ultimately show ?thesis by (simp add: evs)
qed

lemma all_train_batches:
  assumes "traverse (\<lambda>(b, last_one). train_batch opts ar input_of b last_one) batches = Inr evss"
    and "\<And>b. seq_len_effective (input_of b) = map len b" and "\<forall>b\<in>set (map fst batches). sized len opts b"
  shows "rows_seen (concat evss) = mset (concat (map fst batches)) \<and>
         count_list (concat evss) ZeroGrad = length batches \<and> count_list (concat evss) OptimizerStep = length batches \<and>
         count_list (concat evss) SchedulerStep = length (filter snd batches) \<and>
         (batches \<noteq> [] \<longrightarrow> concat evss \<noteq> [] \<and> last (concat evss) = (if snd (last batches) then SchedulerStep else OptimizerStep))"
  using assms(1,3)
proof (induction batches arbitrary: evss)
  case Nil
  then show ?case by (simp add: rows_seen_def)
next
  case (Cons bf batches)
  obtain b step_lr where bf: "bf = (b, step_lr)" by fastforce
  obtain evs rest where evs: "train_batch opts ar input_of b step_lr = Inr evs"
    and rest: "traverse (\<lambda>(b, last_one). train_batch opts ar input_of b last_one) batches = Inr rest" "evss = evs # rest"
    using Cons.prems(1) by (auto simp: bf res_simps)
  note one = train_batch_events [OF evs assms(2)]
  have sized_b: "sized len opts b" using Cons.prems(2) by (simp add: bf)
  have "rest = []" if "batches = []" using rest(1) that by simp
  moreover have "evs \<noteq> []" using one [OF sized_b] by auto
  ultimately show ?case
    using one [OF sized_b] Cons.IH [OF rest(1)] Cons.prems(2) by (cases "batches = []") (auto simp: rest(2) bf)
qed

lemma set_repeat_mset_subset: "set_mset (repeat_mset n M) \<subseteq> set_mset M"
  by (induction n) auto

lemma rows_of_epochs:
  assumes "\<And>e. mset (order e) = mset [0..<length rows]" and "0 < mini"
  shows "mset (concat (concat (map (\<lambda>e. map (map (\<lambda>i. rows ! i)) (chunks_of mini (order e))) [0..<n]))) =
         repeat_mset n (mset rows)"
proof -
  have "mset (concat (map (map (\<lambda>i. rows ! i)) (chunks_of mini (order e)))) = mset rows" for e
  proof -
    have "mset (concat (map (map (\<lambda>i. rows ! i)) (chunks_of mini (order e)))) = image_mset (\<lambda>i. rows ! i) (mset (order e))"
      using assms(2) by (simp only: map_concat [symmetric] concat_chunks_of mset_map)
    then show ?thesis by (simp only: assms(1) mset_map [symmetric] map_nth)
  qed
  then show ?thesis by (induction n) auto
qed

lemma last_only: "length (filter id (map (\<lambda>i. i + 1 = n) [0..<n])) = of_bool (0 < n)"
  by (cases n) (auto simp: filter_map comp_def length_filter_conv_card intro!: trans [OF arg_cong [of _ "{k}" card for k]])

text \<open>
  C25: An update makes \<open>epochs\<close> passes: every row of the batch is used for a backward pass exactly once per epoch, each
  mini-batch of \<open>mini_batch_size\<close> over the number of ranks makes one optimizer step, and the learning rate is stepped
  once, after the last of them, whatever order the data loader draws and however mini-batches are cut into
  micro-batches.
\<close>

theorem update_schedule:
  assumes "update_events opts ar input_of dp_size order req rows = Inr evs"
    and "\<And>e. mset (order e) = mset [0..<length rows]"
    and "\<And>b. seq_len_effective (input_of b) = map len b" and "sized len opts rows"
    and "rows \<noteq> []" and "0 < epochs req"
  shows "\<exists>mini. mini_batch_size_per_gpu req dp_size (int (length rows)) = Inr (int mini) \<and>
           count_list evs OptimizerStep * mini = length rows * epochs req \<and>
           count_list evs ZeroGrad = count_list evs OptimizerStep \<and>
           count_list evs SchedulerStep = 1 \<and> last evs = SchedulerStep \<and>
           rows_seen evs = repeat_mset (epochs req) (mset rows)"
proof -
  obtain batches evss where batches: "train_mini_batch dp_size order req rows = Inr batches"
    and evss: "traverse (\<lambda>(b, last_one). train_batch opts ar input_of b last_one) batches = Inr evss" and evs: "evs = concat evss"
    using assms(1) by (auto simp: update_events_def res_simps)
  obtain mini where mini: "mini_batch_size_per_gpu req dp_size (int (length rows)) = Inr (int mini)" "0 < mini" "mini dvd length rows"
    and bs: "map fst batches = concat (map (\<lambda>e. map (map (\<lambda>i. rows ! i)) (chunks_of mini (order e))) [0..<epochs req])"
    and len: "length batches = length rows div mini * epochs req"
    and flags: "map snd batches = map (\<lambda>i. i + 1 = length batches) [0..<length batches]"
    using train_mini_batch_form [OF batches assms(2)] by blast
  have seen: "mset (concat (map fst batches)) = repeat_mset (epochs req) (mset rows)"
    unfolding bs by (rule rows_of_epochs [OF assms(2) mini(2)])
  have "set (concat (map fst batches)) = set_mset (repeat_mset (epochs req) (mset rows))"
    using arg_cong [OF seen, of set_mset] by (simp only: set_mset_mset)
  then have "set (concat (map fst batches)) \<subseteq> set rows" using set_repeat_mset_subset [of "epochs req" "mset rows"] by simp
  then have "\<forall>b\<in>set (map fst batches). set b \<subseteq> set rows" by (simp only: set_concat UN_subset_iff)
  then have "\<forall>b\<in>set (map fst batches). sized len opts b"
    using sized_subset [OF assms(4)] by blast
  note counts = all_train_batches [OF evss assms(3) this]
  have pos: "0 < length batches" using mini(2,3) assms(5,6) by (simp add: len div_greater_zero_iff dvd_imp_le)
  have "length (filter snd batches) = length (filter id (map snd batches))" by (simp add: filter_map comp_def)
  then have one: "length (filter snd batches) = 1" using pos by (simp only: flags last_only) simp
  have "snd (last batches) = last (map snd batches)" using pos by (simp add: last_map)
  then have "snd (last batches)" using pos by (simp only: flags) (simp add: last_map)
  moreover have "length batches * mini = length rows * epochs req" using mini(3) by (simp add: len mult.assoc mult.commute)
  ultimately show ?thesis using counts mini(1) pos one seen by (auto simp: evs)
qed

definition masked_rows :: "int list list \<Rightarrow> seq_input" where
  "masked_rows b = PaddedIds b 3"

definition fixed_micro :: micro_options where
  "fixed_micro = \<lparr>dynamic_bsz = False, rearrange = sample_opts, micro_batch_size_per_gpu = 1\<rparr>"

definition sample_rows :: "int list list" where
  "sample_rows = [[1, 1, 0], [1, 0, 0], [1, 1, 1], [1, 0, 1], [0, 1, 0], [0, 1, 1], [0, 0, 1], [0, 0, 0]]"

definition sample_request :: update_request where
  "sample_request = \<lparr>mini_batch_size = Some 8, num_mini_batch = None, epochs = 2\<rparr>"

text \<open>Two ranks, eight rows on each, eight rows in a mini-batch over both ranks: four steps in two epochs.\<close>

lemma update_schedule_witness:
  "\<exists>evs. update_events fixed_micro None masked_rows 2 (\<lambda>e. rev [0..<8]) sample_request sample_rows = Inr evs \<and>
     count_list evs OptimizerStep * 4 = 16 \<and> count_list evs SchedulerStep = 1 \<and> last evs = SchedulerStep \<and>
     rows_seen evs = repeat_mset 2 (mset sample_rows)"
proof -
  obtain evs where evs: "update_events fixed_micro None masked_rows 2 (\<lambda>e. rev [0..<8]) sample_request sample_rows = Inr evs"
    using that by (cases "update_events fixed_micro None masked_rows 2 (\<lambda>e. rev [0..<8]) sample_request sample_rows")
      (code_simp, blast)
  have lens: "seq_len_effective (masked_rows b) = map sum_list b" for b
    by (simp add: masked_rows_def seq_len_effective_def)
  have "sized sum_list fixed_micro sample_rows" by code_simp
  moreover have "length sample_rows = 8" by (simp add: sample_rows_def)
  then have "mset (rev [0..<8]) = mset [0..<length sample_rows]" by (simp only: mset_rev)
  ultimately show ?thesis
    using update_schedule [OF evs _ lens] evs
    by (auto simp: sample_request_def sample_rows_def mini_batch_size_per_gpu_def divisible_or_def py_mod_def py_floordiv_def
        res_simps)
qed

subsection \<open>Updates of a validated configuration\<close>

lemma divisible_or_cases:
  "divisible_or e x y = (if y = 0 then Inl ZeroDivisionError else if x mod y = 0 then Inr () else Inl e)"
  by (simp add: divisible_or_def py_mod_def guard_res_def bind_res_def)

lemma pos_div_dvd: "0 < m \<Longrightarrow> 0 < d \<Longrightarrow> d dvd m \<Longrightarrow> 0 < m div (d :: int)"
  by (auto elim!: dvdE simp: zero_less_mult_iff)

lemma train_mini_batch_cases:
  assumes "mini_batch_size req = Some m" and "0 < m" and "0 < dp_size"
  shows "train_mini_batch dp_size order req rows = Inl AssertionError \<and> \<not> (dp_size dvd m \<and> m div dp_size dvd int (length rows)) \<or>
         (\<exists>batches. train_mini_batch dp_size order req rows = Inr batches) \<and> dp_size dvd m \<and> m div dp_size dvd int (length rows)"
proof (cases "dp_size dvd m")
  case True
  have pos: "0 < m div dp_size" using pos_div_dvd assms(2,3) True by blast
  have size: "mini_batch_size_per_gpu req dp_size (int (length rows)) = Inr (m div dp_size)"
    using assms True by (auto simp: mini_batch_size_per_gpu_def divisible_or_cases py_floordiv_def guard_res_def bind_res_def)
  show ?thesis
  proof (cases "m div dp_size dvd int (length rows)")
    case True
    then show ?thesis using pos \<open>dp_size dvd m\<close>
      by (auto simp: train_mini_batch_def size make_iterator_def divisible_or_cases py_floordiv_def guard_res_def bind_res_def Let_def)
  next
    case False
    then show ?thesis using pos
      by (simp add: train_mini_batch_def size make_iterator_def divisible_or_cases guard_res_def bind_res_def mod_eq_0_iff_dvd)
  qed
next
  case False
  then show ?thesis using assms
    by (simp add: train_mini_batch_def mini_batch_size_per_gpu_def divisible_or_cases guard_res_def bind_res_def mod_eq_0_iff_dvd)
qed

text \<open>
  C27: The validation of a static FSDP configuration makes the responses of a batch divide over the ranks, but it does
  not make the update of the actor succeed: that needs the mini-batch to divide over the ranks and the mini-batches to
  divide the batch, and otherwise the first update stops with an assertion error on every rank.
\<close>

theorem validated_updates:
  assumes "validate_config allowed c use_reference use_critic = Inr ()"
    and "\<not> use_dynamic_bsz (actor c)" and "strategy (actor c) \<noteq> ''megatron''"
    and "0 < total_gpus c" and "0 < sequence_parallel (actor c)" and "sequence_parallel (actor c) dvd total_gpus c"
    and "0 < rollout_n c" and "0 < ppo_mini_batch_size (actor c)"
    and "int (length rows) = train_batch_size c * rollout_n c div fsdp_data_parallel_size c"
  shows "fsdp_data_parallel_size c dvd train_batch_size c * rollout_n c \<and>
         (let dp = fsdp_data_parallel_size c; mini = ppo_mini_batch_size (actor c);
              result = train_mini_batch dp order (update_actor_request c ppo_epochs) rows
          in if dp dvd mini * rollout_n c \<and> mini dvd train_batch_size c then result \<in> range Inr else result = Inl AssertionError)"
proof -
  let ?dp = "fsdp_data_parallel_size c" and ?m = "ppo_mini_batch_size (actor c) * rollout_n c"
  have dp: "0 < ?dp" "?dp dvd total_gpus c"
    using pos_div_dvd [OF assms(4-6)] assms(6) by (auto simp: fsdp_data_parallel_size_def elim!: dvdE)
  have "minimal_batch_size c = Inr (total_gpus c)" using assms(3) by (simp add: minimal_batch_size_def Let_def)
  then have "total_gpus c dvd train_batch_size c * rollout_n c"
    using assms(1,2) by (auto simp: validate_config_def Let_def res_simps)
  then have rows: "?dp dvd train_batch_size c * rollout_n c" using dp(2) by (rule dvd_trans [rotated])
  have "?m div ?dp dvd int (length rows) \<longleftrightarrow> ppo_mini_batch_size (actor c) dvd train_batch_size c" if "?dp dvd ?m"
  proof -
    have "?m div ?dp dvd int (length rows) \<longleftrightarrow> ?m dvd train_batch_size c * rollout_n c"
      using dp(1) rows that by (auto simp: assms(9) elim!: dvdE)
    then show ?thesis using assms(7) by simp
  qed
  moreover have "mini_batch_size (update_actor_request c ppo_epochs) = Some ?m" by (simp add: update_actor_request_def)
  moreover have "0 < ?m" using assms(7,8) by simp
  ultimately show ?thesis
    using train_mini_batch_cases [of "update_actor_request c ppo_epochs" ?m ?dp order rows] dp(1) rows by (auto simp: Let_def)
qed

text \<open>Batches of 32 prompts and mini-batches of 12 pass the validation and fail in the first update.\<close>

definition uneven_run :: run_config where
  "uneven_run = example_run\<lparr>actor := example_actor\<lparr>ppo_mini_batch_size := 12\<rparr>\<rparr>"

lemma validated_updates_witness:
  "validate_config [8, 16] uneven_run True True = Inr () \<and>
   train_mini_batch 8 (\<lambda>e. [0..<16]) (update_actor_request uneven_run 1) (replicate 16 ()) = Inl AssertionError"
proof -
  have valid: "validate_config [8, 16] uneven_run True True = Inr ()" by code_simp
  have params: "\<not> use_dynamic_bsz (actor uneven_run)" "strategy (actor uneven_run) = ''fsdp''" "total_gpus uneven_run = 8"
    "sequence_parallel (actor uneven_run) = 1" "rollout_n uneven_run = 4" "ppo_mini_batch_size (actor uneven_run) = 12"
    "train_batch_size uneven_run = 32" "fsdp_data_parallel_size uneven_run = 8"
    by code_simp+
  show ?thesis
    using validated_updates [OF valid, of "replicate 16 ()" "\<lambda>e. [0..<16]" 1] valid by (simp add: params Let_def)
qed

subsection \<open>Aggregates over ranks\<close>

lemma sum_of_columns:
  "\<forall>xs\<in>set vals. length xs = k \<Longrightarrow>
   sum_list (map (\<lambda>j. sum_list (map (\<lambda>xs. xs ! j) vals)) [0..<k]) = sum_list (concat vals)" for vals :: "real list list"
proof (induction vals)
  case Nil
  then show ?case by simp
next
  case (Cons xs vals)
  have "sum_list (map (\<lambda>j. xs ! j) [0..<k]) = sum_list xs" using Cons.prems by (metis list.set_intros(1) map_nth)
  then show ?case using Cons by (simp add: sum_list_addf)
qed

lemma sum_mean_over_ranks:
  assumes "\<forall>xs\<in>set vals. length xs = length (hd vals)"
  shows "sum_list (mean_over_ranks vals) = sum_list (concat vals) / real (length vals)"
proof -
  have "mean_over_ranks vals = map (\<lambda>j. sum_list (map (\<lambda>xs. xs ! j) vals) * (1 / real (length vals))) [0..<length (hd vals)]"
    by (simp add: mean_over_ranks_def mean_list_def)
  then show ?thesis using sum_of_columns [OF assms] by (simp only: sum_list_mult_const) simp
qed

text \<open>
  Aggregating a metric over the data-parallel ranks, when every rank recorded the same number of values, gives for a
  mean the mean of all values, for extrema the extremum of all values, and for a sum the sum of all values over the
  number of ranks; ranks with different numbers of values raise a value error.
\<close>

theorem aggregate_dp_over_ranks:
  assumes "ms \<noteq> []" and "m_values (hd ms) \<noteq> []"
  shows "aggregate_dp ms =
           (let vals = concat (map m_values ms)
            in if \<forall>m\<in>set ms. length (m_values m) = length (m_values (hd ms))
               then Inr (Some (case aggregation_type (hd ms) of
                                 Mean \<Rightarrow> mean_list vals
                               | Sum \<Rightarrow> sum_list vals / real (length ms)
                               | Minimum \<Rightarrow> Min (set vals)
                               | Maximum \<Rightarrow> Max (set vals)))
               else Inl ValueError)"
proof (cases "\<forall>m\<in>set ms. length (m_values m) = length (m_values (hd ms))")
  case True
  let ?vals = "map m_values ms"
  have first: "hd ?vals = m_values (hd ms)" using assms(1) by (rule hd_map)
  have same: "\<forall>xs\<in>set ?vals. length xs = length (hd ?vals)" unfolding first using True by (simp only: set_map ball_simps)
  have all_eq: "list_all (\<lambda>xs. length xs = length (hd ?vals)) ?vals" using same by (simp only: list_all_iff)
  have "length (concat ?vals) = length ?vals * length (hd ?vals)"
    using same by (intro length_concat_const) blast
  then have "length (concat ?vals) = length ms * length (m_values (hd ms))" by (simp only: first length_map)
  moreover have ranks: "length (mean_over_ranks ?vals) = length (m_values (hd ms))"
    by (simp only: mean_over_ranks_def first length_map length_upt minus_nat.diff_0)
  ultimately have "mean_list (mean_over_ranks ?vals) = mean_list (concat ?vals)"
    by (simp only: mean_list_def sum_mean_over_ranks [OF same] length_map of_nat_mult divide_divide_eq_left)
  moreover have "mean_over_ranks ?vals \<noteq> []" using ranks assms(2) by force
  moreover have "concat ?vals \<noteq> []" using assms by (cases ms) auto
  ultimately show ?thesis
    unfolding aggregate_dp_def Let_def guard_res_def if_P [OF True]
    using all_eq assms(1) first sum_mean_over_ranks [OF same]
    by (cases "aggregation_type (hd ms)") (simp_all only: aggregate_values_def guard_res_def aggregation.simps if_True if_False
        not_False_eq_True length_map simp_thms)
next
  case False
  then have "\<not> list_all (\<lambda>xs. length xs = length (hd (map m_values ms))) (map m_values ms)"
    by (simp only: list_all_iff hd_map [OF assms(1)] set_map ball_simps not_False_eq_True)
  then show ?thesis unfolding aggregate_dp_def Let_def guard_res_def if_not_P [OF False]
    using assms(1) by (simp only: if_False if_True not_False_eq_True simp_thms)
qed

lemma aggregate_dp_over_ranks_witness:
  "aggregate_dp [\<lparr>aggregation_type = Sum, m_values = [1, 2]\<rparr>, \<lparr>aggregation_type = Sum, m_values = [3, 6]\<rparr>] = Inr (Some 6)"
  by (subst aggregate_dp_over_ranks) (simp_all add: Let_def)

end
