(* ===== verification/ToolCalls.thy ===== *)
theory ToolCalls
  imports Prelude PyText
begin

section \<open>Tool calls in responses\<close>

text \<open>
  Models the parsers of tool calls (\<open>src/verl/experimental/agent_loop/tool_parser.py\<close>), the execution
  of a call by \<open>ToolAgentLoop._call_tool\<close> with the truncation of its response
  (\<open>tool_agent_loop.py\<close>), and the manual formatting of tool responses (\<open>utils.py\<close>).
  The JSON library, the evaluation of Python expressions, and the tools themselves are arguments.
\<close>

subsection \<open>Matching\<close>

text \<open>\<open>findall\<close>: the matcher gives the captured value and the (positive) length of a match.\<close>

fun all_from :: "(string \<Rightarrow> ('a \<times> nat) option) \<Rightarrow> nat \<Rightarrow> string \<Rightarrow> 'a list" where
  "all_from m n [] = []"
| "all_from m n (c # cs) =
     (if 0 < n then all_from m (n - 1) cs
      else (case m (c # cs) of
              None \<Rightarrow> all_from m 0 cs
            | Some (v, k) \<Rightarrow> v # all_from m (k - 1) cs))"

definition find_all :: "(string \<Rightarrow> ('a \<times> nat) option) \<Rightarrow> string \<Rightarrow> 'a list" where
  "find_all m s = all_from m 0 s"

text \<open>An opening text, the shortest body, and a closing text.\<close>

definition enclosed :: "string \<Rightarrow> string \<Rightarrow> string \<Rightarrow> (string \<times> nat) option" where
  "enclosed open_tag close_tag s =
     (if starts_with open_tag s
      then (let r = drop (length open_tag) s
            in map_option (\<lambda>i. (take i r, length open_tag + i + length close_tag)) (find_first close_tag r))
      else None)"

text \<open>Without its closing text, a body runs to the end; the lazy one stops before a final newline.\<close>

definition newline :: char where
  "newline = CHR 0x0A"

definition before_final_newline :: "string \<Rightarrow> string" where
  "before_final_newline r = (if r \<noteq> [] \<and> last r = newline then butlast r else r)"

definition enclosed_or_rest :: "bool \<Rightarrow> string \<Rightarrow> string \<Rightarrow> string \<Rightarrow> (string \<times> nat) option" where
  "enclosed_or_rest lazy open_tag close_tag s =
     (case enclosed open_tag close_tag s of
        Some m \<Rightarrow> Some m
      | None \<Rightarrow>
          if starts_with open_tag s
          then (let r = drop (length open_tag) s; body = (if lazy then before_final_newline r else r)
                in Some (body, length open_tag + length body))
          else None)"

subsection \<open>The parser for Hermes\<close>

record function_call =
  call_name :: string
  call_arguments :: string

abbreviation tool_open :: string where
  "tool_open \<equiv> ''<tool_call>''"

abbreviation tool_close :: string where
  "tool_close \<equiv> ''</tool_call>''"

text \<open>\<open>read_call\<close> loads the JSON of a call and dumps its arguments; none if anything raises.\<close>

definition hermes_calls :: "(string \<Rightarrow> function_call option) \<Rightarrow> string \<Rightarrow> string \<times> function_call list" where
  "hermes_calls read_call s =
     (if \<not> contains tool_open s \<or> \<not> contains tool_close s then (s, [])
      else (re_sub (\<lambda>t. map_option (\<lambda>(b, n). ([], n)) (enclosed tool_open tool_close t)) s,
            List.map_filter read_call (find_all (enclosed tool_open tool_close) s)))"

subsection \<open>The parser for gpt-oss\<close>

definition cot_match :: "string \<Rightarrow> (string \<times> nat) option" where
  "cot_match s = map_option (\<lambda>(b, n). ([], n)) (enclosed ''<|start|>assistant<|channel|>analysis<|message|>'' ''<|end|>'' s)"

definition partial_cot_match :: "string \<Rightarrow> (string \<times> nat) option" where
  "partial_cot_match s = map_option (\<lambda>(b, n). ([], n)) (enclosed ''<|channel|>analysis<|message|>'' ''<|end|>'' s)"

text \<open>
  A call: the channel up to the next angle bracket ends with the recipient and a name; both runs
  exclude that bracket and are greedy, so the recipient is the last one that leaves room for a name and the blank.
\<close>

definition recipient :: string where
  "recipient = '' to=functions.''"

definition gpt_oss_match :: "string \<Rightarrow> ((string \<times> string) \<times> nat) option" where
  "gpt_oss_match s =
     (let pre = ''<|start|>assistant<|channel|>''
      in if \<not> starts_with pre s then None
         else (let r = drop (length pre) s; head = takeWhile (\<lambda>c. c \<noteq> CHR ''<'') r; rest = drop (length head) r;
                   mark = ''<|constrain|>json<|message|>''
               in case find_last recipient (take (length head - 2) head) of
                    None \<Rightarrow> None
                  | Some i \<Rightarrow>
                      (let name = drop (i + length recipient) head
                       in if last name \<noteq> CHR '' '' \<or> \<not> starts_with mark rest then None
                          else map_option
                            (\<lambda>j. ((butlast name, take j (drop (length mark) rest)),
                                  length pre + length head + length mark + j + length ''<|call|>''))
                            (find_first ''<|call|>'' (drop (length mark) rest)))))"

definition gpt_oss_calls :: "string \<Rightarrow> string \<Rightarrow> string \<times> function_call list" where
  "gpt_oss_calls pad_token s0 =
     (let s1 = (if pad_token = [] then s0 else py_replace pad_token [] s0); s2 = re_sub cot_match s1; s = re_sub partial_cot_match s2;
          ms = find_all gpt_oss_match s
      in if ms = [] then (s, [])
         else (re_sub (\<lambda>t. map_option (\<lambda>(v, n). ([], n)) (gpt_oss_match t)) s,
               map (\<lambda>(nm, args). \<lparr>call_name = nm, call_arguments = args\<rparr>) ms))"

subsection \<open>The parser for Qwen3\<close>

text \<open>The schemas of the tools: type and name, and the declared type of each parameter.\<close>

record tool_schema =
  schema_type :: string
  schema_name :: string
  properties :: "(string, string option) dict"

definition get_arguments_config :: "tool_schema list \<Rightarrow> string \<Rightarrow> (string, string option) dict" where
  "get_arguments_config tools func_name =
     (case find (\<lambda>t. schema_type t = ''function'' \<and> schema_name t = func_name) tools of
        None \<Rightarrow> []
      | Some t \<Rightarrow> properties t)"

text \<open>\<open>Other\<close> is what the JSON library or the evaluation of a Python expression returns.\<close>

datatype 'j param_value =
    Null
  | Text string
  | Whole int
  | Real bool int int
  | Truth bool
  | Other 'j

definition starts_with_any :: "string list \<Rightarrow> string \<Rightarrow> bool" where
  "starts_with_any ps s \<longleftrightarrow> list_ex (\<lambda>p. starts_with p s) ps"

text \<open>A float that is whole becomes an integer; infinite values and values that are no number stay texts.\<close>

definition float_param :: "string \<Rightarrow> 'j param_value" where
  "float_param v =
     (case py_float_of v of
        Some (Finite neg m e) \<Rightarrow>
          (let t = trunc_double m e
           in if e < 0 \<and> t * 2 ^ nat (- e) \<noteq> m then Real neg m e else Whole (if neg then - t else t))
      | _ \<Rightarrow> Text v)"

definition convert_param_value ::
  "(string \<Rightarrow> 'j option) \<Rightarrow> (string \<Rightarrow> 'j option) \<Rightarrow> string \<Rightarrow> string \<Rightarrow> (string, string option) dict \<Rightarrow> 'j param_value" where
  "convert_param_value json_loads py_eval v name cfg =
     (if py_lower v = ''null'' then Null
      else case dict_get cfg name of
        None \<Rightarrow> Text v
      | Some declared \<Rightarrow>
          (let t = (case declared of Some d \<Rightarrow> py_lower (py_strip d) | None \<Rightarrow> ''string'')
           in if t \<in> {''string'', ''str'', ''text'', ''varchar'', ''char'', ''enum''} then Text v
              else if starts_with_any [''int'', ''uint'', ''long'', ''short'', ''unsigned''] t
                then (case py_int v of Some k \<Rightarrow> Whole k | None \<Rightarrow> Text v)
              else if starts_with_any [''num'', ''float''] t then float_param v
              else if t \<in> {''boolean'', ''bool'', ''binary''} then Truth (py_lower v = ''true'')
              else (case (if t = ''object'' \<or> starts_with ''dict'' t then json_loads v else None) of
                      Some j \<Rightarrow> Other j
                    | None \<Rightarrow> (case py_eval v of Some j \<Rightarrow> Other j | None \<Rightarrow> Text v))))"

text \<open>A value without one newline at its start and one at its end.\<close>

definition trim_newlines :: "string \<Rightarrow> string" where
  "trim_newlines v =
     (let v1 = (if v \<noteq> [] \<and> hd v = newline then tl v else v)
      in if v1 \<noteq> [] \<and> last v1 = newline then butlast v1 else v1)"

abbreviation function_open :: string where "function_open \<equiv> ''<function=''"
abbreviation function_close :: string where "function_close \<equiv> ''</function>''"
abbreviation param_open :: string where "param_open \<equiv> ''<parameter=''"
abbreviation param_close :: string where "param_close \<equiv> ''</parameter>''"

text \<open>Splitting at the first closing bracket; \<open>index\<close> raises without one.\<close>

definition split_name :: "string \<Rightarrow> (string \<times> string) result" where
  "split_name s =
     (case find_first ''>'' s of
        None \<Rightarrow> Inl ValueError
      | Some i \<Rightarrow> Inr (take i s, drop (i + 1) s))"

record 'j python_ops =
  loads :: "string \<Rightarrow> 'j option"
  evals :: "string \<Rightarrow> 'j option"
  dumps :: "(string, 'j param_value) dict \<Rightarrow> string option"

definition parse_xml_function_call :: "'j python_ops \<Rightarrow> tool_schema list \<Rightarrow> string \<Rightarrow> function_call result" where
  "parse_xml_function_call ops tools s =
     bind_res (split_name s) (\<lambda>(func, parameters).
       let cfg = get_arguments_config tools func
       in bind_res (fold_res (\<lambda>text d. bind_res (split_name text) (\<lambda>(name, v).
              Inr (dict_set name (convert_param_value (loads ops) (evals ops) (trim_newlines v) name cfg) d)))
            (find_all (enclosed_or_rest True param_open param_close) parameters) [])
          (\<lambda>d. case dumps ops d of None \<Rightarrow> Inl TypeError | Some a \<Rightarrow> Inr \<lparr>call_name = func, call_arguments = a\<rparr>))"

definition get_function_calls :: "string \<Rightarrow> string list" where
  "get_function_calls s =
     (let raw = find_all (enclosed_or_rest True tool_open tool_close) s
      in concat (map (find_all (enclosed_or_rest False function_open function_close)) (if raw = [] then [s] else raw)))"

text \<open>Whatever raises leaves the text without calls.\<close>

definition qwen3_calls :: "'j python_ops \<Rightarrow> tool_schema list \<Rightarrow> string \<Rightarrow> string \<times> function_call list" where
  "qwen3_calls ops tools s =
     (case find_first tool_open s of
        None \<Rightarrow> (s, [])
      | Some i \<Rightarrow>
          (case traverse (parse_xml_function_call ops tools) (get_function_calls s) of
             Inl e \<Rightarrow> (s, [])
           | Inr [] \<Rightarrow> (s, [])
           | Inr calls \<Rightarrow> (take i s, calls)))"

subsection \<open>Executing a call\<close>

record 'i tool_response =
  tr_text :: "string option"
  tr_image :: "'i option list"
  tr_video :: bool

text \<open>
  Reading JSON: a value, text that is no JSON with the message of the decoder, or another error: the reader raises a plain
  ValueError for an integer of too many digits and RecursionError for too deep a nesting.
\<close>

datatype 'j json_outcome = Loaded 'j | Malformed string | Load_raises py_error

text \<open>The tools as seen by one call: their instances, executions and errors; instances may have an empty identifier.\<close>

record ('i, 'j) tool_ops =
  json_loads :: "string \<Rightarrow> 'j json_outcome"
  show_names :: "string list \<Rightarrow> string"
  error_text :: "py_error \<Rightarrow> string"
  create_tool :: "string \<Rightarrow> string result"
  execute_tool :: "string \<Rightarrow> string \<Rightarrow> 'j \<Rightarrow> ('i tool_response \<times> real option) result"
  release_tool :: "string \<Rightarrow> string \<Rightarrow> unit result"

datatype tool_event = Created string string | Executed string string | Released string string

definition text_response :: "string \<Rightarrow> 'i tool_response" where
  "text_response s = \<lparr>tr_text = Some s, tr_image = [], tr_video = False\<rparr>"

definition truncate_text :: "string \<Rightarrow> int \<Rightarrow> string \<Rightarrow> string" where
  "truncate_text side n s =
     (if s \<noteq> [] \<and> int (length s) > n
      then if side = ''left'' then py_slice None (Some n) s @ ''...(truncated)''
           else if side = ''right'' then ''(truncated)...'' @ py_slice (Some (- n)) None s
           else (let l = n div 2 in py_slice None (Some l) s @ ''...(truncated)...'' @ py_slice (Some (- l)) None s)
      else s)"

definition quoted :: "string \<Rightarrow> string" where
  "quoted s = CHR 0x27 # s @ [CHR 0x27]"

text \<open>
  The result and what the tool saw. Of the errors of reading the arguments, malformed text and TypeError are caught; the release in
  the \<open>finally\<close> clause may itself raise.
\<close>

definition call_tool ::
  "('i, 'j) tool_ops \<Rightarrow> string \<Rightarrow> int \<Rightarrow> string list \<Rightarrow> function_call \<Rightarrow>
   ('i tool_response \<times> real option) result \<times> tool_event list" where
  "call_tool ops side limit active call =
     (let name = call_name call;
          failed = (\<lambda>e. (text_response (''Error executing tool '' @ quoted name @ '': '' @ error_text ops e), Some 0 :: real option));
          invalid = (\<lambda>msg. (text_response (''Invalid JSON in arguments for '' @ quoted name @ '': '' @ msg), Some 0))
      in if name \<notin> set active
         then (Inr (text_response (''Unknown function '' @ quoted name @ ''. Available tools: '' @ show_names ops active), Some 0), [])
         else case json_loads ops (call_arguments call) of
           Malformed msg \<Rightarrow> (Inr (invalid msg), [])
         | Load_raises e \<Rightarrow> (if e = TypeError then Inr (invalid (error_text ops e)) else Inl e, [])
         | Loaded args \<Rightarrow>
             (case create_tool ops name of
                Inl e \<Rightarrow> (Inr (failed e), [])
              | Inr k \<Rightarrow>
                  (let outcome = (case execute_tool ops name k args of
                         Inl e \<Rightarrow> failed e
                       | Inr (r, reward) \<Rightarrow> (r\<lparr>tr_text := map_option (truncate_text side limit) (tr_text r)\<rparr>, reward));
                       seen = [Created name k, Executed name k]
                   in if k = [] then (Inr outcome, seen)
                      else (case release_tool ops name k of
                              Inl e \<Rightarrow> (Inl e, seen @ [Released name k])
                            | Inr u \<Rightarrow> (Inr outcome, seen @ [Released name k])))))"

subsection \<open>Manual formatting of tool responses\<close>

definition format_gpt_oss_tool_response_manually :: "string \<Rightarrow> string \<Rightarrow> string" where
  "format_gpt_oss_tool_response_manually response name =
     ''<|start|>functions.'' @ name @ '' to=assistant<|channel|>commentary<|message|>'' @ response @ ''<|end|>''"

definition add_generation_prompt_for_gpt_oss :: "string \<Rightarrow> string" where
  "add_generation_prompt_for_gpt_oss s = s @ ''<|start|>assistant''"

definition build_gpt_oss_tool_response_text :: "string list \<Rightarrow> string list \<Rightarrow> string result" where
  "build_gpt_oss_tool_response_text contents names =
     guard_res (length contents \<le> length names) IndexError
       (Inr (add_generation_prompt_for_gpt_oss (concat (map2 format_gpt_oss_tool_response_manually contents names))))"

subsection \<open>Texts made of marked bodies\<close>

text \<open>Pieces of text with bodies between an opening and a closing text after each but the last.\<close>

definition marked :: "string \<Rightarrow> string \<Rightarrow> string \<Rightarrow> (string \<times> string) list \<Rightarrow> string" where
  "marked open_tag close_tag c0 bcs = c0 @ concat (map (\<lambda>(b, c). open_tag @ b @ close_tag @ c) bcs)"

definition tag_like :: "string \<Rightarrow> bool" where
  "tag_like p \<longleftrightarrow> (\<exists>q. p = CHR ''<'' # q \<and> CHR ''<'' \<notin> set q)"

lemma starts_with_iff: "starts_with p s \<longleftrightarrow> (\<exists>r. s = p @ r)"
  by (auto simp: starts_with_def) (metis append_take_drop_id)

lemma not_across:
  assumes "tag_like p" and "b \<noteq> []" and "\<not> starts_with p b"
  shows "\<not> starts_with p (b @ CHR ''<'' # r)"
proof
  assume "starts_with p (b @ CHR ''<'' # r)"
  then obtain t where t: "b @ CHR ''<'' # r = p @ t" by (auto simp: starts_with_iff)
  obtain q where q: "p = CHR ''<'' # q" "CHR ''<'' \<notin> set q" using assms(1) by (auto simp: tag_like_def)
  then consider us where "b = p @ us" | us where "b @ us = p" "CHR ''<'' # r = us @ t"
    using t unfolding append_eq_append_conv2 by blast
  then show False
  proof cases
    case 1
    then show False using assms(3) by (auto simp: starts_with_iff)
  next
    case 2
    show False
    proof (cases us)
      case Nil
      then show False using 2 assms(3) by (auto simp: starts_with_iff)
    next
      case (Cons u vs)
      then have "u = CHR ''<''" using 2 by auto
      moreover have "u \<in> set q" using 2 Cons assms(2) q(1) by (cases b) auto
      ultimately show False using q(2) by simp
    qed
  qed
qed

definition continues :: "string \<Rightarrow> bool" where
  "continues r \<longleftrightarrow> (r = [] \<or> hd r = CHR ''<'')"

lemma no_start_in_piece:
  assumes "tag_like p" and "\<not> contains p (c # cs)" and "continues r"
  shows "\<not> starts_with p ((c # cs) @ r)"
  using assms not_across [OF assms(1), of "c # cs" "tl r"] by (cases r) (auto simp: continues_def)

lemma find_first_after:
  assumes "tag_like p" and "\<not> contains p b"
  shows "find_first p (b @ p @ r) = Some (length b)"
  using assms(2)
proof (induction b)
  case Nil
  then show ?case using assms(1) by (cases p) (auto simp: tag_like_def)
next
  case (Cons c cs)
  have "continues (p @ r)" using assms(1) by (auto simp: tag_like_def continues_def)
  then have "\<not> starts_with p ((c # cs) @ p @ r)" using no_start_in_piece assms(1) Cons.prems by blast
  then show ?case using Cons by simp
qed

lemma skip_matched: "all_from m (length xs) (xs @ ys) = all_from m 0 ys" "sub_from n (length xs) (xs @ ys) = sub_from n 0 ys"
  by (induction xs) auto

lemma skip_piece:
  assumes "tag_like p" and "\<And>t. \<not> starts_with p t \<Longrightarrow> m t = None" and "\<not> contains p c" and "continues r"
  shows "all_from m 0 (c @ r) = all_from m 0 r"
  using assms(3)
proof (induction c)
  case (Cons a c)
  then have "m ((a # c) @ r) = None" using no_start_in_piece assms by blast
  then show ?case using Cons by simp
qed simp

lemma keep_piece:
  assumes "tag_like p" and "\<And>t. \<not> starts_with p t \<Longrightarrow> m t = None" and "\<not> contains p c" and "continues r"
  shows "sub_from m 0 (c @ r) = c @ sub_from m 0 r"
  using assms(3)
proof (induction c)
  case (Cons a c)
  then have "m ((a # c) @ r) = None" using no_start_in_piece assms by blast
  then show ?case using Cons by simp
qed simp

text \<open>What a matcher of marked bodies must do for \<open>findall\<close> and \<open>sub\<close> to see exactly the bodies.\<close>

definition matches_tags :: "string \<Rightarrow> string \<Rightarrow> (string \<Rightarrow> ('a \<times> nat) option) \<Rightarrow> (string \<Rightarrow> 'a) \<Rightarrow> bool" where
  "matches_tags open_tag close_tag m f \<longleftrightarrow>
     (\<forall>t. \<not> starts_with open_tag t \<longrightarrow> m t = None) \<and>
     (\<forall>b r. \<not> contains close_tag b \<longrightarrow>
        m (open_tag @ b @ close_tag @ r) = Some (f b, length open_tag + length b + length close_tag))"

lemma enclosed_matches: "tag_like close_tag \<Longrightarrow> matches_tags open_tag close_tag (enclosed open_tag close_tag) (\<lambda>b. b)"
  by (auto simp: matches_tags_def enclosed_def find_first_after)

lemma enclosed_or_rest_matches:
  "tag_like close_tag \<Longrightarrow> matches_tags open_tag close_tag (enclosed_or_rest lazy open_tag close_tag) (\<lambda>b. b)"
  by (auto simp: matches_tags_def enclosed_or_rest_def enclosed_def find_first_after split: option.splits)

lemma deleting_matches: "matches_tags o_tag c_tag m f \<Longrightarrow> matches_tags o_tag c_tag (\<lambda>t. map_option (\<lambda>(b, n). (g b, n)) (m t)) (\<lambda>b. g (f b))"
  by (auto simp: matches_tags_def)

definition plain_pieces :: "string \<Rightarrow> string \<Rightarrow> string \<Rightarrow> (string \<times> string) list \<Rightarrow> bool" where
  "plain_pieces open_tag close_tag c0 bcs \<longleftrightarrow>
     \<not> contains open_tag c0 \<and> (\<forall>(b, c)\<in>set bcs. \<not> contains close_tag b \<and> \<not> contains open_tag c)"

lemma continues_marked: "tag_like open_tag \<Longrightarrow> continues (concat (map (\<lambda>(b, c). open_tag @ b @ close_tag @ c) bcs))"
  by (cases bcs) (auto simp: continues_def tag_like_def)

lemma marked_Cons: "marked o_tag c_tag c0 ((b, c) # bcs) = c0 @ (o_tag @ b @ c_tag @ marked o_tag c_tag c bcs)"
  by (simp add: marked_def)

lemma one_match:
  assumes "matches_tags o_tag c_tag m f" and "tag_like o_tag" and "\<not> contains c_tag b"
  shows "all_from m 0 (o_tag @ b @ c_tag @ r) = f b # all_from m 0 r"
proof -
  obtain q where q: "o_tag = CHR ''<'' # q" using assms(2) by (auto simp: tag_like_def)
  have "m (o_tag @ b @ c_tag @ r) = Some (f b, length o_tag + length b + length c_tag)"
    using assms(1,3) by (simp add: matches_tags_def)
  then have "all_from m 0 (o_tag @ b @ c_tag @ r) = f b # all_from m (length (q @ b @ c_tag)) ((q @ b @ c_tag) @ r)"
    by (simp add: q add.assoc)
  then show ?thesis by (simp only: skip_matched)
qed

lemma one_substitution:
  assumes "matches_tags o_tag c_tag m f" and "tag_like o_tag" and "\<not> contains c_tag b"
  shows "sub_from m 0 (o_tag @ b @ c_tag @ r) = f b @ sub_from m 0 r"
proof -
  obtain q where q: "o_tag = CHR ''<'' # q" using assms(2) by (auto simp: tag_like_def)
  have "m (o_tag @ b @ c_tag @ r) = Some (f b, length o_tag + length b + length c_tag)"
    using assms(1,3) by (simp add: matches_tags_def)
  then have "sub_from m 0 (o_tag @ b @ c_tag @ r) = f b @ sub_from m (length (q @ b @ c_tag)) ((q @ b @ c_tag) @ r)"
    by (simp add: q add.assoc)
  then show ?thesis by (simp only: skip_matched)
qed

lemma find_all_marked:
  assumes m: "matches_tags o_tag c_tag m f" and tags: "tag_like o_tag" and "plain_pieces o_tag c_tag c0 bcs"
  shows "find_all m (marked o_tag c_tag c0 bcs) = map (\<lambda>(b, c). f b) bcs"
  using assms(3) unfolding find_all_def
proof (induction bcs arbitrary: c0)
  case Nil
  have "all_from m 0 (c0 @ []) = all_from m 0 []"
    using Nil m tags by (intro skip_piece) (auto simp: matches_tags_def plain_pieces_def continues_def)
  then show ?case by (simp add: marked_def)
next
  case (Cons bc bcs)
  obtain b c where bc: "bc = (b, c)" by fastforce
  have plain: "\<not> contains o_tag c0" "\<not> contains c_tag b" "plain_pieces o_tag c_tag c bcs"
    using Cons.prems by (auto simp: plain_pieces_def bc)
  have "continues (o_tag @ b @ c_tag @ marked o_tag c_tag c bcs)" using tags by (auto simp: continues_def tag_like_def)
  then have "all_from m 0 (marked o_tag c_tag c0 (bc # bcs)) = all_from m 0 (o_tag @ b @ c_tag @ marked o_tag c_tag c bcs)"
    unfolding bc marked_Cons using m plain(1) tags by (intro skip_piece) (auto simp: matches_tags_def)
  then show ?case using one_match [OF m tags plain(2)] Cons.IH [OF plain(3)] by (simp add: bc)
qed

lemma re_sub_marked:
  assumes m: "matches_tags o_tag c_tag m f" and tags: "tag_like o_tag" and "plain_pieces o_tag c_tag c0 bcs"
  shows "re_sub m (marked o_tag c_tag c0 bcs) = c0 @ concat (map (\<lambda>(b, c). f b @ c) bcs)"
  using assms(3) unfolding re_sub_def
proof (induction bcs arbitrary: c0)
  case Nil
  have "sub_from m 0 (c0 @ []) = c0 @ sub_from m 0 []"
    using Nil m tags by (intro keep_piece) (auto simp: matches_tags_def plain_pieces_def continues_def)
  then show ?case by (simp add: marked_def)
next
  case (Cons bc bcs)
  obtain b c where bc: "bc = (b, c)" by fastforce
  have plain: "\<not> contains o_tag c0" "\<not> contains c_tag b" "plain_pieces o_tag c_tag c bcs"
    using Cons.prems by (auto simp: plain_pieces_def bc)
  have "continues (o_tag @ b @ c_tag @ marked o_tag c_tag c bcs)" using tags by (auto simp: continues_def tag_like_def)
  then have "sub_from m 0 (marked o_tag c_tag c0 (bc # bcs)) = c0 @ sub_from m 0 (o_tag @ b @ c_tag @ marked o_tag c_tag c bcs)"
    unfolding bc marked_Cons using m plain(1) tags by (intro keep_piece) (auto simp: matches_tags_def)
  then show ?case using one_substitution [OF m tags plain(2)] Cons.IH [OF plain(3)] by (simp add: bc)
qed

lemma contains_within: "p \<noteq> [] \<Longrightarrow> contains p (xs @ p @ ys)"
proof (induction xs)
  case Nil
  then show ?case by (cases p) auto
qed simp

lemma contains_free: "tag_like p \<Longrightarrow> CHR ''<'' \<notin> set c \<Longrightarrow> contains p (c @ r) = contains p r"
  by (induction c) (auto simp: tag_like_def)

lemma contains_tag:
  assumes "tag_like p" and "tag_like w" and "\<not> starts_with p (w @ r)"
  shows "contains p (w @ r) = contains p r"
proof -
  obtain q where q: "w = CHR ''<'' # q" "CHR ''<'' \<notin> set q" using assms(2) by (auto simp: tag_like_def)
  show ?thesis using assms(3) contains_free [OF assms(1) q(2)] by (simp add: q(1))
qed

lemma free_not_contains: "tag_like p \<Longrightarrow> CHR ''<'' \<notin> set c \<Longrightarrow> \<not> contains p c"
  by (auto dest: contains_set simp: tag_like_def)

lemma tags [simp]:
  "tag_like tool_open" "tag_like tool_close" "tag_like function_open" "tag_like function_close" "tag_like param_open" "tag_like param_close"
  by (simp_all add: tag_like_def)

text \<open>
  The Hermes parser returns exactly the bodies between the markers, in their order and read as calls where they can
  be, and the text around them, if the texts outside contain no opening marker and the bodies no closing one; a text
  without both markers is returned unchanged with no calls.
\<close>

theorem hermes_reads_calls:
  assumes "plain_pieces tool_open tool_close c0 bcs"
  shows "hermes_calls read_call (marked tool_open tool_close c0 bcs) =
           (c0 @ concat (map snd bcs), List.map_filter read_call (map fst bcs))"
proof (cases bcs)
  case Nil
  then show ?thesis using assms by (simp add: hermes_calls_def marked_def plain_pieces_def map_filter_def)
next
  case (Cons bc rest)
  obtain b c where bc: "bc = (b, c)" by fastforce
  let ?s = "marked tool_open tool_close c0 bcs"
  have "contains tool_open ?s" unfolding Cons bc marked_Cons by (rule contains_within) simp
  moreover have "contains tool_close ((c0 @ tool_open @ b) @ tool_close @ marked tool_open tool_close c rest)"
    by (rule contains_within) simp
  then have "contains tool_close ?s" unfolding Cons bc marked_Cons by (simp only: append_assoc)
  moreover have m: "matches_tags tool_open tool_close (enclosed tool_open tool_close) (\<lambda>b. b)" by (rule enclosed_matches) simp
  have "find_all (enclosed tool_open tool_close) ?s = map fst bcs"
    using find_all_marked [OF m _ assms] by (simp add: case_prod_beta' comp_def)
  moreover have "re_sub (\<lambda>t. map_option (\<lambda>(b, n). ([], n)) (enclosed tool_open tool_close t)) ?s = c0 @ concat (map snd bcs)"
    using re_sub_marked [OF deleting_matches [OF m, of "\<lambda>b. []"] _ assms] by (simp add: case_prod_beta' comp_def)
  ultimately show ?thesis by (simp only: hermes_calls_def) simp
qed

definition read_named :: "string \<Rightarrow> function_call option" where
  "read_named b = (if b = [] then None else Some \<lparr>call_name = b, call_arguments = ''[]''\<rparr>)"

lemma hermes_reads_calls_witness:
  "hermes_calls read_named ''a<tool_call>x</tool_call>b<tool_call></tool_call><tool_call>y</tool_call>'' =
   (''ab'', [\<lparr>call_name = ''x'', call_arguments = ''[]''\<rparr>, \<lparr>call_name = ''y'', call_arguments = ''[]''\<rparr>])"
proof -
  let ?bcs = "[(''x'', ''b''), ('''', ''''), (''y'', '''')]"
  have "plain_pieces tool_open tool_close ''a'' ?bcs" by code_simp
  from hermes_reads_calls [OF this, of read_named] show ?thesis by (simp add: marked_def read_named_def map_filter_def)
qed

text \<open>The text of a call with the parameters on lines of their own.\<close>

definition qwen3_params :: "string \<Rightarrow> (string \<times> string) list \<Rightarrow> string" where
  "qwen3_params name params =
     marked param_open param_close (name @ ''>'' @ [newline])
       (map (\<lambda>(k, v). (k @ ''>'' @ newline # v @ [newline], [newline])) params)"

definition qwen3_text :: "string \<Rightarrow> string \<Rightarrow> (string \<times> string) list \<Rightarrow> string \<Rightarrow> string" where
  "qwen3_text content name params ending =
     marked tool_open tool_close content
       [(marked function_open function_close [newline] [(qwen3_params name params, [newline])], ending)]"

lemma split_name_at: "CHR ''>'' \<notin> set k \<Longrightarrow> split_name (k @ CHR ''>'' # v) = Inr (k, v)"
proof -
  assume "CHR ''>'' \<notin> set k"
  then have "find_first ''>'' (k @ CHR ''>'' # v) = Some (length k)" by (induction k) auto
  then show ?thesis by (simp add: split_name_def)
qed

lemma trim_lines [simp]: "trim_newlines (newline # v @ [newline]) = v"
  by (simp add: trim_newlines_def Let_def)

lemma params_free:
  assumes "tag_like p" and "\<And>r. \<not> starts_with p (param_open @ r)" and "\<And>r. \<not> starts_with p (param_close @ r)"
    and "CHR ''<'' \<notin> set c0" and "\<forall>(b, c)\<in>set bcs. CHR ''<'' \<notin> set b \<and> CHR ''<'' \<notin> set c"
  shows "\<not> contains p (marked param_open param_close c0 bcs @ r) = (\<not> contains p r)"
  using assms(4,5)
proof (induction bcs arbitrary: c0)
  case Nil
  then show ?case using assms(1) by (simp add: marked_def contains_free)
next
  case (Cons bc bcs)
  obtain b c where bc: "bc = (b, c)" by fastforce
  let ?rest = "marked param_open param_close c bcs @ r"
  have "contains p (marked param_open param_close c0 (bc # bcs) @ r) = contains p (param_open @ b @ param_close @ ?rest)"
    unfolding bc marked_Cons append_assoc by (rule contains_free [OF assms(1) Cons.prems(1)])
  also have "\<dots> = contains p (b @ param_close @ ?rest)" by (rule contains_tag [OF assms(1) tags(5) assms(2)])
  also have "\<dots> = contains p (param_close @ ?rest)" using contains_free [OF assms(1)] Cons.prems(2) by (auto simp: bc)
  also have "\<dots> = contains p ?rest" by (rule contains_tag [OF assms(1) tags(6) assms(3)])
  finally have "contains p (marked param_open param_close c0 (bc # bcs) @ r) = contains p ?rest" .
  then show ?case using Cons by (auto simp: bc)
qed

lemma plain_if_free:
  "tag_like o_tag \<Longrightarrow> tag_like c_tag \<Longrightarrow> CHR ''<'' \<notin> set c0 \<Longrightarrow> \<forall>(b, c)\<in>set bcs. CHR ''<'' \<notin> set b \<and> CHR ''<'' \<notin> set c \<Longrightarrow>
   plain_pieces o_tag c_tag c0 bcs"
  using free_not_contains by (fastforce simp: plain_pieces_def)

lemma read_params:
  assumes "distinct (map fst d @ map fst ps)" and "\<forall>(k, v)\<in>set ps. CHR ''>'' \<notin> set k"
  shows "fold_res (\<lambda>text d. bind_res (split_name text) (\<lambda>(k, v). Inr (dict_set k (conv k (trim_newlines v)) d)))
           (map (\<lambda>(k, v). k @ ''>'' @ newline # v @ [newline]) ps) d = Inr (d @ map (\<lambda>(k, v). (k, conv k v)) ps)"
  using assms
proof (induction ps arbitrary: d)
  case (Cons p ps)
  obtain k v where kv: "p = (k, v)" by fastforce
  have "k \<notin> set (map fst d)" using Cons.prems(1) kv by auto
  then have "dict_set k (conv k v) d = d @ [(k, conv k v)]" by (induction d) auto
  moreover have "distinct (map fst (d @ [(k, conv k v)]) @ map fst ps)" using Cons.prems(1) kv by simp
  moreover have "split_name (k @ ''>'' @ newline # v @ [newline]) = Inr (k, newline # v @ [newline])"
    using Cons.prems(2) split_name_at [of k] by (simp add: kv)
  ultimately show ?case using Cons.IH [of "d @ [(k, conv k v)]"] Cons.prems(2) by (simp add: kv)
qed simp

text \<open>
  C28: The XML parser reads back the call it is given: after the text before the call, the name of the function and each parameter's
  value, converted by its declared type, in order and without the newlines around the values, if names and values hold no
  angle brackets (values may hold closing ones) and names of parameters do not repeat.
\<close>

theorem qwen3_reads_call:
  assumes "\<not> contains tool_open content" and "\<not> contains tool_open ending"
    and "\<forall>c\<in>set name. c \<noteq> CHR ''<'' \<and> c \<noteq> CHR ''>''"
    and "\<forall>(k, v)\<in>set params. (\<forall>c\<in>set k. c \<noteq> CHR ''<'' \<and> c \<noteq> CHR ''>'') \<and> (\<forall>c\<in>set v. c \<noteq> CHR ''<'')"
    and "distinct (map fst params)"
    and "dumps ops (map (\<lambda>(k, v). (k, convert_param_value (loads ops) (evals ops) v k (get_arguments_config tools name))) params) = Some args"
  shows "qwen3_calls ops tools (qwen3_text content name params ending) = (content, [\<lparr>call_name = name, call_arguments = args\<rparr>])"
proof -
  let ?bcs = "map (\<lambda>(k, v). (k @ ''>'' @ newline # v @ [newline], [newline])) params"
  let ?c0 = "name @ ''>'' @ [newline]"
  let ?body = "qwen3_params name params"
  let ?call = "marked function_open function_close [newline] [(?body, [newline])]"
  let ?text = "qwen3_text content name params ending"
  have nl: "newline \<noteq> CHR ''<''" by (simp add: newline_def)
  have c0: "CHR ''<'' \<notin> set ?c0" using assms(3) nl by auto
  have bcs: "\<forall>(b, c)\<in>set ?bcs. CHR ''<'' \<notin> set b \<and> CHR ''<'' \<notin> set c" using assms(4) nl by fastforce
  have no_fun: "\<not> contains function_close ?body" and no_tool: "\<not> contains tool_close (?body @ r) = (\<not> contains tool_close r)" for r
    using params_free [OF _ _ _ c0 bcs, of function_close "[]"] params_free [OF _ _ _ c0 bcs, of tool_close r] by (simp_all add: qwen3_params_def)
  have "\<not> contains tool_close ?call"
  proof -
    have "contains tool_close ?call = contains tool_close (?body @ function_close @ [newline])"
      by (simp add: marked_def nl [symmetric] newline_def)
    also have "\<dots> = contains tool_close (function_close @ [newline])" using no_tool by blast
    also have "\<dots> = False" by (simp add: newline_def)
    finally show ?thesis by simp
  qed
  then have plain_tool: "plain_pieces tool_open tool_close content [(?call, ending)]"
    using assms(1,2) by (simp add: plain_pieces_def)
  have plain_fun: "plain_pieces function_open function_close [newline] [(?body, [newline])]"
    using no_fun by (simp add: plain_pieces_def newline_def)
  have plain_params: "plain_pieces param_open param_close [newline] ?bcs"
    by (rule plain_if_free [OF tags(5,6) _ bcs]) (simp add: newline_def)
  have "find_all (enclosed_or_rest True tool_open tool_close) ?text = [?call]"
    using find_all_marked [OF enclosed_or_rest_matches _ plain_tool] by (simp add: qwen3_text_def)
  moreover have "find_all (enclosed_or_rest False function_open function_close) ?call = [?body]"
    using find_all_marked [OF enclosed_or_rest_matches _ plain_fun] by simp
  ultimately have calls: "get_function_calls ?text = [?body]" by (simp add: get_function_calls_def)
  have start: "find_first tool_open ?text = Some (length content)"
    unfolding qwen3_text_def marked_def using find_first_after [OF tags(1) assms(1)] by simp
  let ?cfg = "get_arguments_config tools name"
  have read_name: "split_name ?body = Inr (name, marked param_open param_close [newline] ?bcs)"
    using split_name_at [of name] assms(3) by (auto simp: qwen3_params_def marked_def)
  have "find_all (enclosed_or_rest True param_open param_close) (marked param_open param_close [newline] ?bcs) =
      map (\<lambda>(k, v). k @ ''>'' @ newline # v @ [newline]) params"
    using find_all_marked [OF enclosed_or_rest_matches _ plain_params] by (simp add: comp_def case_prod_beta')
  moreover have "\<forall>(k, v)\<in>set params. CHR ''>'' \<notin> set k" using assms(4) by fastforce
  then have "fold_res (\<lambda>text d. bind_res (split_name text) (\<lambda>(k, v).
        Inr (dict_set k (convert_param_value (loads ops) (evals ops) (trim_newlines v) k ?cfg) d)))
      (map (\<lambda>(k, v). k @ ''>'' @ newline # v @ [newline]) params) [] =
    Inr (map (\<lambda>(k, v). (k, convert_param_value (loads ops) (evals ops) v k ?cfg)) params)"
    using read_params [of "[]" params "\<lambda>k v. convert_param_value (loads ops) (evals ops) v k ?cfg"] assms(5) by simp
  ultimately have "parse_xml_function_call ops tools ?body = Inr \<lparr>call_name = name, call_arguments = args\<rparr>"
    using assms(6) by (simp add: parse_xml_function_call_def read_name Let_def)
  moreover have "take (length content) ?text = content" by (simp add: qwen3_text_def marked_def)
  ultimately show ?thesis by (simp add: qwen3_calls_def start calls)
qed

definition sample_python :: "unit python_ops" where
  "sample_python = \<lparr>loads = (\<lambda>s. None), evals = (\<lambda>s. None),
     dumps = (\<lambda>d. Some (concat (map (\<lambda>(k, v). k @ (case v of Whole i \<Rightarrow> show_int i | Text t \<Rightarrow> t | _ \<Rightarrow> [])) d)))\<rparr>"

definition sample_schema :: tool_schema where
  "sample_schema = \<lparr>schema_type = ''function'', schema_name = ''add'', properties = [(''x'', Some ''integer''), (''y'', Some ''string'')]\<rparr>"

lemma qwen3_reads_call_witness:
  "qwen3_calls sample_python [sample_schema] (qwen3_text ''ok'' ''add'' [(''x'', ''12''), (''y'', ''a>b'')] []) =
   (''ok'', [\<lparr>call_name = ''add'', call_arguments = ''x12ya>b''\<rparr>])"
proof (rule qwen3_reads_call)
  show "dumps sample_python (map (\<lambda>(k, v). (k, convert_param_value (loads sample_python) (evals sample_python) v k
      (get_arguments_config [sample_schema] ''add''))) [(''x'', ''12''), (''y'', ''a>b'')]) = Some ''x12ya>b''"
    by code_simp
qed simp_all

subsection \<open>Responses of tools\<close>

text \<open>
  A truncated tool response exceeds the limit by its marker at most, unless the half of the limit is zero (or the limit
  itself, on the right): then the slice of the last zero characters is the whole response, and truncation lengthens it.
\<close>

theorem truncation_bounds:
  assumes "0 \<le> n"
  shows "if 2 \<le> n \<or> side = ''left'' \<or> side = ''right'' \<and> n = 1 then int (length (truncate_text side n s)) \<le> n + 17
         else int (length s) \<le> n \<or> length s < length (truncate_text side n s)"
proof (cases "int (length s) \<le> n")
  case True
  then show ?thesis by (simp add: truncate_text_def)
next
  case False
  have tail: "length (py_slice (Some (- k)) None s) = nat k" if "0 < k" "k \<le> n" for k
    using that False by (simp add: py_slice_last)
  have head: "length (py_slice None (Some k) s) = nat k" if "0 \<le> k" "k \<le> n" for k
    using that False by (auto simp: py_slice_take min_def)
  have whole: "py_slice (Some 0) None s = s" by (simp add: py_slice_def clamp_index_def)
  consider "side = ''left''" | "side = ''right''" | "side \<noteq> ''left''" "side \<noteq> ''right''" by blast
  then show ?thesis
  proof cases
    case 1
    then show ?thesis using False assms head [of n] by (auto simp: truncate_text_def)
  next
    case 2
    then show ?thesis using False assms tail [of n] whole by (cases "n = 0") (auto simp: truncate_text_def)
  next
    case 3
    then show ?thesis
    proof (cases "2 \<le> n")
      case True
      then have "0 < n div 2" "n div 2 \<le> n" by auto
      then show ?thesis using True 3 False head [of "n div 2"] tail [of "n div 2"] by (auto simp: truncate_text_def Let_def)
    next
      case small: False
      then have "n div 2 = 0" using assms by auto
      then show ?thesis using small 3 False whole assms by (auto simp: truncate_text_def Let_def)
    qed
  qed
qed

lemma truncation_bounds_witness:
  "int (length (truncate_text ''middle'' 4 ''abcdefgh'')) \<le> 21 \<and> length ''abcdefgh'' < length (truncate_text ''middle'' 1 ''abcdefgh'')"
  using truncation_bounds [of 4 "''middle''" "''abcdefgh''"] truncation_bounds [of 1 "''middle''" "''abcdefgh''"] by simp

definition failing_tool :: "(unit, unit) tool_ops" where
  "failing_tool = \<lparr>json_loads = (\<lambda>s. Loaded ()), show_names = concat, error_text = (\<lambda>e. ''?''),
     create_tool = (\<lambda>n. Inr ''id''), execute_tool = (\<lambda>n k j. Inl ValueError), release_tool = (\<lambda>n k. Inr ())\<rparr>"

text \<open>A reader with the limit of the language on the digits of an integer.\<close>

definition integer_loads :: "string \<Rightarrow> unit json_outcome" where
  "integer_loads s =
     (if s = [] \<or> \<not> list_all is_digit s then Malformed ''Expecting value''
      else if 4300 < length s then Load_raises ValueError else Loaded ())"


end
