(* ===== verification/AgentLoop.thy ===== *)
theory AgentLoop
  imports LoadBalancer ToolCalls
begin

section \<open>Agent loops\<close>

text \<open>
  Models the state machine of \<open>ToolAgentLoop\<close> (\<open>src/verl/experimental/agent_loop/tool_agent_loop.py\<close>),
  its handlers and the final output, and the loop of a single turn (\<open>single_turn_agent_loop.py\<close>).
  What the server answers to a prompt in a given turn, the chat template with the tokenizer, the
  parser of tool calls, and the tools are arguments; coroutines that are gathered run in the order of the calls.
  Timers and videos of the prompt are left out: the loop only passes them on.
\<close>

subsection \<open>State\<close>

datatype agent_state = PENDING | GENERATING | PROCESSING_TOOLS | TERMINATED

datatype content_part = Image_part | Video_part | Text_part string

datatype 'm message =
    Given 'm
  | Tool_text string
  | Tool_parts "content_part list"

record ('m, 'i, 'e) agent_data =
  messages :: "'m message list"
  image_data :: "'i list option"
  prompt_ids :: "int list"
  response_ids :: "int list"
  response_mask :: "int list"
  response_logprobs :: "real list"
  tool_rewards :: "real list"
  user_turns :: nat
  assistant_turns :: nat
  tool_calls :: "function_call list"
  agent_routed_experts :: "'e list option"
  preempted :: "int option"
  extra_fields :: "(string, int) dict"
  tool_log :: "tool_event list"

record agent_config =
  max_user_turns :: "nat option"
  max_assistant_turns :: "nat option"
  max_parallel_calls :: int
  max_tool_response_length :: int
  tool_response_truncate_side :: string
  parser_name :: string
  response_length :: nat

text \<open>
  \<open>encode_messages\<close> is the chat template with the tokenizer, with or without the schemas of the active tools;
  \<open>ops_of\<close> gives the tools as the call at a position of a turn finds them.
\<close>

record ('m, 'i, 'e, 'j) agent_env =
  generate :: "nat \<Rightarrow> int list \<Rightarrow> 'i list option \<Rightarrow> ('e token_output \<times> (string, int) dict) result"
  encode_messages :: "'m message list \<Rightarrow> string list option \<Rightarrow> 'i list option \<Rightarrow> int list"
  system_prompt :: "int list"
  encode_text :: "string \<Rightarrow> int list"
  show_parts :: "content_part list \<Rightarrow> string"
  extract_tool_calls :: "int list \<Rightarrow> string list \<Rightarrow> function_call list"
  ops_of :: "nat \<Rightarrow> nat \<Rightarrow> ('i, 'j) tool_ops"
  image_processor :: bool

definition new_agent_data :: "'m message list \<Rightarrow> 'i list option \<Rightarrow> ('m, 'i, 'e) agent_data" where
  "new_agent_data ms images =
     \<lparr>messages = ms, image_data = images, prompt_ids = [], response_ids = [], response_mask = [], response_logprobs = [],
      tool_rewards = [], user_turns = 0, assistant_turns = 0, tool_calls = [], agent_routed_experts = None, preempted = None,
      extra_fields = [], tool_log = []\<rparr>"

text \<open>The tools of a sample: a selection, if it is not empty, keeps those that exist, in its order.\<close>

definition active_tools :: "string list option \<Rightarrow> string list \<Rightarrow> string list" where
  "active_tools selection tools =
     (case selection of
        None \<Rightarrow> tools
      | Some sel \<Rightarrow> if sel = [] \<or> tools = [] then tools else rev (remdups (rev (filter (\<lambda>n. n \<in> set tools) sel))))"

definition apply_chat_template ::
  "('m, 'i, 'e, 'j) agent_env \<Rightarrow> 'm message list \<Rightarrow> string list option \<Rightarrow> 'i list option \<Rightarrow> bool \<Rightarrow> int list" where
  "apply_chat_template env ms schemas images remove_system_prompt =
     (let ids = encode_messages env ms schemas images
      in if remove_system_prompt then drop (length (system_prompt env)) ids else ids)"

subsection \<open>Handlers\<close>

definition handle_pending_state ::
  "('m, 'i, 'e, 'j) agent_env \<Rightarrow> string list \<Rightarrow> ('m, 'i, 'e) agent_data \<Rightarrow> agent_state \<times> ('m, 'i, 'e) agent_data" where
  "handle_pending_state env active d =
     (GENERATING, d\<lparr>prompt_ids := apply_chat_template env (messages d) (Some active) (image_data d) False\<rparr>)"

definition merge_extra :: "(string, int) dict \<Rightarrow> (string, int) dict \<Rightarrow> (string, int) dict" where
  "merge_extra old new =
     (if old = [] then new
      else case dict_get new ''max_global_steps'' of
             Some s \<Rightarrow> if s \<noteq> 0 then dict_set ''max_global_steps'' s old else old
           | None \<Rightarrow> old)"

definition count_preempted :: "int option \<Rightarrow> int option \<Rightarrow> int" where
  "count_preempted old new =
     (case old of
        None \<Rightarrow> (case new of Some k \<Rightarrow> k | None \<Rightarrow> - 1)
      | Some n \<Rightarrow> n + (case new of Some k \<Rightarrow> k | None \<Rightarrow> 0))"

text \<open>A limit of zero is no limit.\<close>

definition limit_reached :: "nat option \<Rightarrow> nat \<Rightarrow> bool" where
  "limit_reached limit n = (case limit of None \<Rightarrow> False | Some m \<Rightarrow> m \<noteq> 0 \<and> m \<le> n)"

definition append_generation :: "'e token_output \<Rightarrow> (string, int) dict \<Rightarrow> ('m, 'i, 'e) agent_data \<Rightarrow> ('m, 'i, 'e) agent_data" where
  "append_generation out extra d =
     d\<lparr>preempted := Some (count_preempted (preempted d) (num_preempted out)),
       extra_fields := merge_extra (extra_fields d) extra,
       assistant_turns := assistant_turns d + 1,
       response_ids := token_ids out,
       prompt_ids := prompt_ids d @ token_ids out,
       response_mask := response_mask d @ replicate (length (token_ids out)) 1,
       response_logprobs := response_logprobs d @ (case log_probs out of None \<Rightarrow> [] | Some l \<Rightarrow> l),
       agent_routed_experts := (case routed_experts out of None \<Rightarrow> agent_routed_experts d | Some e \<Rightarrow> Some e)\<rparr>"

definition handle_generating_state ::
  "('m, 'i, 'e, 'j) agent_env \<Rightarrow> agent_config \<Rightarrow> string list \<Rightarrow> bool \<Rightarrow> ('m, 'i, 'e) agent_data \<Rightarrow>
   (agent_state \<times> ('m, 'i, 'e) agent_data) result" where
  "handle_generating_state env cfg active ignore_termination d =
     bind_res (generate env (assistant_turns d) (prompt_ids d) (image_data d)) (\<lambda>(out, extra).
       let d1 = append_generation out extra d
       in if \<not> ignore_termination \<and> response_length cfg \<le> length (response_mask d1) then Inr (TERMINATED, d1)
          else if limit_reached (max_assistant_turns cfg) (assistant_turns d1) then Inr (TERMINATED, d1)
          else if limit_reached (max_user_turns cfg) (user_turns d1) then Inr (TERMINATED, d1)
          else (let calls = extract_tool_calls env (response_ids d1) active; d2 = d1\<lparr>tool_calls := calls\<rparr>
                in Inr (if calls \<noteq> [] then PROCESSING_TOOLS else TERMINATED, d2)))"

text \<open>One response becomes a message; the images of all responses and the rewards are collected.\<close>

definition response_message :: "'i tool_response \<Rightarrow> 'm message" where
  "response_message r =
     (if tr_image r \<noteq> [] \<or> tr_video r
      then Tool_parts ((if tr_image r \<noteq> [] then [Image_part] else []) @ (if tr_video r then [Video_part] else []) @
             (case tr_text r of Some t \<Rightarrow> if t \<noteq> [] then [Text_part t] else [] | None \<Rightarrow> []))
      else Tool_text (case tr_text r of Some t \<Rightarrow> t | None \<Rightarrow> []))"

definition process_response ::
  "bool \<Rightarrow> 'i tool_response \<times> real option \<Rightarrow> 'm message list \<times> 'i list \<times> real list \<Rightarrow> ('m message list \<times> 'i list \<times> real list) result" where
  "process_response has_images rr acc =
     (let (r, reward) = rr; (ms, images, rewards) = acc
      in guard_res (if tr_image r \<noteq> [] \<or> tr_video r then has_images else True) ValueError (
         guard_res (\<not> tr_video r) NotImplementedError
           (Inr (ms @ [response_message r], images @ List.map_filter (\<lambda>i. i) (tr_image r),
                 rewards @ (case reward of None \<Rightarrow> [] | Some x \<Rightarrow> [x])))))"

definition message_text :: "('m, 'i, 'e, 'j) agent_env \<Rightarrow> 'm message \<Rightarrow> string" where
  "message_text env msg = (case msg of Tool_text t \<Rightarrow> t | Tool_parts ps \<Rightarrow> show_parts env ps | Given m \<Rightarrow> [])"

text \<open>The tokens of the responses.\<close>

definition encode_responses ::
  "('m, 'i, 'e, 'j) agent_env \<Rightarrow> agent_config \<Rightarrow> string list \<Rightarrow> 'm message list \<Rightarrow> 'i list \<Rightarrow> int list result" where
  "encode_responses env cfg names ms images =
     (if parser_name cfg = ''gpt-oss''
      then bind_res (build_gpt_oss_tool_response_text (map (message_text env) ms) names) (\<lambda>t. Inr (encode_text env t))
      else Inr (apply_chat_template env ms None (if images \<noteq> [] then Some images else None) True))"

text \<open>The calls of a turn, at most as many as may run in parallel, with their messages, images and names.\<close>

definition run_tools ::
  "('m, 'i, 'e, 'j) agent_env \<Rightarrow> agent_config \<Rightarrow> string list \<Rightarrow> ('m, 'i, 'e) agent_data \<Rightarrow>
   (('m, 'i, 'e) agent_data \<times> 'm message list \<times> 'i list \<times> string list) result" where
  "run_tools env cfg active d =
     (let calls = py_slice None (Some (max_parallel_calls cfg)) (tool_calls d);
          results = map (\<lambda>(i, call). call_tool (ops_of env (assistant_turns d) i) (tool_response_truncate_side cfg)
                       (max_tool_response_length cfg) active call) (zip [0..<length calls] calls)
      in bind_res (traverse fst results) (\<lambda>responses.
         bind_res (fold_res (process_response (image_processor env)) responses ([], [], [])) (\<lambda>(ms, images, rewards).
         Inr (d\<lparr>messages := messages d @ ms, tool_rewards := tool_rewards d @ rewards,
                tool_log := tool_log d @ concat (map snd results)\<rparr>, ms, images, map call_name calls))))"

text \<open>A response that would fill the budget ends the loop before it is appended.\<close>

definition append_observation ::
  "agent_config \<Rightarrow> int list \<Rightarrow> 'i list \<Rightarrow> ('m, 'i, 'e) agent_data \<Rightarrow> agent_state \<times> ('m, 'i, 'e) agent_data" where
  "append_observation cfg ids images d =
     (if response_length cfg \<le> length (response_mask d) + length ids then (TERMINATED, d)
      else (GENERATING,
        d\<lparr>image_data := (if images = [] then image_data d
                         else Some ((case image_data d of None \<Rightarrow> [] | Some l \<Rightarrow> l) @ images)),
          prompt_ids := prompt_ids d @ ids,
          response_mask := response_mask d @ replicate (length ids) 0,
          response_logprobs := (if response_logprobs d = [] then [] else response_logprobs d @ replicate (length ids) 0),
          user_turns := user_turns d + 1\<rparr>))"

definition handle_processing_tools_state ::
  "('m, 'i, 'e, 'j) agent_env \<Rightarrow> agent_config \<Rightarrow> string list \<Rightarrow> ('m, 'i, 'e) agent_data \<Rightarrow>
   (agent_state \<times> ('m, 'i, 'e) agent_data) result" where
  "handle_processing_tools_state env cfg active d =
     bind_res (run_tools env cfg active d) (\<lambda>(d1, ms, images, names).
     bind_res (encode_responses env cfg names ms images) (\<lambda>ids. Inr (append_observation cfg ids images d1)))"

subsection \<open>The loop\<close>

definition agent_step ::
  "('m, 'i, 'e, 'j) agent_env \<Rightarrow> agent_config \<Rightarrow> string list \<Rightarrow> agent_state \<times> ('m, 'i, 'e) agent_data \<Rightarrow>
   (agent_state \<times> ('m, 'i, 'e) agent_data) result" where
  "agent_step env cfg active sd =
     (case fst sd of
        PENDING \<Rightarrow> Inr (handle_pending_state env active (snd sd))
      | GENERATING \<Rightarrow> handle_generating_state env cfg active False (snd sd)
      | PROCESSING_TOOLS \<Rightarrow> handle_processing_tools_state env cfg active (snd sd)
      | TERMINATED \<Rightarrow> Inr sd)"

text \<open>The fuel bounds the steps; None means that the loop has not ended.\<close>

fun agent_loop ::
  "nat \<Rightarrow> ('m, 'i, 'e, 'j) agent_env \<Rightarrow> agent_config \<Rightarrow> string list \<Rightarrow> agent_state \<times> ('m, 'i, 'e) agent_data \<Rightarrow>
   ('m, 'i, 'e) agent_data result option" where
  "agent_loop fuel env cfg active (TERMINATED, d) = Some (Inr d)"
| "agent_loop 0 env cfg active sd = None"
| "agent_loop (Suc fuel) env cfg active sd =
     (case agent_step env cfg active sd of
        Inl e \<Rightarrow> Some (Inl e)
      | Inr sd' \<Rightarrow> agent_loop fuel env cfg active sd')"

record ('i, 'e) agent_output =
  out_prompt_ids :: "int list"
  out_response_ids :: "int list"
  out_response_mask :: "int list"
  out_logprobs :: "real list option"
  out_images :: "'i list option"
  out_num_turns :: nat
  out_preempted :: "int option"
  out_routed_experts :: "'e list option"
  out_extra :: "(string, int) dict"
  out_tool_rewards :: "real list"

definition agent_result :: "agent_config \<Rightarrow> ('m, 'i, 'e) agent_data \<Rightarrow> ('i, 'e) agent_output" where
  "agent_result cfg d =
     (let n = length (response_mask d); R = response_length cfg;
          resp = py_slice (Some (- int n)) None (prompt_ids d);
          prompt = py_slice None (Some (int (length (prompt_ids d)) - int n)) (prompt_ids d)
      in \<lparr>out_prompt_ids = prompt, out_response_ids = take R resp, out_response_mask = take R (response_mask d),
          out_logprobs = (if response_logprobs d = [] then None else Some (take R (response_logprobs d))),
          out_images = image_data d, out_num_turns = user_turns d + assistant_turns d + 1, out_preempted = preempted d,
          out_routed_experts = map_option (take (length prompt + R)) (agent_routed_experts d),
          out_extra = extra_fields d, out_tool_rewards = tool_rewards d\<rparr>)"

definition run_tool_agent ::
  "nat \<Rightarrow> ('m, 'i, 'e, 'j) agent_env \<Rightarrow> agent_config \<Rightarrow> string list \<Rightarrow> string list option \<Rightarrow> 'm message list \<Rightarrow> 'i list option \<Rightarrow>
   ('i, 'e) agent_output result option" where
  "run_tool_agent fuel env cfg tools selection ms images =
     map_option (\<lambda>r. bind_res r (\<lambda>d. Inr (agent_result cfg d)))
       (agent_loop fuel env cfg (active_tools selection tools) (PENDING, new_agent_data ms images))"

text \<open>The loop of a single turn.\<close>

definition run_single_turn ::
  "('m, 'i, 'e, 'j) agent_env \<Rightarrow> agent_config \<Rightarrow> 'm message list \<Rightarrow> 'i list option \<Rightarrow> ('i, 'e) agent_output result" where
  "run_single_turn env cfg ms images =
     (let prompt = apply_chat_template env ms None images False; R = response_length cfg
      in bind_res (generate env 0 prompt images) (\<lambda>(out, extra).
        Inr \<lparr>out_prompt_ids = prompt, out_response_ids = take R (token_ids out),
             out_response_mask = take R (replicate (length (token_ids out)) 1),
             out_logprobs = (case log_probs out of None \<Rightarrow> None | Some l \<Rightarrow> if l = [] then None else Some (take R l)),
             out_images = images, out_num_turns = 2, out_preempted = Some (count_preempted None (num_preempted out)),
             out_routed_experts = map_option (take (length prompt + R)) (routed_experts out),
             out_extra = extra, out_tool_rewards = []\<rparr>))"

subsection \<open>The states a loop passes\<close>

inductive agent_run ::
  "('m, 'i, 'e, 'j) agent_env \<Rightarrow> agent_config \<Rightarrow> string list \<Rightarrow> agent_state \<times> ('m, 'i, 'e) agent_data \<Rightarrow>
   agent_state \<times> ('m, 'i, 'e) agent_data \<Rightarrow> bool" for env cfg active sd where
  start: "agent_run env cfg active sd sd"
| step: "agent_run env cfg active sd sd' \<Longrightarrow> fst sd' \<noteq> TERMINATED \<Longrightarrow> agent_step env cfg active sd' = Inr sd'' \<Longrightarrow> agent_run env cfg active sd sd''"

lemma agent_run_first:
  "agent_run env cfg active sd' sd'' \<Longrightarrow> fst sd \<noteq> TERMINATED \<Longrightarrow> agent_step env cfg active sd = Inr sd' \<Longrightarrow> agent_run env cfg active sd sd''"
  by (induction rule: agent_run.induct) (auto intro: agent_run.intros)

lemma agent_loop_Suc:
  "fst sd \<noteq> TERMINATED \<Longrightarrow> agent_loop (Suc fuel) env cfg active sd =
     (case agent_step env cfg active sd of Inl e \<Rightarrow> Some (Inl e) | Inr sd' \<Rightarrow> agent_loop fuel env cfg active sd')"
  by (cases sd; cases "fst sd") auto

lemma agent_loop_run: "agent_loop fuel env cfg active sd = Some (Inr d) \<Longrightarrow> agent_run env cfg active sd (TERMINATED, d)"
proof (induction fuel arbitrary: sd)
  case 0
  then show ?case by (cases sd; cases "fst sd") (auto intro: agent_run.intros)
next
  case (Suc fuel)
  show ?case
  proof (cases "fst sd = TERMINATED")
    case True
    then show ?thesis using Suc.prems by (cases sd) (auto intro: agent_run.intros)
  next
    case False
    then show ?thesis using Suc by (auto simp: agent_loop_Suc split: sum.splits intro: agent_run_first)
  qed
qed

text \<open>What a step does to the tokens.\<close>

definition tokens_of :: "('m, 'i, 'e) agent_data \<Rightarrow> int list \<times> int list \<times> real list \<times> nat \<times> nat" where
  "tokens_of d = (prompt_ids d, response_mask d, response_logprobs d, user_turns d, assistant_turns d)"

lemma generating_step:
  assumes "handle_generating_state env cfg active ign d = Inr (s', d')"
  obtains out extra where "generate env (assistant_turns d) (prompt_ids d) (image_data d) = Inr (out, extra)"
    and "tokens_of d' = tokens_of (append_generation out extra d)"
    and "s' = TERMINATED \<or> s' = PROCESSING_TOOLS \<and> (ign \<or> length (response_mask d') < response_length cfg) \<and>
           \<not> limit_reached (max_assistant_turns cfg) (assistant_turns d') \<and> \<not> limit_reached (max_user_turns cfg) (user_turns d') \<and>
           extract_tool_calls env (token_ids out) active \<noteq> []"
proof -
  obtain out extra where g: "generate env (assistant_turns d) (prompt_ids d) (image_data d) = Inr (out, extra)"
    using assms by (auto simp: handle_generating_state_def res_simps)
  show ?thesis
    by (rule that [OF g]) (use assms in \<open>auto simp: handle_generating_state_def g Let_def tokens_of_def append_generation_def split: if_splits\<close>)
qed

lemma run_tools_tokens: "run_tools env cfg active d = Inr (d1, rest) \<Longrightarrow> tokens_of d1 = tokens_of d"
  by (auto simp: run_tools_def Let_def bind_res_Inr_iff tokens_of_def)

lemma processing_step:
  assumes "handle_processing_tools_state env cfg active d = Inr (s', d')"
  obtains (full) "s' = TERMINATED" "tokens_of d' = tokens_of d"
  | (observe) ids where "s' = GENERATING" and "length (response_mask d) + length ids < response_length cfg"
    and "tokens_of d' = (prompt_ids d @ ids, response_mask d @ replicate (length ids) 0,
           if response_logprobs d = [] then [] else response_logprobs d @ replicate (length ids) 0, user_turns d + 1, assistant_turns d)"
proof -
  obtain d1 ms images names ids where run: "run_tools env cfg active d = Inr (d1, ms, images, names)"
    and sd: "append_observation cfg ids images d1 = (s', d')"
    using assms by (auto simp: handle_processing_tools_state_def bind_res_Inr_iff)
  have "tokens_of d1 = tokens_of d" using run_tools_tokens [OF run] .
  then show ?thesis
    using sd full observe [of ids] by (auto simp: append_observation_def tokens_of_def split: if_splits)
qed

text \<open>The tokens after the prompt are segments, generated and observed in turn.\<close>

fun mask_from :: "bool \<Rightarrow> int list list \<Rightarrow> int list" where
  "mask_from g [] = []"
| "mask_from g (ts # segs) = replicate (length ts) (of_bool g) @ mask_from (\<not> g) segs"

lemma mask_from_snoc: "mask_from g (segs @ [ts]) = mask_from g segs @ replicate (length ts) (of_bool (g = even (length segs)))"
  by (induction segs arbitrary: g) auto

lemma length_mask_from: "length (mask_from g segs) = length (concat segs)"
  by (induction segs arbitrary: g) auto

definition generated_at :: "('m, 'i, 'e, 'j) agent_env \<Rightarrow> int list \<Rightarrow> int list list \<Rightarrow> nat \<Rightarrow> bool" where
  "generated_at env prompt segs i \<longleftrightarrow>
     (\<exists>images out extra. generate env (i div 2) (prompt @ concat (take i segs)) images = Inr (out, extra) \<and> token_ids out = segs ! i)"

lemma generated_at_append: "i < length segs \<Longrightarrow> generated_at env prompt (segs @ rest) i = generated_at env prompt segs i"
  by (simp add: generated_at_def nth_append)

definition segmented ::
  "('m, 'i, 'e, 'j) agent_env \<Rightarrow> int list \<Rightarrow> int list list \<Rightarrow> ('m, 'i, 'e) agent_data \<Rightarrow> bool" where
  "segmented env prompt segs d \<longleftrightarrow>
     prompt_ids d = prompt @ concat segs \<and> response_mask d = mask_from True segs \<and>
     user_turns d = length segs div 2 \<and> assistant_turns d = (length segs + 1) div 2 \<and>
     (\<forall>i<length segs. even i \<longrightarrow> generated_at env prompt segs i)"

lemma segmented_tokens: "tokens_of d' = tokens_of d \<Longrightarrow> segmented env prompt segs d' = segmented env prompt segs d"
  by (simp add: segmented_def tokens_of_def)

lemma segmented_generation:
  assumes "segmented env prompt segs d" and "even (length segs)"
    and "generate env (assistant_turns d) (prompt_ids d) images = Inr (out, extra)"
  shows "segmented env prompt (segs @ [token_ids out]) (append_generation out extra d)"
proof -
  have "generated_at env prompt (segs @ [token_ids out]) (length segs)"
    using assms by (auto simp: generated_at_def segmented_def nth_append)
  moreover have "\<forall>i<length segs. even i \<longrightarrow> generated_at env prompt (segs @ [token_ids out]) i"
    using assms(1) by (simp add: segmented_def generated_at_append)
  ultimately show ?thesis
    using assms(1,2) by (auto simp: segmented_def append_generation_def mask_from_snoc less_Suc_eq)
qed

lemma segmented_observation:
  assumes "segmented env prompt segs d" and "odd (length segs)"
    and "tokens_of d' = (prompt_ids d @ ids, response_mask d @ replicate (length ids) 0, lps, user_turns d + 1, assistant_turns d)"
  shows "segmented env prompt (segs @ [ids]) d'"
  using assms by (auto simp: segmented_def tokens_of_def mask_from_snoc less_Suc_eq generated_at_append)

definition turns_within :: "nat option \<Rightarrow> nat \<Rightarrow> bool" where
  "turns_within limit n = (case limit of None \<Rightarrow> True | Some m \<Rightarrow> m = 0 \<or> n \<le> m)"

lemma turns_within_Suc: "\<not> limit_reached limit n \<Longrightarrow> turns_within limit (n + 1)" "turns_within limit 0" "\<not> limit_reached limit 0"
  "\<not> limit_reached limit n \<Longrightarrow> turns_within limit n"
  by (auto simp: turns_within_def limit_reached_def split: option.splits)

text \<open>The invariant of the states: whose turn it is, and how far the turns and the tokens may be.\<close>

fun agent_inv ::
  "('m, 'i, 'e, 'j) agent_env \<Rightarrow> agent_config \<Rightarrow> string list \<Rightarrow> int list \<Rightarrow> int list list \<Rightarrow>
   agent_state \<times> ('m, 'i, 'e) agent_data \<Rightarrow> bool" where
  "agent_inv env cfg active prompt segs (PENDING, d) \<longleftrightarrow>
     prompt = apply_chat_template env (messages d) (Some active) (image_data d) False \<and>
     response_mask d = [] \<and> response_logprobs d = [] \<and> user_turns d = 0 \<and> assistant_turns d = 0 \<and> segs = []"
| "agent_inv env cfg active prompt segs (GENERATING, d) \<longleftrightarrow>
     segmented env prompt segs d \<and> even (length segs) \<and>
     (segs = [] \<or> length (response_mask d) < response_length cfg) \<and>
     \<not> limit_reached (max_assistant_turns cfg) (assistant_turns d) \<and> turns_within (max_user_turns cfg) (user_turns d)"
| "agent_inv env cfg active prompt segs (PROCESSING_TOOLS, d) \<longleftrightarrow>
     segmented env prompt segs d \<and> odd (length segs) \<and>
     length (response_mask d) < response_length cfg \<and>
     \<not> limit_reached (max_assistant_turns cfg) (assistant_turns d) \<and> \<not> limit_reached (max_user_turns cfg) (user_turns d)"
| "agent_inv env cfg active prompt segs (TERMINATED, d) \<longleftrightarrow>
     segmented env prompt segs d \<and> odd (length segs) \<and>
     turns_within (max_assistant_turns cfg) (assistant_turns d) \<and> turns_within (max_user_turns cfg) (user_turns d)"

lemma agent_inv_step:
  assumes "agent_inv env cfg active prompt segs (s, d)" and "s \<noteq> TERMINATED"
    and "agent_step env cfg active (s, d) = Inr (s', d')"
  shows "\<exists>segs'. agent_inv env cfg active prompt segs' (s', d')"
proof (cases s)
  case PENDING
  then have "agent_inv env cfg active prompt [] (s', d')"
    using assms(1,3) turns_within_Suc
    by (auto simp: agent_step_def handle_pending_state_def segmented_def)
  then show ?thesis ..
next
  case GENERATING
  then have inv: "agent_inv env cfg active prompt segs (GENERATING, d)"
    and g: "handle_generating_state env cfg active False d = Inr (s', d')"
    using assms(1,3) by (auto simp: agent_step_def)
  from g obtain out extra where gen: "generate env (assistant_turns d) (prompt_ids d) (image_data d) = Inr (out, extra)"
    and d': "tokens_of d' = tokens_of (append_generation out extra d)"
    and s': "s' = TERMINATED \<or> s' = PROCESSING_TOOLS \<and> (False \<or> length (response_mask d') < response_length cfg) \<and>
           \<not> limit_reached (max_assistant_turns cfg) (assistant_turns d') \<and> \<not> limit_reached (max_user_turns cfg) (user_turns d') \<and>
           extract_tool_calls env (token_ids out) active \<noteq> []"
    by (rule generating_step)
  have "segmented env prompt (segs @ [token_ids out]) d'"
    unfolding segmented_tokens [OF d'] using inv by (intro segmented_generation [OF _ _ gen]) simp_all
  moreover have "assistant_turns d' = assistant_turns d + 1" "user_turns d' = user_turns d"
    using d' by (simp_all add: tokens_of_def append_generation_def)
  moreover have "turns_within (max_assistant_turns cfg) (assistant_turns d + 1)"
    using inv turns_within_Suc(1) [of "max_assistant_turns cfg" "assistant_turns d"] by simp
  ultimately have "agent_inv env cfg active prompt (segs @ [token_ids out]) (s', d')"
    using inv s' by auto
  then show ?thesis ..
next
  case PROCESSING_TOOLS
  then have inv: "agent_inv env cfg active prompt segs (PROCESSING_TOOLS, d)"
    and p: "handle_processing_tools_state env cfg active d = Inr (s', d')"
    using assms(1,3) by (auto simp: agent_step_def)
  from p show ?thesis
  proof (cases rule: processing_step)
    case full
    then have "agent_inv env cfg active prompt segs (s', d')"
      using inv segmented_tokens [OF full(2), of env prompt segs] turns_within_Suc(4) by (simp add: tokens_of_def)
    then show ?thesis ..
  next
    case (observe ids)
    then have "segmented env prompt (segs @ [ids]) d'" using inv by (intro segmented_observation [OF _ _ observe(3)]) simp_all
    then have "agent_inv env cfg active prompt (segs @ [ids]) (s', d')"
      using inv observe turns_within_Suc(1) by (simp add: tokens_of_def)
    then show ?thesis ..
  qed
qed (use assms in simp)

lemma agent_run_inv:
  assumes "agent_run env cfg active (PENDING, new_agent_data ms images) sd"
  shows "\<exists>segs. agent_inv env cfg active (apply_chat_template env ms (Some active) images False) segs sd"
  using assms
proof (induction rule: agent_run.induct)
  case start
  have "agent_inv env cfg active (apply_chat_template env ms (Some active) images False) [] (PENDING, new_agent_data ms images)"
    by (simp add: new_agent_data_def)
  then show ?case ..
next
  case (step sd' sd'')
  then show ?case using agent_inv_step by (cases sd'; cases sd'') fastforce
qed

text \<open>
  C30: The output of a tool agent: after the prompt of the chat template, generated and observed segments alternate, beginning
  and ending with a generated one; each generation was asked for exactly the tokens before it; the mask marks the generated tokens; the
  response and the mask are cut to the budget; and the numbers of turns are within their limits. If nothing was generated at all,
  the response is the prompt itself, with an empty mask.
\<close>

theorem agent_output_is_conversation:
  assumes "run_tool_agent fuel env cfg tools selection ms images = Some (Inr out)"
  shows "\<exists>segs. let prompt = apply_chat_template env ms (Some (active_tools selection tools)) images False; R = response_length cfg
           in out_prompt_ids out = prompt \<and>
              out_response_ids out = take R (if concat segs = [] then prompt else concat segs) \<and>
              out_response_mask out = take R (mask_from True segs) \<and>
              odd (length segs) \<and> out_num_turns out = length segs + 1 \<and>
              (\<forall>i<length segs. if even i then generated_at env prompt segs i else True) \<and>
              turns_within (max_assistant_turns cfg) ((length segs + 1) div 2) \<and> turns_within (max_user_turns cfg) (length segs div 2)"
proof -
  let ?active = "active_tools selection tools"
  obtain d where loop: "agent_loop fuel env cfg ?active (PENDING, new_agent_data ms images) = Some (Inr d)" and out: "out = agent_result cfg d"
    using assms by (auto simp: run_tool_agent_def bind_res_Inr_iff)
  obtain segs where inv: "agent_inv env cfg ?active (apply_chat_template env ms (Some ?active) images False) segs (TERMINATED, d)"
    using agent_run_inv [OF agent_loop_run [OF loop]] by blast
  let ?P = "apply_chat_template env ms (Some ?active) images False"
  have seg: "segmented env ?P segs d" and odd: "odd (length segs)" using inv by (simp_all add: new_agent_data_def)
  have ids: "prompt_ids d = ?P @ concat segs" and mask: "response_mask d = mask_from True segs" using seg by (simp_all add: segmented_def)
  have len: "length (response_mask d) = length (concat segs)" by (simp only: mask length_mask_from)
  have "py_slice (Some (- int (length (concat segs)))) None (?P @ concat segs) = (if concat segs = [] then ?P else concat segs)"
  proof (cases "concat segs = []")
    case True
    then show ?thesis by (simp only: True) (simp add: py_slice_def clamp_index_def)
  next
    case False
    then have "0 < int (length (concat segs))" by (simp only: length_greater_0_conv of_nat_0_less_iff not_False_eq_True)
    from py_slice_last [OF this, of "?P @ concat segs"] False show ?thesis by (simp only: length_append nat_int) simp
  qed
  then have "out_response_ids out = take (response_length cfg) (if concat segs = [] then ?P else concat segs)"
    by (simp only: out agent_result_def Let_def len ids agent_output.select_convs)
  moreover have "out_prompt_ids out = ?P" by (simp add: out agent_result_def Let_def len ids py_slice_take del: length_concat)
  moreover have "out_num_turns out = length segs + 1"
    using seg odd by (auto simp: out agent_result_def Let_def segmented_def elim!: oddE)
  ultimately show ?thesis
    using inv seg odd mask by (intro exI [of _ segs]) (auto simp: Let_def out agent_result_def segmented_def)
qed

subsection \<open>Termination\<close>

fun steps_left :: "agent_config \<Rightarrow> agent_state \<times> ('m, 'i, 'e) agent_data \<Rightarrow> nat" where
  "steps_left cfg (PENDING, d) = 2 * response_length cfg + 2"
| "steps_left cfg (GENERATING, d) = 2 * (response_length cfg - length (response_mask d)) + 1"
| "steps_left cfg (PROCESSING_TOOLS, d) = 2 * (response_length cfg - length (response_mask d)) + 2"
| "steps_left cfg (TERMINATED, d) = 0"

lemma steps_left_decreases:
  assumes "extract_tool_calls env [] active = []" and "s \<noteq> TERMINATED" and "agent_step env cfg active (s, d) = Inr (s', d')"
  shows "steps_left cfg (s', d') < steps_left cfg (s, d)"
proof (cases s)
  case PENDING
  then show ?thesis using assms(3) by (auto simp: agent_step_def handle_pending_state_def)
next
  case GENERATING
  then have "handle_generating_state env cfg active False d = Inr (s', d')" using assms(3) by (simp add: agent_step_def)
  then obtain out extra where "tokens_of d' = tokens_of (append_generation out extra d)"
    and s': "s' = TERMINATED \<or> s' = PROCESSING_TOOLS \<and> (False \<or> length (response_mask d') < response_length cfg) \<and>
           \<not> limit_reached (max_assistant_turns cfg) (assistant_turns d') \<and> \<not> limit_reached (max_user_turns cfg) (user_turns d') \<and>
           extract_tool_calls env (token_ids out) active \<noteq> []"
    by (rule generating_step)
  then have mask: "length (response_mask d') = length (response_mask d) + length (token_ids out)"
    by (simp add: tokens_of_def append_generation_def)
  from s' show ?thesis
  proof (elim disjE conjE)
    assume tools: "s' = PROCESSING_TOOLS" "length (response_mask d') < response_length cfg" "extract_tool_calls env (token_ids out) active \<noteq> []"
    then have "1 \<le> length (token_ids out)" using assms(1) by (cases "token_ids out") auto
    then show ?thesis unfolding GENERATING tools(1) steps_left.simps using mask tools(2) by arith
  qed (simp_all add: GENERATING)
next
  case PROCESSING_TOOLS
  then have "handle_processing_tools_state env cfg active d = Inr (s', d')" using assms(3) by (simp add: agent_step_def)
  then show ?thesis by (cases rule: processing_step) (auto simp: PROCESSING_TOOLS tokens_of_def)
qed (use assms in simp)

lemma agent_loop_returns:
  "extract_tool_calls env [] active = [] \<Longrightarrow> steps_left cfg sd \<le> fuel \<Longrightarrow> \<exists>r. agent_loop fuel env cfg active sd = Some r"
proof (induction fuel arbitrary: sd)
  case 0
  then show ?case by (cases sd; cases "fst sd") auto
next
  case (Suc fuel)
  show ?case
  proof (cases "fst sd = TERMINATED")
    case False
    then show ?thesis
    proof (cases "agent_step env cfg active sd")
      case (Inr sd')
      then have "steps_left cfg sd' < steps_left cfg sd"
        using steps_left_decreases [OF Suc.prems(1), of "fst sd" cfg "snd sd" "fst sd'" "snd sd'"] False by simp
      then show ?thesis using Suc False Inr by (simp add: agent_loop_Suc)
    qed (simp add: agent_loop_Suc)
  qed (cases sd, simp)
qed

lemma agent_loop_more: "agent_loop fuel env cfg active sd = Some r \<Longrightarrow> fuel \<le> fuel' \<Longrightarrow> agent_loop fuel' env cfg active sd = Some r"
proof (induction fuel arbitrary: sd fuel')
  case 0
  then show ?case by (cases sd; cases "fst sd"; cases fuel') auto
next
  case (Suc fuel)
  then obtain k where k: "fuel' = Suc k" "fuel \<le> k" by (cases fuel') auto
  show ?case
  proof (cases "fst sd = TERMINATED")
    case True
    then show ?thesis using Suc.prems k by (cases sd) auto
  next
    case False
    then show ?thesis using Suc k by (auto simp: agent_loop_Suc split: sum.splits)
  qed
qed

text \<open>
  C31: If the parser finds no call in an empty response, the loop ends after at most twice the token budget and two steps,
  whatever the server, the tools and the limits of turns: a longer bound changes nothing.
\<close>

theorem tool_agent_terminates:
  assumes "\<And>active. extract_tool_calls env [] active = []"
  shows "\<exists>r. \<forall>extra_fuel. run_tool_agent (2 * response_length cfg + 2 + extra_fuel) env cfg tools selection ms images = Some r"
proof -
  let ?sd = "(PENDING, new_agent_data ms images)"
  have "steps_left cfg ?sd \<le> 2 * response_length cfg + 2" by simp
  from agent_loop_returns [OF assms this]
  obtain r where r: "agent_loop (2 * response_length cfg + 2) env cfg (active_tools selection tools) ?sd = Some r" by blast
  have "agent_loop (2 * response_length cfg + 2 + k) env cfg (active_tools selection tools) ?sd = Some r" for k
    by (rule agent_loop_more [OF r]) simp
  then show ?thesis unfolding run_tool_agent_def by (intro exI allI) (simp only: option.map)
qed

subsection \<open>Log-probabilities\<close>

definition logprobs_given :: "('m, 'i, 'e, 'j) agent_env \<Rightarrow> bool" where
  "logprobs_given env \<longleftrightarrow>
     (\<forall>turn prompt images out extra. generate env turn prompt images = Inr (out, extra) \<longrightarrow>
        (\<exists>l. log_probs out = Some l \<and> length l = length (token_ids out)))"

definition logprobs_ok :: "agent_state \<times> ('m, 'i, 'e) agent_data \<Rightarrow> bool" where
  "logprobs_ok sd \<longleftrightarrow> length (response_logprobs (snd sd)) = length (response_mask (snd sd)) \<and>
     (fst sd = PROCESSING_TOOLS \<longrightarrow> response_logprobs (snd sd) \<noteq> [])"

lemma logprobs_step:
  assumes "extract_tool_calls env [] active = []" and "logprobs_given env" and "logprobs_ok (s, d)"
    and "agent_step env cfg active (s, d) = Inr (s', d')"
  shows "logprobs_ok (s', d')"
proof (cases s)
  case PENDING
  then show ?thesis using assms(3,4) by (auto simp: agent_step_def handle_pending_state_def logprobs_ok_def)
next
  case GENERATING
  then have "handle_generating_state env cfg active False d = Inr (s', d')" using assms(4) by (simp add: agent_step_def)
  then obtain out extra where gen: "generate env (assistant_turns d) (prompt_ids d) (image_data d) = Inr (out, extra)"
    and d': "tokens_of d' = tokens_of (append_generation out extra d)"
    and s': "s' = TERMINATED \<or> s' = PROCESSING_TOOLS \<and> (False \<or> length (response_mask d') < response_length cfg) \<and>
           \<not> limit_reached (max_assistant_turns cfg) (assistant_turns d') \<and> \<not> limit_reached (max_user_turns cfg) (user_turns d') \<and>
           extract_tool_calls env (token_ids out) active \<noteq> []"
    by (rule generating_step)
  obtain l where l: "log_probs out = Some l" "length l = length (token_ids out)" using assms(2) gen unfolding logprobs_given_def by blast
  have "response_logprobs d' = response_logprobs d @ l" "length (response_mask d') = length (response_mask d) + length l"
    using d' l by (simp_all add: tokens_of_def append_generation_def)
  moreover have "l \<noteq> []" if "s' = PROCESSING_TOOLS" using s' that l(2) assms(1) by auto
  ultimately show ?thesis using assms(3) by (auto simp: logprobs_ok_def)
next
  case PROCESSING_TOOLS
  then have "handle_processing_tools_state env cfg active d = Inr (s', d')" using assms(4) by (simp add: agent_step_def)
  then show ?thesis by (cases rule: processing_step) (use assms(3) PROCESSING_TOOLS in \<open>auto simp: logprobs_ok_def tokens_of_def\<close>)
qed (use assms in \<open>simp add: agent_step_def\<close>)

text \<open>
  If the server returns a log-probability for each token it generates, the log-probabilities of the output match the
  response mask in length, zeros standing for the observations; there are none only if nothing was generated.
\<close>

theorem logprobs_match_mask:
  assumes "\<And>active. extract_tool_calls env [] active = []" and "logprobs_given env"
    and "run_tool_agent fuel env cfg tools selection ms images = Some (Inr out)"
  shows "case out_logprobs out of None \<Rightarrow> out_response_mask out = [] | Some l \<Rightarrow> length l = length (out_response_mask out)"
proof -
  obtain d where loop: "agent_loop fuel env cfg (active_tools selection tools) (PENDING, new_agent_data ms images) = Some (Inr d)"
    and out: "out = agent_result cfg d"
    using assms(3) by (auto simp: run_tool_agent_def bind_res_Inr_iff)
  have "logprobs_ok sd" if "agent_run env cfg (active_tools selection tools) (PENDING, new_agent_data ms images) sd" for sd
    using that
  proof (induction rule: agent_run.induct)
    case start
    then show ?case by (simp add: logprobs_ok_def new_agent_data_def)
  next
    case (step sd' sd'')
    then show ?case using logprobs_step [OF assms(1,2), of "fst sd'" "snd sd'" _ _ "fst sd''" "snd sd''"] by simp
  qed
  from this [OF agent_loop_run [OF loop]] show ?thesis
    by (auto simp: out agent_result_def Let_def logprobs_ok_def)
qed

subsection \<open>An example\<close>

text \<open>The first answer calls a tool, the second does not.\<close>

definition sample_answer :: "int list \<Rightarrow> unit token_output" where
  "sample_answer ids = \<lparr>token_ids = ids, log_probs = Some (map (\<lambda>i. - 1) ids), routed_experts = None, stop_reason = None,
     num_preempted = None, global_steps = None\<rparr>"

definition sample_env :: "(int list, unit, unit, unit) agent_env" where
  "sample_env = \<lparr>generate = (\<lambda>turn prompt images. Inr (sample_answer (if turn = 0 then [5, 9] else [7]), [])),
     encode_messages = (\<lambda>ms tools images. concat (map (\<lambda>m. case m of Given t \<Rightarrow> t | _ \<Rightarrow> [3, 4]) ms)), system_prompt = [],
     encode_text = (\<lambda>s. []), show_parts = (\<lambda>ps. []),
     extract_tool_calls = (\<lambda>ids tools. if 9 \<in> set ids then [\<lparr>call_name = ''f'', call_arguments = ''{}''\<rparr>] else []),
     ops_of = (\<lambda>turn i. failing_tool), image_processor = False\<rparr>"

definition sample_config :: agent_config where
  "sample_config = \<lparr>max_user_turns = None, max_assistant_turns = Some 3, max_parallel_calls = 1, max_tool_response_length = 256,
     tool_response_truncate_side = ''middle'', parser_name = ''hermes'', response_length = 8\<rparr>"

definition sample_output :: "(unit, unit) agent_output" where
  "sample_output = \<lparr>out_prompt_ids = [1, 2], out_response_ids = [5, 9, 3, 4, 7], out_response_mask = [1, 1, 0, 0, 1],
     out_logprobs = Some [- 1, - 1, 0, 0, - 1], out_images = None, out_num_turns = 4, out_preempted = Some (- 1),
     out_routed_experts = None, out_extra = [], out_tool_rewards = [0]\<rparr>"

lemma sample_agent_run: "run_tool_agent 18 sample_env sample_config [''f''] None [Given [1, 2]] None = Some (Inr sample_output)"
  by code_simp

lemma agent_output_is_conversation_witness:
  "\<exists>segs. concat segs \<noteq> [] \<and> take 8 (concat segs) = [5, 9, 3, 4, 7] \<and> take 8 (mask_from True segs) = [1, 1, 0, 0, 1] \<and> length segs = 3"
  using agent_output_is_conversation [OF sample_agent_run]
  by (auto simp: Let_def sample_output_def sample_config_def sample_env_def apply_chat_template_def split: if_splits)

lemma tool_agent_terminates_witness:
  "\<exists>r. run_tool_agent 18 sample_env sample_config [''f''] None [Given [1, 2]] None = Some r \<and>
       run_tool_agent 100 sample_env sample_config [''f''] None [Given [1, 2]] None = Some r"
proof -
  have "extract_tool_calls sample_env [] active = []" for active by (simp add: sample_env_def)
  from tool_agent_terminates [OF this, of sample_config "[''f'']" None "[Given [1, 2]]" None]
  obtain r where r: "\<forall>k. run_tool_agent (18 + k) sample_env sample_config [''f''] None [Given [1, 2]] None = Some r"
    by (auto simp: sample_config_def)
  show ?thesis using spec [OF r, of 0] spec [OF r, of 82] by simp
qed

lemma logprobs_match_mask_witness: "out_logprobs sample_output \<noteq> None \<and> length (the (out_logprobs sample_output)) = 5"
proof -
  have "extract_tool_calls sample_env [] active = []" for active by (simp add: sample_env_def)
  moreover have "logprobs_given sample_env" by (simp add: logprobs_given_def sample_env_def sample_answer_def)
  ultimately show ?thesis using logprobs_match_mask [OF _ _ sample_agent_run] by (auto simp: sample_output_def)
qed

end
