(* ===== verification/AgentBatch.thy ===== *)
theory AgentBatch
  imports AgentLoop
begin

section \<open>Batches of agent outputs\<close>

text \<open>
  Models what \<open>AgentLoopWorker\<close> does with the outputs of its loops
  (\<open>src/verl/experimental/agent_loop/agent_loop.py\<close>): padding to rectangular tensors, masks, positions, routed
  experts, the batch with the reward of the last token, the numbering of the rollouts of a sample, and the
  output as a dictionary; the position identifiers of \<open>src/verl/utils/model.py\<close>; and the choice of
  a teacher and the padding of its outputs (\<open>src/verl/experimental/teacher_loop/teacher_manager.py\<close>). The padding of
  the tokenizer is an argument. Multi-modal inputs are left out.
\<close>

subsection \<open>Padding one output\<close>

text \<open>\<open>tokenizer.pad\<close>: on the left or on the right, up to a length; the padded tokens and their attention mask.\<close>

type_synonym tokenizer_pad = "bool \<Rightarrow> nat \<Rightarrow> int list \<Rightarrow> int list \<times> int list"

definition pads :: "tokenizer_pad \<Rightarrow> int \<Rightarrow> bool" where
  "pads pad tok \<longleftrightarrow>
     (\<forall>n ids. ids \<noteq> [] \<longrightarrow>
        pad True n ids = (replicate (n - length ids) tok @ ids, replicate (n - length ids) 0 @ replicate (length ids) 1) \<and>
        pad False n ids = (ids @ replicate (n - length ids) tok, replicate (length ids) 1 @ replicate (n - length ids) 0))"

fun cumsum_from :: "int \<Rightarrow> int list \<Rightarrow> int list" where
  "cumsum_from a [] = []"
| "cumsum_from a (x # xs) = (a + x) # cumsum_from (a + x) xs"

definition compute_position_id_with_mask :: "int list \<Rightarrow> int list" where
  "compute_position_id_with_mask att = map (\<lambda>c. max 0 (c - 1)) (cumsum_from 0 att)"

record 'e padded_output =
  pad_prompt_ids :: "int list"
  pad_response_ids :: "int list"
  pad_input_ids :: "int list"
  pad_position_ids :: "int list"
  pad_response_mask :: "int list"
  pad_attention_mask :: "int list"
  pad_logprobs :: "real list option"
  pad_routed_experts :: "'e list option"
  pad_reward :: "real option"
  pad_num_turns :: nat

text \<open>Entries of the experts of the tokens, at the place of the first prompt token.\<close>

definition place_experts :: "'e \<Rightarrow> nat \<Rightarrow> nat \<Rightarrow> nat \<Rightarrow> 'e list \<Rightarrow> 'e list result" where
  "place_experts zero total_length padded_prompt prompt experts =
     (let start_pos = int padded_prompt - int prompt;
          end_pos = min (start_pos + int (length experts)) (int total_length)
      in guard_res (\<not> (start_pos < 0 \<or> end_pos > int total_length)) ValueError (
         guard_res (end_pos - start_pos = int (length experts)) RuntimeError
           (Inr (replicate (nat start_pos) zero @ experts @ replicate (total_length - nat end_pos) zero))))"

definition pad_output ::
  "tokenizer_pad \<Rightarrow> 'e \<Rightarrow> nat \<Rightarrow> nat \<Rightarrow> real option \<Rightarrow> ('i, 'e) agent_output \<Rightarrow> 'e padded_output result" where
  "pad_output pad zero P R reward out =
     (let (prompt, prompt_att) = pad True P (out_prompt_ids out);
          (response, response_att) = pad False R (out_response_ids out);
          (msk, mask_att) = pad False R (out_response_mask out);
          attention = prompt_att @ response_att; input = prompt @ response
      in guard_res (length msk = length response_att) RuntimeError (
         bind_res (case out_routed_experts out of
                     None \<Rightarrow> Inr None
                   | Some e \<Rightarrow> bind_res (place_experts zero (length input) (length prompt) (length (out_prompt_ids out)) e) (\<lambda>es. Inr (Some es)))
           (\<lambda>experts. Inr
             \<lparr>pad_prompt_ids = prompt, pad_response_ids = response, pad_input_ids = input,
              pad_position_ids = compute_position_id_with_mask attention,
              pad_response_mask = map2 (*) msk response_att, pad_attention_mask = attention,
              pad_logprobs = map_option (\<lambda>l. l @ replicate (R - length l) 0) (out_logprobs out),
              pad_routed_experts = experts, pad_reward = reward, pad_num_turns = out_num_turns out\<rparr>)))"

subsection \<open>The batch\<close>

record 'e agent_batch =
  batch_prompts :: "int list list"
  batch_responses :: "int list list"
  batch_response_mask :: "int list list"
  batch_input_ids :: "int list list"
  batch_attention_mask :: "int list list"
  batch_position_ids :: "int list list"
  batch_logprobs :: "real list list option"
  batch_routed_experts :: "'e list list option"
  batch_rm_scores :: "real list list option"
  batch_num_turns :: "nat list"

text \<open>Rows of different widths cannot be concatenated; an optional column is present if the first row has it.\<close>

definition cat_rows :: "'a list list \<Rightarrow> 'a list list result" where
  "cat_rows rows = guard_res (rows \<noteq> []) RuntimeError (guard_res (list_all (\<lambda>r. length r = length (hd rows)) rows) RuntimeError (Inr rows))"

definition cat_optional :: "'a list option list \<Rightarrow> 'a list list option result" where
  "cat_optional rows =
     (case rows of
        Some r # rest \<Rightarrow>
          bind_res (traverse (\<lambda>o_row. case o_row of Some x \<Rightarrow> Inr x | None \<Rightarrow> Inl TypeError) rows) (\<lambda>xs.
          bind_res (cat_rows xs) (\<lambda>ys. Inr (Some ys)))
      | _ \<Rightarrow> Inr None)"

text \<open>The score at the last attended token of the response; an index of minus one is the last column.\<close>

definition score_row :: "nat \<Rightarrow> nat \<Rightarrow> int list \<Rightarrow> real \<Rightarrow> real list result" where
  "score_row prompt_width response_width attention score =
     (let k = sum_list (drop prompt_width attention) - 1;
          j = (if k < 0 then k + int response_width else k)
      in guard_res (0 \<le> j \<and> j < int response_width) IndexError (Inr ((replicate response_width 0)[nat j := score])))"

definition postprocess_batch :: "'e padded_output list \<Rightarrow> 'e agent_batch result" where
  "postprocess_batch rows =
     bind_res (cat_rows (map pad_prompt_ids rows)) (\<lambda>prompts.
     bind_res (cat_rows (map pad_response_ids rows)) (\<lambda>responses.
     bind_res (cat_rows (map pad_response_mask rows)) (\<lambda>masks.
     bind_res (cat_rows (map pad_attention_mask rows)) (\<lambda>attentions.
     bind_res (cat_rows (map pad_input_ids rows)) (\<lambda>inputs.
     bind_res (cat_rows (map pad_position_ids rows)) (\<lambda>positions.
     bind_res (cat_optional (map pad_logprobs rows)) (\<lambda>lps.
     bind_res (cat_optional (map pad_routed_experts rows)) (\<lambda>experts.
     bind_res
       (if list_all (\<lambda>r. pad_reward r \<noteq> None) rows
        then bind_res (traverse (\<lambda>(r, attention). score_row (length (hd prompts)) (length (hd masks)) attention (the (pad_reward r)))
               (zip rows attentions)) (\<lambda>s. Inr (Some s))
        else Inr None) (\<lambda>scores.
     Inr \<lparr>batch_prompts = prompts, batch_responses = responses, batch_response_mask = masks, batch_input_ids = inputs,
          batch_attention_mask = attentions, batch_position_ids = positions, batch_logprobs = lps,
          batch_routed_experts = experts, batch_rm_scores = scores, batch_num_turns = map pad_num_turns rows\<rparr>)))))))))"

text \<open>The scores of an unpadded output as a dictionary.\<close>

definition dict_scores :: "('i, 'e) agent_output \<Rightarrow> real \<Rightarrow> real list result" where
  "dict_scores out score =
     guard_res (out_response_mask out \<noteq> []) IndexError
       (Inr ((replicate (length (out_response_mask out)) 0)[length (out_response_mask out) - 1 := score]))"

text \<open>Numbering the rollouts of a sample: consecutive rows of the same index.\<close>

fun trajectory_numbers :: "'k option \<Rightarrow> nat \<Rightarrow> 'k list \<Rightarrow> nat list" where
  "trajectory_numbers previous n [] = []"
| "trajectory_numbers previous n (k # ks) =
     (let m = (if previous = Some k then n + 1 else 0) in m # trajectory_numbers (Some k) m ks)"

definition get_trajectory_info :: "int \<Rightarrow> 'k list \<Rightarrow> bool \<Rightarrow> (int \<times> 'k \<times> nat \<times> bool) list" where
  "get_trajectory_info global_step idx validate =
     map2 (\<lambda>k n. (global_step, k, n, validate)) idx (trajectory_numbers None 0 idx)"

subsection \<open>Teachers\<close>

definition resolve_teacher_key :: "string list \<Rightarrow> string option \<Rightarrow> string result" where
  "resolve_teacher_key teachers routing_key =
     (if length teachers = 1 then Inr (hd teachers)
      else case routing_key of
             None \<Rightarrow> Inl ValueError
           | Some k \<Rightarrow> guard_res (k \<in> set teachers) ValueError (Inr k))"

definition get_teacher_sampling_params :: "real \<Rightarrow> nat option \<Rightarrow> (int \<times> real \<times> nat) result" where
  "get_teacher_sampling_params temp topk =
     guard_res (temp = 1) NotImplementedError (Inr (1, temp, case topk of None \<Rightarrow> 0 | Some k \<Rightarrow> k))"

text \<open>Padding by an amount that may be negative, which cuts.\<close>

definition pad_front :: "int \<Rightarrow> 'a \<Rightarrow> 'a list \<Rightarrow> 'a list" where
  "pad_front n v xs = (if 0 \<le> n then replicate (nat n) v @ xs else drop (nat (- n)) xs)"

definition pad_back :: "int \<Rightarrow> 'a \<Rightarrow> 'a list \<Rightarrow> 'a list" where
  "pad_back n v xs = (if 0 \<le> n then xs @ replicate (nat n) v else take (length xs - nat (- n)) xs)"

definition pad_teacher_outputs :: "nat \<Rightarrow> nat \<Rightarrow> nat \<Rightarrow> nat \<Rightarrow> 'a \<Rightarrow> 'a list \<Rightarrow> 'a list" where
  "pad_teacher_outputs prompt_width response_width prompt response v xs =
     pad_back (int response_width - int response) v (pad_front (int prompt_width - int prompt) v xs)"

text \<open>
  The teachers with their temperatures. The server gets the parameters and the sequence; its answer has a row for every
  token of the sequence. A sample without a loop of distillation, or of a validation, has no rows.
\<close>

type_synonym teacher_server = "string \<Rightarrow> int \<times> real \<times> nat \<Rightarrow> int list \<Rightarrow> (int list \<times> real list) result"

definition teacher_logprobs ::
  "teacher_server \<Rightarrow> (string \<times> real) list \<Rightarrow> nat option \<Rightarrow> int list \<Rightarrow> string option \<Rightarrow> (int list \<times> real list) result" where
  "teacher_logprobs ask teachers topk sequence_ids routing_key =
     bind_res (resolve_teacher_key (map fst teachers) routing_key) (\<lambda>k.
     case map_of teachers k of None \<Rightarrow> Inl KeyError | Some temp \<Rightarrow>
     bind_res (get_teacher_sampling_params temp topk) (\<lambda>params.
     bind_res (ask k params sequence_ids) (\<lambda>(ids, lps).
     guard_res (length ids = length lps \<and> length lps = length sequence_ids) AssertionError (Inr (ids, lps)))))"

definition sample_teacher_logprobs ::
  "teacher_server \<Rightarrow> (string \<times> real) list \<Rightarrow> nat option \<Rightarrow> bool \<Rightarrow> bool \<Rightarrow> ('i, 'e) agent_output \<Rightarrow> string option \<Rightarrow>
     (int list \<times> real list) option result" where
  "sample_teacher_logprobs ask teachers topk distillation_enabled validate out routing_key =
     (if distillation_enabled \<and> \<not> validate
      then bind_res (teacher_logprobs ask teachers topk (out_prompt_ids out @ out_response_ids out) routing_key) (\<lambda>r. Inr (Some r))
      else Inr None)"

subsection \<open>What padding keeps\<close>

definition attended :: "int list \<Rightarrow> 'a list \<Rightarrow> 'a list" where
  "attended att xs = map snd (filter (\<lambda>(a, x). a = 1) (zip att xs))"

lemma attended_append: "length att = length xs \<Longrightarrow> attended (att @ att') (xs @ ys) = attended att xs @ attended att' ys"
  by (simp add: attended_def)

lemma attended_zeros [simp]: "attended (replicate n 0) xs = []"
  by (induction n arbitrary: xs) (auto simp: attended_def zip_Cons1 split: list.splits)

lemma attended_ones [simp]: "length xs = n \<Longrightarrow> attended (replicate n 1) xs = xs"
  by (induction xs arbitrary: n) (auto simp: attended_def)

lemma length_cumsum [simp]: "length (cumsum_from a xs) = length xs"
  by (induction xs arbitrary: a) auto

lemma cumsum_append: "cumsum_from a (xs @ ys) = cumsum_from a xs @ cumsum_from (a + sum_list xs) ys"
  by (induction xs arbitrary: a) (auto simp: add.assoc)

lemma cumsum_ones: "cumsum_from a (replicate n 1) = map (\<lambda>i. a + int i + 1) [0..<n]"
proof (induction n arbitrary: a)
  case (Suc n)
  have "map (\<lambda>i. a + int i + 1) [0..<Suc n] = (a + 1) # map (\<lambda>i. (a + 1) + int i + 1) [0..<n]"
    by (simp add: map_upt_Suc algebra_simps del: upt_Suc)
  then show ?case using Suc [of "a + 1"] by simp
qed simp

text \<open>The frame of a padded row: zeros, the attended tokens, zeros.\<close>

definition framed :: "nat \<Rightarrow> nat \<Rightarrow> nat \<Rightarrow> int list" where
  "framed before n behind = replicate before 0 @ replicate n 1 @ replicate behind 0"

lemma attended_framed: "length us = before \<Longrightarrow> length xs = n \<Longrightarrow> attended (framed before n behind) (us @ xs @ vs) = xs"
  by (simp add: framed_def attended_append)

lemma positions_framed: "attended (framed a n b) (compute_position_id_with_mask (framed a n b)) = map int [0..<n]"
proof -
  have "compute_position_id_with_mask (framed a n b) =
      map (\<lambda>c. max 0 (c - 1)) (cumsum_from 0 (replicate a 0)) @ map int [0..<n] @
      map (\<lambda>c. max 0 (c - 1)) (cumsum_from (int n) (replicate b 0))"
    by (simp add: compute_position_id_with_mask_def framed_def cumsum_append cumsum_ones comp_def sum_list_replicate)
  then show ?thesis using attended_framed [of _ a "map int [0..<n]" n b] by simp
qed

definition fits :: "nat \<Rightarrow> nat \<Rightarrow> ('i, 'e) agent_output \<Rightarrow> bool" where
  "fits P R out \<longleftrightarrow> out_prompt_ids out \<noteq> [] \<and> out_response_ids out \<noteq> [] \<and> length (out_prompt_ids out) \<le> P \<and>
     length (out_response_ids out) \<le> R \<and> length (out_response_mask out) = length (out_response_ids out)"

lemma masked_product: "length xs = n \<Longrightarrow> map2 (*) (xs @ ys) (replicate n 1 @ replicate (length ys) 0) = xs @ replicate (length ys) (0 :: int)"
proof -
  have "map2 (*) zs (replicate (length zs) 0) = replicate (length zs) (0 :: int)" for zs by (induction zs) auto
  moreover have "map2 (*) zs (replicate (length zs) (1 :: int)) = zs" for zs by (induction zs) auto
  ultimately show "length xs = n \<Longrightarrow> ?thesis" by auto
qed

lemma pad_output_Inr:
  assumes "pads pad tok" and "fits P R out" and "pad_output pad zero P R reward out = Inr p"
  defines "a \<equiv> P - length (out_prompt_ids out)" and "n \<equiv> length (out_prompt_ids out)" and "m \<equiv> length (out_response_ids out)"
  shows "pad_prompt_ids p = replicate a tok @ out_prompt_ids out" and "pad_response_ids p = out_response_ids out @ replicate (R - m) tok"
    and "pad_input_ids p = replicate a tok @ (out_prompt_ids out @ out_response_ids out) @ replicate (R - m) tok"
    and "pad_attention_mask p = framed a (n + m) (R - m)" and "pad_response_mask p = out_response_mask out @ replicate (R - m) 0"
    and "pad_position_ids p = compute_position_id_with_mask (framed a (n + m) (R - m))"
    and "pad_logprobs p = map_option (\<lambda>l. l @ replicate (R - length l) 0) (out_logprobs out)" and "pad_reward p = reward"
    and "pad_num_turns p = out_num_turns out"
    and "\<And>e. out_routed_experts out = Some e \<Longrightarrow> length e = n + m \<Longrightarrow> pad_routed_experts p = Some (replicate a zero @ e @ replicate (R - m) zero)"
    and "out_routed_experts out = None \<Longrightarrow> pad_routed_experts p = None"
proof -
  have ne: "out_prompt_ids out \<noteq> []" "out_response_ids out \<noteq> []" "out_response_mask out \<noteq> []"
    and len: "length (out_response_mask out) = m" "n \<le> P" "m \<le> R"
    using assms(2) by (auto simp: fits_def m_def n_def)
  have e1: "pad True P (out_prompt_ids out) = (replicate a tok @ out_prompt_ids out, replicate a 0 @ replicate n 1)"
    and e2: "pad False R (out_response_ids out) = (out_response_ids out @ replicate (R - m) tok, replicate m 1 @ replicate (R - m) 0)"
    and e3: "pad False R (out_response_mask out) = (out_response_mask out @ replicate (R - m) tok, replicate m 1 @ replicate (R - m) 0)"
    using assms(1) ne len(1) by (simp_all add: pads_def a_def n_def m_def)
  have att: "(replicate a 0 @ replicate n 1) @ (replicate m 1 @ replicate (R - m) 0) = framed a (n + m) (R - m)"
    by (simp add: framed_def replicate_add)
  have prod: "map2 (*) (out_response_mask out @ replicate (R - m) tok) (replicate m 1 @ replicate (R - m) 0) = out_response_mask out @ replicate (R - m) 0"
    using masked_product [of "out_response_mask out" m "replicate (R - m) tok"] len by simp
  have sub: "a + n = P" using len by (simp add: a_def n_def)
  obtain experts where p: "p = \<lparr>pad_prompt_ids = replicate a tok @ out_prompt_ids out, pad_response_ids = out_response_ids out @ replicate (R - m) tok,
      pad_input_ids = replicate a tok @ (out_prompt_ids out @ out_response_ids out) @ replicate (R - m) tok,
      pad_position_ids = compute_position_id_with_mask (framed a (n + m) (R - m)),
      pad_response_mask = out_response_mask out @ replicate (R - m) 0, pad_attention_mask = framed a (n + m) (R - m),
      pad_logprobs = map_option (\<lambda>l. l @ replicate (R - length l) 0) (out_logprobs out),
      pad_routed_experts = experts, pad_reward = reward, pad_num_turns = out_num_turns out\<rparr>"
    and experts: "(case out_routed_experts out of None \<Rightarrow> Inr None
       | Some e \<Rightarrow> bind_res (place_experts zero (P + R) P n e) (\<lambda>es. Inr (Some es))) = Inr experts"
  proof -
    have widths: "length (replicate a tok @ out_prompt_ids out) = P" "length (out_response_ids out @ replicate (R - m) tok) = R"
      "length (out_response_mask out @ replicate (R - m) tok) = length (replicate m (1 :: int) @ replicate (R - m) 0)"
      using len sub by (simp_all add: n_def m_def)
    then have both: "length ((replicate a tok @ out_prompt_ids out) @ (out_response_ids out @ replicate (R - m) tok)) = P + R" by simp
    from assms(3) show ?thesis
      unfolding pad_output_def e1 e2 e3 Let_def prod.case att prod widths both n_def [symmetric] guard_res_Inr_iff bind_res_Inr_iff
      by (elim exE conjE) (rule that, simp_all)
  qed
  show "pad_prompt_ids p = replicate a tok @ out_prompt_ids out" "pad_response_ids p = out_response_ids out @ replicate (R - m) tok"
    "pad_input_ids p = replicate a tok @ (out_prompt_ids out @ out_response_ids out) @ replicate (R - m) tok"
    "pad_attention_mask p = framed a (n + m) (R - m)" "pad_response_mask p = out_response_mask out @ replicate (R - m) 0"
    "pad_position_ids p = compute_position_id_with_mask (framed a (n + m) (R - m))"
    "pad_logprobs p = map_option (\<lambda>l. l @ replicate (R - length l) 0) (out_logprobs out)" "pad_reward p = reward"
    "pad_num_turns p = out_num_turns out"
    by (simp_all add: p)
  show "out_routed_experts out = None \<Longrightarrow> pad_routed_experts p = None" using experts by (simp add: p)
  show "pad_routed_experts p = Some (replicate a zero @ e @ replicate (R - m) zero)" if "out_routed_experts out = Some e" "length e = n + m" for e
    using experts that len sub by (auto simp: p place_experts_def Let_def bind_res_Inr_iff min_def split: if_splits)
qed

text \<open>
  C32: Padding loses nothing: the attended tokens of a padded row are the prompt and the response, their positions count from
  zero, routed experts and teacher rows given for each token lie at their tokens, and the response mask keeps its entries
  and is zero behind the response.
\<close>

theorem padding_round_trip:
  assumes "pads pad tok" and "fits P R out" and "pad_output pad zero P R reward out = Inr p"
    and "length rows = length (out_prompt_ids out @ out_response_ids out)"
  shows "attended (pad_attention_mask p) (pad_input_ids p) = out_prompt_ids out @ out_response_ids out \<and>
         attended (pad_attention_mask p) (pad_position_ids p) = map int [0..<length rows] \<and>
         attended (pad_attention_mask p)
           (pad_teacher_outputs P R (length (out_prompt_ids out)) (length (out_response_ids out)) v rows) = rows \<and>
         (if out_routed_experts out = Some rows then map_option (attended (pad_attention_mask p)) (pad_routed_experts p) = Some rows else True) \<and>
         pad_response_mask p = out_response_mask out @ replicate (R - length (out_response_ids out)) 0 \<and>
         length (pad_input_ids p) = P + R"
proof -
  note row = pad_output_Inr [OF assms(1-3)]
  have len: "length (out_prompt_ids out) \<le> P" "length (out_response_ids out) \<le> R" using assms(2) by (auto simp: fits_def)
  have rows: "length rows = length (out_prompt_ids out) + length (out_response_ids out)" using assms(4) by simp
  let ?a = "P - length (out_prompt_ids out)" and ?b = "R - length (out_response_ids out)"
  have teacher: "pad_teacher_outputs P R (length (out_prompt_ids out)) (length (out_response_ids out)) v rows = replicate ?a v @ rows @ replicate ?b v"
    using len by (simp add: pad_teacher_outputs_def pad_front_def pad_back_def nat_diff_distrib)
  have "attended (pad_attention_mask p) (pad_input_ids p) = out_prompt_ids out @ out_response_ids out"
    unfolding row(3,4) by (rule attended_framed) simp_all
  moreover have "attended (pad_attention_mask p) (pad_position_ids p) = map int [0..<length rows]"
    unfolding row(4,6) rows by (rule positions_framed)
  moreover have "attended (pad_attention_mask p) (replicate ?a u @ rows @ replicate ?b u) = rows" for u
    unfolding row(4) using rows by (intro attended_framed) simp_all
  moreover have "length (pad_input_ids p) = P + R" using len by (simp add: row(3))
  ultimately show ?thesis using row(5) row(10) [of rows] rows by (auto simp: teacher)
qed

text \<open>A sample of the vocabulary: the padding token is zero.\<close>

definition sample_pad :: tokenizer_pad where
  "sample_pad left n ids =
     (if left then (replicate (n - length ids) 0 @ ids, replicate (n - length ids) 0 @ replicate (length ids) 1)
      else (ids @ replicate (n - length ids) 0, replicate (length ids) 1 @ replicate (n - length ids) 0))"

lemma sample_pads: "pads sample_pad 0"
  by (simp add: pads_def sample_pad_def)

lemma sample_fits: "fits 3 8 sample_output"
  by (simp add: fits_def sample_output_def)

lemma padding_round_trip_witness:
  "\<exists>p. pad_output sample_pad () 3 8 (Some 1) sample_output = Inr p \<and>
       attended (pad_attention_mask p) (pad_input_ids p) = [1, 2, 5, 9, 3, 4, 7] \<and> pad_response_mask p = [1, 1, 0, 0, 1, 0, 0, 0]"
proof -
  obtain p where p: "pad_output sample_pad () 3 8 (Some 1) sample_output = Inr p"
    by (cases "pad_output sample_pad () 3 8 (Some 1) sample_output") (code_simp, blast)
  have "length [0 .. 6 :: int] = length (out_prompt_ids sample_output @ out_response_ids sample_output)" by (simp add: sample_output_def)
  from padding_round_trip [OF sample_pads sample_fits p, of "replicate 7 ()"] p show ?thesis
    by (auto simp: sample_output_def numeral_eq_Suc)
qed

subsection \<open>Rewards of a batch\<close>

definition at_last_token :: "nat \<Rightarrow> nat \<Rightarrow> real \<Rightarrow> real list" where
  "at_last_token R n score = (replicate R 0)[n - 1 := score]"

lemma cat_rows_same: "rows \<noteq> [] \<Longrightarrow> (\<And>r. r \<in> set rows \<Longrightarrow> length r = n) \<Longrightarrow> cat_rows rows = Inr rows"
  by (cases rows) (auto simp: cat_rows_def list_all_iff)

lemma cat_map_same: "xs \<noteq> [] \<Longrightarrow> (\<And>x. x \<in> set xs \<Longrightarrow> length (f x) = n) \<Longrightarrow> cat_rows (map f xs) = Inr (map f xs)"
  by (rule cat_rows_same) auto

lemma cat_optional_same:
  assumes "xs \<noteq> []" and "\<And>x. x \<in> set xs \<Longrightarrow> length (f x) = n"
  shows "cat_optional (map (\<lambda>x. Some (f x)) xs) = Inr (Some (map f xs))"
proof -
  have "traverse (\<lambda>o_row. case o_row of Some x \<Rightarrow> Inr x | None \<Rightarrow> Inl TypeError) (map (\<lambda>x. Some (f x)) xs) = Inr (map f xs)"
    by (induction xs) auto
  moreover have "cat_rows (map f xs) = Inr (map f xs)" using assms by (intro cat_rows_same) auto
  ultimately show ?thesis using assms(1) by (cases xs) (auto simp: cat_optional_def)
qed

lemma score_row_last:
  assumes "P = a + k" and "0 < m" and "m \<le> R"
  shows "score_row P R (framed a (k + m) (R - m)) score = Inr (at_last_token R m score)"
proof -
  have "drop P (framed a (k + m) (R - m)) = replicate m 1 @ replicate (R - m) 0"
    by (simp add: framed_def assms(1) replicate_add)
  then have "sum_list (drop P (framed a (k + m) (R - m))) = int m" by (simp add: sum_list_replicate)
  then show ?thesis using assms(2,3) by (simp add: score_row_def Let_def at_last_token_def nat_diff_distrib)
qed

lemma traverse_projr: "traverse f xs = Inr ys \<Longrightarrow> ys = map (\<lambda>x. projr (f x)) xs \<and> (\<forall>x\<in>set xs. f x = Inr (projr (f x)))"
  by (induction xs arbitrary: ys) (auto simp: bind_res_Inr_iff)

text \<open>Rows of the same widths with log-probabilities and rewards, and without experts.\<close>

definition row_fits :: "nat \<Rightarrow> nat \<Rightarrow> 'e padded_output \<Rightarrow> bool" where
  "row_fits P R r \<longleftrightarrow>
     length (pad_prompt_ids r) = P \<and> length (pad_response_ids r) = R \<and> length (pad_response_mask r) = R \<and>
     length (pad_attention_mask r) = P + R \<and> length (pad_input_ids r) = P + R \<and> length (pad_position_ids r) = P + R \<and>
     (\<exists>l. pad_logprobs r = Some l \<and> length l = R) \<and> pad_routed_experts r = None \<and> pad_reward r \<noteq> None"

lemma cat_optional_all:
  assumes "rows \<noteq> []" and "\<And>r. r \<in> set rows \<Longrightarrow> \<exists>l. f r = Some l \<and> length l = n"
  shows "cat_optional (map f rows) = Inr (Some (map (\<lambda>r. the (f r)) rows))"
proof -
  have "map f rows = map (\<lambda>r. Some (the (f r))) rows" (is "_ = ?rows") using assms(2) by fastforce
  then have "cat_optional (map f rows) = cat_optional ?rows" by (rule arg_cong)
  also have "\<dots> = Inr (Some (map (\<lambda>r. the (f r)) rows))"
    using assms(2) by (intro cat_optional_same [of _ _ n] assms(1)) fastforce
  finally show ?thesis .
qed

lemma cat_optional_none: "rows \<noteq> [] \<Longrightarrow> (\<And>r. r \<in> set rows \<Longrightarrow> f r = None) \<Longrightarrow> cat_optional (map f rows) = Inr None"
  by (cases rows) (auto simp: cat_optional_def)

lemma postprocess_batch_Inr:
  assumes "rows \<noteq> []" and fit: "\<And>r. r \<in> set rows \<Longrightarrow> row_fits P R r"
    and score: "\<And>r. r \<in> set rows \<Longrightarrow> score_row P R (pad_attention_mask r) (the (pad_reward r)) = Inr (g r)"
  shows "\<exists>b. postprocess_batch rows = Inr b \<and> batch_rm_scores b = Some (map g rows)"
proof -
  have cats: "cat_rows (map pad_prompt_ids rows) = Inr (map pad_prompt_ids rows)"
    "cat_rows (map pad_response_ids rows) = Inr (map pad_response_ids rows)"
    "cat_rows (map pad_response_mask rows) = Inr (map pad_response_mask rows)"
    "cat_rows (map pad_attention_mask rows) = Inr (map pad_attention_mask rows)"
    "cat_rows (map pad_input_ids rows) = Inr (map pad_input_ids rows)"
    "cat_rows (map pad_position_ids rows) = Inr (map pad_position_ids rows)"
    using fit by (auto simp: row_fits_def intro!: cat_map_same assms(1))
  have lps: "cat_optional (map pad_logprobs rows) = Inr (Some (map (\<lambda>r. the (pad_logprobs r)) rows))"
    using fit by (intro cat_optional_all [of _ _ R] assms(1)) (simp add: row_fits_def)
  have experts: "cat_optional (map pad_routed_experts rows) = Inr None"
    using fit by (intro cat_optional_none assms(1)) (simp add: row_fits_def)
  have heads: "length (hd (map pad_prompt_ids rows)) = P" "length (hd (map pad_response_mask rows)) = R"
    using assms(1) fit by (simp_all add: hd_map row_fits_def)
  have "traverse (\<lambda>(r, attention). score_row P R attention (the (pad_reward r))) (zip rows (map pad_attention_mask rows)) = Inr (map g rows)"
    using score by (induction rows) simp_all
  moreover have "list_all (\<lambda>r. pad_reward r \<noteq> None) rows" using fit by (simp add: row_fits_def list_all_iff)
  ultimately show ?thesis by (simp add: postprocess_batch_def cats lps experts heads)
qed

lemma pad_output_row_fits:
  assumes "pads pad tok" and "fits P R out" and "pad_output pad zero P R (Some score) out = Inr p"
    and "out_routed_experts out = None" and "\<exists>l. out_logprobs out = Some l \<and> length l = length (out_response_ids out)"
  shows "row_fits P R p" and "score_row P R (pad_attention_mask p) (the (pad_reward p)) = Inr (at_last_token R (length (out_response_ids out)) score)"
proof -
  note row = pad_output_Inr [OF assms(1-3)]
  have len: "length (out_prompt_ids out) \<le> P" "length (out_response_ids out) \<le> R" "0 < length (out_response_ids out)"
    "length (out_response_mask out) = length (out_response_ids out)"
    using assms(2) by (auto simp: fits_def)
  show "row_fits P R p"
    using len assms(4,5) row(1-9,11) by (auto simp: row_fits_def framed_def compute_position_id_with_mask_def)
  show "score_row P R (pad_attention_mask p) (the (pad_reward p)) = Inr (at_last_token R (length (out_response_ids out)) score)"
    unfolding row(4,8) using len by (subst score_row_last) simp_all
qed

text \<open>
  C33: If every output of a batch has a reward, fits its widths and has its log-probabilities, the batch is formed and the score of
  a row is its reward at the last token of its response and zero elsewhere, which is where the unpadded dictionary has it.
\<close>

theorem batch_rewards_last_token:
  assumes "pads pad tok" and "outs \<noteq> []"
    and "\<forall>(out, score)\<in>set outs. fits P R out \<and> out_routed_experts out = None \<and>
           (\<exists>l. out_logprobs out = Some l \<and> length l = length (out_response_ids out))"
    and "traverse (\<lambda>(out, score). pad_output pad zero P R (Some score) out) outs = Inr rows"
  shows "\<exists>b. postprocess_batch rows = Inr b \<and>
           batch_rm_scores b = Some (map (\<lambda>(out, score). at_last_token R (length (out_response_ids out)) score) outs) \<and>
           (\<forall>(out, score)\<in>set outs.
              dict_scores out score = Inr (take (length (out_response_ids out)) (at_last_token R (length (out_response_ids out)) score)))"
proof -
  let ?f = "\<lambda>(out, score). pad_output pad zero P R (Some score) out"
  let ?last = "\<lambda>(out :: ('a, 'b) agent_output, score). at_last_token R (length (out_response_ids out)) score"
  let ?g = "\<lambda>r. projr (score_row P R (pad_attention_mask r) (the (pad_reward r)))"
  have rows: "rows = map (\<lambda>x. projr (?f x)) outs" and each: "\<forall>x\<in>set outs. ?f x = Inr (projr (?f x))"
    using traverse_projr [OF assms(4)] by simp_all
  have fit: "row_fits P R (projr (?f x)) \<and>
      score_row P R (pad_attention_mask (projr (?f x))) (the (pad_reward (projr (?f x)))) = Inr (?last x)" if "x \<in> set outs" for x
    using pad_output_row_fits [OF assms(1), of P R "fst x" zero "snd x" "projr (?f x)"] bspec [OF each that] bspec [OF assms(3) that]
    by (simp add: case_prod_beta')
  have "map ?g rows = map ?last outs" using fit unfolding rows by simp
  moreover have "\<exists>b. postprocess_batch rows = Inr b \<and> batch_rm_scores b = Some (map ?g rows)"
    using fit assms(2) unfolding rows by (intro postprocess_batch_Inr [of _ P R]) auto
  moreover have "dict_scores (fst x) (snd x) = Inr (take (length (out_response_ids (fst x))) (?last x))" if "x \<in> set outs" for x
  proof -
    have "length (out_response_mask (fst x)) = length (out_response_ids (fst x))" "out_response_mask (fst x) \<noteq> []"
      "length (out_response_ids (fst x)) \<le> R"
      using bspec [OF assms(3) that] by (auto simp: fits_def)
    then show ?thesis by (simp add: dict_scores_def at_last_token_def take_update_swap min_def case_prod_beta')
  qed
  ultimately show ?thesis by (auto simp: case_prod_beta')
qed

lemma batch_rewards_last_token_witness:
  "\<exists>rows b. traverse (\<lambda>(out, score). pad_output sample_pad () 3 8 (Some score) out) [(sample_output, 1), (sample_output, 2)] = Inr rows \<and>
     postprocess_batch rows = Inr b \<and> batch_rm_scores b = Some [[0, 0, 0, 0, 1, 0, 0, 0], [0, 0, 0, 0, 2, 0, 0, 0]]"
proof -
  let ?outs = "[(sample_output, 1), (sample_output, 2)] :: ((unit, unit) agent_output \<times> real) list"
  let ?f = "\<lambda>(out, score). pad_output sample_pad () 3 8 (Some score) out"
  have each: "\<exists>p. pad_output sample_pad () 3 8 reward sample_output = Inr p" for reward
    by (simp add: sample_output_def pad_output_def sample_pad_def guard_res_def Let_def)
  then obtain p q where "pad_output sample_pad () 3 8 (Some 1) sample_output = Inr p" "pad_output sample_pad () 3 8 (Some 2) sample_output = Inr q"
    by blast
  then have rows: "traverse ?f ?outs = Inr [p, q]" by simp
  have "\<forall>(out, score)\<in>set ?outs. fits 3 8 out \<and> out_routed_experts out = None \<and>
      (\<exists>l. out_logprobs out = Some l \<and> length l = length (out_response_ids out))"
    using sample_fits by (simp add: sample_output_def)
  from batch_rewards_last_token [OF sample_pads _ this rows] rows show ?thesis
    by (auto simp: at_last_token_def sample_output_def numeral_eq_Suc)
qed

text \<open>The rollouts of repeated samples are numbered from zero for each sample.\<close>

lemma trajectory_numbers_block:
  "trajectory_numbers (Some k) m (replicate n k @ ks) = map (\<lambda>i. m + 1 + i) [0..<n] @ trajectory_numbers (Some k) (m + n) ks"
proof (induction n arbitrary: m)
  case (Suc n)
  have "map (\<lambda>i. m + 1 + i) [0..<Suc n] = (m + 1) # map (\<lambda>i. m + 1 + 1 + i) [0..<n]"
    by (simp add: map_upt_Suc del: upt_Suc)
  then show ?case using Suc [of "m + 1"] by simp
qed simp

theorem rollouts_numbered:
  assumes "0 < n" and "distinct ks"
  shows "map (\<lambda>(s, k, i, v). (k, i)) (get_trajectory_info global_step (concat (map (replicate n) ks)) validate) =
           concat (map (\<lambda>k. map (\<lambda>i. (k, i)) [0..<n]) ks)"
proof -
  have numbers: "trajectory_numbers prev m (concat (map (replicate n) ks)) = concat (map (\<lambda>k. [0..<n]) ks)"
    if "distinct ks" "\<forall>k\<in>set ks. prev \<noteq> Some k" for prev m ks
    using that
  proof (induction ks arbitrary: prev m)
    case (Cons k ks)
    obtain m' where m': "n = Suc m'" using assms(1) by (cases n) auto
    have "[0..<n] = 0 # map (\<lambda>i. 0 + 1 + i) [0..<m']" by (simp add: m' upt_conv_Cons map_Suc_upt del: upt_Suc)
    moreover have "replicate n k = k # replicate m' k" by (simp add: m')
    moreover have "trajectory_numbers (Some k) m' (concat (map (replicate n) ks)) = concat (map (\<lambda>k. [0..<n]) ks)"
      using Cons.prems by (intro Cons.IH) auto
    ultimately show ?case using Cons.prems by (simp add: trajectory_numbers_block del: upt_Suc)
  qed simp
  have "map (\<lambda>(s, k, i, v). (k, i)) (get_trajectory_info global_step (concat (map (replicate n) ks)) validate) =
      zip (concat (map (replicate n) ks)) (concat (map (\<lambda>k. [0..<n]) ks))"
    using numbers [of ks None 0] assms(2) by (simp add: get_trajectory_info_def comp_def split_def)
  also have "\<dots> = concat (map (\<lambda>k. map (\<lambda>i. (k, i)) [0..<n]) ks)"
  proof (induction ks)
    case (Cons k ks)
    have "zip (replicate n k) [0..<n] = map (\<lambda>i. (k, i)) [0..<n]" by (simp add: list_eq_iff_nth_eq)
    then show ?case using Cons by simp
  qed simp
  finally show ?thesis .
qed

end
