(* ===== verification/WeightTransfer.thy ===== *)
theory WeightTransfer
  imports Prelude
begin

section \<open>Transfer of weights in buckets\<close>

text \<open>
  Models \<open>BucketedWeightSender\<close> and \<open>BucketedWeightReceiver\<close> of
  \<open>src/verl/workers/rollout/vllm_rollout/bucketed_weight_transfer.py\<close>: the packing of the weights into a buffer of fixed
  size, the direct path of large weights, and the reading of the tensors from the shared buffer. The two sockets work
  in lock step, so the receiver reads a bucket while the sender waits; a message therefore carries the buffer as it is
  when the message is sent. Sockets, shared memory and devices are left out.
\<close>

subsection \<open>Weights and messages\<close>

text \<open>A weight has a name, the size of its items, and its bytes. A handle stands for the tensor it shares.\<close>

record 'b weight =
  weight_name :: string
  item_size :: nat
  weight_bytes :: "'b list"

record 'b tensor_metadata =
  meta_item_size :: nat
  meta_nbytes :: nat
  meta_offset :: nat
  meta_handle :: "'b list option"

record 'b bucket_message =
  bucket_meta :: "(string, 'b tensor_metadata) dict"
  is_last_bucket :: bool
  buffer_view :: "'b list"

definition nbytes :: "'b weight \<Rightarrow> nat" where
  "nbytes w = length (weight_bytes w)"

definition metadata :: "'b weight \<Rightarrow> nat \<Rightarrow> 'b tensor_metadata" where
  "metadata w offset = \<lparr>meta_item_size = item_size w, meta_nbytes = nbytes w, meta_offset = offset, meta_handle = None\<rparr>"

definition direct_message :: "'b weight \<Rightarrow> 'b list \<Rightarrow> 'b bucket_message" where
  "direct_message w buf =
     \<lparr>bucket_meta = [(weight_name w, (metadata w 0)\<lparr>meta_handle := Some (weight_bytes w)\<rparr>)], is_last_bucket = False, buffer_view = buf\<rparr>"

definition write_buffer :: "nat \<Rightarrow> 'b list \<Rightarrow> 'b list \<Rightarrow> 'b list" where
  "write_buffer offset bytes buf = take offset buf @ bytes @ drop (offset + length bytes) buf"

definition bucket_size :: "nat \<Rightarrow> nat" where
  "bucket_size mb = mb * 2 ^ 20"

subsection \<open>Sending and receiving\<close>

text \<open>The messages sent, and the error that ends the sending, if any.\<close>

fun send_from ::
  "nat \<Rightarrow> bool \<Rightarrow> nat \<Rightarrow> (string, 'b tensor_metadata) dict \<Rightarrow> 'b list \<Rightarrow> 'b weight list \<Rightarrow> 'b bucket_message list \<times> py_error option" where
  "send_from cap use_shm offset meta buf [] = ([\<lparr>bucket_meta = meta, is_last_bucket = True, buffer_view = buf\<rparr>], None)"
| "send_from cap use_shm offset meta buf (w # ws) =
     (let full = cap < offset + nbytes w \<and> meta \<noteq> [];
          flushed = (if full then [\<lparr>bucket_meta = meta, is_last_bucket = False, buffer_view = buf\<rparr>] else []);
          offset1 = (if full then 0 else offset); meta1 = (if full then [] else meta)
      in if cap < offset1 + nbytes w
         then if use_shm then (flushed, Some AssertionError)
              else let (ms, e) = send_from cap use_shm offset1 meta1 buf ws in (flushed @ [direct_message w buf] @ ms, e)
         else let (ms, e) = send_from cap use_shm (offset1 + nbytes w) (dict_set (weight_name w) (metadata w offset1) meta1)
                    (write_buffer offset1 (weight_bytes w) buf) ws
              in (flushed @ ms, e))"

definition send_weights :: "nat \<Rightarrow> bool \<Rightarrow> 'b list \<Rightarrow> 'b weight list \<Rightarrow> 'b bucket_message list \<times> py_error option" where
  "send_weights cap use_shm buf ws = send_from cap use_shm 0 [] buf ws"

text \<open>A view of the bytes as larger items needs an offset that is a multiple of the item size.\<close>

definition read_tensor :: "'b list \<Rightarrow> 'b tensor_metadata \<Rightarrow> 'b list result" where
  "read_tensor buf m =
     (case meta_handle m of
        Some bytes \<Rightarrow> Inr bytes
      | None \<Rightarrow> guard_res (meta_offset m mod meta_item_size m = 0) RuntimeError (Inr (take (meta_nbytes m) (drop (meta_offset m) buf))))"

definition receive_bucket :: "'b bucket_message \<Rightarrow> (string \<times> 'b list) list result" where
  "receive_bucket msg =
     traverse (\<lambda>(name, m). bind_res (read_tensor (buffer_view msg) m) (\<lambda>bytes. Inr (name, bytes))) (bucket_meta msg)"

text \<open>The buckets handed to the callback, until the last one or an error of either side.\<close>

fun receive_weights :: "'b bucket_message list \<Rightarrow> py_error option \<Rightarrow> (string \<times> 'b list) list list \<times> py_error option" where
  "receive_weights [] e = ([], e)"
| "receive_weights (msg # msgs) e =
     (case receive_bucket msg of
        Inl err \<Rightarrow> ([], Some err)
      | Inr bucket \<Rightarrow>
          if is_last_bucket msg then ([bucket], None)
          else let (buckets, err) = receive_weights msgs e in (bucket # buckets, err))"

definition transfer_weights :: "nat \<Rightarrow> bool \<Rightarrow> 'b list \<Rightarrow> 'b weight list \<Rightarrow> (string \<times> 'b list) list list \<times> py_error option" where
  "transfer_weights cap use_shm buf ws = (let (msgs, e) = send_weights cap use_shm buf ws in receive_weights msgs e)"

subsection \<open>The layout of a bucket\<close>

fun layout :: "nat \<Rightarrow> 'b weight list \<Rightarrow> (string, 'b tensor_metadata) dict" where
  "layout offset [] = []"
| "layout offset (w # ws) = (weight_name w, metadata w offset) # layout (offset + nbytes w) ws"

definition payload :: "'b weight list \<Rightarrow> 'b list" where
  "payload ws = concat (map weight_bytes ws)"

definition named :: "'b weight list \<Rightarrow> (string \<times> 'b list) list" where
  "named ws = map (\<lambda>w. (weight_name w, weight_bytes w)) ws"

definition well_packed :: "nat \<Rightarrow> 'b list \<Rightarrow> 'b weight list \<Rightarrow> bool" where
  "well_packed cap buf ws \<longleftrightarrow> length buf = cap \<and> (\<exists>tail. buf = payload ws @ tail)"

definition aligned :: "'b weight list \<Rightarrow> bool" where
  "aligned ws \<longleftrightarrow> (\<forall>w\<in>set ws. 0 < item_size w \<and> (\<forall>u\<in>set ws. item_size w dvd nbytes u))"

lemma payload_simps [simp]:
  "payload [] = []" "payload (w # ws) = weight_bytes w @ payload ws" "payload (us @ ws) = payload us @ payload ws"
  by (simp_all add: payload_def)

lemma named_simps [simp]: "named [] = []" "named (w # ws) = (weight_name w, weight_bytes w) # named ws" "named (us @ ws) = named us @ named ws"
  by (simp_all add: named_def)

lemma layout_keys [simp]: "fst ` set (layout offset ws) = weight_name ` set ws"
  by (induction ws arbitrary: offset) auto

lemma layout_snoc: "layout offset (ws @ [w]) = layout offset ws @ [(weight_name w, metadata w (offset + length (payload ws)))]"
  by (induction ws arbitrary: offset) (auto simp: nbytes_def add.assoc)

lemma layout_empty [simp]: "layout offset ws = [] \<longleftrightarrow> ws = []"
  by (cases ws) auto

lemma aligned_payload: "\<forall>u\<in>set ws. d dvd nbytes u \<Longrightarrow> d dvd length (payload ws)"
  by (induction ws) (auto simp: nbytes_def)

lemma read_layout:
  assumes "buf = pre @ payload ws @ tail" and "length pre = offset"
    and "\<forall>w\<in>set ws. item_size w dvd offset \<and> (\<forall>u\<in>set ws. item_size w dvd nbytes u)"
  shows "traverse (\<lambda>(name, m). bind_res (read_tensor buf m) (\<lambda>bytes. Inr (name, bytes))) (layout offset ws) = Inr (named ws)"
  using assms
proof (induction ws arbitrary: offset pre)
  case (Cons w ws)
  have "read_tensor buf (metadata w offset) = Inr (weight_bytes w)"
    using Cons.prems by (simp add: read_tensor_def metadata_def nbytes_def dvd_eq_mod_eq_0)
  moreover have "traverse (\<lambda>(name, m). bind_res (read_tensor buf m) (\<lambda>bytes. Inr (name, bytes))) (layout (offset + nbytes w) ws) = Inr (named ws)"
    using Cons.prems by (intro Cons.IH [of "pre @ weight_bytes w"]) (auto simp: nbytes_def)
  ultimately show ?case by simp
qed simp

lemma receive_layout:
  assumes "well_packed cap buf ws" and "aligned ws"
  shows "receive_bucket \<lparr>bucket_meta = layout 0 ws, is_last_bucket = l, buffer_view = buf\<rparr> = Inr (named ws)"
  using assms read_layout [of buf "[]" ws _ 0] by (auto simp: receive_bucket_def well_packed_def aligned_def)

lemma write_packed:
  assumes "well_packed cap buf ws" and "length (payload ws) + nbytes w \<le> cap"
  shows "well_packed cap (write_buffer (length (payload ws)) (weight_bytes w) buf) (ws @ [w])"
  using assms by (auto simp: well_packed_def write_buffer_def nbytes_def)

subsection \<open>The transfer\<close>

definition transfer_from :: "nat \<Rightarrow> bool \<Rightarrow> 'b weight list \<Rightarrow> 'b list \<Rightarrow> 'b weight list \<Rightarrow> (string \<times> 'b list) list list \<times> py_error option" where
  "transfer_from cap use_shm pre buf ws =
     (let (msgs, e) = send_from cap use_shm (length (payload pre)) (layout 0 pre) buf ws in receive_weights msgs e)"

lemma receive_more:
  "receive_bucket msg = Inr bucket \<Longrightarrow> \<not> is_last_bucket msg \<Longrightarrow>
   receive_weights (msg # msgs) e = (bucket # fst (receive_weights msgs e), snd (receive_weights msgs e))"
  by (simp add: Let_def case_prod_beta')

lemma receive_direct: "receive_bucket (direct_message w buf) = Inr (named [w])"
  by (simp add: receive_bucket_def direct_message_def read_tensor_def)

text \<open>A full bucket is flushed; then the weight is sent directly or starts the next bucket.\<close>

lemma transfer_flush:
  assumes "cap < length (payload pre) + nbytes w" and "pre \<noteq> []" and "well_packed cap buf pre" and "aligned pre"
  shows "transfer_from cap use_shm pre buf (w # ws) =
    (named pre # fst (transfer_from cap use_shm [] buf (w # ws)), snd (transfer_from cap use_shm [] buf (w # ws)))"
  using assms receive_layout [OF assms(3,4), of False]
  by (simp add: transfer_from_def Let_def case_prod_beta' receive_more)

lemma transfer_direct:
  "cap < nbytes w \<Longrightarrow> transfer_from cap False [] buf (w # ws) =
     (named [w] # fst (transfer_from cap False [] buf ws), snd (transfer_from cap False [] buf ws))"
  using receive_direct [of w buf]
  by (simp add: transfer_from_def Let_def case_prod_beta' receive_more direct_message_def)

lemma transfer_packed:
  assumes "length (payload pre) + nbytes w \<le> cap" and "weight_name w \<notin> weight_name ` set pre"
  shows "transfer_from cap use_shm pre buf (w # ws) =
    transfer_from cap use_shm (pre @ [w]) (write_buffer (length (payload pre)) (weight_bytes w) buf) ws"
  using assms by (simp add: transfer_from_def Let_def case_prod_beta' layout_snoc update_fresh nbytes_def)

lemma aligned_part: "aligned us \<Longrightarrow> set ws \<subseteq> set us \<Longrightarrow> aligned ws"
  by (auto simp: aligned_def)

lemma transfer_all:
  assumes "well_packed cap buf pre" and "aligned (pre @ ws)" and "distinct (map weight_name (pre @ ws))"
    and "use_shm \<longrightarrow> (\<forall>w\<in>set ws. nbytes w \<le> cap)"
  shows "\<exists>buckets. transfer_from cap use_shm pre buf ws = (buckets, None) \<and> concat buckets = named (pre @ ws) \<and>
           (\<forall>b\<in>set buckets. length (concat (map snd b)) \<le> cap \<or> length b = 1)"
  using assms
proof (induction ws arbitrary: pre buf)
  case Nil
  then have "transfer_from cap use_shm pre buf [] = ([named pre], None)"
    using receive_layout [of cap buf pre True] by (simp add: transfer_from_def)
  moreover have "length (concat (map snd (named pre))) \<le> cap"
    using Nil(1) by (auto simp: well_packed_def named_def payload_def comp_def)
  ultimately show ?case by simp
next
  case (Cons w ws)
  let ?buf = "\<lambda>pre. write_buffer (length (payload pre)) (weight_bytes w) buf"
  have aligned_ws: "aligned ws" using Cons.prems(2) by (rule aligned_part) auto
  have start: "\<exists>buckets. transfer_from cap use_shm pre' buf (w # ws) = (buckets, None) \<and> concat buckets = named (pre' @ w # ws) \<and>
      (\<forall>b\<in>set buckets. length (concat (map snd b)) \<le> cap \<or> length b = 1)"
    if pre': "well_packed cap buf pre'" "aligned (pre' @ w # ws)" "distinct (map weight_name (pre' @ w # ws))"
      "length (payload pre') + nbytes w \<le> cap \<or> pre' = []" for pre'
  proof (cases "length (payload pre') + nbytes w \<le> cap")
    case True
    have "\<exists>buckets. transfer_from cap use_shm (pre' @ [w]) (?buf pre') ws = (buckets, None) \<and> concat buckets = named ((pre' @ [w]) @ ws) \<and>
        (\<forall>b\<in>set buckets. length (concat (map snd b)) \<le> cap \<or> length b = 1)"
      using Cons.prems(4) pre' write_packed [OF pre'(1) True] by (intro Cons.IH) auto
    then show ?thesis using transfer_packed [OF True, of use_shm buf ws] pre'(3) by simp
  next
    case False
    then have "pre' = []" "cap < nbytes w" "\<not> use_shm" using pre'(4) Cons.prems(4) by auto
    moreover obtain buckets where "transfer_from cap use_shm [] buf ws = (buckets, None)" "concat buckets = named ws"
      "\<forall>b\<in>set buckets. length (concat (map snd b)) \<le> cap \<or> length b = 1"
      using Cons.IH [of buf "[]"] Cons.prems aligned_ws by (auto simp: well_packed_def)
    ultimately show ?thesis by (auto simp: transfer_direct)
  qed
  show ?case
  proof (cases "length (payload pre) + nbytes w \<le> cap \<or> pre = []")
    case False
    have "aligned (w # ws)" "aligned pre" using Cons.prems(2) by (auto intro: aligned_part)
    moreover have "well_packed cap buf []" using Cons.prems(1) by (simp add: well_packed_def)
    ultimately obtain buckets where "transfer_from cap use_shm [] buf (w # ws) = (buckets, None)" "concat buckets = named (w # ws)"
      "\<forall>b\<in>set buckets. length (concat (map snd b)) \<le> cap \<or> length b = 1"
      using start [of "[]"] Cons.prems(3) by auto
    moreover have "length (concat (map snd (named pre))) \<le> cap"
      using Cons.prems(1) by (auto simp: well_packed_def named_def payload_def comp_def)
    ultimately show ?thesis using transfer_flush [of cap pre w buf use_shm ws] False Cons.prems(1) \<open>aligned pre\<close> by auto
  qed (use start Cons.prems in blast)
qed

text \<open>Weights of two bytes and of four bytes: an odd number of the former leaves the latter at an offset that is not a multiple.\<close>

definition half_weights :: "nat weight list" where
  "half_weights =
     [\<lparr>weight_name = ''gate'', item_size = 2, weight_bytes = [1, 2]\<rparr>, \<lparr>weight_name = ''norm'', item_size = 4, weight_bytes = [3, 4, 5, 6]\<rparr>]"

text \<open>
  C40: If the names are distinct and every weight fills whole items of the others, every weight arrives once, in order, with its bytes, whatever
  the size of the bucket, which no bucket exceeds unless it is a single large weight; with shared memory this needs every weight
  to fit. Without the condition on the items a transfer can fail: a weight of four-byte items behind an odd number of
  two-byte items cannot be viewed at its offset.
\<close>

theorem weights_arrive:
  assumes "length buf = cap" and "aligned ws" and "distinct (map weight_name ws)" and "use_shm \<longrightarrow> (\<forall>w\<in>set ws. nbytes w \<le> cap)"
  shows "(\<exists>buckets. transfer_weights cap use_shm buf ws = (buckets, None) \<and> concat buckets = named ws \<and>
            (\<forall>b\<in>set buckets. length (concat (map snd b)) \<le> cap \<or> length b = 1)) \<and>
         transfer_weights 16 False (replicate 16 0) half_weights = ([], Some RuntimeError)"
proof
  have "transfer_weights cap use_shm buf ws = transfer_from cap use_shm [] buf ws"
    by (simp add: transfer_weights_def send_weights_def transfer_from_def)
  then show "\<exists>buckets. transfer_weights cap use_shm buf ws = (buckets, None) \<and> concat buckets = named ws \<and>
      (\<forall>b\<in>set buckets. length (concat (map snd b)) \<le> cap \<or> length b = 1)"
    using transfer_all [of cap buf "[]" ws use_shm] assms by (simp add: well_packed_def)
  show "transfer_weights 16 False (replicate 16 0) half_weights = ([], Some RuntimeError)"
    by code_simp
qed

lemma weights_arrive_witness:
  "\<exists>buckets. transfer_weights 3 False [0, 0, 0]
       [\<lparr>weight_name = ''a'', item_size = 1, weight_bytes = [1, 2]\<rparr>, \<lparr>weight_name = ''b'', item_size = 1, weight_bytes = [3, 4 :: nat, 5, 6]\<rparr>] =
     (buckets, None) \<and> concat buckets = [(''a'', [1, 2]), (''b'', [3, 4, 5, 6])]"
  using weights_arrive [of "[0, 0, 0]" 3
      "[\<lparr>weight_name = ''a'', item_size = 1, weight_bytes = [1, 2]\<rparr>, \<lparr>weight_name = ''b'', item_size = 1, weight_bytes = [3, 4 :: nat, 5, 6]\<rparr>]" False]
  by (auto simp: aligned_def)

end
