(* ===== verification/Spec2Isabelle.thy ===== *)
theory Spec2Isabelle
  imports Partition MicroBatch ExpThink ProtocolType AsyncTrainer LoadBalancer TokenBucket Dispatch Advantage PolicyLoss Penalty RolloutCorr DapoTrainer Grading Config TrainStep AgentBatch WeightTransfer
begin

text \<open>
  Verification library of the DAPO training recipe (\<open>src/src\<close>) and of the parts of the framework \<open>verl\<close> under it
  (\<open>src/verl\<close>).

  \<^bold>\<open>The program.\<close> A run trains a language model by reinforcement learning. A task runner builds roles and resource pools from
  the configuration; the trainer generates responses to prompts through servers behind a load balancer, with agent loops that
  may call tools; a reward manager grades the responses; the trainer filters groups of responses without signal, computes
  advantages, and sends the batch over a device mesh to workers, which cut it into mini-batches and micro-batches and
  update the model. In the fully asynchronous variant a rollouter feeds a message queue, and a trainer collects from it and sends
  new weights back in buckets.

  \<^bold>\<open>Conventions.\<close> Every theory opens with the source files it models; definitions keep the names of the code.
  Exceptions are values (\<open>py_error\<close>, results in \<open>py_error + 'a\<close>). Dictionaries are association lists in insertion order.
  Python integers are unbounded; tensors of 64-bit integers are words where they can wrap. Tensors of floating-point numbers are
  lists of rows of exact reals, except where rounding decides: the reading of numerals in grading uses doubles (\<open>PyText\<close>), and the
  filter of the trainer takes numpy's standard deviation as an argument, with single precision as an instance (\<open>Rounding\<close>).
  Tokenizers, models, tools, servers, numpy, torch and ray are arguments. Characters have one byte.

  \<^bold>\<open>Shared theories.\<close>
  \<^item> \<open>Prelude\<close>: results, dictionaries, slices, grouping, stable sorting; the collection \<open>res_simps\<close>.
  \<^item> \<open>Steps\<close>: runs of a labelled step relation; the interface \<open>kept_by_steps\<close> turns a condition that steps keep into one
    of every run. \<open>MessageQueue\<close>, \<open>TokenBucket\<close>, \<open>FullyAsync\<close> and, through \<open>routing_cache\<close>, \<open>LoadBalancer\<close> instantiate it.
  \<^item> \<open>PyString\<close>, \<open>PyText\<close>: string methods, \<open>re.sub\<close>, \<open>int\<close> and \<open>float\<close> of texts. \<open>Rounding\<close>: single precision.
  \<^item> \<open>Tensor\<close>: masked statistics (\<open>verl/utils/torch_functional.py\<close>).
  \<^item> \<open>Heapq\<close>: the interface \<open>priority_queue\<close>, and the algorithm of the standard library that provides it.

  \<^bold>\<open>Batches.\<close>
  \<^item> \<open>Partition\<close>, \<open>MicroBatch\<close> (\<open>verl/utils/seqlen_balancing.py\<close>): the Karmarkar-Karp partition of sequence lengths passes its
    own assertions, uses every index once, and leaves a gap of at most the longest item; the rearrangement into micro-batches is undone by
    its inverse. Workloads are 64-bit: lengths are below \<open>2^24\<close> and groups have fewer than \<open>2^14\<close> rows, which excludes a wrap.
  \<^item> \<open>Protocol\<close>, \<open>ProtocolType\<close> (\<open>verl/protocol.py\<close>): batches of tensors and objects with all their operations; padding and
    unpadding; the items built by the operations are well formed, with the exception that concatenation leaves.
  \<^item> \<open>Dispatch\<close> (\<open>verl/single_controller/base\<close>): a call over a mesh equals the call on the whole batch. The interfaces
    \<open>row_batches\<close> and its extension \<open>padded_batches\<close> state what splitting, padding and concatenation promise; \<open>dp_rows\<close>
    provides them with the operations of \<open>Protocol\<close>.
  \<^item> \<open>TrainStep\<close> (\<open>verl/workers/engine_workers.py\<close>, \<open>verl/workers/engine\<close>): the schedule of an update and of an inference.

  \<^bold>\<open>Rewards and losses.\<close>
  \<^item> \<open>ExpThink\<close> (\<open>src/custom_reward_manager.py\<close>): the three-tier reward with its buffer of shortest correct lengths, capped at
    \<open>l_max\<close>; the per-batch mode.
  \<^item> \<open>Grading\<close> (\<open>src/custom_think_rm.py\<close>): the boxed answer, its normal forms, and the verdict. The symbolic algebra is an
    argument; the hypothesis on it concerns differences of integers.
  \<^item> \<open>Advantage\<close>, \<open>PolicyLoss\<close>, \<open>Penalty\<close> (\<open>verl/trainer/ppo/core_algos.py\<close>), \<open>RolloutCorr\<close>
    (\<open>verl/trainer/ppo/rollout_corr_helper.py\<close>): estimators, losses and their aggregation, penalties, importance weights and rejection.
  \<^item> \<open>TokenBucket\<close> (\<open>verl/experimental/reward_loop/reward_manager/limited.py\<close>): the rate limit of requests.

  \<^bold>\<open>Trainers.\<close>
  \<^item> \<open>DapoTrainer\<close> (\<open>src/dapo_ray_trainer.py\<close>): dynamic sampling, the training loop, validation metrics, balancing, the clean-up of
    checkpoints and logs.
  \<^item> \<open>Config\<close> (\<open>verl/base_config.py\<close>, \<open>verl/utils/config.py\<close>, \<open>verl/workers/config\<close>, \<open>verl/trainer/main_ppo.py\<close>,
    \<open>src/main_dapo.py\<close>): configuration objects, their validation, roles and pools.
  \<^item> \<open>MessageQueue\<close>, \<open>FullyAsync\<close>, \<open>AsyncTrainer\<close> (\<open>verl/experimental/fully_async_policy\<close>): the queue; the rollouter as a step
    relation on all its coroutines, with an executable scheduler (\<open>perform\<close>, \<open>schedule\<close>) whose runs are runs of the relation
    and serve as examples; failing generations and a failing feeder; the schedule of the trainer, its checkpoints, and resuming.
    Four conditions are kept by the steps: \<open>bounded\<close> (samples in flight), \<open>placed\<close> and \<open>fed\<close> (where every sample is), and
    \<open>supplied\<close> (a paused rollouter leaves the trainer something to collect).
  \<^item> \<open>WeightTransfer\<close> (\<open>bucketed_weight_transfer.py\<close>): weights packed into buckets arrive.

  \<^bold>\<open>Generation.\<close>
  \<^item> \<open>LoadBalancer\<close> (\<open>verl/workers/rollout/llm_server.py\<close>, \<open>replica.py\<close>): counters and sticky routing over an interface
    \<open>routing_cache\<close>, which the LRU cache of the code provides (\<open>lru\<close>); generation resumed after an abort, with fuel for
    the attempts.
  \<^item> \<open>ToolCalls\<close>, \<open>AgentLoop\<close>, \<open>AgentBatch\<close> (\<open>verl/experimental/agent_loop\<close>): parsers and calls of tools, the state machine
    of an agent, and the assembly of its outputs. The loop takes fuel; twice the response length and two steps are enough, because every
    second step spends budget, which is proved.

  \<^bold>\<open>Not modelled.\<close>
  \<^item> What runs on GPUs or in libraries: models, kernels, quantisation, sharding, the engines' forward and backward passes, inference
    servers, checkpoint engines, optimizers; vendored copies of torch.
  \<^item> Input and output: data sets, loggers, profilers, file systems, the reading and writing of checkpoints (the recipe's
    clean-up is modelled).
  \<^item> The recipe on the transfer queue and the trainer of \<open>main_ppo_sync.py\<close>: their batches live in a store that is a library
    outside \<open>src\<close>, and most of their steps are remote calls of it.
  \<^item> Supervised fine-tuning, distillation losses, one-step-off training, graders of other data sets, older multi-turn
    rollouts and concrete tools, which the recipe does not use.
  \<^item> In modelled files: timing, printing, the wiring of remote workers. In \<open>FullyAsync\<close> what a generation computes and when
    coroutines run are left open, so every interleaving is covered. In \<open>WeightTransfer\<close> sockets and shared memory are left out: the two
    sides work in lock step.
\<close>

end
